(* ===== verification/Prelude.thy ===== *)
theory Prelude
  imports Main
    "HOL-Library.AList"
    "HOL-Library.Char_ord"
    "HOL-Library.List_Lexorder"
    "HOL-Library.Product_Lexorder"
    "HOL-Library.Multiset"
begin

text \<open>
  What the components share: the exceptions the modelled Python code raises, the bind of
  the error monad \<open>exn + 'a\<close>, Python dictionaries as association lists that keep the
  insertion order, \<open>sorted\<close> and \<open>max\<close>.
\<close>

section \<open>Hint collections\<close>

named_theorems dict_simps \<open>rewriting of dictionary updates and lookups\<close>
named_theorems const_defs \<open>definitions of the string constants of the source\<close>

section \<open>Exceptions and the error monad\<close>

text \<open>
  One constructor per exception class that the modelled code raises, catches or lets
  escape. The subclasses \<open>UnicodeDecodeError\<close>, \<open>UnicodeEncodeError\<close>,
  \<open>json.JSONDecodeError\<close> and \<open>binascii.Error\<close> of \<open>ValueError\<close> are \<open>ValueError\<close>; \<open>SimulationError\<close> is
  kept apart because a handler catches it alone.
\<close>

datatype exn =
    ValueError
  | KeyError
  | TypeError
  | AttributeError
  | RuntimeError
  | RecursionError
  | OverflowError
  | AssertionError
  | InvalidSignature
  | UnsupportedAlgorithm
  | CalledProcessError
  | SystemExit
  | StopIteration
  | SimulationError

fun bindE :: "exn + 'a \<Rightarrow> ('a \<Rightarrow> exn + 'b) \<Rightarrow> exn + 'b" where
  "bindE (Inl e) f = Inl e"
| "bindE (Inr x) f = f x"

lemma bindE_Inr_iff: "bindE m f = Inr y \<longleftrightarrow> (\<exists>x. m = Inr x \<and> f x = Inr y)"
  by (cases m) auto

lemma bindE_Inl_iff:
  "bindE m f = Inl e \<longleftrightarrow> m = Inl e \<or> (\<exists>x. m = Inr x \<and> f x = Inl e)"
  by (cases m) auto

lemma bindE_assoc: "bindE (bindE m f) g = bindE m (\<lambda>x. bindE (f x) g)"
  by (cases m) auto

lemma bindE_Inr [simp]: "bindE m Inr = m"
  by (cases m) auto

lemma bindE_cong [fundef_cong]:
  assumes "m = m'" and "\<And>x. m' = Inr x \<Longrightarrow> f x = f' x"
  shows "bindE m f = bindE m' f'"
  using assms by (cases m') auto

text \<open>\<open>okE P m\<close>: the computation \<open>m\<close> returns, and its value satisfies \<open>P\<close>.\<close>

fun okE :: "('a \<Rightarrow> bool) \<Rightarrow> exn + 'a \<Rightarrow> bool" where
  "okE P (Inl e) = False"
| "okE P (Inr x) = P x"

lemma okE_iff: "okE P m \<longleftrightarrow> (\<exists>x. m = Inr x \<and> P x)"
  by (cases m) auto

lemma okE_bindE: "okE P (bindE m f) = okE (\<lambda>x. okE P (f x)) m"
  by (cases m) auto

lemma okE_if: "okE P (if b then m else m') \<longleftrightarrow> b \<and> okE P m \<or> \<not> b \<and> okE P m'"
  by simp

lemmas okE_simps = okE_bindE okE_if okE.simps

text \<open>\<open>retE P m\<close>: whatever the computation \<open>m\<close> returns satisfies \<open>P\<close>.\<close>

definition retE :: "('a \<Rightarrow> bool) \<Rightarrow> exn + 'a \<Rightarrow> bool" where
  "retE P m \<longleftrightarrow> (\<forall>x. m = Inr x \<longrightarrow> P x)"

lemma retE_D: "retE P m \<Longrightarrow> m = Inr x \<Longrightarrow> P x"
  by (simp add: retE_def)

lemma retE_bind: "(\<And>x. m = Inr x \<Longrightarrow> retE P (f x)) \<Longrightarrow> retE P (bindE m f)"
  by (auto simp: retE_def bindE_Inr_iff)

lemma retE_if: "(b \<Longrightarrow> retE P m) \<Longrightarrow> (\<not> b \<Longrightarrow> retE P m') \<Longrightarrow> retE P (if b then m else m')"
  by simp

lemma retE_Inl: "retE P (Inl e)"
  by (simp add: retE_def)

lemma retE_Inr: "P x \<Longrightarrow> retE P (Inr x)"
  by (simp add: retE_def)

lemmas retE_intros = retE_bind retE_if retE_Inl retE_Inr

section \<open>Dictionaries\<close>

text \<open>
  A Python dictionary keeps its keys in the order of their first insertion; assigning to a
  key that is present keeps its place. \<^const>\<open>AList.update\<close> does exactly this.
\<close>

type_synonym ('k, 'v) dict = "('k \<times> 'v) list"

abbreviation dict_ok :: "('k, 'v) dict \<Rightarrow> bool" where
  "dict_ok d \<equiv> distinct (map fst d)"

abbreviation put :: "'k \<Rightarrow> 'v \<Rightarrow> ('k, 'v) dict \<Rightarrow> ('k, 'v) dict" where
  "put \<equiv> AList.update"

lemma map_of_put [simp, dict_simps]: "map_of (put k v d) = (map_of d)(k \<mapsto> v)"
  by (rule AList.update_conv')

lemma dict_ok_put [intro, simp]: "dict_ok d \<Longrightarrow> dict_ok (put k v d)"
  by (rule AList.distinct_update)

lemma put_fresh [dict_simps]: "map_of d k = None \<Longrightarrow> put k v d = d @ [(k, v)]"
  by (induction d) (auto split: if_splits)

lemma keys_put: "fst ` set (put k v d) = insert k (fst ` set d)"
  by (induction d) auto

lemma map_of_in_dict: "dict_ok d \<Longrightarrow> map_of d k = Some v \<longleftrightarrow> (k, v) \<in> set d"
  by simp

lemma set_dict_eq_graph: "dict_ok d \<Longrightarrow> set d = {(k, v). map_of d k = Some v}"
  by auto

lemma dict_set_eqI:
  assumes "dict_ok d" "dict_ok e" "map_of d = map_of e"
  shows "set d = set e"
  unfolding set_dict_eq_graph [OF assms(1)] set_dict_eq_graph [OF assms(2)] assms(3) ..

lemma dict_mset_eqI:
  assumes "dict_ok d" "dict_ok e" "map_of d = map_of e"
  shows "mset d = mset e"
proof -
  have "distinct d" "distinct e"
    using assms by (auto simp: distinct_map)
  with dict_set_eqI [OF assms] show ?thesis by (simp add: set_eq_iff_mset_eq_distinct)
qed

lemma dict_perm:
  assumes "mset d = mset e" "dict_ok d"
  shows "dict_ok e" "map_of d = map_of e"
proof -
  from assms(1) have "mset (map fst d) = mset (map fst e)" by (metis mset_map)
  with assms(2) show ok: "dict_ok e" using mset_eq_imp_distinct_iff by blast
  from assms(1) have "set d = set e" by (rule mset_eq_setD)
  with assms(2) ok show "map_of d = map_of e" by (simp add: map_of_inject_set)
qed

lemma mset_put_new:
  assumes "map_of d k = None"
  shows "mset (put k v d) = add_mset (k, v) (mset d)"
  using assms by (simp add: put_fresh)

lemma set_put:
  assumes "dict_ok d"
  shows "set (put k v d) = insert (k, v) {p \<in> set d. fst p \<noteq> k}"
proof -
  have "set (put k v d) = {(k', v'). map_of (put k v d) k' = Some v'}"
    using assms by (intro set_dict_eq_graph) simp
  also have "\<dots> = insert (k, v) {p \<in> {(k', v'). map_of d k' = Some v'}. fst p \<noteq> k}"
    by (auto split: if_splits)
  finally show ?thesis using set_dict_eq_graph [OF assms] by simp
qed

lemma option_eqI: "(\<And>v. m = Some v \<longleftrightarrow> n = Some v) \<Longrightarrow> m = n"
  by (metis not_Some_eq)

section \<open>Sorting and maxima\<close>

lemma sort_mset_eq: "mset xs = mset ys \<Longrightarrow> sort xs = sort ys"
  by (metis sorted_list_of_multiset_mset)

lemma sort_key_mset_eq:
  assumes "mset xs = mset ys" and "inj_on f (set xs)"
  shows "sort_key f xs = sort_key f ys"
proof (rule sort_key_inj_key_eq)
  show "mset xs = mset (sort_key f ys)" using assms(1) by simp
qed (use assms(2) in simp_all)

text \<open>
  Python's \<open>max(xs, key=f)\<close> and the loops \<open>if cur is None or f(x) > f(cur): cur = x\<close>
  keep the first element of greatest key.
\<close>

fun max_from :: "('a \<Rightarrow> 'r::linorder) \<Rightarrow> 'a \<Rightarrow> 'a list \<Rightarrow> 'a" where
  "max_from f c [] = c"
| "max_from f c (x # xs) = max_from f (if f c < f x then x else c) xs"

lemma max_from_in: "max_from f c xs \<in> insert c (set xs)"
proof (induction xs arbitrary: c)
  case (Cons x xs)
  show ?case using Cons [of "if f c < f x then x else c"] by auto
qed simp

lemma max_from_ge: "x \<in> insert c (set xs) \<Longrightarrow> f x \<le> f (max_from f c xs)"
proof (induction xs arbitrary: c x)
  case (Cons y xs)
  let ?c = "if f c < f y then y else c"
  have "f c \<le> f ?c" "f y \<le> f ?c" by auto
  moreover have "f ?c \<le> f (max_from f ?c xs)" by (rule Cons.IH) simp
  ultimately show ?case using Cons by (auto intro: order_trans)
qed simp

lemma max_from_unique:
  assumes "inj_on f (insert c (set xs))" "x \<in> insert c (set xs)"
    and "\<And>y. y \<in> insert c (set xs) \<Longrightarrow> f y \<le> f x"
  shows "max_from f c xs = x"
proof -
  have "f (max_from f c xs) = f x"
    using assms(2,3) max_from_in [of f c xs] max_from_ge [of x c xs f] by (meson order_antisym)
  then show ?thesis using assms(1,2) max_from_in [of f c xs] by (meson inj_onD)
qed

end
