(* ===== verification/Text.thy ===== *)
theory Text
  imports Prelude
begin

text \<open>
  Python strings. A \<open>str\<close> is represented by its UTF-8 encoding, one \<^typ>\<open>char\<close> per byte, and
  \<open>bytes\<close> are \<^typ>\<open>char\<close> lists as well: \<open>s.encode("utf-8")\<close> is then the identity,
  \<open>b.decode("utf-8")\<close> is the validity check \<open>utf8_decode\<close>, and the order of code points is the
  order of the byte sequences. Here: decimal and hexadecimal digits, the decoding of one
  code point, \<open>strip\<close>, \<open>lower\<close> and the substring test, with their round trips.
\<close>

type_synonym bytes = "char list"

abbreviation ord :: "char \<Rightarrow> nat" where
  "ord c \<equiv> of_char c"

abbreviation chr :: "nat \<Rightarrow> char" where
  "chr n \<equiv> char_of n"

lemma ord_less [simp]: "ord c < 256"
  using nat_of_char_less_256 by blast

lemma ord_chr [simp]: "n < 256 \<Longrightarrow> ord (chr n) = n"
  by simp

lemma ord_eq_iff: "ord c = ord d \<longleftrightarrow> c = d"
  by simp

section \<open>Decimal numbers\<close>

definition digit :: "nat \<Rightarrow> char" where
  "digit n = chr (48 + n)"

definition is_digit :: "char \<Rightarrow> bool" where
  "is_digit c \<longleftrightarrow> 48 \<le> ord c \<and> ord c \<le> 57"

definition digit_val :: "char \<Rightarrow> nat" where
  "digit_val c = ord c - 48"

lemma ord_digit [simp]: "n < 10 \<Longrightarrow> ord (digit n) = 48 + n"
  by (simp add: digit_def)

lemma is_digit_digit [simp]: "n < 10 \<Longrightarrow> is_digit (digit n)"
  by (simp add: is_digit_def)

lemma digit_val_digit [simp]: "n < 10 \<Longrightarrow> digit_val (digit n) = n"
  by (simp add: digit_val_def)

lemma digit_0 [simp]: "digit 0 = CHR ''0''"
  by (rule ord_eq_iff [THEN iffD1]) simp

lemma digit_val_less: "is_digit c \<Longrightarrow> digit_val c < 10"
  by (auto simp: is_digit_def digit_val_def)

fun nat_str :: "nat \<Rightarrow> string" where
  "nat_str n = (if n < 10 then [digit n] else nat_str (n div 10) @ [digit (n mod 10)])"

declare nat_str.simps [simp del]

definition int_str :: "int \<Rightarrow> string" where
  "int_str i = (if i < 0 then ''-'' @ nat_str (nat (- i)) else nat_str (nat i))"

definition str_nat :: "string \<Rightarrow> nat" where
  "str_nat s = foldl (\<lambda>a c. 10 * a + digit_val c) 0 s"

lemma nat_str_digits: "c \<in> set (nat_str n) \<Longrightarrow> is_digit c"
proof (induction n rule: nat_str.induct)
  case (1 n)
  then show ?case by (cases "n < 10") (auto simp: nat_str.simps [of n])
qed

lemma nat_str_not_Nil [simp]: "nat_str n \<noteq> []"
  by (subst nat_str.simps) simp

lemma str_nat_nat_str [simp]: "str_nat (nat_str n) = n"
proof (induction n rule: nat_str.induct)
  case (1 n)
  then show ?case by (cases "n < 10") (auto simp: nat_str.simps [of n] str_nat_def)
qed

lemma nat_str_inj [simp]: "nat_str m = nat_str n \<longleftrightarrow> m = n"
  by (metis str_nat_nat_str)

lemma nat_str_leading_zero: "hd (nat_str n) = digit 0 \<Longrightarrow> n = 0"
proof (induction n rule: nat_str.induct)
  case (1 n)
  show ?case
  proof (cases "n < 10")
    case True
    with "1.prems" have "ord (digit n) = ord (digit 0)" by (simp add: nat_str.simps [of n])
    with True show ?thesis by simp
  next
    case False
    with 1 show ?thesis by (auto simp: nat_str.simps [of n])
  qed
qed

definition pad2 :: "nat \<Rightarrow> string" where
  "pad2 n = [digit (n div 10 mod 10), digit (n mod 10)]"

definition pad4 :: "nat \<Rightarrow> string" where
  "pad4 n = pad2 (n div 100) @ pad2 (n mod 100)"

lemma str_nat_pad2 [simp]: "n < 100 \<Longrightarrow> str_nat (pad2 n) = n"
  by (simp add: pad2_def str_nat_def)

lemma pad_digits: "c \<in> set (pad2 n) \<Longrightarrow> is_digit c" "c \<in> set (pad4 n) \<Longrightarrow> is_digit c"
  by (auto simp: pad2_def pad4_def)

lemma length_pad [simp]: "length (pad2 n) = 2" "length (pad4 n) = 4"
  by (simp_all add: pad2_def pad4_def)

lemma digits4_arith:
  fixes n :: nat
  assumes "n = k * k * q + r" "q = k * q1 + q0" "r = k * r1 + r0"
  shows "k * (k * (k * q1 + q0) + r1) + r0 = n"
  using assms by (simp add: algebra_simps)

lemma digits4_chain:
  fixes n :: nat
  assumes "n = k * a + r0" "a = k * b + r1" "b = k * c + r2"
  shows "k * (k * (k * c + r2) + r1) + r0 = n"
  using assms by simp

lemma str_nat_pad4 [simp]: "n < 10000 \<Longrightarrow> str_nat (pad4 n) = n"
proof -
  assume n: "n < 10000"
  define q r where "q = n div 100" and "r = n mod 100"
  have less: "q < 100" "r < 100" using n by (auto simp: q_def r_def)
  have "n = 10 * 10 * q + r" by (simp add: q_def r_def)
  moreover have "q = 10 * (q div 10) + q mod 10" "r = 10 * (r div 10) + r mod 10" by simp_all
  ultimately have "10 * (10 * (10 * (q div 10) + q mod 10) + r div 10) + r mod 10 = n"
    by (rule digits4_arith)
  moreover have "q div 10 mod 10 = q div 10" "r div 10 mod 10 = r div 10" using less by auto
  ultimately show ?thesis
    unfolding pad4_def pad2_def str_nat_def q_def [symmetric] r_def [symmetric] by simp
qed

section \<open>Hexadecimal digits\<close>

definition hex_char :: "nat \<Rightarrow> char" where
  "hex_char n = (if n < 10 then chr (48 + n) else chr (87 + n))"

definition hex_val :: "char \<Rightarrow> nat option" where
  "hex_val c =
     (if 48 \<le> ord c \<and> ord c \<le> 57 then Some (ord c - 48)
      else if 97 \<le> ord c \<and> ord c \<le> 102 then Some (ord c - 87)
      else if 65 \<le> ord c \<and> ord c \<le> 70 then Some (ord c - 55)
      else None)"

lemma hex_val_hex_char [simp]: "n < 16 \<Longrightarrow> hex_val (hex_char n) = Some n"
  by (auto simp: hex_val_def hex_char_def)

lemma hex_val_less: "hex_val c = Some n \<Longrightarrow> n < 16"
  by (auto simp: hex_val_def split: if_splits)

definition hex4 :: "nat \<Rightarrow> string" where
  "hex4 n = [hex_char (n div 4096 mod 16), hex_char (n div 256 mod 16),
             hex_char (n div 16 mod 16), hex_char (n mod 16)]"

definition hex4_val :: "char \<Rightarrow> char \<Rightarrow> char \<Rightarrow> char \<Rightarrow> nat option" where
  "hex4_val a b c d =
     (case (hex_val a, hex_val b, hex_val c, hex_val d) of
        (Some w, Some x, Some y, Some z) \<Rightarrow> Some (4096 * w + 256 * x + 16 * y + z)
      | _ \<Rightarrow> None)"

lemma hex4_horner: "4096 * w + 256 * x + 16 * y + z = 16 * (16 * (16 * w + x) + y) + (z :: nat)"
  by simp

lemma hex4_round:
  assumes "n < 65536"
  shows "hex4_val (hex_char (n div 4096 mod 16)) (hex_char (n div 256 mod 16))
           (hex_char (n div 16 mod 16)) (hex_char (n mod 16)) = Some n"
proof -
  define a where "a = n div 16"
  define b where "b = a div 16"
  have eqs: "n div 256 = b" "n div 4096 = b div 16"
    by (simp_all add: a_def b_def flip: div_mult2_eq)
  have "16 * (16 * (16 * (b div 16) + b mod 16) + a mod 16) + n mod 16 = n"
    by (rule digits4_chain [of _ _ a _ b]) (simp_all add: a_def b_def)
  moreover have "b div 16 mod 16 = b div 16" using assms by (simp add: a_def b_def)
  ultimately have "4096 * (b div 16 mod 16) + 256 * (b mod 16) + 16 * (a mod 16) + n mod 16 = n"
    by (simp only: hex4_horner)
  then show ?thesis by (simp only: hex4_val_def eqs a_def [symmetric]) simp
qed

section \<open>UTF-8\<close>

definition cont :: "char \<Rightarrow> bool" where
  "cont c \<longleftrightarrow> 128 \<le> ord c \<and> ord c < 192"

text \<open>
  One code point of a UTF-8 byte sequence, as the strict decoder reads it: overlong forms,
  surrogates and values above \<open>0x10FFFF\<close> are refused.
\<close>

definition utf8_next :: "string \<Rightarrow> (nat \<times> string) option" where
  "utf8_next s =
     (case s of [] \<Rightarrow> None
      | a # r \<Rightarrow>
        if ord a < 128 then Some (ord a, r)
        else if ord a < 194 then None
        else if ord a < 224 then
          (case r of b # r' \<Rightarrow>
             if cont b then Some (64 * (ord a - 192) + (ord b - 128), r') else None
           | _ \<Rightarrow> None)
        else if ord a < 240 then
          (case r of b # c # r' \<Rightarrow>
             let cp = 64 * (64 * (ord a - 224) + (ord b - 128)) + (ord c - 128)
             in if cont b \<and> cont c \<and> 2048 \<le> cp \<and> \<not> (55296 \<le> cp \<and> cp < 57344)
                then Some (cp, r') else None
           | _ \<Rightarrow> None)
        else if ord a < 245 then
          (case r of b # c # d # r' \<Rightarrow>
             let cp = 64 * (64 * (64 * (ord a - 240) + (ord b - 128)) + (ord c - 128)) + (ord d - 128)
             in if cont b \<and> cont c \<and> cont d \<and> 65536 \<le> cp \<and> cp < 1114112
                then Some (cp, r') else None
           | _ \<Rightarrow> None)
        else None)"

definition utf8_enc :: "nat \<Rightarrow> string" where
  "utf8_enc cp =
     (if cp < 128 then [chr cp]
      else if cp < 2048 then [chr (192 + cp div 64), chr (128 + cp mod 64)]
      else if cp < 65536 then
        [chr (224 + cp div 64 div 64), chr (128 + cp div 64 mod 64), chr (128 + cp mod 64)]
      else [chr (240 + cp div 64 div 64 div 64), chr (128 + cp div 64 div 64 mod 64),
            chr (128 + cp div 64 mod 64), chr (128 + cp mod 64)])"

lemma horner64: "k < 64 \<Longrightarrow> (64 * m + k) div 64 = m" "k < 64 \<Longrightarrow> (64 * m + k) mod 64 = (k::nat)"
  by simp_all

lemma chr_eqI: "ord c = n \<Longrightarrow> chr n = c"
  by auto

lemma utf8_enc2:
  assumes "i < 32" "2 \<le> i" "k < 64"
  shows "utf8_enc (64 * i + k) = [chr (192 + i), chr (128 + k)]"
  using assms by (simp add: utf8_enc_def horner64)

lemma utf8_enc3:
  assumes "i < 16" "j < 64" "k < 64" "2048 \<le> 64 * (64 * i + j) + k"
  shows "utf8_enc (64 * (64 * i + j) + k) = [chr (224 + i), chr (128 + j), chr (128 + k)]"
  using assms unfolding utf8_enc_def by (simp only: horner64) simp

lemma utf8_enc4:
  assumes "h < 8" "i < 64" "j < 64" "k < 64" "65536 \<le> 64 * (64 * (64 * h + i) + j) + k"
  shows "utf8_enc (64 * (64 * (64 * h + i) + j) + k) =
    [chr (240 + h), chr (128 + i), chr (128 + j), chr (128 + k)]"
  using assms unfolding utf8_enc_def by (simp only: horner64) simp

lemma utf8_next_enc: "utf8_next s = Some (cp, r) \<Longrightarrow> s = utf8_enc cp @ r"
proof -
  assume next1: "utf8_next s = Some (cp, r)"
  then obtain a t where s: "s = a # t" by (auto simp: utf8_next_def split: list.splits)
  have c: "\<exists>k<64. ord b = 128 + k \<and> b = chr (128 + k)" if "cont b" for b
    using that by (intro exI [of _ "ord b - 128"]) (auto simp: cont_def)
  show ?thesis
  proof (cases "ord a < 128")
    case True
    with next1 s show ?thesis by (auto simp: utf8_next_def utf8_enc_def)
  next
    case ge: False
    have a: "a = chr (ord a)" by simp
    consider "194 \<le> ord a" "ord a < 224" | "224 \<le> ord a" "ord a < 240" | "240 \<le> ord a" "ord a < 245"
      using next1 s ge by (auto simp: utf8_next_def split: if_splits)
    then show ?thesis
    proof cases
      case 1
      define i where "i = ord a - 192"
      with 1 have i: "ord a = 192 + i" "2 \<le> i" "i < 32" by auto
      from next1 s ge 1 obtain b where "t = b # r" "cont b" "cp = 64 * (ord a - 192) + (ord b - 128)"
        by (auto simp: utf8_next_def split: if_splits list.splits)
      with c [of b] i a show ?thesis by (auto simp: s utf8_enc2)
    next
      case 2
      define i where "i = ord a - 224"
      with 2 have i: "ord a = 224 + i" "i < 16" by auto
      from next1 s ge 2 obtain b d where "t = b # d # r" "cont b" "cont d"
        "cp = 64 * (64 * (ord a - 224) + (ord b - 128)) + (ord d - 128)" "2048 \<le> cp"
        by (auto simp: utf8_next_def Let_def split: if_splits list.splits)
      moreover obtain k where "k < 64" "ord b = 128 + k" "b = chr (128 + k)"
        using c \<open>cont b\<close> by blast
      moreover obtain l where "l < 64" "ord d = 128 + l" "d = chr (128 + l)"
        using c \<open>cont d\<close> by blast
      ultimately show ?thesis using utf8_enc3 [of i k l] i a by (simp add: s)
    next
      case 3
      define i where "i = ord a - 240"
      with 3 have i: "ord a = 240 + i" "i < 8" by auto
      from next1 s ge 3 obtain b d e where "t = b # d # e # r" "cont b" "cont d" "cont e"
        "cp = 64 * (64 * (64 * (ord a - 240) + (ord b - 128)) + (ord d - 128)) + (ord e - 128)"
        "65536 \<le> cp"
        by (auto simp: utf8_next_def Let_def split: if_splits list.splits)
      moreover obtain k where "k < 64" "ord b = 128 + k" "b = chr (128 + k)"
        using c \<open>cont b\<close> by blast
      moreover obtain l where "l < 64" "ord d = 128 + l" "d = chr (128 + l)"
        using c \<open>cont d\<close> by blast
      moreover obtain m where "m < 64" "ord e = 128 + m" "e = chr (128 + m)"
        using c \<open>cont e\<close> by blast
      ultimately show ?thesis using utf8_enc4 [of i k l m] i a by (simp add: s)
    qed
  qed
qed

lemma utf8_next_length: "utf8_next s = Some (cp, r) \<Longrightarrow> length r < length s"
  by (auto simp: utf8_next_def Let_def split: list.splits if_splits)

lemma cp3_bound: "i < 16 \<Longrightarrow> j < 64 \<Longrightarrow> k < 64 \<Longrightarrow> 64 * (64 * i + j) + k < (1114112 :: nat)"
  by simp

lemma utf8_next_scalar:
  assumes "utf8_next s = Some (cp, r)"
  shows "cp < 1114112 \<and> \<not> (55296 \<le> cp \<and> cp < 57344)"
proof -
  from assms obtain a t where s: "s = a # t" by (auto simp: utf8_next_def split: list.splits)
  have low: "ord b - 128 < 64" if "cont b" for b using that by (auto simp: cont_def)
  consider "ord a < 128" | "194 \<le> ord a" "ord a < 224" | "224 \<le> ord a" "ord a < 240"
    | "240 \<le> ord a" "ord a < 245"
    using assms s by (auto simp: utf8_next_def split: if_splits)
  then show ?thesis
  proof cases
    case 1
    with assms s show ?thesis by (simp add: utf8_next_def)
  next
    case 2
    with assms s obtain b where "cp = 64 * (ord a - 192) + (ord b - 128)" "cont b"
      by (auto simp: utf8_next_def split: if_splits list.splits)
    with 2 low [of b] show ?thesis by linarith
  next
    case 3
    with assms s obtain b c where "cp = 64 * (64 * (ord a - 224) + (ord b - 128)) + (ord c - 128)"
      "cont b" "cont c" "\<not> (55296 \<le> cp \<and> cp < 57344)"
      by (auto simp: utf8_next_def Let_def split: if_splits list.splits)
    moreover have "ord a - 224 < 16" using 3 by linarith
    moreover have "ord b - 128 < 64" "ord c - 128 < 64"
      using low \<open>cont b\<close> \<open>cont c\<close> by blast+
    ultimately have "cp < 1114112" by (simp only: cp3_bound)
    with \<open>\<not> (55296 \<le> cp \<and> cp < 57344)\<close> show ?thesis by blast
  next
    case 4
    with assms s show ?thesis
      by (auto simp: utf8_next_def Let_def split: if_splits list.splits)
  qed
qed

lemmas utf8_next_bound = utf8_next_scalar [THEN conjunct1]
lemmas utf8_next_not_surrogate = utf8_next_scalar [THEN conjunct2]

lemma utf8_next_ascii [simp]: "ord c < 128 \<Longrightarrow> utf8_next (c # s) = Some (ord c, s)"
  by (simp add: utf8_next_def)

function utf8_valid :: "bytes \<Rightarrow> bool" where
  "utf8_valid s \<longleftrightarrow> s = [] \<or> (case utf8_next s of None \<Rightarrow> False | Some (cp, r) \<Rightarrow> utf8_valid r)"
  by pat_completeness auto
termination by (relation "measure length") (auto dest: utf8_next_length)

declare utf8_valid.simps [simp del]

lemma utf8_valid_Nil [simp]: "utf8_valid []"
  by (simp add: utf8_valid.simps)

lemma utf8_valid_ascii_Cons [simp]: "ord c < 128 \<Longrightarrow> utf8_valid (c # s) = utf8_valid s"
  by (simp add: utf8_valid.simps [of "c # s"])

definition utf8_decode :: "bytes \<Rightarrow> exn + string" where
  "utf8_decode b = (if utf8_valid b then Inr b else Inl ValueError)"

definition is_ascii :: "string \<Rightarrow> bool" where
  "is_ascii s \<longleftrightarrow> (\<forall>c \<in> set s. ord c < 128)"

lemma is_ascii_simps [simp]:
  "is_ascii []" "is_ascii (c # s) \<longleftrightarrow> ord c < 128 \<and> is_ascii s"
  "is_ascii (s @ t) \<longleftrightarrow> is_ascii s \<and> is_ascii t"
  by (auto simp: is_ascii_def)

lemma ascii_utf8_valid: "is_ascii s \<Longrightarrow> utf8_valid s"
  by (induction s) auto

text \<open>The four shapes of an encoded code point.\<close>

inductive chunk :: "nat \<Rightarrow> string \<Rightarrow> bool" where
  one: "ord a < 128 \<Longrightarrow> chunk (ord a) [a]"
| two: "194 \<le> ord a \<Longrightarrow> ord a < 224 \<Longrightarrow> cont b \<Longrightarrow>
    chunk (64 * (ord a - 192) + (ord b - 128)) [a, b]"
| three: "224 \<le> ord a \<Longrightarrow> ord a < 240 \<Longrightarrow> cont b \<Longrightarrow> cont c \<Longrightarrow>
    cp = 64 * (64 * (ord a - 224) + (ord b - 128)) + (ord c - 128) \<Longrightarrow>
    2048 \<le> cp \<Longrightarrow> \<not> (55296 \<le> cp \<and> cp < 57344) \<Longrightarrow> chunk cp [a, b, c]"
| four: "240 \<le> ord a \<Longrightarrow> ord a < 245 \<Longrightarrow> cont b \<Longrightarrow> cont c \<Longrightarrow> cont d \<Longrightarrow>
    cp = 64 * (64 * (64 * (ord a - 240) + (ord b - 128)) + (ord c - 128)) + (ord d - 128) \<Longrightarrow>
    65536 \<le> cp \<Longrightarrow> cp < 1114112 \<Longrightarrow> chunk cp [a, b, c, d]"

lemma chunk_next: "chunk n c \<Longrightarrow> utf8_next (c @ r) = Some (n, r)"
  by (induction rule: chunk.induct) (simp_all add: utf8_next_def Let_def)

lemma next_chunk:
  assumes "utf8_next s = Some (n, r)"
  shows "\<exists>c. chunk n c \<and> s = c @ r"
proof -
  from assms obtain a t where s: "s = a # t" by (auto simp: utf8_next_def split: list.splits)
  consider "ord a < 128" | "194 \<le> ord a" "ord a < 224" | "224 \<le> ord a" "ord a < 240"
    | "240 \<le> ord a" "ord a < 245"
    using assms s by (auto simp: utf8_next_def split: if_splits)
  then show ?thesis
  proof cases
    case 1
    with assms s chunk.one [of a] show ?thesis by (auto simp: utf8_next_def)
  next
    case 2
    with assms s obtain b where "t = b # r" "cont b" "n = 64 * (ord a - 192) + (ord b - 128)"
      by (auto simp: utf8_next_def split: if_splits list.splits)
    with s chunk.two [of a b] 2 show ?thesis by (intro exI [of _ "[a, b]"]) simp
  next
    case 3
    with assms s obtain b c where "t = b # c # r" and n: "cont b" "cont c"
      "n = 64 * (64 * (ord a - 224) + (ord b - 128)) + (ord c - 128)" "2048 \<le> n"
      "\<not> (55296 \<le> n \<and> n < 57344)"
      by (auto simp: utf8_next_def Let_def split: if_splits list.splits)
    with s chunk.three [OF 3 n] show ?thesis by (intro exI [of _ "[a, b, c]"]) simp
  next
    case 4
    with assms s obtain b c d where "t = b # c # d # r" and n: "cont b" "cont c" "cont d"
      "n = 64 * (64 * (64 * (ord a - 240) + (ord b - 128)) + (ord c - 128)) + (ord d - 128)"
      "65536 \<le> n" "n < 1114112"
      by (auto simp: utf8_next_def Let_def split: if_splits list.splits)
    with s chunk.four [OF 4 n] show ?thesis by (intro exI [of _ "[a, b, c, d]"]) simp
  qed
qed

lemma utf8_next_append: "utf8_next s = Some (n, r) \<Longrightarrow> utf8_next (s @ t) = Some (n, r @ t)"
  by (auto dest!: next_chunk simp: chunk_next)

lemma utf8_next_enc_append: "utf8_next s = Some (n, r) \<Longrightarrow> utf8_next (utf8_enc n @ t) = Some (n, t)"
proof -
  assume *: "utf8_next s = Some (n, r)"
  then have "s = utf8_enc n @ r" by (rule utf8_next_enc)
  with * show ?thesis by (auto dest!: next_chunk simp: chunk_next)
qed

lemma utf8_valid_step: "utf8_next s = Some (n, r) \<Longrightarrow> utf8_valid s = utf8_valid r"
  by (auto simp: utf8_valid.simps [of s] utf8_next_def)

lemma utf8_valid_induct [consumes 1, case_names Nil chunk]:
  assumes "utf8_valid s"
    and "P []"
    and "\<And>s n r. utf8_next s = Some (n, r) \<Longrightarrow> utf8_valid r \<Longrightarrow> P r \<Longrightarrow> P s"
  shows "P s"
  using assms(1)
proof (induction "length s" arbitrary: s rule: less_induct)
  case less
  show ?case
  proof (cases "s = []")
    case False
    with less.prems obtain n r where "utf8_next s = Some (n, r)" "utf8_valid r"
      by (auto simp: utf8_valid.simps [of s] split: option.splits)
    then show ?thesis using less.hyps utf8_next_length by (blast intro: assms(3))
  qed (simp add: assms(2))
qed

lemma utf8_valid_append: "utf8_valid s \<Longrightarrow> utf8_valid t \<Longrightarrow> utf8_valid (s @ t)"
  by (induction s rule: utf8_valid_induct) (simp_all add: utf8_valid_step [OF utf8_next_append])

lemma utf8_valid_concat: "(\<And>x. x \<in> set xs \<Longrightarrow> utf8_valid x) \<Longrightarrow> utf8_valid (concat xs)"
  by (induction xs) (simp_all add: utf8_valid_append)

section \<open>strip, lower, substring\<close>

text \<open>
  The UTF-8 sequences of the code points that \<open>str.isspace\<close> accepts; none of them is a
  proper suffix or prefix of another.
\<close>

definition spaces :: "string list" where
  "spaces = map (\<lambda>n. [chr n]) ([9, 10, 11, 12, 13] @ [28, 29, 30, 31, 32])
     @ map utf8_enc ([133, 160, 5760] @ [8192..<8203] @ [8232, 8233, 8239, 8287, 12288])"

definition drop_space :: "string list \<Rightarrow> string \<Rightarrow> string option" where
  "drop_space ws s =
     (case find (\<lambda>w. w \<noteq> [] \<and> take (length w) s = w) ws of
        None \<Rightarrow> None | Some w \<Rightarrow> Some (drop (length w) s))"

lemma drop_space_length: "drop_space ws s = Some r \<Longrightarrow> length r < length s"
  by (auto simp: drop_space_def find_Some_iff split: option.splits)
     (metis diff_less length_greater_0_conv length_take min.strict_order_iff not_less_iff_gr_or_eq
       list.size(3) take_all_iff)

function lstrip_with :: "string list \<Rightarrow> string \<Rightarrow> string" where
  "lstrip_with ws s = (case drop_space ws s of None \<Rightarrow> s | Some r \<Rightarrow> lstrip_with ws r)"
  by pat_completeness auto
termination by (relation "measure (\<lambda>(ws, s). length s)") (auto dest: drop_space_length)

declare lstrip_with.simps [simp del]

definition strip :: "string \<Rightarrow> string" where
  "strip s = rev (lstrip_with (map rev spaces) (rev (lstrip_with spaces s)))"

text \<open>A text whose first and last characters are printable ASCII is stripped already.\<close>

definition printable :: "char \<Rightarrow> bool" where
  "printable c \<longleftrightarrow> 32 < ord c \<and> ord c < 128"

lemma utf8_enc_high: "128 \<le> n \<Longrightarrow> n < 65536 \<Longrightarrow> w = utf8_enc n \<Longrightarrow> w \<noteq> [] \<and> 128 \<le> ord (hd w) \<and> 128 \<le> ord (last w)"
proof -
  assume n: "128 \<le> n" "n < 65536" and w: "w = utf8_enc n"
  have "n div 64 < 1024" "n div 64 div 64 < 16" using n(2) by simp_all
  then show ?thesis using n w by (auto simp: utf8_enc_def)
qed

lemma space_edges:
  assumes "w \<in> set spaces"
  shows "w \<noteq> [] \<and> \<not> printable (hd w) \<and> \<not> printable (last w)"
proof -
  consider n where "w = [chr n]" "n \<le> 32" | n where "w = utf8_enc n" "128 \<le> n" "n < 65536"
    using assms by (auto simp: spaces_def)
  then show ?thesis
  proof cases
    case 1
    then show ?thesis by (simp add: printable_def)
  next
    case 2
    with utf8_enc_high [OF 2(2,3,1)] show ?thesis by (simp add: printable_def)
  qed
qed

lemma lstrip_printable:
  assumes "printable c" "\<forall>w \<in> set ws. w \<noteq> [] \<longrightarrow> \<not> printable (hd w)"
  shows "lstrip_with ws (c # s) = c # s"
proof -
  have "find (\<lambda>w. w \<noteq> [] \<and> take (length w) (c # s) = w) ws = None"
    unfolding find_None_iff
  proof
    assume "\<exists>w. w \<in> set ws \<and> w \<noteq> [] \<and> take (length w) (c # s) = w"
    then obtain w where w: "w \<in> set ws" "w \<noteq> []" "take (length w) (c # s) = w" by blast
    then have "hd w = c" by (metis hd_take length_greater_0_conv list.sel(1))
    with w assms show False by blast
  qed
  then show ?thesis by (subst lstrip_with.simps) (simp add: drop_space_def)
qed

lemma strip_printable:
  assumes "s \<noteq> []" "printable (hd s)" "printable (last s)"
  shows "strip s = s"
proof -
  obtain c cs where s: "s = c # cs" using assms(1) by (cases s) auto
  have l: "lstrip_with spaces s = s"
    unfolding s by (rule lstrip_printable) (use assms(2) space_edges in \<open>auto simp: s\<close>)
  obtain d ds where r: "rev s = d # ds" using assms(1) by (cases "rev s") auto
  then have "last s = d" by (metis last_rev list.sel(1) rev_rev_ident hd_rev)
  then have "lstrip_with (map rev spaces) (rev s) = rev s"
    unfolding r by (intro lstrip_printable) (use assms(3) space_edges in \<open>auto simp: hd_rev\<close>)
  with l show ?thesis by (simp add: strip_def)
qed

text \<open>\<open>str.lower\<close> on ASCII letters; other characters are left as they are.\<close>

definition lower_char :: "char \<Rightarrow> char" where
  "lower_char c = (if 65 \<le> ord c \<and> ord c \<le> 90 then chr (ord c + 32) else c)"

definition lower :: "string \<Rightarrow> string" where
  "lower s = map lower_char s"

lemma length_lower [simp]: "length (lower s) = length s"
  by (simp add: lower_def)

lemma lower_idem [simp]: "lower (lower s) = lower s"
  by (auto simp: lower_def lower_char_def)

lemma lower_append: "lower (s @ t) = lower s @ lower t"
  by (simp add: lower_def)

text \<open>\<open>sub in s\<close> for two strings.\<close>

fun str_in :: "string \<Rightarrow> string \<Rightarrow> bool" where
  "str_in sub [] \<longleftrightarrow> sub = []"
| "str_in sub (c # s) \<longleftrightarrow> take (length sub) (c # s) = sub \<or> str_in sub s"

lemma str_in_iff: "str_in sub s \<longleftrightarrow> (\<exists>p q. s = p @ sub @ q)"
proof (induction s)
  case (Cons c s)
  have "take (length sub) (c # s) = sub \<longleftrightarrow> (\<exists>q. c # s = sub @ q)"
    by (metis append_eq_conv_conj append_take_drop_id)
  moreover have "(\<exists>p q. c # s = p @ sub @ q) \<longleftrightarrow> (\<exists>q. c # s = sub @ q) \<or> (\<exists>p q. s = p @ sub @ q)"
    by (auto simp: Cons_eq_append_conv)
  ultimately show ?case using Cons by simp
qed auto

lemma str_in_refl [simp]: "str_in s s"
  by (metis append_Nil append_Nil2 str_in_iff)

text \<open>The characters of a string, as \<open>list(s)\<close> gives them.\<close>

function chars_of :: "string \<Rightarrow> string list" where
  "chars_of s =
     (case utf8_next s of None \<Rightarrow> [] | Some (n, r) \<Rightarrow> take (length s - length r) s # chars_of r)"
  by pat_completeness auto
termination by (relation "measure length") (auto dest: utf8_next_length)

declare chars_of.simps [simp del]

text \<open>The dash of the sources' texts, in UTF-8.\<close>

definition em_dash :: string where
  "em_dash = [CHR 0xE2, CHR 0x80, CHR 0x94]"

end
