(* ===== verification/Base64.thy ===== *)
theory Base64
  imports Text
begin

text \<open>
  The standard library's \<open>base64\<close> module as the sources use it. Encoding works on groups of
  three bytes; decoding is \<open>binascii.a2b_base64\<close> in its default, non-strict mode: characters
  outside the alphabet are skipped, a complete padding ends the input, and an incomplete
  group is a \<open>binascii.Error\<close> (a \<open>ValueError\<close>). Main facts: decoding what was encoded
  gives the bytes back, for the standard and the URL-safe alphabet and for the unpadded form
  of the receipts. The interface \<open>codec\<close> states what the users of an encoding rely on.
\<close>

section \<open>What the users of an encoding rely on\<close>

locale codec =
  fixes enc :: "'a \<Rightarrow> 'b"
    and dec :: "'b \<Rightarrow> exn + 'a"
    and valid :: "'a \<Rightarrow> bool"
  assumes dec_enc: "valid x \<Longrightarrow> dec (enc x) = Inr x"
begin

lemma enc_eq_iff: "valid x \<Longrightarrow> valid y \<Longrightarrow> enc x = enc y \<longleftrightarrow> x = y"
  by (metis dec_enc sum.inject(2))

lemma enc_inj_on: "inj_on enc {x. valid x}"
  by (simp add: inj_on_def enc_eq_iff)

lemma dec_then: "valid x \<Longrightarrow> bindE (dec (enc x)) f = f x"
  by (simp add: dec_enc)

end

text \<open>One encoding applied to the result of another is an encoding again.\<close>

locale codec_pair = inner: codec enc1 dec1 valid1 + outer: codec enc2 dec2 valid2
  for enc1 :: "'a \<Rightarrow> 'b" and dec1 :: "'b \<Rightarrow> exn + 'a" and valid1 :: "'a \<Rightarrow> bool"
    and enc2 :: "'b \<Rightarrow> 'c" and dec2 :: "'c \<Rightarrow> exn + 'b" and valid2 :: "'b \<Rightarrow> bool" +
  assumes enc1_valid: "valid1 x \<Longrightarrow> valid2 (enc1 x)"
begin

lemma pair_codec: "codec (\<lambda>x. enc2 (enc1 x)) (\<lambda>y. bindE (dec2 y) dec1) valid1"
  by unfold_locales (simp add: outer.dec_enc inner.dec_enc enc1_valid)

end

section \<open>Encoding\<close>

definition b64_char :: "nat \<Rightarrow> char" where
  "b64_char n =
     (if n < 26 then chr (65 + n) else if n < 52 then chr (71 + n)
      else if n < 62 then chr (n - 4) else if n = 62 then CHR ''+'' else CHR ''/'')"

definition b64_val :: "char \<Rightarrow> nat option" where
  "b64_val c =
     (if 65 \<le> ord c \<and> ord c \<le> 90 then Some (ord c - 65)
      else if 97 \<le> ord c \<and> ord c \<le> 122 then Some (ord c - 71)
      else if 48 \<le> ord c \<and> ord c \<le> 57 then Some (ord c + 4)
      else if c = CHR ''+'' then Some 62
      else if c = CHR ''/'' then Some 63
      else None)"

fun b64encode :: "bytes \<Rightarrow> string" where
  "b64encode [] = []"
| "b64encode [a] = [b64_char (ord a div 4), b64_char (ord a mod 4 * 16), CHR ''='', CHR ''='']"
| "b64encode [a, b] =
     [b64_char (ord a div 4), b64_char (ord a mod 4 * 16 + ord b div 16),
      b64_char (ord b mod 16 * 4), CHR ''='']"
| "b64encode (a # b # c # r) =
     b64_char (ord a div 4) # b64_char (ord a mod 4 * 16 + ord b div 16)
     # b64_char (ord b mod 16 * 4 + ord c div 64) # b64_char (ord c mod 64) # b64encode r"

section \<open>Decoding\<close>

text \<open>
  The loop of \<open>binascii.a2b_base64\<close>: \<open>quad_pos\<close> is the position in the group of four,
  \<open>leftchar\<close> the bits kept from the previous character, \<open>pads\<close> the padding seen.
\<close>

fun a2b_loop :: "nat \<Rightarrow> nat \<Rightarrow> nat \<Rightarrow> bytes \<Rightarrow> string \<Rightarrow> exn + bytes" where
  "a2b_loop q left pads out [] = (if q = 0 then Inr out else Inl ValueError)"
| "a2b_loop q left pads out (c # s) =
     (if c = CHR ''='' then
        (if 2 \<le> q then
           (if 4 \<le> q + Suc pads then Inr out else a2b_loop q left (Suc pads) out s)
         else a2b_loop q left pads out s)
      else
        (case b64_val c of
           None \<Rightarrow> a2b_loop q left pads out s
         | Some v \<Rightarrow>
             if q = 0 then a2b_loop 1 v 0 out s
             else if q = 1 then a2b_loop 2 (v mod 16) 0 (out @ [chr (left * 4 + v div 16)]) s
             else if q = 2 then a2b_loop 3 (v mod 4) 0 (out @ [chr (left * 16 + v div 4)]) s
             else a2b_loop 0 0 0 (out @ [chr (left * 64 + v)]) s))"

definition b64decode :: "string \<Rightarrow> exn + bytes" where
  "b64decode s = (if is_ascii s then a2b_loop 0 0 0 [] s else Inl ValueError)"

text \<open>The URL-safe variants translate \<open>+/\<close> to \<open>-_\<close> after encoding, and back before decoding.\<close>

definition to_url :: "char \<Rightarrow> char" where
  "to_url c = (if c = CHR ''+'' then CHR ''-'' else if c = CHR ''/'' then CHR ''_'' else c)"

definition from_url :: "char \<Rightarrow> char" where
  "from_url c = (if c = CHR ''-'' then CHR ''+'' else if c = CHR ''_'' then CHR ''/'' else c)"

definition urlsafe_b64encode :: "bytes \<Rightarrow> string" where
  "urlsafe_b64encode b = map to_url (b64encode b)"

definition urlsafe_b64decode :: "string \<Rightarrow> exn + bytes" where
  "urlsafe_b64decode s = b64decode (map from_url s)"

section \<open>Round trips\<close>

lemma b64_val_char [simp]: "n < 64 \<Longrightarrow> b64_val (b64_char n) = Some n"
proof -
  assume "n < 64"
  then consider "n < 26" | "26 \<le> n" "n < 52" | "52 \<le> n" "n < 62" | "n = 62" | "n = 63"
    by linarith
  then show ?thesis by cases (auto simp: b64_val_def b64_char_def)
qed

lemma b64_char_not_eq [simp]: "n < 64 \<Longrightarrow> b64_char n \<noteq> CHR ''=''"
  using b64_val_char [of n] by (auto simp: b64_val_def)

lemma b64_char_ascii [simp]: "n < 64 \<Longrightarrow> ord (b64_char n) < 128"
  by (auto simp: b64_char_def)

lemma b64_less [simp]:
  "ord a div 4 < 64" "ord a mod 4 * 16 < 64" "ord a mod 4 * 16 + ord b div 16 < 64"
  "ord b mod 16 * 4 < 64" "ord b mod 16 * 4 + ord c div 64 < 64"
proof -
  have *: "ord a < 256" "ord b < 256" "ord c < 256" by simp_all
  from *(1) show "ord a div 4 < 64" by linarith
  have "ord a mod 4 < 4" by simp
  moreover have "ord b div 16 < 16" using *(2) by linarith
  ultimately
  show "ord a mod 4 * 16 < 64" "ord a mod 4 * 16 + ord b div 16 < 64" by linarith+
  have "ord b mod 16 < 16" by simp
  moreover have "ord c div 64 < 4" using *(3) by linarith
  ultimately
  show "ord b mod 16 * 4 < 64" "ord b mod 16 * 4 + ord c div 64 < 64" by linarith+
qed

lemma ord_div [simp]:
  "ord b div 16 div 16 = 0" "ord b div 16 mod 16 = ord b div 16"
  "ord c div 64 div 4 = 0" "ord c div 64 mod 4 = ord c div 64"
proof -
  have "ord b div 16 < 16" "ord c div 64 < 4"
    using ord_less [of b] ord_less [of c] by linarith+
  then show "ord b div 16 div 16 = 0" "ord b div 16 mod 16 = ord b div 16"
    "ord c div 64 div 4 = 0" "ord c div 64 mod 4 = ord c div 64" by simp_all
qed

lemma a2b_group:
  "a2b_loop 0 left pads out
     (b64_char (ord a div 4) # b64_char (ord a mod 4 * 16 + ord b div 16)
      # b64_char (ord b mod 16 * 4 + ord c div 64) # b64_char (ord c mod 64) # s)
   = a2b_loop 0 0 0 (out @ [a, b, c]) s"
  by simp

lemma a2b_b64encode: "a2b_loop 0 left pads out (b64encode b) = Inr (out @ b)"
  by (induction b arbitrary: left pads out rule: b64encode.induct)
     (simp_all only: b64encode.simps a2b_group, simp_all)

lemma b64encode_ascii: "is_ascii (b64encode b)"
  by (induction b rule: b64encode.induct) simp_all

theorem b64_round: "b64decode (b64encode b) = Inr b"
  by (simp add: b64decode_def b64encode_ascii a2b_b64encode)

lemma from_to_url:
  "c \<noteq> CHR ''-'' \<Longrightarrow> c \<noteq> CHR ''_'' \<Longrightarrow> from_url (to_url c) = c"
  by (simp add: from_url_def to_url_def)

lemma b64_char_not_url [simp]:
  "n < 64 \<Longrightarrow> b64_char n \<noteq> CHR ''-''" "n < 64 \<Longrightarrow> b64_char n \<noteq> CHR ''_''"
  using b64_val_char [of n] by (auto simp: b64_val_def)

lemma b64encode_not_url: "c \<in> set (b64encode b) \<Longrightarrow> c \<noteq> CHR ''-'' \<and> c \<noteq> CHR ''_''"
  by (induction b rule: b64encode.induct) auto

lemma map_from_to_url: "map from_url (urlsafe_b64encode b) = b64encode b"
  unfolding urlsafe_b64encode_def map_map
  by (rule map_idI) (use b64encode_not_url in \<open>simp add: from_to_url\<close>)

theorem urlsafe_round: "urlsafe_b64decode (urlsafe_b64encode b) = Inr b"
  by (simp add: urlsafe_b64decode_def map_from_to_url b64_round)

interpretation std64: codec b64encode b64decode "\<lambda>_. True"
  by unfold_locales (simp add: b64_round)

interpretation url64: codec urlsafe_b64encode urlsafe_b64decode "\<lambda>_. True"
  by unfold_locales (simp add: urlsafe_round)

lemma length_b64encode_mod: "length (b64encode b) mod 4 = 0"
proof (induction b rule: b64encode.induct)
  case (4 a b c r)
  then show ?case by (simp add: mod_Suc)
qed simp_all

lemma b64encode_Nil_iff [simp]: "b64encode b = [] \<longleftrightarrow> b = []"
  by (cases b rule: b64encode.cases) auto

lemma a2b_error: "a2b_loop q left pads out s = Inl e \<Longrightarrow> e = ValueError"
  by (induction s arbitrary: q left pads out) (auto split: if_splits option.splits)

lemma urlsafe_error: "urlsafe_b64decode s = Inl e \<Longrightarrow> e = ValueError"
  by (auto simp: urlsafe_b64decode_def b64decode_def dest: a2b_error split: if_splits)

end
