(* ===== verification/Json.thy ===== *)
theory Json
  imports Base64
begin

text \<open>
  JSON values and the standard library's \<open>json\<close> module as the sources use it: \<open>json.dumps\<close> with
  compact separators and sorted keys, for both settings of \<open>ensure_ascii\<close>, and \<open>json.loads\<close>
  with the interpreter's nesting limit as a parameter (exceeding it is a
  \<open>RecursionError\<close>). The main fact is the round trip \<open>loads_dumps\<close>: it makes every canonical
  encoding of the program injective.
\<close>

section \<open>Values\<close>

text \<open>
  A float is carried by its literal (Python writes \<open>repr\<close>): the modelled code only moves
  floats through the encoder. A \<open>dict\<close> with string keys is a list of pairs in insertion order.
\<close>

datatype json =
    JNull
  | JBool bool
  | JInt int
  | JFloat string
  | JStr string
  | JList "json list"
  | JObj "(string \<times> json) list"

text \<open>\<open>d.get(k)\<close> and \<open>d.get(k, default)\<close> on a dictionary, and truth values.\<close>

fun jget :: "json \<Rightarrow> string \<Rightarrow> json option" where
  "jget (JObj kvs) k = map_of kvs k"
| "jget _ k = None"

definition jget_or :: "json \<Rightarrow> string \<Rightarrow> json \<Rightarrow> json" where
  "jget_or v k dflt = (case jget v k of None \<Rightarrow> dflt | Some x \<Rightarrow> x)"

definition float_zero :: "string \<Rightarrow> bool" where
  "float_zero f \<longleftrightarrow>
     (\<exists>c \<in> set f. is_digit c) \<and>
     (\<forall>c \<in> set (takeWhile (\<lambda>c. c \<noteq> CHR ''e'' \<and> c \<noteq> CHR ''E'') f). is_digit c \<longrightarrow> c = CHR ''0'')"

fun truthy :: "json \<Rightarrow> bool" where
  "truthy JNull = False"
| "truthy (JBool b) = b"
| "truthy (JInt i) = (i \<noteq> 0)"
| "truthy (JFloat f) = (\<not> float_zero f)"
| "truthy (JStr s) = (s \<noteq> [])"
| "truthy (JList xs) = (xs \<noteq> [])"
| "truthy (JObj kvs) = (kvs \<noteq> [])"

fun is_obj :: "json \<Rightarrow> bool" where
  "is_obj (JObj kvs) = True"
| "is_obj _ = False"

fun is_str :: "json \<Rightarrow> bool" where
  "is_str (JStr s) = True"
| "is_str _ = False"

section \<open>Printing\<close>

definition short_esc :: "char \<Rightarrow> char option" where
  "short_esc c =
     (if c = CHR 0x22 then Some (CHR 0x22) else if c = CHR 0x5C then Some (CHR 0x5C)
      else if c = CHR 0x0A then Some (CHR ''n'') else if c = CHR 0x0D then Some (CHR ''r'')
      else if c = CHR 0x09 then Some (CHR ''t'') else if c = CHR 0x0C then Some (CHR ''f'')
      else if c = CHR 0x08 then Some (CHR ''b'') else None)"

definition u_esc :: "nat \<Rightarrow> string" where
  "u_esc n = CHR 0x5C # CHR ''u'' # hex4 n"

definition esc_char :: "char \<Rightarrow> string" where
  "esc_char c =
     (case short_esc c of Some e \<Rightarrow> [CHR 0x5C, e]
      | None \<Rightarrow> if ord c < 32 then u_esc (ord c) else [c])"

definition esc_cp :: "nat \<Rightarrow> string" where
  "esc_cp n =
     (if n < 127 then esc_char (chr n)
      else if n < 65536 then u_esc n
      else u_esc (55296 + (n - 65536) div 1024) @ u_esc (56320 + (n - 65536) mod 1024))"

function esc_ascii :: "string \<Rightarrow> string" where
  "esc_ascii s = (case utf8_next s of None \<Rightarrow> [] | Some (n, r) \<Rightarrow> esc_cp n @ esc_ascii r)"
  by pat_completeness auto
termination by (relation "measure length") (auto dest: utf8_next_length)

declare esc_ascii.simps [simp del]

definition json_str :: "bool \<Rightarrow> string \<Rightarrow> string" where
  "json_str ascii s =
     CHR 0x22 # (if ascii then esc_ascii s else concat (map esc_char s)) @ [CHR 0x22]"

fun join :: "string \<Rightarrow> string list \<Rightarrow> string" where
  "join sep [] = []"
| "join sep [x] = x"
| "join sep (x # y # ys) = x @ sep @ join sep (y # ys)"

fun jdump :: "bool \<Rightarrow> json \<Rightarrow> string" where
  "jdump a JNull = ''null''"
| "jdump a (JBool b) = (if b then ''true'' else ''false'')"
| "jdump a (JInt i) = int_str i"
| "jdump a (JFloat f) = f"
| "jdump a (JStr s) = json_str a s"
| "jdump a (JList xs) = ''['' @ join '','' (map (jdump a) xs) @ '']''"
| "jdump a (JObj kvs) =
     ''{'' @ join '','' (map (\<lambda>(k, v). json_str a k @ '':'' @ jdump a v) kvs) @ ''}''"

text \<open>\<open>sort_keys=True\<close> sorts every dictionary of the value.\<close>

fun jsort :: "json \<Rightarrow> json" where
  "jsort (JList xs) = JList (map jsort xs)"
| "jsort (JObj kvs) = JObj (sort_key fst (map (\<lambda>(k, v). (k, jsort v)) kvs))"
| "jsort v = v"

definition json_dumps :: "bool \<Rightarrow> json \<Rightarrow> string" where
  "json_dumps ascii v = jdump ascii (jsort v)"

section \<open>Parsing\<close>

definition unesc :: "char \<Rightarrow> char option" where
  "unesc c =
     (if c = CHR 0x22 then Some (CHR 0x22) else if c = CHR 0x5C then Some (CHR 0x5C)
      else if c = CHR ''/'' then Some (CHR ''/'')
      else if c = CHR ''n'' then Some (CHR 0x0A) else if c = CHR ''r'' then Some (CHR 0x0D)
      else if c = CHR ''t'' then Some (CHR 0x09) else if c = CHR ''f'' then Some (CHR 0x0C)
      else if c = CHR ''b'' then Some (CHR 0x08) else None)"

definition scan_hex4 :: "string \<Rightarrow> (nat \<times> string) option" where
  "scan_hex4 s =
     (case s of a # b # c # d # r \<Rightarrow>
        (case hex4_val a b c d of None \<Rightarrow> None | Some n \<Rightarrow> Some (n, r))
      | _ \<Rightarrow> None)"

text \<open>The digits after \<open>\u\<close>; a high surrogate takes a low surrogate that follows with it.\<close>

definition scan_u :: "string \<Rightarrow> (nat \<times> string) option" where
  "scan_u s =
     (case scan_hex4 s of None \<Rightarrow> None
      | Some (n, r) \<Rightarrow>
        if 55296 \<le> n \<and> n < 56320 \<and> take 2 r = [CHR 0x5C, CHR ''u''] then
          (case scan_hex4 (drop 2 r) of None \<Rightarrow> None
           | Some (m, r') \<Rightarrow>
             if 56320 \<le> m \<and> m < 57344
             then Some (65536 + (n - 55296) * 1024 + (m - 56320), r')
             else Some (n, r))
        else Some (n, r))"

definition prepend :: "string \<Rightarrow> exn + string \<times> string \<Rightarrow> exn + string \<times> string" where
  "prepend xs m = (case m of Inl e \<Rightarrow> Inl e | Inr (t, r) \<Rightarrow> Inr (xs @ t, r))"

lemma scan_hex4_length: "scan_hex4 s = Some (n, r) \<Longrightarrow> length s = length r + 4"
  by (auto simp: scan_hex4_def split: list.splits option.splits)

lemma scan_u_length: "scan_u s = Some (n, r) \<Longrightarrow> length r < length s"
  by (auto simp: scan_u_def dest!: scan_hex4_length split: option.splits if_splits)

text \<open>The rest of a string literal, after its opening quote.\<close>

function scan_str :: "string \<Rightarrow> exn + string \<times> string" where
  "scan_str s =
     (case s of [] \<Rightarrow> Inl ValueError
      | c # r \<Rightarrow>
        if c = CHR 0x22 then Inr ([], r)
        else if c \<noteq> CHR 0x5C then
          (if ord c < 32 then Inl ValueError else prepend [c] (scan_str r))
        else
          (case r of [] \<Rightarrow> Inl ValueError
           | e # r' \<Rightarrow>
             if e = CHR ''u'' then
               (case scan_u r' of None \<Rightarrow> Inl ValueError
                | Some (n, r'') \<Rightarrow> prepend (utf8_enc n) (scan_str r''))
             else
               (case unesc e of None \<Rightarrow> Inl ValueError
                | Some x \<Rightarrow> prepend [x] (scan_str r'))))"
  by pat_completeness auto
termination by (relation "measure length") (auto dest: scan_u_length)

declare scan_str.simps [simp del]

definition is_ws :: "char \<Rightarrow> bool" where
  "is_ws c \<longleftrightarrow> c = CHR '' '' \<or> c = CHR 0x09 \<or> c = CHR 0x0A \<or> c = CHR 0x0D"

definition skip_ws :: "string \<Rightarrow> string" where
  "skip_ws s = dropWhile is_ws s"

definition strip_prefix :: "string \<Rightarrow> string \<Rightarrow> string option" where
  "strip_prefix p s = (if take (length p) s = p then Some (drop (length p) s) else None)"

lemma strip_prefix_simps [simp]:
  "strip_prefix [] s = Some s" "strip_prefix (a # p) [] = None"
  "strip_prefix (a # p) (b # s) = (if a = b then strip_prefix p s else None)"
  by (simp_all add: strip_prefix_def)

text \<open>A number literal: integer part, optional fraction, optional exponent.\<close>

definition num_int :: "string \<Rightarrow> (string \<times> string) option" where
  "num_int s =
     (case s of [] \<Rightarrow> None
      | c # r \<Rightarrow> if c = CHR ''0'' then Some ([c], r)
                 else if is_digit c then Some (takeWhile is_digit s, dropWhile is_digit s)
                 else None)"

definition num_frac :: "string \<Rightarrow> string \<times> string" where
  "num_frac s =
     (case s of [] \<Rightarrow> ([], s)
      | c # r \<Rightarrow> if c = CHR ''.'' \<and> takeWhile is_digit r \<noteq> []
                 then (c # takeWhile is_digit r, dropWhile is_digit r) else ([], s))"

definition num_sign :: "string \<Rightarrow> string \<times> string" where
  "num_sign s =
     (case s of [] \<Rightarrow> ([], s)
      | c # r \<Rightarrow> if c = CHR ''+'' \<or> c = CHR ''-'' then ([c], r) else ([], s))"

definition num_exp :: "string \<Rightarrow> string \<times> string" where
  "num_exp s =
     (case s of [] \<Rightarrow> ([], s)
      | c # r \<Rightarrow>
        if (c = CHR ''e'' \<or> c = CHR ''E'') \<and> takeWhile is_digit (snd (num_sign r)) \<noteq> []
        then (c # fst (num_sign r) @ takeWhile is_digit (snd (num_sign r)),
              dropWhile is_digit (snd (num_sign r)))
        else ([], s))"

definition scan_number :: "string \<Rightarrow> (json \<times> string) option" where
  "scan_number s =
     (let neg = (take 1 s = ''-''); s0 = (if neg then drop 1 s else s) in
      case num_int s0 of None \<Rightarrow> None
      | Some (ip, s1) \<Rightarrow>
        let (fp, s2) = num_frac s1; (ep, s3) = num_exp s2; sgn = (if neg then ''-'' else '''')
        in if fp = [] \<and> ep = []
           then Some (JInt (if neg then - int (str_nat ip) else int (str_nat ip)), s3)
           else Some (JFloat (sgn @ ip @ fp @ ep), s3))"

text \<open>The literals without structure.\<close>

definition scan_atom :: "string \<Rightarrow> exn + json \<times> string" where
  "scan_atom s =
     (case strip_prefix ''null'' s of Some r \<Rightarrow> Inr (JNull, r) | None \<Rightarrow>
      case strip_prefix ''true'' s of Some r \<Rightarrow> Inr (JBool True, r) | None \<Rightarrow>
      case strip_prefix ''false'' s of Some r \<Rightarrow> Inr (JBool False, r) | None \<Rightarrow>
      case strip_prefix ''NaN'' s of Some r \<Rightarrow> Inr (JFloat ''NaN'', r) | None \<Rightarrow>
      case strip_prefix ''Infinity'' s of Some r \<Rightarrow> Inr (JFloat ''Infinity'', r) | None \<Rightarrow>
      case strip_prefix ''-Infinity'' s of Some r \<Rightarrow> Inr (JFloat ''-Infinity'', r) | None \<Rightarrow>
      case scan_number s of Some (v, r) \<Rightarrow> Inr (v, r) | None \<Rightarrow> Inl ValueError)"

definition dict_of :: "('k \<times> 'v) list \<Rightarrow> ('k, 'v) dict" where
  "dict_of kvs = foldl (\<lambda>d (k, v). put k v d) [] kvs"

lemma length_skip_ws: "length (skip_ws s) \<le> length s"
  by (simp add: skip_ws_def length_dropWhile_le)

lemma strip_prefix_length:
  "strip_prefix p s = Some r \<Longrightarrow> length r = length s - length p"
  by (auto simp: strip_prefix_def split: if_splits)

lemma skip_ws_less:
  assumes "length r < length s"
  shows "length (skip_ws r) \<le> length s" "length (skip_ws r) < length s"
    "Suc (2 * length (skip_ws r)) \<le> 2 * length s"
  using assms length_skip_ws [of r] by linarith+

text \<open>
  The three scanners below call each other on strictly shorter texts. The two tests
  \<open>length _ < length _\<close> succeed because a scanner consumes its text; they are there so that the
  recursion is accepted. \<open>d\<close> is the number of brackets that may still be opened.
\<close>

function (sequential)
  scan_value :: "nat \<Rightarrow> string \<Rightarrow> exn + json \<times> string" and
  scan_elems :: "nat \<Rightarrow> string \<Rightarrow> exn + json list \<times> string" and
  scan_members :: "nat \<Rightarrow> string \<Rightarrow> exn + (string \<times> json) list \<times> string"
where
  "scan_value d s =
     (case s of [] \<Rightarrow> Inl ValueError
      | c # r \<Rightarrow>
        if c = CHR 0x22 then bindE (scan_str r) (\<lambda>(t, r'). Inr (JStr t, r'))
        else if c = CHR ''['' then
          (case d of 0 \<Rightarrow> Inl RecursionError
           | Suc d' \<Rightarrow>
             (case strip_prefix '']'' (skip_ws r) of
                Some r' \<Rightarrow> Inr (JList [], r')
              | None \<Rightarrow> bindE (scan_elems d' (skip_ws r)) (\<lambda>(vs, r'). Inr (JList vs, r'))))
        else if c = CHR ''{'' then
          (case d of 0 \<Rightarrow> Inl RecursionError
           | Suc d' \<Rightarrow>
             (case strip_prefix ''}'' (skip_ws r) of
                Some r' \<Rightarrow> Inr (JObj [], r')
              | None \<Rightarrow> bindE (scan_members d' (skip_ws r)) (\<lambda>(kvs, r'). Inr (JObj (dict_of kvs), r'))))
        else scan_atom s)"
| "scan_elems d s =
     (case scan_value d s of Inl e \<Rightarrow> Inl e
      | Inr (v, r) \<Rightarrow>
        (case skip_ws r of [] \<Rightarrow> Inl ValueError
         | c # r' \<Rightarrow>
           if c = CHR '']'' then Inr ([v], r')
           else if c = CHR '','' \<and> length r' < length s then
             bindE (scan_elems d (skip_ws r')) (\<lambda>(vs, r''). Inr (v # vs, r''))
           else Inl ValueError))"
| "scan_members d s =
     (case strip_prefix [CHR 0x22] s of None \<Rightarrow> Inl ValueError
      | Some r0 \<Rightarrow>
        (case scan_str r0 of Inl e \<Rightarrow> Inl e
         | Inr (k, r) \<Rightarrow>
           (case strip_prefix '':'' (skip_ws r) of None \<Rightarrow> Inl ValueError
            | Some r1 \<Rightarrow>
              if length r1 < length s then
                (case scan_value d (skip_ws r1) of Inl e \<Rightarrow> Inl e
                 | Inr (v, r2) \<Rightarrow>
                   (case skip_ws r2 of [] \<Rightarrow> Inl ValueError
                    | c # r3 \<Rightarrow>
                      if c = CHR ''}'' then Inr ([(k, v)], r3)
                      else if c = CHR '','' \<and> length r3 < length s then
                        bindE (scan_members d (skip_ws r3)) (\<lambda>(kvs, r4). Inr ((k, v) # kvs, r4))
                      else Inl ValueError))
              else Inl ValueError)))"
  by pat_completeness auto

termination
  by (relation "measure (case_sum (\<lambda>(d, s). 2 * length s)
        (case_sum (\<lambda>(d, s). 2 * length s + 1) (\<lambda>(d, s). 2 * length s + 1)))")
     (auto simp: less_Suc_eq_le length_skip_ws skip_ws_less)

declare scan_value.simps [simp del] scan_elems.simps [simp del] scan_members.simps [simp del]

definition json_loads :: "nat \<Rightarrow> string \<Rightarrow> exn + json" where
  "json_loads depth s =
     bindE (scan_value depth (skip_ws s)) (\<lambda>(v, r). if skip_ws r = [] then Inr v else Inl ValueError)"

section \<open>Round trips\<close>

lemma prepend_simps [simp]:
  "prepend [] m = m" "prepend xs (prepend ys m) = prepend (xs @ ys) m"
  "prepend xs (Inr (t, r)) = Inr (xs @ t, r)"
  by (simp_all add: prepend_def split: sum.split prod.split)

lemma scan_hex4_hex4: "n < 65536 \<Longrightarrow> scan_hex4 (hex4 n @ t) = Some (n, t)"
  using hex4_round [of n] by (simp add: scan_hex4_def hex4_def)

lemma scan_u_hex4:
  "n < 65536 \<Longrightarrow> \<not> (55296 \<le> n \<and> n < 57344) \<Longrightarrow> scan_u (hex4 n @ t) = Some (n, t)"
  by (auto simp: scan_u_def scan_hex4_hex4)

lemma scan_u_pair:
  assumes "65536 \<le> n" "n < 1114112"
  shows "scan_u (hex4 (55296 + (n - 65536) div 1024) @ CHR 0x5C # CHR ''u''
      # hex4 (56320 + (n - 65536) mod 1024) @ t) = Some (n, t)"
proof -
  define v where "v = n - 65536"
  have v: "v div 1024 < 1024" "v mod 1024 < 1024" "n = 65536 + v"
    using assms by (auto simp: v_def)
  then have "n = 65536 + v div 1024 * 1024 + v mod 1024" by simp
  with v show ?thesis
    by (simp add: scan_u_def scan_hex4_hex4 flip: v_def)
qed

lemma scan_str_u_esc:
  "n < 65536 \<Longrightarrow> \<not> (55296 \<le> n \<and> n < 57344) \<Longrightarrow>
   scan_str (u_esc n @ t) = prepend (utf8_enc n) (scan_str t)"
  by (subst scan_str.simps) (simp add: u_esc_def scan_u_hex4)

lemma short_esc_unesc: "short_esc c = Some e \<Longrightarrow> unesc e = Some c \<and> e \<noteq> CHR ''u''"
  by (auto simp: short_esc_def unesc_def split: if_splits)

lemma scan_esc_char: "scan_str (esc_char c @ t) = prepend [c] (scan_str t)"
proof (cases "short_esc c")
  case (Some e)
  then show ?thesis
    using short_esc_unesc [OF Some] by (subst scan_str.simps) (simp add: esc_char_def)
next
  case None
  then have c: "c \<noteq> CHR 0x22" "c \<noteq> CHR 0x5C" by (auto simp: short_esc_def)
  show ?thesis
  proof (cases "ord c < 32")
    case True
    then have "utf8_enc (ord c) = [c]" by (simp add: utf8_enc_def)
    with True None show ?thesis by (simp add: esc_char_def scan_str_u_esc)
  next
    case False
    with None c show ?thesis by (subst scan_str.simps) (simp add: esc_char_def)
  qed
qed

lemma scan_esc_cp:
  assumes "n < 1114112" "\<not> (55296 \<le> n \<and> n < 57344)"
  shows "scan_str (esc_cp n @ t) = prepend (utf8_enc n) (scan_str t)"
proof -
  consider "n < 127" | "127 \<le> n" "n < 65536" | "65536 \<le> n" by linarith
  then show ?thesis
  proof cases
    case 3
    then show ?thesis using assms
      by (subst scan_str.simps) (simp add: esc_cp_def u_esc_def scan_u_pair)
  qed (use assms in \<open>simp_all add: esc_cp_def scan_esc_char scan_str_u_esc utf8_enc_def\<close>)
qed

lemma scan_quote: "scan_str (CHR 0x22 # t) = Inr ([], t)"
  by (simp add: scan_str.simps)

lemma scan_esc_plain: "scan_str (concat (map esc_char s) @ CHR 0x22 # t) = Inr (s, t)"
  by (induction s) (simp_all add: scan_esc_char scan_quote)

lemma scan_esc_ascii: "utf8_valid s \<Longrightarrow> scan_str (esc_ascii s @ CHR 0x22 # t) = Inr (s, t)"
proof (induction s rule: esc_ascii.induct)
  case (1 s)
  show ?case
  proof (cases "utf8_next s")
    case None
    with "1.prems" have "s = []" by (simp add: utf8_valid.simps [of s])
    then show ?thesis by (simp add: esc_ascii.simps [of "[]"] utf8_next_def scan_quote)
  next
    case (Some p)
    obtain n r where p: "p = (n, r)" by fastforce
    with Some "1.prems" have "utf8_valid r"
      by (simp add: utf8_valid.simps [of s]) (auto simp: utf8_next_def)
    with "1.IH" Some p have "scan_str (esc_ascii r @ CHR 0x22 # t) = Inr (r, t)" by blast
    moreover have "scan_str (esc_cp n @ u) = prepend (utf8_enc n) (scan_str u)" for u
      using Some p utf8_next_bound utf8_next_not_surrogate by (intro scan_esc_cp) blast+
    moreover have "esc_ascii s = esc_cp n @ esc_ascii r"
      using Some p by (simp add: esc_ascii.simps [of s])
    ultimately have "scan_str (esc_ascii s @ CHR 0x22 # t) = Inr (utf8_enc n @ r, t)" by simp
    then show ?thesis using Some p by (simp flip: utf8_next_enc)
  qed
qed

lemma scan_json_str: "utf8_valid s \<Longrightarrow> scan_str (tl (json_str a s @ t)) = Inr (s, t)"
  by (simp add: json_str_def scan_esc_plain scan_esc_ascii)

text \<open>
  Values the encoder can produce from Python: valid strings, float literals, dictionaries
  with distinct keys.
\<close>

definition float_lit :: "string \<Rightarrow> bool" where
  "float_lit f \<longleftrightarrow> f \<in> {''NaN'', ''Infinity'', ''-Infinity''} \<or> scan_number f = Some (JFloat f, [])"

fun jwf :: "json \<Rightarrow> bool" where
  "jwf (JFloat f) = float_lit f"
| "jwf (JStr s) = utf8_valid s"
| "jwf (JList xs) = (\<forall>x \<in> set xs. jwf x)"
| "jwf (JObj kvs) = (dict_ok kvs \<and> (\<forall>(k, v) \<in> set kvs. utf8_valid k \<and> jwf v))"
| "jwf _ = True"

fun jdepth :: "json \<Rightarrow> nat" where
  "jdepth (JList xs) = Suc (Max (set (0 # map jdepth xs)))"
| "jdepth (JObj kvs) = Suc (Max (set (0 # map (\<lambda>(k, v). jdepth v) kvs)))"
| "jdepth _ = 0"

text \<open>What may follow a value inside a document: nothing, or a delimiter.\<close>

definition stops :: "string \<Rightarrow> bool" where
  "stops r \<longleftrightarrow> r = [] \<or> hd r \<in> {CHR '','', CHR '']'', CHR ''}''}"

lemma stops_simps [simp]:
  "stops []" "stops (c # r) \<longleftrightarrow> c \<in> {CHR '','', CHR '']'', CHR ''}''}"
  by (auto simp: stops_def)

lemma is_digit_code [simp]:
  "\<not> is_digit CHR '',''" "\<not> is_digit CHR '']''" "\<not> is_digit CHR ''}''" "\<not> is_digit CHR ''.''"
  "\<not> is_digit CHR ''e''" "\<not> is_digit CHR ''E''" "\<not> is_digit CHR ''-''" "\<not> is_digit CHR ''+''"
  by (simp_all add: is_digit_def)

lemma takeWhile_digits_stop:
  assumes "stops r"
  shows "takeWhile is_digit (s @ r) = takeWhile is_digit s"
    and "dropWhile is_digit (s @ r) = dropWhile is_digit s @ r"
  using assms by (induction s) (cases r, auto)+

lemma num_int_append: "stops r \<Longrightarrow> num_int s = Some (ip, t) \<Longrightarrow> num_int (s @ r) = Some (ip, t @ r)"
  using takeWhile_digits_stop [of r s]
  by (auto simp: num_int_def split: list.splits if_splits)

lemma num_frac_append: "stops r \<Longrightarrow> num_frac s = (fp, t) \<Longrightarrow> num_frac (s @ r) = (fp, t @ r)"
  by (auto simp: num_frac_def takeWhile_digits_stop split: list.splits if_splits)

lemma num_exp_append: "stops r \<Longrightarrow> num_exp s = (ep, t) \<Longrightarrow> num_exp (s @ r) = (ep, t @ r)"
proof -
  assume r: "stops r" and exp: "num_exp s = (ep, t)"
  show ?thesis
  proof (cases s)
    case Nil
    with r exp show ?thesis by (cases r) (auto simp: num_exp_def)
  next
    case (Cons c u)
    then obtain sg v where sg: "num_sign u = (sg, v)" by fastforce
    moreover have "num_sign (u @ r) = (sg, v @ r)"
      using r sg by (cases u; cases r) (auto simp: num_sign_def split: if_splits)
    ultimately show ?thesis
      using exp Cons takeWhile_digits_stop [OF r, of v] by (auto simp: num_exp_def split: if_splits)
  qed
qed

lemma num_int_digit: "num_int s = Some (ip, t) \<Longrightarrow> s \<noteq> [] \<and> is_digit (hd s)"
  by (auto simp: num_int_def is_digit_def split: list.splits if_splits)

lemma scan_number_append:
  assumes "stops r" "scan_number s = Some (v, t)"
  shows "scan_number (s @ r) = Some (v, t @ r)"
proof -
  define s0 where "s0 = (if take 1 s = ''-'' then drop 1 s else s)"
  from assms(2) obtain ip s1 where ip: "num_int s0 = Some (ip, s1)"
    by (auto simp: scan_number_def Let_def s0_def split: option.splits)
  obtain fp s2 where fp: "num_frac s1 = (fp, s2)" by fastforce
  obtain ep s3 where ep: "num_exp s2 = (ep, s3)" by fastforce
  have "s \<noteq> []" using ip by (auto simp: s0_def dest: num_int_digit)
  then have "take 1 (s @ r) = take 1 s" "drop 1 (s @ r) = drop 1 s @ r" by (cases s; simp)+
  with assms ip fp ep show ?thesis
    using num_int_append [OF assms(1) ip] num_frac_append [OF assms(1) fp]
      num_exp_append [OF assms(1) ep]
    by (auto simp: scan_number_def Let_def s0_def split: if_splits)
qed

lemma scan_number_head:
  assumes "scan_number s = Some p"
  shows "\<exists>c t. s = c # t \<and> (is_digit c \<or> c = CHR ''-'' \<and> t \<noteq> [] \<and> is_digit (hd t))"
proof (cases "take 1 s = ''-''")
  case True
  with assms obtain q where "num_int (drop 1 s) = Some q"
    by (auto simp: scan_number_def Let_def split: option.splits)
  with True show ?thesis by (cases q; cases s) (auto dest: num_int_digit)
next
  case False
  with assms obtain q where "num_int s = Some q"
    by (auto simp: scan_number_def Let_def split: option.splits)
  then show ?thesis by (cases q; cases s) (auto dest: num_int_digit)
qed

lemma is_digit_neq:
  "is_digit c \<Longrightarrow> c \<notin> {CHR ''n'', CHR ''t'', CHR ''f'', CHR ''N'', CHR ''I'', CHR ''-'', CHR 0x22,
     CHR ''['', CHR ''{'', CHR '']'', CHR ''}'', CHR '' '', CHR 0x09, CHR 0x0A, CHR 0x0D}"
  by (auto simp: is_digit_def)

lemma scan_atom_number:
  assumes "scan_number s = Some p"
  shows "scan_atom s = Inr p"
proof -
  from scan_number_head [OF assms] obtain c t where s: "s = c # t"
    and c: "is_digit c \<or> c = CHR ''-'' \<and> t \<noteq> [] \<and> is_digit (hd t)" by blast
  have "strip_prefix w s = None" if "w \<in> {''null'', ''true'', ''false'', ''NaN'', ''Infinity''}" for w
    using that c s is_digit_neq [of c] by auto
  moreover have "strip_prefix ''-Infinity'' s = None"
    using c s is_digit_neq [of c] is_digit_neq [of "hd t"] by (cases t) auto
  ultimately show ?thesis using assms by (cases p) (simp add: scan_atom_def)
qed

lemma num_int_nat_str: "stops r \<Longrightarrow> num_int (nat_str n @ r) = Some (nat_str n, r)"
proof -
  assume r: "stops r"
  have tw: "takeWhile is_digit (nat_str n @ r) = nat_str n" "dropWhile is_digit (nat_str n @ r) = r"
    using nat_str_digits takeWhile_digits_stop [OF r, of "nat_str n"]
    by (simp_all add: takeWhile_eq_all_conv dropWhile_eq_Nil_conv)
  obtain c t where ct: "nat_str n = c # t" by (cases "nat_str n") simp_all
  show ?thesis
  proof (cases "c = CHR ''0''")
    case True
    then have "n = 0" using nat_str_leading_zero [of n] ct by simp
    then show ?thesis by (simp add: num_int_def nat_str.simps [of 0])
  next
    case False
    with ct tw nat_str_digits [of c n] show ?thesis by (simp add: num_int_def)
  qed
qed

lemma scan_number_int: "stops r \<Longrightarrow> scan_number (int_str i @ r) = Some (JInt i, r)"
proof -
  assume r: "stops r"
  then have tail: "num_frac r = ([], r)" "num_exp r = ([], r)"
    by (cases r; auto simp: num_frac_def num_exp_def)+
  have hd: "take 1 (nat_str n @ r) \<noteq> ''-''" for n
    using nat_str_digits [of "hd (nat_str n)" n] is_digit_neq by (cases "nat_str n") auto
  show ?thesis
  proof (cases "i < 0")
    case True
    then show ?thesis using r tail
      by (simp add: scan_number_def Let_def int_str_def num_int_nat_str)
  next
    case False
    then show ?thesis using r tail hd
      by (simp add: scan_number_def Let_def int_str_def num_int_nat_str)
  qed
qed

lemma scan_value_atom:
  "c \<notin> {CHR 0x22, CHR ''['', CHR ''{''} \<Longrightarrow> scan_value d (c # t) = scan_atom (c # t)"
  by (simp add: scan_value.simps)

lemma scan_value_number:
  assumes "scan_number s = Some p"
  shows "scan_value d s = Inr p"
proof -
  from scan_number_head [OF assms] obtain c t where s: "s = c # t"
    and c: "is_digit c \<or> c = CHR ''-''" by blast
  then have "c \<notin> {CHR 0x22, CHR ''['', CHR ''{''}"
    using is_digit_neq [of c] by (elim disjE) simp_all
  then have "scan_value d s = scan_atom s" unfolding s by (rule scan_value_atom)
  with scan_atom_number [OF assms] show ?thesis by simp
qed

lemma scan_value_float:
  assumes "float_lit f" "stops r"
  shows "scan_value d (f @ r) = Inr (JFloat f, r)"
proof (cases "scan_number f = Some (JFloat f, [])")
  case True
  then show ?thesis using scan_number_append [OF assms(2) True] scan_value_number by simp
next
  case False
  with assms(1) consider "f = ''NaN''" | "f = ''Infinity''" | "f = ''-Infinity''"
    by (auto simp: float_lit_def)
  then show ?thesis
    by cases (simp_all add: scan_value_atom scan_atom_def)
qed

text \<open>The tests on lengths in the scanners never fail: every scanner consumes its input.\<close>

lemma scan_str_length: "scan_str s = Inr (t, r) \<Longrightarrow> length r < length s"
proof (induction s arbitrary: t r rule: scan_str.induct)
  case (1 s)
  show ?case
  proof (cases s)
    case Nil
    with "1.prems" show ?thesis by (simp add: scan_str.simps)
  next
    case s: (Cons c u)
    have *: "prepend xs m = Inr (t, r) \<Longrightarrow> \<exists>t'. m = Inr (t', r)" for xs m
      by (auto simp: prepend_def split: sum.splits)
    consider "c = CHR 0x22" | "c \<noteq> CHR 0x22" "c \<noteq> CHR 0x5C" | "c = CHR 0x5C" by blast
    then show ?thesis
    proof cases
      case 1
      with "1.prems" s show ?thesis by (simp add: scan_str.simps)
    next
      case 2
      with "1.prems" s obtain t' where "scan_str u = Inr (t', r)" "\<not> ord c < 32"
        using * [of "[c]" "scan_str u"] scan_str.simps [of s] by (auto split: if_splits)
      with 2 s "1.IH"(1) [OF s 2] show ?thesis by fastforce
    next
      case 3
      from "1.prems" 3 s obtain e v where u: "u = e # v"
        using scan_str.simps [of s] by (auto split: list.splits)
      have esc: "c \<noteq> CHR 0x22" "\<not> c \<noteq> CHR 0x5C" using 3 by auto
      show ?thesis
      proof (cases "e = CHR ''u''")
        case True
        with "1.prems" 3 s u obtain n w where w: "scan_u v = Some (n, w)"
          "prepend (utf8_enc n) (scan_str w) = Inr (t, r)"
          using scan_str.simps [of s] by (auto split: option.splits)
        from * [OF w(2)] "1.IH"(2) [OF s esc u True w(1) refl]
        show ?thesis using scan_u_length [OF w(1)] s u by fastforce
      next
        case False
        with "1.prems" 3 s u obtain x where x: "unesc e = Some x"
          "prepend [x] (scan_str v) = Inr (t, r)"
          using scan_str.simps [of s] by (auto split: option.splits)
        from * [OF x(2)] "1.IH"(3) [OF s esc u False x(1)] show ?thesis using s u by fastforce
      qed
    qed
  qed
qed

lemma dict_of_append: "dict_of (kvs @ [(k, v)]) = put k v (dict_of kvs)"
  by (simp add: dict_of_def)

lemma map_of_dict_of_ok: "dict_ok kvs \<Longrightarrow> dict_of kvs = kvs"
proof (induction kvs rule: rev_induct)
  case (snoc p kvs)
  obtain k v where p: "p = (k, v)" by fastforce
  with snoc have "dict_of kvs = kvs" "map_of kvs k = None" by (auto simp: map_of_eq_None_iff)
  with p show ?case by (simp add: dict_of_append put_fresh)
qed (simp add: dict_of_def)

lemma skip_ws_stop: "\<not> is_ws c \<Longrightarrow> skip_ws (c # r) = c # r"
  by (simp add: skip_ws_def)

lemma skip_ws_delims [simp]:
  "skip_ws (CHR '','' # r) = CHR '','' # r" "skip_ws (CHR '']'' # r) = CHR '']'' # r"
  "skip_ws (CHR ''}'' # r) = CHR ''}'' # r" "skip_ws (CHR '':'' # r) = CHR '':'' # r"
  "skip_ws (CHR 0x22 # r) = CHR 0x22 # r" "skip_ws [] = []"
  by (simp_all add: skip_ws_def is_ws_def)

text \<open>A printed value starts with a character that is neither white space nor a closing bracket.\<close>

definition starts :: "string \<Rightarrow> bool" where
  "starts s \<longleftrightarrow> s \<noteq> [] \<and> \<not> is_ws (hd s) \<and> hd s \<noteq> CHR '']'' \<and> hd s \<noteq> CHR ''}''"

lemma starts_append: "starts s \<Longrightarrow> starts (s @ r) \<and> skip_ws (s @ r) = s @ r"
  by (cases s) (auto simp: starts_def skip_ws_def)

lemma starts_strip:
  "starts s \<Longrightarrow> strip_prefix '']'' (s @ r) = None \<and> strip_prefix ''}'' (s @ r) = None"
  by (cases s) (auto simp: starts_def)

lemma starts_digit: "is_digit c \<Longrightarrow> starts (c # s)"
  using is_digit_neq [of c] by (simp add: starts_def is_ws_def)

lemma starts_number: "scan_number s = Some p \<Longrightarrow> starts s"
  by (drule scan_number_head) (auto simp: starts_digit, simp add: starts_def is_ws_def)

lemma starts_jdump: "jwf v \<Longrightarrow> starts (jdump a v)"
proof (cases v)
  case (JInt i)
  then show ?thesis using scan_number_int [of "[]" i] by (simp add: starts_number)
next
  case (JFloat f)
  assume "jwf v"
  with JFloat show ?thesis
    by (auto simp: float_lit_def starts_number) (simp_all add: starts_def is_ws_def)
qed (simp_all add: starts_def is_ws_def json_str_def)

lemma scan_elems_join:
  assumes "vs \<noteq> []"
    and "\<And>v r. v \<in> set vs \<Longrightarrow> stops r \<Longrightarrow> scan_value d (f v @ r) = Inr (v, r)"
    and "\<And>v. v \<in> set vs \<Longrightarrow> starts (f v)"
  shows "scan_elems d (join '','' (map f vs) @ CHR '']'' # r) = Inr (vs, r)"
  using assms
proof (induction vs rule: list_nonempty_induct)
  case (single v)
  then show ?case by (subst scan_elems.simps) simp
next
  case (cons v vs)
  let ?tail = "join '','' (map f vs) @ CHR '']'' # r"
  have "starts ?tail"
    using cons(1) starts_append cons(4) by (cases vs; cases "tl vs") auto
  then have ws: "skip_ws ?tail = ?tail" by (cases ?tail) (auto simp: starts_def skip_ws_def)
  obtain w ws' where vs: "vs = w # ws'" using cons(1) by (cases vs) auto
  have "join '','' (map f (v # vs)) @ CHR '']'' # r = f v @ CHR '','' # ?tail" by (simp add: vs)
  moreover have "scan_value d (f v @ CHR '','' # ?tail) = Inr (v, CHR '','' # ?tail)"
    using cons(3) by simp
  moreover have "scan_elems d ?tail = Inr (vs, r)" using cons by simp
  ultimately show ?case using ws by (subst scan_elems.simps) simp
qed

lemma scan_members_one:
  assumes "utf8_valid k" "starts (f v)" "scan_value d (f v @ c # r) = Inr (v, c # r)" "\<not> is_ws c"
  shows "scan_members d (json_str a k @ '':'' @ f v @ c # r) =
    (if c = CHR ''}'' then Inr ([(k, v)], r)
     else if c = CHR '','' then bindE (scan_members d (skip_ws r)) (\<lambda>(kvs, r'). Inr ((k, v) # kvs, r'))
     else Inl ValueError)"
proof -
  define t where "t = CHR '':'' # f v @ c # r"
  define q where "q = tl (json_str a k @ t)"
  have q: "json_str a k @ t = CHR 0x22 # q" "scan_str q = Inr (k, t)"
    using scan_json_str [OF assms(1), of a t] by (simp_all add: q_def json_str_def)
  have "length r < length (CHR 0x22 # q)" "length (f v @ c # r) < length (CHR 0x22 # q)"
    using scan_str_length [OF q(2)] by (simp_all add: t_def)
  then have "scan_members d (CHR 0x22 # q) =
    (if c = CHR ''}'' then Inr ([(k, v)], r)
     else if c = CHR '','' then bindE (scan_members d (skip_ws r)) (\<lambda>(kvs, r'). Inr ((k, v) # kvs, r'))
     else Inl ValueError)"
    using starts_append [OF assms(2), of "c # r"] assms(3,4) q(2)
    by (subst scan_members.simps) (simp add: t_def skip_ws_stop)
  then show ?thesis by (simp add: t_def flip: q(1))
qed

lemma scan_members_join:
  assumes "kvs \<noteq> []"
    and "\<And>k v r. (k, v) \<in> set kvs \<Longrightarrow> stops r \<Longrightarrow> scan_value d (f v @ r) = Inr (v, r)"
    and "\<And>k v. (k, v) \<in> set kvs \<Longrightarrow> starts (f v) \<and> utf8_valid k"
  shows "scan_members d (join '','' (map (\<lambda>(k, v). json_str a k @ '':'' @ f v) kvs) @ CHR ''}'' # r)
    = Inr (kvs, r)"
  using assms
proof (induction kvs rule: list_nonempty_induct)
  case (single p)
  then show ?case
    using scan_members_one [of "fst p" f "snd p" d "CHR ''}''" r a] by (cases p) (simp add: is_ws_def)
next
  case (cons p kvs)
  let ?tail = "join '','' (map (\<lambda>(k, v). json_str a k @ '':'' @ f v) kvs) @ CHR ''}'' # r"
  obtain k v where p: "p = (k, v)" by fastforce
  obtain q ps where kvs: "kvs = q # ps" using cons(1) by (cases kvs) auto
  have "\<exists>u. ?tail = CHR 0x22 # u" unfolding kvs
    by (cases q; cases ps) (auto simp: json_str_def)
  then have "skip_ws ?tail = ?tail" by auto
  moreover have "scan_members d ?tail = Inr (kvs, r)"
    by (rule cons(2)) (meson cons(3,4) list.set_intros(2))+
  moreover have "join '','' (map (\<lambda>(k, v). json_str a k @ '':'' @ f v) (p # kvs)) @ CHR ''}'' # r
      = json_str a k @ '':'' @ f v @ CHR '','' # ?tail"
    by (simp add: kvs p)
  moreover have kv: "(k, v) \<in> set (p # kvs)" by (simp add: p)
  moreover have "scan_value d (f v @ CHR '','' # ?tail) = Inr (v, CHR '','' # ?tail)"
    using cons(3) [OF kv] by simp
  moreover have "starts (f v)" "utf8_valid k" using cons(4) [OF kv] by simp_all
  ultimately show ?case
    using scan_members_one [of k f v d "CHR '',''" ?tail a] by (simp add: p is_ws_def)
qed

theorem scan_jdump:
  "jwf v \<Longrightarrow> jdepth v \<le> d \<Longrightarrow> stops r \<Longrightarrow> scan_value d (jdump a v @ r) = Inr (v, r)"
proof (induction a v arbitrary: d r rule: jdump.induct)
  case (3 a i)
  then show ?case by (simp add: scan_number_int scan_value_number)
next
  case (4 a f)
  then show ?case by (simp add: scan_value_float)
next
  case (5 a s)
  then show ?case using scan_json_str [of s a r]
    by (subst scan_value.simps) (simp add: json_str_def)
next
  case (6 a xs)
  from 6(3) obtain d' where d: "d = Suc d'" by (cases d) auto
  show ?case
  proof (cases "xs = []")
    case True
    then show ?thesis by (subst scan_value.simps) (simp add: d)
  next
    case False
    have "scan_elems d' (join '','' (map (jdump a) xs) @ CHR '']'' # r) = Inr (xs, r)"
      using False 6 by (intro scan_elems_join) (auto simp: d starts_jdump)
    moreover have "starts (join '','' (map (jdump a) xs))"
      using False 6(2) starts_append starts_jdump by (cases xs; cases "tl xs") auto
    ultimately show ?thesis using starts_append starts_strip
      by (subst scan_value.simps) (simp add: d)
  qed
next
  case (7 a kvs)
  let ?line = "\<lambda>(k, v). json_str a k @ '':'' @ jdump a v"
  from 7(3) obtain d' where d: "d = Suc d'" by (cases d) auto
  show ?case
  proof (cases "kvs = []")
    case True
    then show ?thesis by (subst scan_value.simps) (simp add: d)
  next
    case False
    have "scan_members d' (join '','' (map ?line kvs) @ CHR ''}'' # r) = Inr (kvs, r)"
      using False 7 by (intro scan_members_join) (fastforce simp: d starts_jdump)+
    moreover have "starts (join '','' (map ?line kvs))"
      using False by (cases kvs; cases "tl kvs") (auto simp: starts_def json_str_def is_ws_def)
    ultimately show ?thesis using starts_append starts_strip 7(2)
      by (subst scan_value.simps) (simp add: d map_of_dict_of_ok)
  qed
next
  case (1 a)
  then show ?case by (simp add: scan_value_atom scan_atom_def)
next
  case (2 a b)
  then show ?case by (simp add: scan_value_atom scan_atom_def)
qed

text \<open>Sorting the keys changes neither the contents nor the nesting of a value.\<close>

lemma dict_sorted:
  assumes "dict_ok kvs"
  shows "dict_ok (sort_key fst kvs)" "map_of (sort_key fst kvs) = map_of kvs"
  using dict_perm [of kvs "sort_key fst kvs"] assms by simp_all

lemma fst_jsort_pairs [simp]: "map (fst \<circ> (\<lambda>(k, v). (k, g v))) kvs = map fst kvs"
  by (induction kvs) auto

lemma jwf_jsort: "jwf v \<Longrightarrow> jwf (jsort v)"
proof (induction v rule: jsort.induct)
  case (2 kvs)
  then have "dict_ok (map (\<lambda>(k, v). (k, jsort v)) kvs)" by simp
  with dict_sorted(1) have "dict_ok (sort_key fst (map (\<lambda>(k, v). (k, jsort v)) kvs))" by blast
  with 2 show ?case by fastforce
qed auto

lemma jdepth_jsort: "jdepth (jsort v) = jdepth v"
proof (induction v rule: jsort.induct)
  case (1 xs)
  then have "map jdepth (map jsort xs) = map jdepth xs" by simp
  then show ?case by (simp add: image_image)
next
  case (2 kvs)
  then have "(\<lambda>(k, v). jdepth v) ` (\<lambda>(k, v). (k, jsort v)) ` set kvs = (\<lambda>(k, v). jdepth v) ` set kvs"
    by (force simp: image_image)
  then show ?case by simp
qed auto

lemma jget_jsort: "jwf v \<Longrightarrow> jget (jsort v) k = map_option jsort (jget v k)"
proof (cases v)
  case (JObj kvs)
  assume "jwf v"
  with JObj have "dict_ok (map (\<lambda>(k, v). (k, jsort v)) kvs)" by simp
  then have "map_of (sort_key fst (map (\<lambda>(k, v). (k, jsort v)) kvs)) = map_of (map (\<lambda>(k, v). (k, jsort v)) kvs)"
    by (rule dict_sorted(2))
  with JObj show ?thesis by (simp add: map_of_map)
qed simp_all

lemma is_obj_jsort [simp]: "is_obj (jsort v) = is_obj v"
  by (cases v) simp_all

text \<open>
  Parsing what was printed gives the value back, with the keys sorted, whenever the
  nesting limit admits the value.
\<close>

theorem loads_dumps:
  assumes "jwf v" "jdepth v \<le> depth"
  shows "json_loads depth (json_dumps a v) = Inr (jsort v)"
proof -
  have "starts (jdump a (jsort v))" using assms(1) by (simp add: starts_jdump jwf_jsort)
  then have "skip_ws (jdump a (jsort v)) = jdump a (jsort v)"
    using starts_append [of _ "[]"] by simp
  moreover have "scan_value depth (jdump a (jsort v) @ []) = Inr (jsort v, [])"
    using assms by (intro scan_jdump) (simp_all add: jwf_jsort jdepth_jsort)
  ultimately show ?thesis by (simp add: json_loads_def json_dumps_def)
qed

theorem json_dumps_eq_iff:
  assumes "jwf v" "jwf w"
  shows "json_dumps a v = json_dumps a w \<longleftrightarrow> jsort v = jsort w"
proof
  assume "json_dumps a v = json_dumps a w"
  then have "Inr (jsort v) = (Inr (jsort w) :: exn + json)"
    using loads_dumps [OF assms(1), of "max (jdepth v) (jdepth w)" a]
      loads_dumps [OF assms(2), of "max (jdepth v) (jdepth w)" a] by simp
  then show "jsort v = jsort w" by simp
qed (simp add: json_dumps_def)

section \<open>Encoded text is valid text\<close>

lemma hex_char_ascii: "n < 16 \<Longrightarrow> ord (hex_char n) < 128"
  by (auto simp: hex_char_def)

lemma hex4_ascii: "is_ascii (hex4 n)"
  by (simp add: hex4_def hex_char_ascii)

lemma short_esc_ascii: "short_esc c = Some e \<Longrightarrow> ord e < 128"
proof -
  assume "short_esc c = Some e"
  then have "e \<in> {CHR 0x22, CHR 0x5C, CHR ''n'', CHR ''r'', CHR ''t'', CHR ''f'', CHR ''b''}"
    by (simp add: short_esc_def split: if_splits)
  then show ?thesis by (elim insertE emptyE) simp_all
qed

lemma esc_char_ascii: "ord c < 128 \<Longrightarrow> is_ascii (esc_char c)"
  by (cases "short_esc c") (simp_all add: esc_char_def u_esc_def hex4_ascii short_esc_ascii)

lemma short_esc_dom: "short_esc c = Some e \<Longrightarrow> ord c < 128"
proof -
  assume "short_esc c = Some e"
  then have "c \<in> {CHR 0x22, CHR 0x5C, CHR 0x0A, CHR 0x0D, CHR 0x09, CHR 0x0C, CHR 0x08}"
    by (simp add: short_esc_def split: if_splits)
  then show ?thesis by (elim insertE emptyE) simp_all
qed

lemma esc_char_high: "128 \<le> ord c \<Longrightarrow> esc_char c = [c]"
  using short_esc_dom [of c] by (cases "short_esc c") (simp_all add: esc_char_def)

lemma esc_cp_ascii: "is_ascii (esc_cp n)"
  by (simp add: esc_cp_def u_esc_def hex4_ascii esc_char_ascii)

lemma esc_ascii_ascii: "is_ascii (esc_ascii s)"
proof (induction s rule: esc_ascii.induct)
  case (1 s)
  then show ?case
    by (cases "utf8_next s") (auto simp: esc_ascii.simps [of s] esc_cp_ascii)
qed

lemma esc_plain_valid: "utf8_valid s \<Longrightarrow> utf8_valid (concat (map esc_char s))"
proof (induction s rule: utf8_valid_induct)
  case (chunk s n r)
  from next_chunk [OF chunk(1)] obtain c where c: "chunk n c" "s = c @ r" by blast
  have "utf8_valid (concat (map esc_char c))"
  proof (cases "n < 128")
    case True
    with c(1) obtain a where "c = [a]" "ord a < 128"
      by (auto elim!: chunk.cases)
    then show ?thesis by (simp add: esc_char_ascii ascii_utf8_valid)
  next
    case False
    from c(1) False have "\<forall>x \<in> set c. 128 \<le> ord x"
      by cases (auto simp: cont_def)
    then have "map esc_char c = map (\<lambda>x. [x]) c"
      by (intro map_cong refl) (simp add: esc_char_high)
    then have "concat (map esc_char c) = c" by (simp only: concat_map_singleton) simp
    moreover have "utf8_valid c"
      using chunk_next [OF c(1), of "[]"] utf8_valid_step [of c n "[]"] by simp
    ultimately show ?thesis by simp
  qed
  then show ?case using chunk(3) c(2) by (simp add: utf8_valid_append)
qed simp

lemma json_str_valid: "utf8_valid s \<Longrightarrow> utf8_valid (json_str a s)"
  by (simp add: json_str_def utf8_valid_append esc_plain_valid ascii_utf8_valid esc_ascii_ascii)

lemma join_valid:
  "utf8_valid sep \<Longrightarrow> (\<And>x. x \<in> set xs \<Longrightarrow> utf8_valid x) \<Longrightarrow> utf8_valid (join sep xs)"
  by (induction sep xs rule: join.induct) (simp_all add: utf8_valid_append)

lemma digits_ascii: "(\<And>c. c \<in> set s \<Longrightarrow> is_digit c) \<Longrightarrow> is_ascii s"
  by (fastforce simp: is_ascii_def is_digit_def)

lemma takeWhile_digits_ascii [simp]: "is_ascii (takeWhile is_digit s)"
  by (rule digits_ascii) (auto dest: set_takeWhileD)

lemma num_parts_ascii:
  "num_int s = Some (x, t) \<Longrightarrow> is_ascii x" "num_frac s = (x, t) \<Longrightarrow> is_ascii x"
  "num_exp s = (x, t) \<Longrightarrow> is_ascii x"
proof -
  show "num_int s = Some (x, t) \<Longrightarrow> is_ascii x"
    by (auto simp: num_int_def simp del: takeWhile.simps split: list.splits if_splits)
  show "num_frac s = (x, t) \<Longrightarrow> is_ascii x"
    by (auto simp: num_frac_def split: list.splits if_splits)
  have "is_ascii (fst (num_sign u))" for u
    by (auto simp: num_sign_def split: list.splits)
  then show "num_exp s = (x, t) \<Longrightarrow> is_ascii x"
    by (auto simp: num_exp_def split: list.splits if_splits)
qed

lemma scan_number_ascii: "scan_number s = Some (JFloat f, t) \<Longrightarrow> is_ascii f"
  by (auto simp: scan_number_def Let_def num_parts_ascii split: option.splits prod.splits if_splits)

lemma float_lit_ascii: "float_lit f \<Longrightarrow> is_ascii f"
  by (auto simp: float_lit_def scan_number_ascii)

lemma int_str_ascii: "is_ascii (int_str i)"
  using nat_str_digits by (auto simp: int_str_def intro!: digits_ascii)

lemma jdump_valid: "jwf v \<Longrightarrow> utf8_valid (jdump a v)"
proof (induction a v rule: jdump.induct)
  case (6 a xs)
  then show ?case by (auto intro!: utf8_valid_append join_valid)
next
  case (7 a kvs)
  then show ?case by (fastforce intro!: utf8_valid_append join_valid json_str_valid)
qed (simp_all add: ascii_utf8_valid float_lit_ascii int_str_ascii json_str_valid)

lemma dumps_valid: "jwf v \<Longrightarrow> utf8_valid (json_dumps a v)"
  by (simp add: json_dumps_def jdump_valid jwf_jsort)

text \<open>\<open>json.loads(b.decode("utf-8"))\<close>, and the codec that the receipts rely on.\<close>

definition loads_bytes :: "nat \<Rightarrow> bytes \<Rightarrow> exn + json" where
  "loads_bytes depth b = bindE (utf8_decode b) (json_loads depth)"

lemma loads_bytes_dumps:
  assumes "jwf v" "jdepth v \<le> depth"
  shows "loads_bytes depth (json_dumps a v) = Inr (jsort v)"
  using assms by (simp add: loads_bytes_def utf8_decode_def dumps_valid loads_dumps)

text \<open>Canonical values (their dictionaries are sorted) are their own decoding.\<close>

definition canonical :: "nat \<Rightarrow> json \<Rightarrow> bool" where
  "canonical depth v \<longleftrightarrow> jwf v \<and> jdepth v \<le> depth \<and> jsort v = v"

interpretation json_text: codec "json_dumps a" "loads_bytes depth" "canonical depth" for a depth
  by unfold_locales (simp add: canonical_def loads_bytes_dumps)

interpretation json_url64: codec_pair "json_dumps a" "loads_bytes depth" "canonical depth"
    urlsafe_b64encode urlsafe_b64decode "\<lambda>_. True" for a depth
  by unfold_locales simp

section \<open>Errors of the decoder\<close>

definition json_error :: "exn \<Rightarrow> bool" where
  "json_error e \<longleftrightarrow> e = ValueError \<or> e = RecursionError"

lemma json_error_simps [simp]: "json_error ValueError" "json_error RecursionError"
  by (simp_all add: json_error_def)

lemma scan_str_error: "scan_str s = Inl e \<Longrightarrow> e = ValueError"
proof (induction s arbitrary: e rule: scan_str.induct)
  case (1 s)
  from "1.prems" show ?case
    by (subst (asm) scan_str.simps)
       (auto simp: prepend_def dest: "1.IH" split: list.splits if_splits option.splits sum.splits prod.splits)
qed

lemma scan_atom_error: "scan_atom s = Inl e \<Longrightarrow> e = ValueError"
  by (auto simp: scan_atom_def split: option.splits prod.splits)

lemma scan_error:
  "scan_value d s = Inl e \<Longrightarrow> json_error e"
  "scan_elems d s = Inl e \<Longrightarrow> json_error e"
  "scan_members d s = Inl e \<Longrightarrow> json_error e"
proof (induction d s and d s and d s arbitrary: e and e and e rule: scan_value_scan_elems_scan_members.induct)
  case (1 d s)
  from "1.prems" show ?case
    by (subst (asm) scan_value.simps)
       (auto simp: bindE_Inl_iff dest: scan_str_error scan_atom_error "1.IH" split: list.splits if_splits option.splits nat.splits)
next
  case (2 d s)
  from "2.prems" show ?case
    by (subst (asm) scan_elems.simps)
       (auto simp: bindE_Inl_iff dest: "2.IH" split: list.splits if_splits option.splits sum.splits prod.splits)
next
  case (3 d s)
  from "3.prems" show ?case
    by (subst (asm) scan_members.simps)
       (auto simp: bindE_Inl_iff dest: scan_str_error "3.IH" split: list.splits if_splits option.splits sum.splits prod.splits)
qed

lemma loads_bytes_error: "loads_bytes d b = Inl e \<Longrightarrow> json_error e"
  by (auto simp: loads_bytes_def json_loads_def utf8_decode_def bindE_Inl_iff dest: scan_error split: if_splits)

end
