(* ===== verification/Clock.thy ===== *)
theory Clock
  imports Text
begin

text \<open>
  \<open>datetime\<close> as the receipts and the enrollment gateway use it: the UTC time
  \<open>datetime.now(timezone.utc)\<close> (an argument of the operations that read the clock),
  \<open>strftime\<close> and \<open>strptime\<close> with the format \<open>%Y-%m-%dT%H:%M:%SZ\<close>, and the difference of two
  times in microseconds (\<open>(a - b).total_seconds()\<close> is that number divided by a million).
\<close>

record datetime =
  year :: nat
  month :: nat
  day :: nat
  hour :: nat
  minute :: nat
  second :: nat
  micro :: nat

definition is_leap :: "nat \<Rightarrow> bool" where
  "is_leap y \<longleftrightarrow> y mod 4 = 0 \<and> (y mod 100 \<noteq> 0 \<or> y mod 400 = 0)"

definition days_in_month :: "nat \<Rightarrow> nat \<Rightarrow> nat" where
  "days_in_month y m =
     (if m = 2 then (if is_leap y then 29 else 28) else if m \<in> {4, 6, 9, 11} then 30 else 31)"

text \<open>\<open>date.toordinal()\<close>: the proleptic Gregorian day number, 1 for year 1, January 1.\<close>

definition ordinal :: "nat \<Rightarrow> nat \<Rightarrow> nat \<Rightarrow> int" where
  "ordinal y m d =
     (let p = int y - 1 in
      365 * p + p div 4 - p div 100 + p div 400
      + int (sum_list (map (days_in_month y) [1..<m])) + int d)"

definition valid_datetime :: "datetime \<Rightarrow> bool" where
  "valid_datetime t \<longleftrightarrow>
     1 \<le> year t \<and> year t \<le> 9999 \<and> 1 \<le> month t \<and> month t \<le> 12 \<and>
     1 \<le> day t \<and> day t \<le> days_in_month (year t) (month t) \<and>
     hour t < 24 \<and> minute t < 60 \<and> second t < 60 \<and> micro t < 1000000"

definition seconds :: "datetime \<Rightarrow> int" where
  "seconds t =
     86400 * ordinal (year t) (month t) (day t) + int (3600 * hour t + 60 * minute t + second t)"

definition diff_us :: "datetime \<Rightarrow> datetime \<Rightarrow> int" where
  "diff_us a b = 1000000 * (seconds a - seconds b) + (int (micro a) - int (micro b))"

text \<open>\<open>abs((a - b).total_seconds()) > limit\<close>\<close>

definition out_of_window :: "datetime \<Rightarrow> datetime \<Rightarrow> int \<Rightarrow> bool" where
  "out_of_window a b limit \<longleftrightarrow> \<bar>diff_us a b\<bar> > 1000000 * limit"

text \<open>
  \<open>t.strftime("%Y-%m-%dT%H:%M:%SZ")\<close>. (The C library does not pad years before 1000; the
  model is about later ones.)
\<close>

definition strftime :: "datetime \<Rightarrow> string" where
  "strftime t =
     pad4 (year t) @ ''-'' @ pad2 (month t) @ ''-'' @ pad2 (day t) @ ''T''
     @ pad2 (hour t) @ '':'' @ pad2 (minute t) @ '':'' @ pad2 (second t) @ ''Z''"

text \<open>
  \<open>datetime.strptime(s, "%Y-%m-%dT%H:%M:%SZ")\<close>; \<open>None\<close> is its \<open>ValueError\<close>. The year has four
  digits, the other fields one or two; a day may be a blank and one digit; the letters are
  matched without regard to case; leap seconds match but no \<open>datetime\<close> has one.
\<close>

definition field :: "nat \<Rightarrow> nat \<Rightarrow> nat \<Rightarrow> nat \<Rightarrow> string \<Rightarrow> (nat \<times> string) option" where
  "field minlen maxlen lo hi s =
     (let ds = takeWhile is_digit s; n = str_nat ds in
      if minlen \<le> length ds \<and> length ds \<le> maxlen \<and> lo \<le> n \<and> n \<le> hi
      then Some (n, dropWhile is_digit s) else None)"

definition sep :: "char \<Rightarrow> (nat \<times> string) option \<Rightarrow> (nat \<times> string) option" where
  "sep c m =
     (case m of None \<Rightarrow> None
      | Some (n, []) \<Rightarrow> None
      | Some (n, x # r) \<Rightarrow> if lower_char x = lower_char c then Some (n, r) else None)"

definition day_field :: "string \<Rightarrow> (nat \<times> string) option" where
  "day_field s =
     (if take 1 s = '' '' then field 1 1 1 9 (drop 1 s) else field 1 2 1 31 s)"

definition strptime :: "string \<Rightarrow> datetime option" where
  "strptime s =
     (case sep CHR ''-'' (field 4 4 0 9999 s) of None \<Rightarrow> None | Some (y, s1) \<Rightarrow>
      case sep CHR ''-'' (field 1 2 1 12 s1) of None \<Rightarrow> None | Some (mo, s2) \<Rightarrow>
      case sep CHR ''T'' (day_field s2) of None \<Rightarrow> None | Some (d, s3) \<Rightarrow>
      case sep CHR '':'' (field 1 2 0 23 s3) of None \<Rightarrow> None | Some (h, s4) \<Rightarrow>
      case sep CHR '':'' (field 1 2 0 59 s4) of None \<Rightarrow> None | Some (mi, s5) \<Rightarrow>
      case sep CHR ''Z'' (field 1 2 0 61 s5) of None \<Rightarrow> None | Some (sc, s6) \<Rightarrow>
      if s6 \<noteq> [] \<or> y < 1 \<or> days_in_month y mo < d \<or> 59 < sc then None
      else Some \<lparr>year = y, month = mo, day = d, hour = h, minute = mi, second = sc, micro = 0\<rparr>)"

section \<open>Round trip\<close>

lemma takeWhile_pad:
  assumes "\<not> is_digit c"
  shows "takeWhile is_digit (pad2 n @ c # r) = pad2 n" "dropWhile is_digit (pad2 n @ c # r) = c # r"
    "takeWhile is_digit (pad4 n @ c # r) = pad4 n" "dropWhile is_digit (pad4 n @ c # r) = c # r"
  using assms by (simp_all add: pad2_def pad4_def)

lemma sep_field_pad2:
  "\<not> is_digit c \<Longrightarrow> n < 100 \<Longrightarrow> lo \<le> n \<Longrightarrow> n \<le> hi \<Longrightarrow>
   sep c (field 1 2 lo hi (pad2 n @ c # r)) = Some (n, r)"
  by (simp add: field_def takeWhile_pad sep_def)

lemma sep_day_pad2:
  assumes "\<not> is_digit c" "1 \<le> n" "n \<le> 31"
  shows "sep c (day_field (pad2 n @ c # r)) = Some (n, r)"
proof -
  have "is_digit (hd (pad2 n))" "\<not> is_digit CHR '' ''" by (simp_all add: pad2_def) (simp add: is_digit_def)
  then have "hd (pad2 n) \<noteq> CHR '' ''" by metis
  then have "take 1 (pad2 n @ c # r) \<noteq> '' ''" by (simp add: pad2_def)
  with assms show ?thesis by (simp add: day_field_def sep_field_pad2 del: One_nat_def)
qed

lemma sep_field_pad4:
  "\<not> is_digit c \<Longrightarrow> n < 10000 \<Longrightarrow> sep c (field 4 4 0 9999 (pad4 n @ c # r)) = Some (n, r)"
  by (simp add: field_def takeWhile_pad sep_def)

lemma not_digit_letters [simp]:
  "\<not> is_digit CHR ''-''" "\<not> is_digit CHR ''T''" "\<not> is_digit CHR ''Z''" "\<not> is_digit CHR '':''"
  by (simp_all add: is_digit_def)

lemma days_in_month_le: "days_in_month y m \<le> 31"
  by (simp add: days_in_month_def)

theorem strptime_strftime:
  assumes "valid_datetime t"
  shows "strptime (strftime t) = Some (t\<lparr>micro := 0\<rparr>)"
proof -
  have "day t \<le> 31" using assms days_in_month_le order_trans unfolding valid_datetime_def by blast
  with assms show ?thesis
    by (simp add: strptime_def strftime_def sep_field_pad2 sep_field_pad4 sep_day_pad2
          valid_datetime_def del: One_nat_def)
qed

lemma diff_us_self [simp]: "diff_us t t = 0"
  by (simp add: diff_us_def)

lemma diff_us_truncated: "diff_us t (t\<lparr>micro := 0\<rparr>) = int (micro t)"
  by (simp add: diff_us_def seconds_def)

text \<open>A time written by \<open>strftime\<close> is within one second of the clock that wrote it.\<close>

lemma fresh_in_window: "valid_datetime t \<Longrightarrow> 1 \<le> limit \<Longrightarrow> \<not> out_of_window t (t\<lparr>micro := 0\<rparr>) limit"
  by (simp add: out_of_window_def diff_us_truncated valid_datetime_def)

end
