(* ===== verification/Crypto.thy ===== *)
theory Crypto
  imports Json Clock
begin

text \<open>
  The cryptographic primitives the mesh calls, as a record of functions that every
  definition takes as its argument: the \<open>cryptography\<close> package (key loading, ECDSA on P-256)
  is not part of the repository, and of the digests of \<open>hashlib\<close> and \<open>hmac\<close> the code uses
  only that they are functions. \<open>crypto_ok\<close> collects the documented behaviour that the
  completeness theorems rely on; the safety theorems need none of it. The second part is
  the pre-authentication encoding (PAE) that all signatures are made over.
\<close>

section \<open>Primitives\<close>

text \<open>What \<open>load_der_public_key\<close> returns: a P-256 key, or a key of another kind or curve.\<close>

datatype 'k pubkey = P256 'k | OtherKey

text \<open>
  \<open>'k\<close> are P-256 public keys, \<open>'s\<close> private keys. \<open>ecdsa_sign\<close> takes the nonce of the
  signature as its second argument. Three fields stand for the limits of the interpreter's stack:
  \<open>json_depth\<close> is the nesting the JSON decoder accepts; \<open>encodes v\<close> and \<open>copies v\<close> say that
  the JSON encoder and \<open>copy.deepcopy\<close> do not raise \<open>RecursionError\<close> on the value \<open>v\<close>, which
  they do when it is nested too deeply (how much of the stack is in use at the call is not modelled).
\<close>

record ('k, 's) crypto =
  sha256_hex :: "bytes \<Rightarrow> string"
  hmac_hex :: "bytes \<Rightarrow> bytes \<Rightarrow> string"
  hmac_digest :: "bytes \<Rightarrow> bytes \<Rightarrow> bytes"
  load_der :: "bytes \<Rightarrow> exn + 'k pubkey"
  spki_der :: "'k \<Rightarrow> bytes"
  load_pem_public :: "string \<Rightarrow> exn + 'k"
  load_pem_private :: "string \<Rightarrow> exn + 's"
  public_pem :: "'k \<Rightarrow> string"
  public_key :: "'s \<Rightarrow> 'k"
  ecdsa_sign :: "'s \<Rightarrow> bytes \<Rightarrow> bytes \<Rightarrow> bytes"
  ecdsa_verify :: "'k \<Rightarrow> bytes \<Rightarrow> bytes \<Rightarrow> bool"
  json_depth :: nat
  encodes :: "json \<Rightarrow> bool"
  copies :: "json \<Rightarrow> bool"

text \<open>
  Documented behaviour: a key survives serialisation and loading, a signature made with a
  private key verifies under its public key and is not empty, serialised keys are not empty,
  digests are printed in ASCII.
\<close>

definition crypto_ok :: "('k, 's) crypto \<Rightarrow> bool" where
  "crypto_ok C \<longleftrightarrow>
     (\<forall>k. load_der C (spki_der C k) = Inr (P256 k)) \<and>
     (\<forall>k. load_pem_public C (public_pem C k) = Inr k \<and> public_pem C k \<noteq> []) \<and>
     (\<forall>s r m. ecdsa_verify C (public_key C s) (ecdsa_sign C s r m) m \<and> ecdsa_sign C s r m \<noteq> []) \<and>
     (\<forall>b. is_ascii (sha256_hex C b)) \<and>
     (\<forall>k b. is_ascii (hmac_hex C k b))"

lemma crypto_okD:
  assumes "crypto_ok C"
  shows "load_der C (spki_der C k) = Inr (P256 k)"
    and "load_pem_public C (public_pem C k) = Inr k" "public_pem C k \<noteq> []"
    and "ecdsa_verify C (public_key C s) (ecdsa_sign C s r m) m" "ecdsa_sign C s r m \<noteq> []"
    and "is_ascii (sha256_hex C b)" "is_ascii (hmac_hex C ky b)"
  using assms by (auto simp: crypto_ok_def)

text \<open>
  A toy instance for the witnesses: a key is its own serialisation, a signature is the
  message with the key in front, the digests keep the message in hexadecimal. It satisfies
  \<open>crypto_ok\<close>.
\<close>

definition to_hex :: "bytes \<Rightarrow> string" where
  "to_hex b = concat (map (\<lambda>c. [hex_char (ord c div 16), hex_char (ord c mod 16)]) b)"

lemma to_hex_ascii: "is_ascii (to_hex b)"
proof -
  have "ord c div 16 < 16" for c using ord_less [of c] by linarith
  then have "is_ascii [hex_char (ord c div 16), hex_char (ord c mod 16)]" for c
    by (simp add: hex_char_ascii)
  then show ?thesis by (auto simp: to_hex_def is_ascii_def)
qed

lemma hex_char_inj: "m < 16 \<Longrightarrow> n < 16 \<Longrightarrow> hex_char m = hex_char n \<longleftrightarrow> m = n"
  by (metis hex_val_hex_char option.inject)

lemma to_hex_inj [simp]: "to_hex a = to_hex b \<longleftrightarrow> a = b"
proof
  have div: "ord c div 16 < 16" for c using ord_less [of c] by linarith
  show "to_hex a = to_hex b \<Longrightarrow> a = b"
  proof (induction a arbitrary: b)
    case Nil
    then show ?case by (cases b) (simp_all add: to_hex_def)
  next
    case (Cons x a)
    then obtain y b' where b: "b = y # b'" by (cases b) (simp_all add: to_hex_def)
    with Cons.prems have "ord x div 16 = ord y div 16" "ord x mod 16 = ord y mod 16" "to_hex a = to_hex b'"
      using div by (simp_all add: to_hex_def hex_char_inj)
    then have "ord x = ord y" by (metis div_mult_mod_eq)
    with Cons.IH \<open>to_hex a = to_hex b'\<close> b show ?case by simp
  qed
qed simp

definition toy_crypto :: "(string, string) crypto" where
  "toy_crypto =
     \<lparr>sha256_hex = to_hex, hmac_hex = (\<lambda>k b. to_hex (k @ b)), hmac_digest = (\<lambda>k b. k @ b),
      load_der = (\<lambda>b. Inr (P256 b)), spki_der = (\<lambda>k. k),
      load_pem_public = (\<lambda>p. Inr (tl p)), load_pem_private = Inr,
      public_pem = (\<lambda>k. CHR ''-'' # k), public_key = (\<lambda>s. s),
      ecdsa_sign = (\<lambda>s r m. CHR ''S'' # s @ m),
      ecdsa_verify = (\<lambda>k g m. g = CHR ''S'' # k @ m), json_depth = 100,
      encodes = (\<lambda>_. True), copies = (\<lambda>_. True)\<rparr>"

lemma toy_crypto_ok: "crypto_ok toy_crypto"
  by (simp add: crypto_ok_def toy_crypto_def to_hex_ascii)

lemma toy_limits [simp]: "encodes toy_crypto v" "copies toy_crypto v"
  by (simp_all add: toy_crypto_def)

section \<open>Printed times are ASCII\<close>

lemma digits_ascii_pad [simp]: "is_ascii (pad2 n)" "is_ascii (pad4 n)"
  using pad_digits by (auto intro: digits_ascii)

lemma strftime_ascii [simp]: "is_ascii (strftime t)"
  by (simp add: strftime_def)

section \<open>Pre-authentication encoding\<close>

text \<open>\<open>receipts.pae\<close>: the five parts joined by blanks.\<close>

definition pae :: "string \<Rightarrow> bytes \<Rightarrow> bytes" where
  "pae payload_type payload =
     join '' '' [''DSSEv1'', nat_str (length payload_type), payload_type,
                 nat_str (length payload), payload]"

text \<open>The same encoding as the consensus engine writes it.\<close>

definition khipu_pae :: "string \<Rightarrow> bytes \<Rightarrow> bytes" where
  "khipu_pae payload_type body =
     ''DSSEv1 '' @ nat_str (length payload_type) @ '' '' @ payload_type @ '' ''
     @ nat_str (length body) @ '' '' @ body"

text \<open>And as the sovereign agent writes it.\<close>

definition agent_pae :: "string \<Rightarrow> bytes \<Rightarrow> bytes" where
  "agent_pae payload_type body =
     ''DSSEv1 '' @ nat_str (length payload_type) @ '' '' @ payload_type
     @ '' '' @ nat_str (length body) @ '' '' @ body"

lemma pae_variants: "khipu_pae t b = pae t b" "agent_pae t b = pae t b"
  by (simp_all add: khipu_pae_def agent_pae_def pae_def)

lemma nat_str_blank_inject:
  assumes "nat_str m @ CHR '' '' # x = nat_str n @ CHR '' '' # y"
  shows "m = n \<and> x = y"
proof -
  have blank: "\<not> is_digit CHR '' ''" by (simp add: is_digit_def)
  have tw: "takeWhile is_digit (nat_str k @ CHR '' '' # z) = nat_str k" for k z
    using nat_str_digits blank by (simp add: takeWhile_append2)
  have "nat_str m = nat_str n" using assms tw by metis
  with assms show ?thesis by simp
qed

lemma pae_inject: "pae t b = pae t' b' \<longleftrightarrow> t = t' \<and> b = b'"
proof
  assume eq: "pae t b = pae t' b'"
  have "nat_str (length t) @ CHR '' '' # (t @ CHR '' '' # nat_str (length b) @ CHR '' '' # b) =
    nat_str (length t') @ CHR '' '' # (t' @ CHR '' '' # nat_str (length b') @ CHR '' '' # b')"
    using eq by (simp add: pae_def)
  from nat_str_blank_inject [OF this]
  have "t = t' \<and> nat_str (length b) @ CHR '' '' # b = nat_str (length b') @ CHR '' '' # b'"
    by auto
  then show "t = t' \<and> b = b'" using nat_str_blank_inject by blast
qed simp

end
