(* ===== verification/Replica.thy ===== *)
theory Replica
  imports Prelude
begin

text \<open>
  Two interfaces of the replicated state. \<open>lww_register\<close>: what a last-writer-wins selection
  promises (one element of greatest rank per slot); \<open>replica\<close>: an add-only log of identified
  elements and a query that sees the log only. Their clients prove once that the order of
  arrival cannot be observed; the CRDT document, the laboratory and the merge service
  interpret them. Between the two, the selection loop that the sources use.
\<close>

section \<open>Last writer wins\<close>

locale lww_register =
  fixes winner :: "'a list \<Rightarrow> 'k \<Rightarrow> 'a option"
    and slot :: "'a \<Rightarrow> 'k"
    and rank :: "'a \<Rightarrow> 'r::linorder"
  assumes winner_None: "winner xs k = None \<longleftrightarrow> (\<forall>x \<in> set xs. slot x \<noteq> k)"
    and winner_in: "winner xs k = Some x \<Longrightarrow> x \<in> set xs \<and> slot x = k"
    and winner_max: "winner xs k = Some x \<Longrightarrow> y \<in> set xs \<Longrightarrow> slot y = k \<Longrightarrow> rank y \<le> rank x"
begin

lemma winner_iff:
  assumes "inj_on rank (set xs)"
  shows "winner xs k = Some x \<longleftrightarrow>
    x \<in> set xs \<and> slot x = k \<and> (\<forall>y \<in> set xs. slot y = k \<longrightarrow> rank y \<le> rank x)"
proof
  assume x: "x \<in> set xs \<and> slot x = k \<and> (\<forall>y \<in> set xs. slot y = k \<longrightarrow> rank y \<le> rank x)"
  then obtain z where z: "winner xs k = Some z" using winner_None by fastforce
  from winner_in [OF z] have zin: "z \<in> set xs" "slot z = k" by simp_all
  have "rank x \<le> rank z" using winner_max [OF z] x by simp
  moreover have "rank z \<le> rank x" using x zin by simp
  ultimately have "rank x = rank z" by (rule order_antisym)
  with assms x zin have "x = z" by (auto dest: inj_onD)
  with z show "winner xs k = Some x" by simp
qed (use winner_in winner_max in blast)

lemma winner_set_cong:
  assumes "inj_on rank (set xs)" "set xs = set ys"
  shows "winner xs k = winner ys k"
proof (cases "winner xs k")
  case None
  with assms(2) show ?thesis using winner_None by metis
next
  case (Some x)
  then have "winner ys k = Some x"
    using assms winner_iff [OF assms(1)] winner_iff [of ys k x] by simp
  with Some show ?thesis by simp
qed

lemma winner_top:
  assumes "x \<in> set xs" "\<And>y. y \<in> set xs \<Longrightarrow> y \<noteq> x \<Longrightarrow> slot y = slot x \<Longrightarrow> rank y < rank x"
  shows "winner xs (slot x) = Some x"
proof -
  from assms(1) obtain z where z: "winner xs (slot x) = Some z" using winner_None by fastforce
  with assms(1) have "z \<in> set xs" "slot z = slot x" "rank x \<le> rank z"
    using winner_in winner_max by blast+
  with assms(2) [of z] z show ?thesis by (cases "z = x") auto
qed

end

text \<open>
  The loop of the sources: an element replaces the current winner of its slot when its rank
  is strictly greater. The winners are a dictionary from slots to elements.
\<close>

definition lww_step :: "('a \<Rightarrow> 'k) \<Rightarrow> ('a \<Rightarrow> 'r::linorder) \<Rightarrow> ('k, 'a) dict \<Rightarrow> 'a \<Rightarrow> ('k, 'a) dict" where
  "lww_step slot rank w x =
     (case map_of w (slot x) of
        None \<Rightarrow> put (slot x) x w
      | Some cur \<Rightarrow> if rank cur < rank x then put (slot x) x w else w)"

definition lww_fold :: "('a \<Rightarrow> 'k) \<Rightarrow> ('a \<Rightarrow> 'r::linorder) \<Rightarrow> 'a list \<Rightarrow> ('k, 'a) dict" where
  "lww_fold slot rank xs = foldl (lww_step slot rank) [] xs"

lemma lww_fold_snoc: "lww_fold slot rank (xs @ [x]) = lww_step slot rank (lww_fold slot rank xs) x"
  by (simp add: lww_fold_def)

lemma lww_fold_ok: "dict_ok (lww_fold slot rank xs)"
  by (induction xs rule: rev_induct) (auto simp: lww_fold_def lww_step_def split: option.split)

lemma lww_fold_winner:
  "map_of (lww_fold slot rank xs) k = None \<longleftrightarrow> (\<forall>x \<in> set xs. slot x \<noteq> k)"
  "map_of (lww_fold slot rank xs) k = Some x \<Longrightarrow> x \<in> set xs \<and> slot x = k"
  "map_of (lww_fold slot rank xs) k = Some x \<Longrightarrow> y \<in> set xs \<Longrightarrow> slot y = k \<Longrightarrow> rank y \<le> rank x"
proof -
  have "(map_of (lww_fold slot rank xs) k = None \<longleftrightarrow> (\<forall>x \<in> set xs. slot x \<noteq> k)) \<and>
    (\<forall>x. map_of (lww_fold slot rank xs) k = Some x \<longrightarrow> x \<in> set xs \<and> slot x = k \<and>
      (\<forall>y \<in> set xs. slot y = k \<longrightarrow> rank y \<le> rank x))"
  proof (induction xs rule: rev_induct)
    case (snoc x xs)
    show ?case
    proof (cases "slot x = k")
      case False
      with snoc show ?thesis
        by (auto simp: lww_fold_snoc lww_step_def split: option.split if_splits)
    next
      case k: True
      show ?thesis
      proof (cases "map_of (lww_fold slot rank xs) k")
        case None
        with snoc k show ?thesis by (auto simp: lww_fold_snoc lww_step_def)
      next
        case (Some c)
        with snoc k show ?thesis
          by (auto simp: lww_fold_snoc lww_step_def dest: order.strict_implies_order)
      qed
    qed
  qed (simp add: lww_fold_def)
  then show
    "map_of (lww_fold slot rank xs) k = None \<longleftrightarrow> (\<forall>x \<in> set xs. slot x \<noteq> k)"
    "map_of (lww_fold slot rank xs) k = Some x \<Longrightarrow> x \<in> set xs \<and> slot x = k"
    "map_of (lww_fold slot rank xs) k = Some x \<Longrightarrow> y \<in> set xs \<Longrightarrow> slot y = k \<Longrightarrow> rank y \<le> rank x"
    by blast+
qed

interpretation lww: lww_register "\<lambda>xs. map_of (lww_fold slot rank xs)" slot rank for slot rank
  by unfold_locales (rule lww_fold_winner; assumption?)+

section \<open>Add-only logs\<close>

text \<open>A list of pairs that relates every key to one value is the same map in any order.\<close>

definition functional :: "('i \<times> 'v) set \<Rightarrow> bool" where
  "functional R \<longleftrightarrow> (\<forall>i v w. (i, v) \<in> R \<longrightarrow> (i, w) \<in> R \<longrightarrow> v = w)"

lemma map_of_functional:
  assumes "functional (set ps)"
  shows "map_of ps i = Some v \<longleftrightarrow> (i, v) \<in> set ps"
proof
  assume "(i, v) \<in> set ps"
  then obtain w where w: "map_of ps i = Some w" by (metis map_of_eq_None_iff not_None_eq fst_conv image_eqI)
  with \<open>(i, v) \<in> set ps\<close> assms have "w = v" unfolding functional_def by (metis map_of_SomeD)
  with w show "map_of ps i = Some v" by simp
qed (rule map_of_SomeD)

lemma map_of_functional_cong:
  assumes "functional (set ps)" "set ps = set qs"
  shows "map_of ps = map_of qs"
proof
  fix i
  show "map_of ps i = map_of qs i"
    using map_of_functional [OF assms(1), of i] map_of_functional [of qs i] assms
    by (metis option.exhaust)
qed

text \<open>
  A replica is a state with a log; adding an element files its content under its identity
  unless the identity is already present; a query sees the log only.
\<close>

locale replica =
  fixes log :: "'d \<Rightarrow> 'i \<rightharpoonup> 'v"
    and ident :: "'o \<Rightarrow> 'i"
    and content :: "'o \<Rightarrow> 'v"
    and accepts :: "'d \<Rightarrow> 'o \<Rightarrow> bool"
    and add :: "'o \<Rightarrow> 'd \<Rightarrow> 'd"
    and inv :: "'d \<Rightarrow> bool"
    and query :: "'d \<Rightarrow> 'q"
  assumes add_log: "inv d \<Longrightarrow> accepts d x \<Longrightarrow>
      log (add x d) = (if ident x \<in> dom (log d) then log d else (log d)(ident x \<mapsto> content x))"
    and add_inv: "inv d \<Longrightarrow> inv (add x d)"
    and accepts_add: "accepts (add x d) y = accepts d y"
    and query_log: "inv d \<Longrightarrow> inv e \<Longrightarrow> log d = log e \<Longrightarrow> query d = query e"
begin

abbreviation entry :: "'o \<Rightarrow> 'i \<times> 'v" where
  "entry x \<equiv> (ident x, content x)"

lemma fold_inv: "inv d \<Longrightarrow> inv (fold add xs d)"
  by (induction xs arbitrary: d) (auto simp: add_inv)

lemma fold_accepts: "accepts (fold add xs d) y = accepts d y"
  by (induction xs arbitrary: d) (auto simp: accepts_add)

text \<open>The first element of an identity wins, and an element of the log is never replaced.\<close>

lemma fold_log:
  assumes "inv d" "\<forall>x \<in> set xs. accepts d x"
  shows "log (fold add xs d) = map_of (map entry xs) ++ log d"
  using assms
proof (induction xs arbitrary: d)
  case (Cons x xs)
  then have "log (fold add xs (add x d)) = map_of (map entry xs) ++ log (add x d)"
    by (simp add: add_inv accepts_add)
  also have "\<dots> = map_of (map entry (x # xs)) ++ log d"
    using add_log [of d x] Cons.prems
    by (cases "ident x \<in> dom (log d)") (rule ext; auto simp: map_add_def split: option.split)+
  finally show ?case by (simp only: fold_simps)
qed simp

text \<open>Replicas that received the same set of elements answer every query alike.\<close>

lemma convergence:
  assumes "inv d" "inv e" "log d = log e" "\<forall>x \<in> set xs. accepts d x" "\<forall>x \<in> set ys. accepts e x"
    and "functional (entry ` set xs)" "entry ` set xs = entry ` set ys"
  shows "query (fold add xs d) = query (fold add ys e)"
proof (rule query_log)
  have "map_of (map entry xs) = map_of (map entry ys)"
    by (rule map_of_functional_cong) (use assms(6,7) in simp_all)
  then show "log (fold add xs d) = log (fold add ys e)" using assms by (simp add: fold_log)
qed (simp_all add: assms fold_inv)

text \<open>Elements that are already in the log change nothing.\<close>

lemma redelivery:
  assumes "inv d" "\<forall>x \<in> set xs. accepts d x \<and> ident x \<in> dom (log d)"
  shows "log (fold add xs d) = log d"
proof -
  have "dom (map_of (map entry xs)) \<subseteq> dom (log d)"
    using assms(2) by (auto simp: dom_map_of_conv_image_fst image_image)
  then have "map_of (map entry xs) ++ log d = log d"
    by (auto simp: map_add_def fun_eq_iff split: option.split)
  with assms show ?thesis by (simp add: fold_log)
qed

end

lemma functional_inj: "inj_on ident X \<Longrightarrow> functional ((\<lambda>x. (ident x, x)) ` X)"
  by (auto simp: functional_def dest: inj_onD)

text \<open>Relabelling the elements relabels the winners, if slots and ranks are kept.\<close>

lemma put_map: "put k (f x) (map (\<lambda>(k, x). (k, f x)) w) = map (\<lambda>(k, x). (k, f x)) (put k x w)"
  by (induction w) auto

lemma lww_fold_map:
  assumes "\<And>x. slot (f x) = slot x" "\<And>x. rank (f x) = rank x"
  shows "lww_fold slot rank (map f xs) = map (\<lambda>(k, x). (k, f x)) (lww_fold slot rank xs)"
proof (induction xs rule: rev_induct)
  case (snoc x xs)
  then show ?case
    by (cases "map_of (lww_fold slot rank xs) (slot x)")
       (simp_all add: lww_fold_snoc lww_step_def assms put_map map_of_map)
qed (simp add: lww_fold_def)

lemma map_add_agree_comm:
  assumes "\<And>i x y. m i = Some x \<Longrightarrow> n i = Some y \<Longrightarrow> x = y"
  shows "m ++ n = n ++ m"
  using assms by (fastforce simp: map_add_def fun_eq_iff split: option.split)

lemma map_add_self [simp]: "m ++ m = m"
  by (auto simp: map_add_def fun_eq_iff split: option.split)

end
