(* ===== verification/Crdt.thy ===== *)
theory Crdt
  imports Crypto Replica
begin

text \<open>
  \<open>src/szl_mesh/crdt.py\<close>: the operation log with its two tracks. An operation is a record
  \<open>op\<close>; a document is its identifier and the dictionary from operation identifiers to
  operations. The mutating methods return their result (or the exception) beside the document
  they leave behind. The interface \<open>replica\<close> is interpreted on the document, the interface
  \<open>lww_register\<close> supplies the winners of a view.
\<close>

section \<open>Operations\<close>

definition AUTHORIZED :: string where [const_defs]: "AUTHORIZED = ''AUTHORIZED''"
definition OBSERVED :: string where [const_defs]: "OBSERVED = ''OBSERVED''"
definition REVOKED :: string where [const_defs]: "REVOKED = ''REVOKED''"

lemma tracks_distinct [simp]:
  "AUTHORIZED \<noteq> OBSERVED" "OBSERVED \<noteq> AUTHORIZED" "AUTHORIZED \<noteq> REVOKED"
  "REVOKED \<noteq> AUTHORIZED" "OBSERVED \<noteq> REVOKED" "REVOKED \<noteq> OBSERVED"
  by (simp_all add: const_defs)

record op =
  op_doc_id :: string
  op_key :: string
  op_value :: json
  op_lamport :: int
  op_node_id :: string
  op_deletion :: bool
  op_track :: string

text \<open>
  The constructor copies the value and raises \<open>RecursionError\<close> on one that is nested too deeply. An
  \<open>op\<close> is an operation that has been constructed: its value has been copied, and the further copies
  of it (\<open>replace\<close> in \<open>add_op\<close>, the views, \<open>to_dict\<close>) succeed as the first one did.
\<close>

definition make_op ::
  "('k, 's) crypto \<Rightarrow> string \<Rightarrow> string \<Rightarrow> json \<Rightarrow> int \<Rightarrow> string \<Rightarrow> bool \<Rightarrow> string \<Rightarrow> exn + op" where
  "make_op C doc_id key val lamport node_id deletion track =
     (if copies C val
      then Inr \<lparr>op_doc_id = doc_id, op_key = key, op_value = val, op_lamport = lamport, op_node_id = node_id,
                op_deletion = deletion, op_track = track\<rparr>
      else Inl RecursionError)"

definition crdt_canonical :: "json \<Rightarrow> bytes" where
  "crdt_canonical v = json_dumps True v"

definition compute_op_id ::
  "('k, 's) crypto \<Rightarrow> string \<Rightarrow> string \<Rightarrow> json \<Rightarrow> int \<Rightarrow> string \<Rightarrow> bool \<Rightarrow> string" where
  "compute_op_id C doc_id key value lamport node_id deletion =
     sha256_hex C (crdt_canonical (JObj
       [(''doc'', JStr doc_id), (''key'', JStr key), (''value'', value), (''lamport'', JInt lamport),
        (''node'', JStr node_id), (''del'', JBool deletion)]))"

definition op_id :: "('k, 's) crypto \<Rightarrow> op \<Rightarrow> string" where
  "op_id C x = compute_op_id C (op_doc_id x) (op_key x) (op_value x) (op_lamport x)
     (op_node_id x) (op_deletion x)"

definition change_hash :: "('k, 's) crypto \<Rightarrow> op \<Rightarrow> string" where
  "change_hash C x = op_id C x"

definition order_key :: "('k, 's) crypto \<Rightarrow> op \<Rightarrow> int \<times> string \<times> string" where
  "order_key C x = (op_lamport x, op_node_id x, op_id C x)"

definition raw_bytes :: "op \<Rightarrow> bytes" where
  "raw_bytes x = crdt_canonical (JObj
     [(''doc'', JStr (op_doc_id x)), (''key'', JStr (op_key x)), (''value'', op_value x),
      (''lamport'', JInt (op_lamport x)), (''node'', JStr (op_node_id x)),
      (''del'', JBool (op_deletion x))])"

text \<open>
  The dictionary of \<open>to_dict\<close> with a field for each key the source writes; \<open>from_dict\<close> reads
  it back, and a key that is absent is \<open>None\<close>.
\<close>

record op_dict =
  f_doc_id :: "string option"
  f_key :: "string option"
  f_value :: "json option"
  f_lamport :: "int option"
  f_node_id :: "string option"
  f_deletion :: "bool option"
  f_track :: "string option"
  f_op_id :: "string option"

definition op_to_dict :: "('k, 's) crypto \<Rightarrow> op \<Rightarrow> op_dict" where
  "op_to_dict C x =
     \<lparr>f_doc_id = Some (op_doc_id x), f_key = Some (op_key x), f_value = Some (op_value x),
      f_lamport = Some (op_lamport x), f_node_id = Some (op_node_id x),
      f_deletion = Some (op_deletion x), f_track = Some (op_track x), f_op_id = Some (op_id C x)\<rparr>"

fun need :: "'a option \<Rightarrow> exn + 'a" where
  "need None = Inl KeyError"
| "need (Some x) = Inr x"

fun default_to :: "'a \<Rightarrow> 'a option \<Rightarrow> 'a" where
  "default_to d None = d"
| "default_to d (Some x) = x"

definition op_from_dict :: "('k, 's) crypto \<Rightarrow> op_dict \<Rightarrow> exn + op" where
  "op_from_dict C d =
     bindE (need (f_doc_id d)) (\<lambda>doc. bindE (need (f_key d)) (\<lambda>key. bindE (need (f_value d)) (\<lambda>val.
     bindE (need (f_lamport d)) (\<lambda>lam. bindE (need (f_node_id d)) (\<lambda>node.
       make_op C doc key val lam node (default_to False (f_deletion d)) (default_to OBSERVED (f_track d)))))))"

lemma op_dict_round_trip: "copies C (op_value x) \<Longrightarrow> op_from_dict C (op_to_dict C x) = Inr x"
  by (simp add: op_from_dict_def op_to_dict_def make_op_def)

section \<open>Documents\<close>

record crdt =
  cd_doc_id :: string
  cd_ops :: "(string, op) dict"

definition new_document :: "string \<Rightarrow> crdt" where
  "new_document doc_id = \<lparr>cd_doc_id = doc_id, cd_ops = []\<rparr>"

definition add_op :: "('k, 's) crypto \<Rightarrow> op \<Rightarrow> crdt \<Rightarrow> (exn + bool) \<times> crdt" where
  "add_op C x d =
     (if op_doc_id x \<noteq> cd_doc_id d then (Inl ValueError, d)
      else if map_of (cd_ops d) (op_id C x) \<noteq> None then (Inr False, d)
      else (Inr True, d\<lparr>cd_ops := put (op_id C x) x (cd_ops d)\<rparr>))"

definition set_op_track :: "string \<Rightarrow> string \<Rightarrow> crdt \<Rightarrow> crdt" where
  "set_op_track i track d =
     (case map_of (cd_ops d) i of None \<Rightarrow> d
      | Some x \<Rightarrow> d\<lparr>cd_ops := put i (x\<lparr>op_track := track\<rparr>) (cd_ops d)\<rparr>)"

text \<open>The loop of \<open>merge_ops\<close>: an exception leaves the operations added so far in the log.\<close>

fun merge_ops :: "('k, 's) crypto \<Rightarrow> op list \<Rightarrow> crdt \<Rightarrow> (exn + nat) \<times> crdt" where
  "merge_ops C [] d = (Inr 0, d)"
| "merge_ops C (x # xs) d =
     (case add_op C x d of
        (Inl e, d') \<Rightarrow> (Inl e, d')
      | (Inr new, d') \<Rightarrow>
          (case merge_ops C xs d' of
             (Inl e, d'') \<Rightarrow> (Inl e, d'')
           | (Inr n, d'') \<Rightarrow> (Inr (of_bool new + n), d'')))"

definition merge_doc :: "('k, 's) crypto \<Rightarrow> crdt \<Rightarrow> crdt \<Rightarrow> (exn + nat) \<times> crdt" where
  "merge_doc C other d =
     (if cd_doc_id other \<noteq> cd_doc_id d then (Inl ValueError, d)
      else merge_ops C (map snd (cd_ops other)) d)"

section \<open>Views\<close>

definition winners :: "('k, 's) crypto \<Rightarrow> (string \<Rightarrow> bool) \<Rightarrow> crdt \<Rightarrow> (string, op) dict" where
  "winners C tracks d =
     lww_fold op_key (order_key C) (filter (\<lambda>x. tracks (op_track x)) (map snd (cd_ops d)))"

definition materialise :: "('k, 's) crypto \<Rightarrow> string list \<Rightarrow> crdt \<Rightarrow> (string, json) dict" where
  "materialise C tracks d =
     map (\<lambda>(k, x). (k, op_value x))
       (filter (\<lambda>(k, x). \<not> op_deletion x) (sort_key fst (winners C (\<lambda>t. t \<in> set tracks) d)))"

definition authorized_view :: "('k, 's) crypto \<Rightarrow> crdt \<Rightarrow> (string, json) dict" where
  "authorized_view C d = materialise C [AUTHORIZED] d"

definition observed_view :: "('k, 's) crypto \<Rightarrow> crdt \<Rightarrow> (string, json) dict" where
  "observed_view C d = materialise C [AUTHORIZED, OBSERVED] d"

definition view :: "('k, 's) crypto \<Rightarrow> string \<Rightarrow> crdt \<Rightarrow> (string, json) dict" where
  "view C track d = (if track = AUTHORIZED then authorized_view C d else observed_view C d)"

definition heads :: "('k, 's) crypto \<Rightarrow> crdt \<Rightarrow> string list" where
  "heads C d = sort (map (\<lambda>(k, x). op_id C x) (winners C (\<lambda>t. t \<noteq> REVOKED) d))"

definition state_digest :: "('k, 's) crypto \<Rightarrow> string \<Rightarrow> crdt \<Rightarrow> string" where
  "state_digest C track d = sha256_hex C (crdt_canonical (JObj (view C track d)))"

definition all_ops :: "crdt \<Rightarrow> op list" where
  "all_ops d = map snd (sort_key fst (cd_ops d))"

definition doc_length :: "crdt \<Rightarrow> nat" where
  "doc_length d = length (cd_ops d)"

section \<open>Invariant\<close>

text \<open>Keys are the identifiers of their operations, and all operations are of this document.\<close>

definition crdt_ok :: "('k, 's) crypto \<Rightarrow> crdt \<Rightarrow> bool" where
  "crdt_ok C d \<longleftrightarrow> dict_ok (cd_ops d) \<and>
     (\<forall>(i, x) \<in> set (cd_ops d). i = op_id C x \<and> op_doc_id x = cd_doc_id d)"

lemma crdt_okD:
  "crdt_ok C d \<Longrightarrow> dict_ok (cd_ops d)"
  "crdt_ok C d \<Longrightarrow> map_of (cd_ops d) i = Some x \<Longrightarrow> i = op_id C x"
  "crdt_ok C d \<Longrightarrow> map_of (cd_ops d) i = Some x \<Longrightarrow> op_doc_id x = cd_doc_id d"
  by (auto simp: crdt_ok_def dest!: map_of_SomeD)

lemma new_document_ok [simp]: "crdt_ok C (new_document i)"
  by (simp add: crdt_ok_def new_document_def)

lemma op_id_track [simp]: "op_id C (x\<lparr>op_track := t\<rparr>) = op_id C x"
  by (simp add: op_id_def)

lemma order_key_track [simp]: "order_key C (x\<lparr>op_track := t\<rparr>) = order_key C x"
  by (simp add: order_key_def)

lemma add_op_doc_id [simp]: "cd_doc_id (snd (add_op C x d)) = cd_doc_id d"
  by (simp add: add_op_def)

lemma set_op_track_doc_id [simp]: "cd_doc_id (set_op_track i t d) = cd_doc_id d"
  by (simp add: set_op_track_def split: option.split)

lemma add_op_ok:
  assumes "crdt_ok C d"
  shows "crdt_ok C (snd (add_op C x d))"
proof -
  have "set (put (op_id C x) x (cd_ops d)) \<subseteq> insert (op_id C x, x) (set (cd_ops d))"
    using set_put [of "cd_ops d" "op_id C x" x] assms by (auto simp: crdt_ok_def)
  with assms show ?thesis unfolding crdt_ok_def add_op_def by auto
qed

lemma set_op_track_ok:
  assumes "crdt_ok C d"
  shows "crdt_ok C (set_op_track i t d)"
proof (cases "map_of (cd_ops d) i")
  case (Some x)
  have "set (put i (x\<lparr>op_track := t\<rparr>) (cd_ops d)) \<subseteq> insert (i, x\<lparr>op_track := t\<rparr>) (set (cd_ops d))"
    using set_put [of "cd_ops d" i "x\<lparr>op_track := t\<rparr>"] assms by (auto simp: crdt_ok_def)
  with assms Some crdt_okD(2,3) [OF assms Some] show ?thesis
    unfolding crdt_ok_def set_op_track_def by auto
qed (simp add: set_op_track_def assms)

lemma merge_ops_Cons:
  "snd (merge_ops C (x # xs) d) =
     (if op_doc_id x = cd_doc_id d then snd (merge_ops C xs (snd (add_op C x d))) else d)"
  by (simp add: add_op_def split: prod.split sum.split)

lemma merge_ops_fold:
  "\<forall>x \<in> set xs. op_doc_id x = cd_doc_id d \<Longrightarrow>
   snd (merge_ops C xs d) = fold (\<lambda>x d. snd (add_op C x d)) xs d"
proof (induction xs arbitrary: d)
  case (Cons x xs)
  then have "\<forall>y \<in> set xs. op_doc_id y = cd_doc_id (snd (add_op C x d))" by simp
  from Cons.IH [OF this] Cons.prems show ?case by (simp del: merge_ops.simps add: merge_ops_Cons(1))
qed simp

lemma merge_ops_doc_id [simp]: "cd_doc_id (snd (merge_ops C xs d)) = cd_doc_id d"
  by (induction xs arbitrary: d) (simp, simp del: merge_ops.simps add: merge_ops_Cons(1))

lemma merge_ops_ok: "crdt_ok C d \<Longrightarrow> crdt_ok C (snd (merge_ops C xs d))"
  by (induction xs arbitrary: d) (simp, simp del: merge_ops.simps add: merge_ops_Cons(1) add_op_ok)

lemma merge_doc_ok: "crdt_ok C d \<Longrightarrow> crdt_ok C (snd (merge_doc C e d))"
  by (simp add: merge_doc_def merge_ops_ok)

section \<open>The log as a finite map\<close>

abbreviation log_of :: "crdt \<Rightarrow> string \<rightharpoonup> op" where
  "log_of d \<equiv> map_of (cd_ops d)"

lemma add_op_log:
  "op_doc_id x = cd_doc_id d \<Longrightarrow>
   log_of (snd (add_op C x d)) =
     (if op_id C x \<in> dom (log_of d) then log_of d else (log_of d)(op_id C x \<mapsto> x))"
  by (auto simp: add_op_def)

lemma set_op_track_log:
  "log_of (set_op_track i t d) =
     (case log_of d i of None \<Rightarrow> log_of d | Some x \<Rightarrow> (log_of d)(i \<mapsto> x\<lparr>op_track := t\<rparr>))"
  by (simp add: set_op_track_def split: option.split)

text \<open>The winners depend on the log only: the order key separates the operations of a log.\<close>

lemma order_key_inj:
  assumes "crdt_ok C d"
  shows "inj_on (order_key C) (snd ` set (cd_ops d))"
proof (rule inj_onI)
  fix x y
  assume "x \<in> snd ` set (cd_ops d)" "y \<in> snd ` set (cd_ops d)" "order_key C x = order_key C y"
  then have "log_of d (op_id C x) = Some x" "log_of d (op_id C x) = Some y"
    using assms by (auto simp: crdt_ok_def order_key_def)
  then show "x = y" by simp
qed

lemma ops_of_log: "dict_ok (cd_ops d) \<Longrightarrow> snd ` set (cd_ops d) = ran (log_of d)"
  by (simp add: ran_distinct)

lemma winners_ok: "dict_ok (winners C p d)"
  by (simp add: winners_def lww_fold_ok)

lemma winners_log:
  assumes "crdt_ok C d" "crdt_ok C e" "log_of d = log_of e"
  shows "map_of (winners C p d) = map_of (winners C p e)"
proof
  fix k
  let ?f = "\<lambda>d. filter (\<lambda>x. p (op_track x)) (map snd (cd_ops d))"
  have "snd ` set (cd_ops d) = snd ` set (cd_ops e)"
    using assms ops_of_log crdt_okD(1) by metis
  then have eq: "set (?f d) = set (?f e)" by (auto simp: set_eq_iff)
  have "inj_on (order_key C) (set (?f d))"
    by (rule inj_on_subset [OF order_key_inj [OF assms(1)]]) auto
  then show "map_of (winners C p d) k = map_of (winners C p e) k"
    unfolding winners_def by (rule lww.winner_set_cong) (rule eq)
qed

lemma winners_mset:
  assumes "crdt_ok C d" "crdt_ok C e" "log_of d = log_of e"
  shows "mset (winners C p d) = mset (winners C p e)"
  by (rule dict_mset_eqI [OF winners_ok winners_ok winners_log [OF assms]])

lemma views_log:
  assumes "crdt_ok C d" "crdt_ok C e" "log_of d = log_of e"
  shows "materialise C ts d = materialise C ts e" "heads C d = heads C e" "all_ops d = all_ops e"
proof -
  have "sort_key fst (winners C p d) = sort_key fst (winners C p e)" for p
    using winners_mset [OF assms] winners_ok [of C p d] by (intro sort_key_mset_eq) (auto simp: distinct_map)
  then show "materialise C ts d = materialise C ts e" by (simp add: materialise_def)
  have "mset (map (\<lambda>(k, x). op_id C x) (winners C p d)) = mset (map (\<lambda>(k, x). op_id C x) (winners C p e))" for p
    using winners_mset [OF assms] by simp
  then show "heads C d = heads C e" unfolding heads_def by (rule sort_mset_eq)
  have "mset (cd_ops d) = mset (cd_ops e)"
    using assms crdt_okD(1) by (blast intro: dict_mset_eqI)
  then have "sort_key fst (cd_ops d) = sort_key fst (cd_ops e)"
    using crdt_okD(1) [OF assms(1)] by (intro sort_key_mset_eq) (auto simp: distinct_map)
  then show "all_ops d = all_ops e" by (simp add: all_ops_def)
qed

text \<open>Everything a reader of a document can ask for.\<close>

definition crdt_query ::
  "('k, 's) crypto \<Rightarrow> crdt \<Rightarrow> (string, json) dict \<times> (string, json) dict \<times> string list \<times> op list" where
  "crdt_query C d = (authorized_view C d, observed_view C d, heads C d, all_ops d)"

lemma crdt_query_log:
  assumes "crdt_ok C d" "crdt_ok C e" "log_of d = log_of e"
  shows "crdt_query C d = crdt_query C e"
  using views_log [OF assms] by (simp add: crdt_query_def authorized_view_def observed_view_def)

interpretation crdt: replica log_of "op_id C" "\<lambda>x. x" "\<lambda>d x. op_doc_id x = cd_doc_id d"
  "\<lambda>x d. snd (add_op C x d)" "crdt_ok C" "crdt_query C" for C :: "('k, 's) crypto"
proof unfold_locales
  show "log_of (snd (add_op C x d)) =
    (if op_id C x \<in> dom (log_of d) then log_of d else (log_of d)(op_id C x \<mapsto> x))"
    if "crdt_ok C d" "op_doc_id x = cd_doc_id d" for d x by (rule add_op_log) fact
qed (use add_op_ok crdt_query_log in \<open>(blast | simp)+\<close>)

lemma merge_ops_log:
  assumes "crdt_ok C d" "\<forall>x \<in> set xs. op_doc_id x = cd_doc_id d"
  shows "log_of (snd (merge_ops C xs d)) = map_of (map (\<lambda>x. (op_id C x, x)) xs) ++ log_of d"
  using assms by (simp add: merge_ops_fold crdt.fold_log)

lemma crdt_ok_self:
  assumes "crdt_ok C e"
  shows "map (\<lambda>x. (op_id C x, x)) (map snd (cd_ops e)) = cd_ops e"
    and "\<forall>x \<in> set (map snd (cd_ops e)). op_doc_id x = cd_doc_id e"
proof -
  show "map (\<lambda>x. (op_id C x, x)) (map snd (cd_ops e)) = cd_ops e"
    unfolding map_map by (rule map_idI) (use assms in \<open>auto simp: crdt_ok_def\<close>)
qed (use assms in \<open>auto simp: crdt_ok_def\<close>)

lemma merge_doc_log_same:
  assumes "crdt_ok C d" "crdt_ok C e" "cd_doc_id e = cd_doc_id d"
  shows "log_of (snd (merge_doc C e d)) = log_of e ++ log_of d"
proof -
  from assms crdt_ok_self(2) [OF assms(2)]
  have "\<forall>x \<in> set (map snd (cd_ops e)). op_doc_id x = cd_doc_id d" by simp
  from merge_ops_log [OF assms(1) this] show ?thesis
    by (simp add: merge_doc_def assms(3) crdt_ok_self(1) [OF assms(2)] del: map_map)
qed

lemma merge_doc_doc_id [simp]: "cd_doc_id (snd (merge_doc C e d)) = cd_doc_id d"
  by (simp add: merge_doc_def)

text \<open>What \<open>merge_ops\<close> returns: the growth of the log, or the exception of the first foreign operation.\<close>

lemma add_op_length:
  "op_doc_id x = cd_doc_id d \<Longrightarrow>
   \<exists>b. fst (add_op C x d) = Inr b \<and> doc_length (snd (add_op C x d)) = doc_length d + of_bool b"
  by (auto simp: add_op_def doc_length_def put_fresh)

lemma merge_ops_count:
  "\<forall>x \<in> set xs. op_doc_id x = cd_doc_id d \<Longrightarrow>
   fst (merge_ops C xs d) = Inr (doc_length (snd (merge_ops C xs d)) - doc_length d) \<and>
   doc_length d \<le> doc_length (snd (merge_ops C xs d))"
proof (induction xs arbitrary: d)
  case (Cons x xs)
  then obtain b where b: "fst (add_op C x d) = Inr b"
    "doc_length (snd (add_op C x d)) = doc_length d + of_bool b"
    using add_op_length [of x d C] by auto
  then obtain d' where d': "add_op C x d = (Inr b, d')" by (metis prod.collapse)
  with b Cons.prems have "\<forall>y \<in> set xs. op_doc_id y = cd_doc_id d'"
    using add_op_doc_id [of C x d] by simp
  with Cons.IH [of d'] b d' show ?case by (cases "merge_ops C xs d'") (auto split: sum.split)
qed simp

lemma merge_ops_foreign:
  "op_doc_id x \<noteq> cd_doc_id d \<Longrightarrow> \<forall>y \<in> set xs. op_doc_id y = cd_doc_id d \<Longrightarrow>
   merge_ops C (xs @ x # ys) d = (Inl ValueError, snd (merge_ops C xs d))"
proof (induction xs arbitrary: d)
  case (Cons z xs)
  then obtain b where b: "fst (add_op C z d) = Inr b"
    using add_op_length [of z d C] by auto
  then obtain d' where d': "add_op C z d = (Inr b, d')" by (metis prod.collapse)
  then have "cd_doc_id d' = cd_doc_id d" using add_op_doc_id [of C z d] by simp
  with Cons.IH [of d'] Cons.prems d' show ?case by (auto split: sum.split prod.split)
qed (simp add: add_op_def)

section \<open>What a view holds\<close>

lemma in_materialise:
  "(k, v) \<in> set (materialise C ts d) \<longleftrightarrow>
     (\<exists>x. map_of (winners C (\<lambda>t. t \<in> set ts) d) k = Some x \<and> \<not> op_deletion x \<and> v = op_value x)"
  using winners_ok [of C "\<lambda>t. t \<in> set ts" d] by (auto simp: materialise_def)

lemma keys_materialise:
  "map fst (materialise C ts d) =
   map fst (filter (\<lambda>(k, x). \<not> op_deletion x) (sort_key fst (winners C (\<lambda>t. t \<in> set ts) d)))"
  by (simp add: materialise_def case_prod_unfold)

lemma materialise_keys: "sorted (map fst (materialise C ts d))" "dict_ok (materialise C ts d)"
proof -
  show "sorted (map fst (materialise C ts d))"
    unfolding keys_materialise by (rule sorted_filter) simp
  have "dict_ok (sort_key fst (winners C (\<lambda>t. t \<in> set ts) d))"
    using winners_ok by (metis mset_map mset_sort mset_eq_imp_distinct_iff)
  then show "dict_ok (materialise C ts d)"
    unfolding keys_materialise by (rule distinct_map_filter)
qed

lemma materialise_lookup:
  "map_of (materialise C ts d) k = Some v \<longleftrightarrow>
     (\<exists>x. map_of (winners C (\<lambda>t. t \<in> set ts) d) k = Some x \<and> \<not> op_deletion x \<and> v = op_value x)"
  by (simp add: materialise_keys(2) in_materialise)

text \<open>The tracks a view admits.\<close>

definition view_tracks :: "string \<Rightarrow> string list" where
  "view_tracks t = (if t = AUTHORIZED then [AUTHORIZED] else [AUTHORIZED, OBSERVED])"

lemma view_materialise: "view C t d = materialise C (view_tracks t) d"
  by (simp add: view_def view_tracks_def authorized_view_def observed_view_def)

lemma winners_iff:
  assumes "crdt_ok C d"
  shows "map_of (winners C p d) k = Some x \<longleftrightarrow>
     x \<in> ran (log_of d) \<and> p (op_track x) \<and> op_key x = k \<and>
     (\<forall>y \<in> ran (log_of d). p (op_track y) \<longrightarrow> op_key y = k \<longrightarrow> order_key C y \<le> order_key C x)"
proof -
  let ?xs = "filter (\<lambda>x. p (op_track x)) (map snd (cd_ops d))"
  have set: "set ?xs = {x \<in> ran (log_of d). p (op_track x)}"
    using ops_of_log [of d] crdt_okD(1) [OF assms] by auto
  have "inj_on (order_key C) (set ?xs)"
    by (rule inj_on_subset [OF order_key_inj [OF assms]]) auto
  from lww.winner_iff [OF this, of op_key k x] show ?thesis
    unfolding winners_def set by auto
qed

lemma winners_add_other: "\<not> p (op_track x) \<Longrightarrow> winners C p (snd (add_op C x d)) = winners C p d"
  by (simp add: winners_def add_op_def put_fresh)

lemma filter_put_removed:
  "\<not> P x \<Longrightarrow> dict_ok d \<Longrightarrow>
   filter P (map snd (put i x d)) = filter P (map snd (filter (\<lambda>p. fst p \<noteq> i) d))"
proof (induction d)
  case (Cons a d)
  have "i \<notin> fst ` set d \<Longrightarrow> filter (\<lambda>p. fst p \<noteq> i) d = d" by (rule filter_True) force
  with Cons show ?case by (cases a) auto
qed simp

definition without_op :: "string \<Rightarrow> crdt \<Rightarrow> crdt" where
  "without_op i d = d\<lparr>cd_ops := filter (\<lambda>p. fst p \<noteq> i) (cd_ops d)\<rparr>"

lemma winners_revoke:
  assumes "dict_ok (cd_ops d)" "\<not> p t"
  shows "winners C p (set_op_track i t d) = winners C p (without_op i d)"
proof (cases "log_of d i")
  case None
  then have "filter (\<lambda>q. fst q \<noteq> i) (cd_ops d) = cd_ops d"
    by (auto simp: map_of_eq_None_iff intro!: filter_True)
  with None show ?thesis by (simp add: set_op_track_def without_op_def winners_def)
next
  case (Some x)
  with assms filter_put_removed [of "\<lambda>x. p (op_track x)" "x\<lparr>op_track := t\<rparr>" "cd_ops d" i]
  show ?thesis by (simp add: set_op_track_def without_op_def winners_def)
qed

lemma merge_ops_keeps: "log_of d i = Some x \<Longrightarrow> log_of (snd (merge_ops C xs d)) i = Some x"
proof (induction xs arbitrary: d)
  case (Cons y xs)
  then have "log_of (snd (add_op C y d)) i = Some x" by (auto simp: add_op_def)
  with Cons show ?case by (simp del: merge_ops.simps add: merge_ops_Cons(1))
qed simp

lemma op_id_raw: "op_id C x = sha256_hex C (raw_bytes x)"
  by (simp add: op_id_def compute_op_id_def raw_bytes_def)

definition op_wf :: "op \<Rightarrow> bool" where
  "op_wf x \<longleftrightarrow> utf8_valid (op_doc_id x) \<and> utf8_valid (op_key x) \<and> jwf (op_value x) \<and>
     utf8_valid (op_node_id x)"

lemma raw_bytes_eq:
  assumes "op_wf x" "op_wf y"
  shows "raw_bytes x = raw_bytes y \<longleftrightarrow>
    op_doc_id x = op_doc_id y \<and> op_key x = op_key y \<and> jsort (op_value x) = jsort (op_value y) \<and>
    op_lamport x = op_lamport y \<and> op_node_id x = op_node_id y \<and> op_deletion x = op_deletion y"
proof -
  have ok: "jwf (JObj [(''doc'', JStr (op_doc_id z)), (''key'', JStr (op_key z)), (''value'', op_value z),
      (''lamport'', JInt (op_lamport z)), (''node'', JStr (op_node_id z)), (''del'', JBool (op_deletion z))])"
    if "op_wf z" for z
    using that by (simp add: op_wf_def ascii_utf8_valid)
  show ?thesis unfolding raw_bytes_def crdt_canonical_def json_dumps_eq_iff [OF ok [OF assms(1)] ok [OF assms(2)]]
    by auto
qed

section \<open>Properties\<close>

text \<open>Operations and a document for the witnesses.\<close>

definition sample_op :: "string \<Rightarrow> int \<Rightarrow> string \<Rightarrow> op" where
  "sample_op k n t =
     \<lparr>op_doc_id = ''doc'', op_key = k, op_value = JInt n, op_lamport = n, op_node_id = ''n1'',
      op_deletion = False, op_track = t\<rparr>"

lemma sample_op_simps [simp]:
  "op_doc_id (sample_op k n t) = ''doc''" "op_key (sample_op k n t) = k"
  "op_value (sample_op k n t) = JInt n" "op_lamport (sample_op k n t) = n"
  "op_node_id (sample_op k n t) = ''n1''" "op_track (sample_op k n t) = t"
  "\<not> op_deletion (sample_op k n t)"
  by (simp_all add: sample_op_def)

lemma sample_op_wf: "is_ascii k \<Longrightarrow> op_wf (sample_op k n t)"
  by (simp add: op_wf_def ascii_utf8_valid)

lemma sample_op_id:
  "is_ascii k \<Longrightarrow> is_ascii l \<Longrightarrow>
   op_id toy_crypto (sample_op k m t) = op_id toy_crypto (sample_op l n u) \<longleftrightarrow> k = l \<and> m = n"
  using raw_bytes_eq [OF sample_op_wf sample_op_wf, of k l m t n u]
  by (simp add: op_id_raw) (simp add: toy_crypto_def)

text \<open>
  C1: Strong eventual consistency. Two replicas that start from the same well-formed document
  and receive the same set of operations of that document, in any order and with any number of
  repetitions, agree on the authorised view, the observed view, the heads, the state digest of
  every track and the exported operations, provided that an operation identifier stands for
  one operation (no digest collision, and no operation delivered with two tracks).
\<close>

theorem crdt_convergence:
  assumes "crdt_ok C d" and "\<forall>x \<in> set xs. op_doc_id x = cd_doc_id d"
    and "inj_on (op_id C) (set xs)" and "set xs = set ys"
  shows "authorized_view C (snd (merge_ops C xs d)) = authorized_view C (snd (merge_ops C ys d)) \<and>
    observed_view C (snd (merge_ops C xs d)) = observed_view C (snd (merge_ops C ys d)) \<and>
    heads C (snd (merge_ops C xs d)) = heads C (snd (merge_ops C ys d)) \<and>
    state_digest C t (snd (merge_ops C xs d)) = state_digest C t (snd (merge_ops C ys d)) \<and>
    all_ops (snd (merge_ops C xs d)) = all_ops (snd (merge_ops C ys d))"
proof -
  have "crdt_query C (snd (merge_ops C xs d)) = crdt_query C (snd (merge_ops C ys d))"
    using crdt.convergence [of C d d xs ys] functional_inj [OF assms(3)] assms by (simp add: merge_ops_fold)
  then show ?thesis by (simp add: crdt_query_def state_digest_def view_def)
qed

theorem crdt_convergence_witness:
  "let d = new_document ''doc''; a = sample_op ''x'' 1 AUTHORIZED; b = sample_op ''x'' 2 OBSERVED in
   authorized_view toy_crypto (snd (merge_ops toy_crypto [a, b] d)) =
   authorized_view toy_crypto (snd (merge_ops toy_crypto [b, a, b] d))"
proof -
  let ?d = "new_document ''doc''"
  let ?a = "sample_op ''x'' 1 AUTHORIZED" and ?b = "sample_op ''x'' 2 OBSERVED"
  have "authorized_view toy_crypto (snd (merge_ops toy_crypto [?a, ?b] ?d)) =
    authorized_view toy_crypto (snd (merge_ops toy_crypto [?b, ?a, ?b] ?d))"
  proof (rule crdt_convergence [THEN conjunct1])
    show "inj_on (op_id toy_crypto) (set [?a, ?b])" by (simp add: sample_op_id inj_on_def)
  qed (simp_all add: new_document_def crdt_ok_def insert_commute)
  then show ?thesis by (simp only: Let_def)
qed

text \<open>
  What a merge does to the log. It is the union of the two logs in which the receiver's
  own entry has precedence; hence a merge with itself changes nothing and merging is
  associative, up to what a reader of the document can see.
\<close>

theorem merge_doc_union:
  assumes "crdt_ok C a" "crdt_ok C b" "crdt_ok C c" "cd_doc_id b = cd_doc_id a" "cd_doc_id c = cd_doc_id a"
  shows "log_of (snd (merge_doc C b a)) = log_of b ++ log_of a \<and>
    crdt_query C (snd (merge_doc C a a)) = crdt_query C a \<and>
    crdt_query C (snd (merge_doc C c (snd (merge_doc C b a)))) =
    crdt_query C (snd (merge_doc C (snd (merge_doc C c b)) a))"
  using assms by (intro conjI crdt_query_log) (simp_all add: merge_doc_log_same merge_doc_ok map_add_assoc)

theorem merge_doc_union_witness:
  "let d = snd (add_op toy_crypto (sample_op ''x'' 1 OBSERVED) (new_document ''doc'')) in
   crdt_query toy_crypto (snd (merge_doc toy_crypto d d)) = crdt_query toy_crypto d"
proof -
  let ?d = "snd (add_op toy_crypto (sample_op ''x'' 1 OBSERVED) (new_document ''doc''))"
  have "crdt_ok toy_crypto ?d" by (simp add: add_op_ok)
  from merge_doc_union [OF this this this] show ?thesis by simp
qed

text \<open>
  Merging is commutative, as far as a reader can see, when the two logs agree on the
  operations they share (which includes the track they filed them under).
\<close>

theorem merge_doc_commutes:
  assumes "crdt_ok C a" "crdt_ok C b" "cd_doc_id b = cd_doc_id a"
    and "\<And>i x y. log_of a i = Some x \<Longrightarrow> log_of b i = Some y \<Longrightarrow> x = y"
  shows "crdt_query C (snd (merge_doc C b a)) = crdt_query C (snd (merge_doc C a b))"
proof (rule crdt_query_log)
  have "log_of b ++ log_of a = log_of a ++ log_of b"
    by (rule map_add_agree_comm) (use assms(4) in blast)
  with assms show "log_of (snd (merge_doc C b a)) = log_of (snd (merge_doc C a b))"
    by (simp add: merge_doc_log_same)
qed (simp_all add: assms merge_doc_ok)

theorem merge_doc_commutes_witness:
  "let a = snd (add_op toy_crypto (sample_op ''x'' 1 OBSERVED) (new_document ''doc''));
       b = snd (add_op toy_crypto (sample_op ''x'' 2 AUTHORIZED) (new_document ''doc'')) in
   crdt_query toy_crypto (snd (merge_doc toy_crypto b a)) =
   crdt_query toy_crypto (snd (merge_doc toy_crypto a b))"
proof -
  let ?d = "\<lambda>n t. snd (add_op toy_crypto (sample_op ''x'' n t) (new_document ''doc''))"
  have "crdt_query toy_crypto (snd (merge_doc toy_crypto (?d 2 AUTHORIZED) (?d 1 OBSERVED))) =
    crdt_query toy_crypto (snd (merge_doc toy_crypto (?d 1 OBSERVED) (?d 2 AUTHORIZED)))"
    by (rule merge_doc_commutes)
       (auto simp: add_op_ok new_document_def add_op_def sample_op_id crdt_ok_def split: if_splits)
  then show ?thesis by simp
qed

text \<open>
  The condition of commutativity is needed. A replica keeps the track under which it first
  filed an operation: after one replica filed it as authorised and the other as observed, the
  two exchange their logs and still disagree on the authorised view.
\<close>

theorem merge_keeps_first_track:
  assumes "\<not> op_deletion x"
  shows "let a = snd (add_op C (x\<lparr>op_track := AUTHORIZED\<rparr>) (new_document (op_doc_id x)));
             b = snd (add_op C (x\<lparr>op_track := OBSERVED\<rparr>) (new_document (op_doc_id x))) in
    authorized_view C (snd (merge_doc C b a)) = [(op_key x, op_value x)] \<and>
    authorized_view C (snd (merge_doc C a b)) = []"
  using assms
  by (simp add: add_op_def new_document_def merge_doc_def authorized_view_def materialise_def
      winners_def lww_fold_def lww_step_def)

theorem merge_keeps_first_track_witness:
  "authorized_view toy_crypto
     (snd (merge_doc toy_crypto
        (snd (add_op toy_crypto (sample_op ''x'' 1 AUTHORIZED) (new_document ''doc'')))
        (snd (add_op toy_crypto (sample_op ''x'' 1 OBSERVED) (new_document ''doc''))))) = []"
  using merge_keeps_first_track [of "sample_op ''x'' 1 OBSERVED" toy_crypto]
  by (simp only: Let_def) (simp add: sample_op_def)

text \<open>
  C22: The functional contract of both views. A key has a value exactly if, among the
  operations on it whose track the view admits, the one that is greatest in the order
  (lamport clock, node, identifier) is not a deletion, and then it has that operation's value;
  the keys of a view are sorted and occur once.
\<close>

theorem view_last_writer_wins:
  assumes "crdt_ok C d"
  shows "(map_of (view C t d) k = Some v \<longleftrightarrow>
      (\<exists>x \<in> ran (log_of d). op_track x \<in> set (view_tracks t) \<and>
        op_key x = k \<and> \<not> op_deletion x \<and> op_value x = v \<and>
        (\<forall>y \<in> ran (log_of d). op_track y \<in> set (view_tracks t) \<longrightarrow>
          op_key y = k \<longrightarrow> order_key C y \<le> order_key C x))) \<and>
    sorted (map fst (view C t d)) \<and> dict_ok (view C t d)"
  unfolding view_materialise materialise_lookup winners_iff [OF assms]
  using materialise_keys [of C "view_tracks t" d] by blast

theorem view_last_writer_wins_witness:
  "map_of (view toy_crypto AUTHORIZED
      (snd (add_op toy_crypto (sample_op ''x'' 2 AUTHORIZED) (new_document ''doc'')))) ''x'' = Some (JInt 2)"
proof -
  let ?x = "sample_op ''x'' 2 AUTHORIZED"
  let ?d = "snd (add_op toy_crypto ?x (new_document ''doc''))"
  have "crdt_ok toy_crypto ?d" by (simp add: add_op_ok)
  moreover have "ran (log_of ?d) = {?x}" by (simp add: add_op_def new_document_def)
  ultimately show ?thesis by (subst view_last_writer_wins [THEN conjunct1]) (simp_all add: view_tracks_def)
qed

text \<open>
  The authorised track is isolated. An operation that is not authorised never changes the
  authorised view, whatever its key, clock and author are.
\<close>

theorem authorized_isolated:
  assumes "op_track x \<noteq> AUTHORIZED"
  shows "authorized_view C (snd (add_op C x d)) = authorized_view C d"
  using assms by (simp add: authorized_view_def materialise_def winners_add_other)

theorem authorized_isolated_witness:
  "authorized_view toy_crypto (snd (add_op toy_crypto (sample_op ''x'' 9 OBSERVED) (new_document ''doc''))) = []"
  using authorized_isolated [of "sample_op ''x'' 9 OBSERVED" toy_crypto "new_document ''doc''"]
  by (simp add: authorized_view_def materialise_def winners_def lww_fold_def new_document_def)

text \<open>
  Revoking an operation. Both views and the heads become those of the document that never
  received it, and no later merge brings it back: its entry stays revoked.
\<close>

theorem revoke_is_removal:
  assumes "crdt_ok C d" "log_of d i = Some x"
  shows "authorized_view C (set_op_track i REVOKED d) = authorized_view C (without_op i d) \<and>
    observed_view C (set_op_track i REVOKED d) = observed_view C (without_op i d) \<and>
    heads C (set_op_track i REVOKED d) = heads C (without_op i d) \<and>
    log_of (snd (merge_ops C xs (set_op_track i REVOKED d))) i = Some (x\<lparr>op_track := REVOKED\<rparr>)"
proof (intro conjI)
  show "log_of (snd (merge_ops C xs (set_op_track i REVOKED d))) i = Some (x\<lparr>op_track := REVOKED\<rparr>)"
    by (rule merge_ops_keeps) (simp add: set_op_track_log assms(2))
qed (use crdt_okD(1) [OF assms(1)] in
  \<open>simp_all add: authorized_view_def observed_view_def materialise_def heads_def winners_revoke\<close>)

theorem revoke_is_removal_witness:
  "let x = sample_op ''x'' 1 AUTHORIZED; d = snd (add_op toy_crypto x (new_document ''doc'')) in
   heads toy_crypto (set_op_track (op_id toy_crypto x) REVOKED d) = []"
  using revoke_is_removal [of toy_crypto "snd (add_op toy_crypto (sample_op ''x'' 1 AUTHORIZED) (new_document ''doc''))"
      "op_id toy_crypto (sample_op ''x'' 1 AUTHORIZED)" "sample_op ''x'' 1 AUTHORIZED" "[]"]
  by (simp add: add_op_ok Let_def add_op_def new_document_def without_op_def heads_def winners_def lww_fold_def crdt_ok_def)

text \<open>
  Operations are content addressed. If the digest does not collide on the two encodings,
  two operations have the same identifier exactly if they have the same document, key, clock,
  author and deletion flag and values that differ at most in the order of object members; the
  track is not part of the identity.
\<close>

theorem op_id_content:
  assumes "op_wf x" "op_wf y"
    and "sha256_hex C (raw_bytes x) = sha256_hex C (raw_bytes y) \<Longrightarrow> raw_bytes x = raw_bytes y"
  shows "op_id C x = op_id C y \<longleftrightarrow>
    op_doc_id x = op_doc_id y \<and> op_key x = op_key y \<and> jsort (op_value x) = jsort (op_value y) \<and>
    op_lamport x = op_lamport y \<and> op_node_id x = op_node_id y \<and> op_deletion x = op_deletion y"
  using raw_bytes_eq [OF assms(1,2)] assms(3) by (auto simp: op_id_raw)

theorem op_id_content_witness:
  "op_id toy_crypto (sample_op ''x'' 1 OBSERVED) \<noteq> op_id toy_crypto (sample_op ''y'' 1 OBSERVED)"
  using op_id_content [of "sample_op ''x'' 1 OBSERVED" "sample_op ''y'' 1 OBSERVED" toy_crypto]
  by (simp add: sample_op_wf) (simp add: toy_crypto_def)

text \<open>
  The outcome of merging a list of operations. If all belong to the document the call
  returns the number of operations the log has grown by; the first one that does not raises
  \<open>ValueError\<close> and leaves exactly the operations before it merged.
\<close>

theorem merge_ops_outcome:
  assumes "\<forall>y \<in> set xs. op_doc_id y = cd_doc_id d"
  shows "fst (merge_ops C xs d) = Inr (doc_length (snd (merge_ops C xs d)) - doc_length d) \<and>
    (op_doc_id x \<noteq> cd_doc_id d \<longrightarrow> merge_ops C (xs @ x # ys) d = (Inl ValueError, snd (merge_ops C xs d)))"
  using merge_ops_count [OF assms] merge_ops_foreign [OF _ assms] by blast

theorem merge_ops_outcome_witness:
  "fst (merge_ops toy_crypto [sample_op ''x'' 1 OBSERVED, sample_op ''x'' 1 AUTHORIZED] (new_document ''doc'')) = Inr 1"
  using merge_ops_outcome [of "[sample_op ''x'' 1 OBSERVED, sample_op ''x'' 1 AUTHORIZED]" "new_document ''doc''" toy_crypto]
  by (simp add: new_document_def add_op_def doc_length_def sample_op_id del: merge_ops.simps)
     (simp add: add_op_def sample_op_id)

end
