(* ===== verification/Receipts.thy ===== *)
theory Receipts
  imports Crdt
begin

text \<open>
  \<open>src/szl_mesh/receipts.py\<close>: state-transition statements, their DSSE envelopes signed with
  ECDSA P-256, the verification of an envelope and the receipt gate, which decides whether an
  operation is authorised. Receipts and statements are JSON values. The gate is compared with
  a declarative specification, \<open>receipt_acceptable\<close>.
\<close>

section \<open>Constants\<close>

definition DOCTRINE_VERSION :: string where [const_defs]: "DOCTRINE_VERSION = ''749/14/163''"
definition KERNEL_COMMIT :: string where [const_defs]: "KERNEL_COMMIT = ''c7c0ba17''"
definition SLSA_LEVEL :: string where [const_defs]: "SLSA_LEVEL = ''L1''"

definition SECTION_889_VENDORS :: "string list" where [const_defs]:
  "SECTION_889_VENDORS = [''Huawei'', ''ZTE'', ''Hytera'', ''Hikvision'', ''Dahua'']"

definition PAYLOAD_TYPE :: string where [const_defs]:
  "PAYLOAD_TYPE = ''application/vnd.szl.mesh.state-transition+json''"

definition STATEMENT_TYPE :: string where [const_defs]:
  "STATEMENT_TYPE = ''szl-mesh/state-transition/v1''"

definition TRANSITION_CLASSES :: "string list" where [const_defs]:
  "TRANSITION_CLASSES = [''PLATFORM_STATUS'', ''DEPLOYMENT'', ''PACKAGE'', ''COMMAND'', ''CELL_FORMATION'']"

definition RECEIPT_VALID :: string where [const_defs]: "RECEIPT_VALID = ''RECEIPT_VALID''"
definition RECEIPT_MISSING :: string where [const_defs]: "RECEIPT_MISSING = ''MISSING_RECEIPT''"
definition RECEIPT_BAD_SIGNATURE :: string where [const_defs]: "RECEIPT_BAD_SIGNATURE = ''BAD_SIGNATURE''"
definition RECEIPT_WRONG_DOCTRINE :: string where [const_defs]: "RECEIPT_WRONG_DOCTRINE = ''WRONG_DOCTRINE''"
definition RECEIPT_WRONG_KERNEL :: string where [const_defs]: "RECEIPT_WRONG_KERNEL = ''WRONG_KERNEL''"
definition RECEIPT_REVOKED :: string where [const_defs]: "RECEIPT_REVOKED = ''REVOKED''"
definition RECEIPT_CLOCK_SKEW :: string where [const_defs]: "RECEIPT_CLOCK_SKEW = ''CLOCK_SKEW''"
definition RECEIPT_HASH_MISMATCH :: string where [const_defs]: "RECEIPT_HASH_MISMATCH = ''HASH_MISMATCH''"
definition RECEIPT_BAD_VENDORS :: string where [const_defs]: "RECEIPT_BAD_VENDORS = ''SECTION_889_VENDOR_COUNT''"

section \<open>Unpadded base64url\<close>

definition rstrip_eq :: "string \<Rightarrow> string" where
  "rstrip_eq s = rev (dropWhile (\<lambda>c. c = CHR ''='') (rev s))"

definition b64url_encode :: "bytes \<Rightarrow> string" where
  "b64url_encode b = rstrip_eq (urlsafe_b64encode b)"

definition b64url_decode :: "string \<Rightarrow> exn + bytes" where
  "b64url_decode s = urlsafe_b64decode (s @ replicate ((4 - length s mod 4) mod 4) CHR ''='')"

text \<open>On a value that is not a string, \<open>len(s)\<close> or \<open>s + pad\<close> raises \<open>TypeError\<close>.\<close>

fun b64url_decode_json :: "json \<Rightarrow> exn + bytes" where
  "b64url_decode_json (JStr s) = b64url_decode s"
| "b64url_decode_json _ = Inl TypeError"

lemma pad_count_b64encode: "length (filter (\<lambda>c. c = CHR ''='') (b64encode b)) \<le> 2"
  by (induction b rule: b64encode.induct) auto

lemma to_url_eq [simp]: "to_url c = CHR ''='' \<longleftrightarrow> c = CHR ''=''"
  by (auto simp: to_url_def)

lemma pad_count_url:
  "length (filter (\<lambda>c. c = CHR ''='') (map to_url s)) = length (filter (\<lambda>c. c = CHR ''='') s)"
  by (induction s) simp_all

lemma takeWhile_replicate: "takeWhile (\<lambda>c. c = a) xs = replicate (length (takeWhile (\<lambda>c. c = a) xs)) a"
  by (induction xs) auto

lemma takeWhile_filter_length: "length (takeWhile P xs) \<le> length (filter P xs)"
  by (induction xs) auto

lemma rstrip_eq_split:
  "\<exists>p. s = rstrip_eq s @ replicate p CHR ''='' \<and> p \<le> length (filter (\<lambda>c. c = CHR ''='') s)"
proof -
  let ?e = "\<lambda>c. c = CHR ''=''"
  let ?t = "takeWhile ?e (rev s)"
  have "rev s = ?t @ dropWhile ?e (rev s)" by simp
  then have "s = rstrip_eq s @ rev ?t" unfolding rstrip_eq_def by (metis rev_append rev_rev_ident)
  moreover have "rev ?t = replicate (length ?t) CHR ''=''" by (subst takeWhile_replicate) simp
  moreover have "length ?t \<le> length (filter ?e s)"
    using takeWhile_filter_length [of ?e "rev s"] by (simp flip: rev_filter)
  ultimately show ?thesis by metis
qed

lemma pad_arith: "(n + p) mod 4 = 0 \<Longrightarrow> p \<le> 2 \<Longrightarrow> (4 - n mod 4) mod 4 = (p :: nat)"
proof -
  assume *: "(n + p) mod 4 = 0" "p \<le> 2"
  then consider "p = 0" | "p = Suc 0" | "p = Suc (Suc 0)" by linarith
  then show "(4 - n mod 4) mod 4 = p" using *(1) by cases (auto simp: mod_Suc split: if_splits)
qed

lemma b64url_round [simp]: "b64url_decode (b64url_encode b) = Inr b"
proof -
  let ?e = "urlsafe_b64encode b"
  obtain p where p: "?e = rstrip_eq ?e @ replicate p CHR ''=''"
    "p \<le> length (filter (\<lambda>c. c = CHR ''='') ?e)"
    using rstrip_eq_split by blast
  have "p \<le> 2"
    by (rule order_trans [OF p(2)], unfold urlsafe_b64encode_def pad_count_url) (rule pad_count_b64encode)
  have "length ?e mod 4 = 0" by (simp add: urlsafe_b64encode_def length_b64encode_mod)
  then have "(length (rstrip_eq ?e) + p) mod 4 = 0" using p(1) by (metis length_append length_replicate)
  with \<open>p \<le> 2\<close> have "(4 - length (rstrip_eq ?e) mod 4) mod 4 = p" by (simp add: pad_arith)
  with p(1) have "rstrip_eq ?e @ replicate ((4 - length (rstrip_eq ?e) mod 4) mod 4) CHR ''='' = ?e" by metis
  then show ?thesis by (simp only: b64url_decode_def b64url_encode_def urlsafe_round)
qed

interpretation raw_url: codec b64url_encode b64url_decode "\<lambda>_. True"
  by unfold_locales simp

section \<open>Statements and envelopes\<close>

definition node_id_from_pubkey :: "('k, 's) crypto \<Rightarrow> 'k \<Rightarrow> string" where
  "node_id_from_pubkey C k = sha256_hex C (spki_der C k)"

definition utc_now_iso :: "datetime \<Rightarrow> string" where
  "utc_now_iso now = strftime now"

definition build_state_transition_statement ::
  "string \<Rightarrow> string \<Rightarrow> string list \<Rightarrow> string list \<Rightarrow> string \<Rightarrow> string \<Rightarrow> string option \<Rightarrow> datetime \<Rightarrow> exn + json" where
  "build_state_transition_statement doc_id change from_heads to_heads node_id transition_class timestamp now =
     (if transition_class \<notin> set TRANSITION_CLASSES then Inl ValueError
      else Inr (JObj
        [(''type'', JStr STATEMENT_TYPE),
         (''doctrine_version'', JStr DOCTRINE_VERSION),
         (''kernel_commit'', JStr KERNEL_COMMIT),
         (''crdt_document_id'', JStr doc_id),
         (''change_hash'', JStr change),
         (''from_state_head'', JList (map JStr from_heads)),
         (''to_state_head'', JList (map JStr to_heads)),
         (''transition_class'', JStr transition_class),
         (''node_id'', JStr node_id),
         (''timestamp_utc'',
            JStr (case timestamp of Some t \<Rightarrow> if t = [] then utc_now_iso now else t
                  | None \<Rightarrow> utc_now_iso now)),
         (''policy_context'', JObj
           [(''section_889_vendors'', JList (map JStr SECTION_889_VENDORS)),
            (''slsa_level'', JStr SLSA_LEVEL)])]))"

definition build_dsse_receipt :: "('k, 's) crypto \<Rightarrow> json \<Rightarrow> 's \<Rightarrow> bytes \<Rightarrow> exn + json" where
  "build_dsse_receipt C stmt priv nonce =
     (let pub = public_key C priv; signer = node_id_from_pubkey C pub in
      if jget stmt ''node_id'' \<noteq> Some (JStr signer) then Inl ValueError
      else
        let stmt_json = json_dumps True stmt; signing_input = pae PAYLOAD_TYPE stmt_json;
            sig = ecdsa_sign C priv nonce signing_input; pub_der = spki_der C pub in
        Inr (JObj
          [(''payloadType'', JStr PAYLOAD_TYPE),
           (''payload'', JStr (b64url_encode stmt_json)),
           (''signatures'', JList [JObj
             [(''keyid'', JStr signer),
              (''sig'', JStr (b64url_encode sig)),
              (''sig_alg'', JStr ''ECDSA-P256-SHA256''),
              (''sig_encoding'', JStr ''base64url''),
              (''public_key_der'', JStr (b64url_encode pub_der))]])]))"

text \<open>Subscription of a dictionary.\<close>

definition jkey :: "json \<Rightarrow> string \<Rightarrow> exn + json" where
  "jkey v k = (case jget v k of None \<Rightarrow> Inl KeyError | Some x \<Rightarrow> Inr x)"

definition decode_statement :: "('k, 's) crypto \<Rightarrow> json \<Rightarrow> exn + json" where
  "decode_statement C receipt =
     bindE (jkey receipt ''payload'') (\<lambda>p.
     bindE (b64url_decode_json p) (\<lambda>b. loads_bytes (json_depth C) b))"

text \<open>
  The \<open>try\<close> of \<open>verify_receipt_signature\<close>, in two parts: the key, the signer and the
  signature of the only entry; and the envelope around it.
\<close>

definition verify_entry :: "('k, 's) crypto \<Rightarrow> json \<Rightarrow> json \<Rightarrow> bytes \<Rightarrow> exn + bool" where
  "verify_entry C entry stmt signing_input =
     bindE (jkey entry ''public_key_der'') (\<lambda>key_b64.
     bindE (b64url_decode_json key_b64) (\<lambda>pub_der.
     bindE (load_der C pub_der) (\<lambda>pub.
     case pub of
       OtherKey \<Rightarrow> Inr False
     | P256 k \<Rightarrow>
         if jget entry ''keyid'' \<noteq> Some (JStr (node_id_from_pubkey C k)) then Inr False
         else if jget stmt ''node_id'' \<noteq> Some (JStr (node_id_from_pubkey C k)) then Inr False
         else
           bindE (jkey entry ''sig'') (\<lambda>sig_b64.
           bindE (b64url_decode_json sig_b64) (\<lambda>sig.
           if ecdsa_verify C k sig signing_input then Inr True else Inl InvalidSignature)))))"

definition verify_receipt_body :: "('k, 's) crypto \<Rightarrow> json \<Rightarrow> exn + bool" where
  "verify_receipt_body C receipt =
     (case jget receipt ''payloadType'' of
        Some (JStr payload_type) \<Rightarrow>
          bindE (jkey receipt ''signatures'') (\<lambda>signatures.
          case signatures of
            JList [entry] \<Rightarrow>
              if \<not> is_obj entry then Inr False
              else if jget entry ''sig_alg'' \<noteq> Some (JStr ''ECDSA-P256-SHA256'') then Inr False
              else
                bindE (jkey receipt ''payload'') (\<lambda>payload_b64.
                bindE (b64url_decode_json payload_b64) (\<lambda>stmt_json.
                bindE (loads_bytes (json_depth C) stmt_json) (\<lambda>stmt.
                if \<not> is_obj stmt then Inr False
                else verify_entry C entry stmt (pae payload_type stmt_json))))
          | _ \<Rightarrow> Inr False)
      | _ \<Rightarrow> Inr False)"

text \<open>The exceptions its handler names; any other escapes.\<close>

definition verify_caught :: "exn \<Rightarrow> bool" where
  "verify_caught e \<longleftrightarrow> e \<in> {InvalidSignature, KeyError, ValueError, TypeError, RecursionError}"

definition verify_receipt_signature :: "('k, 's) crypto \<Rightarrow> json \<Rightarrow> exn + bool" where
  "verify_receipt_signature C receipt =
     (case verify_receipt_body C receipt of
        Inl e \<Rightarrow> if verify_caught e then Inr False else Inl e
      | Inr b \<Rightarrow> Inr b)"

section \<open>The receipt gate\<close>

record gate_result =
  gr_track :: string
  gr_status :: string
  gr_statement :: "json option"

definition observed :: "string \<Rightarrow> json option \<Rightarrow> exn + gate_result" where
  "observed status stmt = Inr \<lparr>gr_track = OBSERVED, gr_status = status, gr_statement = stmt\<rparr>"

text \<open>
  The text of a field whose value is known to be a string. The gate uses it for the node
  identifier after the signature check, which has compared it with a string.
\<close>

fun str_or_empty :: "json option \<Rightarrow> string" where
  "str_or_empty (Some (JStr s)) = s"
| "str_or_empty _ = []"

fun timestamp_of :: "json option \<Rightarrow> datetime option" where
  "timestamp_of (Some (JStr s)) = strptime s"
| "timestamp_of _ = None"

definition decode_caught :: "exn \<Rightarrow> bool" where
  "decode_caught e \<longleftrightarrow> e \<in> {ValueError, KeyError, TypeError, RecursionError}"

text \<open>Steps 8 to 10, after the signature and the registry.\<close>

definition validate_change ::
  "('k, 's) crypto \<Rightarrow> json \<Rightarrow> bytes \<Rightarrow> datetime \<Rightarrow> string list \<Rightarrow> int \<Rightarrow> exn + gate_result" where
  "validate_change C stmt raw now revoked skew =
     (if str_or_empty (jget stmt ''node_id'') \<in> set revoked then observed RECEIPT_REVOKED (Some stmt)
      else if jget stmt ''change_hash'' \<noteq> Some (JStr (sha256_hex C raw))
      then observed RECEIPT_HASH_MISMATCH (Some stmt)
      else
        (case timestamp_of (jget stmt ''timestamp_utc'') of
           None \<Rightarrow> observed RECEIPT_CLOCK_SKEW (Some stmt)
         | Some ts \<Rightarrow>
             if out_of_window now ts skew then observed RECEIPT_CLOCK_SKEW (Some stmt)
             else Inr \<lparr>gr_track = AUTHORIZED, gr_status = RECEIPT_VALID, gr_statement = Some stmt\<rparr>))"

text \<open>The key that the first signature carries.\<close>

definition receipt_key_der :: "json \<Rightarrow> exn + bytes" where
  "receipt_key_der receipt =
     bindE (jkey receipt ''signatures'') (\<lambda>signatures.
     case signatures of
       JList (entry # _) \<Rightarrow> bindE (jkey entry ''public_key_der'') b64url_decode_json
     | _ \<Rightarrow> Inl TypeError)"

text \<open>
  The gate. A receipt that is absent or not a dictionary is any value that is not an object.
  \<open>pubkey_registry\<close> is optional: without one the check is self-consistency only.
\<close>

definition validate_receipt ::
  "('k, 's) crypto \<Rightarrow> json \<Rightarrow> bytes \<Rightarrow> datetime \<Rightarrow> string list \<Rightarrow> int \<Rightarrow> (string, bytes) dict option
    \<Rightarrow> exn + gate_result" where
  "validate_receipt C receipt raw now revoked skew registry =
     (if \<not> is_obj receipt then observed RECEIPT_MISSING None
      else if jget receipt ''payloadType'' \<noteq> Some (JStr PAYLOAD_TYPE) then observed RECEIPT_MISSING None
      else
        (case decode_statement C receipt of
           Inl e \<Rightarrow> if decode_caught e then observed RECEIPT_MISSING None else Inl e
         | Inr stmt \<Rightarrow>
             if \<not> is_obj stmt then observed RECEIPT_MISSING None
             else if jget stmt ''doctrine_version'' \<noteq> Some (JStr DOCTRINE_VERSION)
             then observed RECEIPT_WRONG_DOCTRINE (Some stmt)
             else if jget stmt ''kernel_commit'' \<noteq> Some (JStr KERNEL_COMMIT)
             then observed RECEIPT_WRONG_KERNEL (Some stmt)
             else
               (case jget stmt ''policy_context'' of
                  Some (JObj policy_context) \<Rightarrow>
                    if map_of policy_context ''section_889_vendors'' \<noteq>
                       Some (JList (map JStr SECTION_889_VENDORS))
                    then observed RECEIPT_BAD_VENDORS (Some stmt)
                    else
                      bindE (verify_receipt_signature C receipt) (\<lambda>verified.
                      if \<not> verified then observed RECEIPT_BAD_SIGNATURE (Some stmt)
                      else
                        (case registry of
                           None \<Rightarrow> validate_change C stmt raw now revoked skew
                         | Some reg \<Rightarrow>
                             bindE (receipt_key_der receipt) (\<lambda>sig_pub.
                             if map_of reg (str_or_empty (jget stmt ''node_id'')) \<noteq> Some sig_pub
                             then observed RECEIPT_BAD_SIGNATURE (Some stmt)
                             else validate_change C stmt raw now revoked skew)))
                | _ \<Rightarrow> observed RECEIPT_BAD_VENDORS (Some stmt))))"

section \<open>The gate and its specification\<close>

lemma b64url_decode_json_Inr:
  "b64url_decode_json v = Inr b \<longleftrightarrow> (\<exists>s. v = JStr s \<and> b64url_decode s = Inr b)"
  by (cases v) auto

lemma jkey_Inr: "jkey v k = Inr x \<longleftrightarrow> jget v k = Some x"
  by (simp add: jkey_def split: option.split)

lemma jget_is_obj: "jget v k = Some x \<Longrightarrow> is_obj v"
  by (cases v) auto

text \<open>Guards that answer \<open>False\<close>, in the order of the code.\<close>

lemma guard_False:
  "(if P then Inr False else m) = Inr True \<longleftrightarrow> \<not> P \<and> m = Inr True"
  "(if P then Inr True else Inl e) = Inr True \<longleftrightarrow> P"
  "(case p of OtherKey \<Rightarrow> Inr False | P256 k \<Rightarrow> f k) = Inr True \<longleftrightarrow> (\<exists>k. p = P256 k \<and> f k = Inr True)"
  by (auto split: pubkey.split)

lemma shape:
  assumes "y \<noteq> Inr False"
  shows "(case v of JList [e] \<Rightarrow> f e | _ \<Rightarrow> Inr False) = y \<longleftrightarrow> (\<exists>e. v = JList [e] \<and> f e = y)"
    and "(case m of Some (JStr t) \<Rightarrow> g t | _ \<Rightarrow> Inr False) = y \<longleftrightarrow> (\<exists>t. m = Some (JStr t) \<and> g t = y)"
proof -
  show "(case v of JList [e] \<Rightarrow> f e | _ \<Rightarrow> Inr False) = y \<longleftrightarrow> (\<exists>e. v = JList [e] \<and> f e = y)"
  proof (cases v)
    case (JList xs)
    with assms show ?thesis by (cases xs; cases "tl xs") auto
  qed (use assms in auto)
  show "(case m of Some (JStr t) \<Rightarrow> g t | _ \<Rightarrow> Inr False) = y \<longleftrightarrow> (\<exists>t. m = Some (JStr t) \<and> g t = y)"
    using assms by (cases m; cases "the m") auto
qed

lemmas shape_False = shape [of "Inr True", simplified]
lemmas shape_error = shape [of "Inl err" for err, simplified]

lemma guard_error:
  "(if P then Inr x else m) = Inl e \<longleftrightarrow> \<not> P \<and> m = Inl e"
  "(if P then Inr x else Inl e') = Inl e \<longleftrightarrow> \<not> P \<and> e' = e"
  "(case p of OtherKey \<Rightarrow> Inr x | P256 k \<Rightarrow> h k) = Inl e \<longleftrightarrow> (\<exists>k. p = P256 k \<and> h k = Inl e)"
  by (auto split: pubkey.split)

text \<open>A field that holds the base64url text of some bytes.\<close>

definition b64_field :: "json \<Rightarrow> string \<Rightarrow> bytes \<Rightarrow> bool" where
  "b64_field v k b \<longleftrightarrow> (\<exists>s. jget v k = Some (JStr s) \<and> b64url_decode s = Inr b)"

lemma b64_field_bind:
  "bindE (jkey v k) (\<lambda>x. bindE (b64url_decode_json x) f) = Inr y \<longleftrightarrow> (\<exists>b. b64_field v k b \<and> f b = Inr y)"
  by (auto simp: bindE_Inr_iff jkey_Inr b64url_decode_json_Inr b64_field_def)

lemma b64_field_unique: "b64_field v k a \<Longrightarrow> b64_field v k b \<Longrightarrow> a = b"
  by (auto simp: b64_field_def)

text \<open>
  An entry that names the P-256 key \<open>k\<close>, encoded by \<open>der\<close>, and carries a signature of the
  input that verifies under it; the statement names the same key.
\<close>

definition entry_by :: "('k, 's) crypto \<Rightarrow> json \<Rightarrow> json \<Rightarrow> bytes \<Rightarrow> bytes \<Rightarrow> 'k \<Rightarrow> bool" where
  "entry_by C entry stmt signing_input der k \<longleftrightarrow>
     b64_field entry ''public_key_der'' der \<and> load_der C der = Inr (P256 k) \<and>
     jget entry ''keyid'' = Some (JStr (node_id_from_pubkey C k)) \<and>
     jget stmt ''node_id'' = Some (JStr (node_id_from_pubkey C k)) \<and>
     (\<exists>sig. b64_field entry ''sig'' sig \<and> ecdsa_verify C k sig signing_input)"

lemma verify_entry_iff:
  "verify_entry C entry stmt m = Inr True \<longleftrightarrow> (\<exists>der k. entry_by C entry stmt m der k)"
proof -
  have "verify_entry C entry stmt m = Inr True \<longleftrightarrow>
    (\<exists>der. b64_field entry ''public_key_der'' der \<and> (\<exists>k. load_der C der = Inr (P256 k) \<and>
      jget entry ''keyid'' = Some (JStr (node_id_from_pubkey C k)) \<and>
      jget stmt ''node_id'' = Some (JStr (node_id_from_pubkey C k)) \<and>
      (\<exists>sig. b64_field entry ''sig'' sig \<and> ecdsa_verify C k sig m)))"
    unfolding verify_entry_def b64_field_bind bindE_Inr_iff [of "load_der _ _"] guard_False by blast
  then show ?thesis unfolding entry_by_def by blast
qed

text \<open>The envelope of type \<open>ty\<close> over the bytes \<open>payload\<close>, which decode to the statement.\<close>

definition signed_by ::
  "('k, 's) crypto \<Rightarrow> string \<Rightarrow> json \<Rightarrow> bytes \<Rightarrow> json \<Rightarrow> bytes \<Rightarrow> 'k \<Rightarrow> bool" where
  "signed_by C ty receipt payload stmt der k \<longleftrightarrow>
     jget receipt ''payloadType'' = Some (JStr ty) \<and>
     b64_field receipt ''payload'' payload \<and>
     loads_bytes (json_depth C) payload = Inr stmt \<and>
     (\<exists>entry. jget receipt ''signatures'' = Some (JList [entry]) \<and>
       jget entry ''sig_alg'' = Some (JStr ''ECDSA-P256-SHA256'') \<and>
       entry_by C entry stmt (pae ty payload) der k)"

lemma verify_receipt_iff:
  "verify_receipt_signature C receipt = Inr True \<longleftrightarrow> (\<exists>ty payload stmt der k. signed_by C ty receipt payload stmt der k)"
proof -
  have obj: "entry_by C entry stmt m der k \<Longrightarrow> is_obj stmt" for entry stmt m der k
    by (auto simp: entry_by_def jget_is_obj)
  have "verify_receipt_signature C receipt = Inr True \<longleftrightarrow> verify_receipt_body C receipt = Inr True"
    by (auto simp: verify_receipt_signature_def split: sum.split)
  also have "\<dots> \<longleftrightarrow> (\<exists>ty. jget receipt ''payloadType'' = Some (JStr ty) \<and>
    (\<exists>sigs. jget receipt ''signatures'' = Some sigs \<and> (\<exists>entry. sigs = JList [entry] \<and>
      is_obj entry \<and> jget entry ''sig_alg'' = Some (JStr ''ECDSA-P256-SHA256'') \<and>
      (\<exists>payload. b64_field receipt ''payload'' payload \<and> (\<exists>stmt. loads_bytes (json_depth C) payload = Inr stmt \<and>
        is_obj stmt \<and> (\<exists>der k. entry_by C entry stmt (pae ty payload) der k))))))"
    unfolding verify_receipt_body_def shape_False bindE_Inr_iff [of "jkey receipt ''signatures''"]
      bindE_Inr_iff [of "loads_bytes _ _"] guard_False b64_field_bind jkey_Inr verify_entry_iff not_not
    by (rule refl)
  also have "\<dots> \<longleftrightarrow> (\<exists>ty payload stmt der k. signed_by C ty receipt payload stmt der k)"
    unfolding signed_by_def using obj jget_is_obj by blast
  finally show ?thesis .
qed

text \<open>The result of a receipt that passes every check.\<close>

definition authorized_result :: "json \<Rightarrow> gate_result" where
  "authorized_result stmt =
     \<lparr>gr_track = AUTHORIZED, gr_status = RECEIPT_VALID, gr_statement = Some stmt\<rparr>"

text \<open>What spec/01 and spec/02 ask of a statement, apart from its signature.\<close>

definition doctrine_pinned :: "json \<Rightarrow> bool" where
  "doctrine_pinned stmt \<longleftrightarrow>
     jget stmt ''doctrine_version'' = Some (JStr DOCTRINE_VERSION) \<and>
     jget stmt ''kernel_commit'' = Some (JStr KERNEL_COMMIT) \<and>
     (\<exists>policy. jget stmt ''policy_context'' = Some policy \<and>
       jget policy ''section_889_vendors'' = Some (JList (map JStr SECTION_889_VENDORS)))"

definition receipt_acceptable ::
  "('k, 's) crypto \<Rightarrow> json \<Rightarrow> bytes \<Rightarrow> datetime \<Rightarrow> string list \<Rightarrow> int \<Rightarrow> (string, bytes) dict option
    \<Rightarrow> json \<Rightarrow> bool" where
  "receipt_acceptable C receipt raw now revoked skew registry stmt \<longleftrightarrow>
     doctrine_pinned stmt \<and>
     (\<exists>payload der k. signed_by C PAYLOAD_TYPE receipt payload stmt der k \<and>
       (\<forall>reg. registry = Some reg \<longrightarrow> map_of reg (node_id_from_pubkey C k) = Some der) \<and>
       node_id_from_pubkey C k \<notin> set revoked) \<and>
     jget stmt ''change_hash'' = Some (JStr (sha256_hex C raw)) \<and>
     (\<exists>s ts. jget stmt ''timestamp_utc'' = Some (JStr s) \<and> strptime s = Some ts \<and>
       \<not> out_of_window now ts skew)"

lemma authorized_result_inject [simp]: "authorized_result s = authorized_result t \<longleftrightarrow> s = t"
  by (simp add: authorized_result_def)

lemma guard_observed:
  "(if P then observed st r else m) = Inr (authorized_result stmt) \<longleftrightarrow> \<not> P \<and> m = Inr (authorized_result stmt)"
  "observed st r \<noteq> Inr (authorized_result stmt)"
  "(if P then Inr (authorized_result s) else observed st r) = Inr (authorized_result stmt) \<longleftrightarrow> P \<and> s = stmt"
  "(case mo of Some (JObj p) \<Rightarrow> f p | _ \<Rightarrow> observed st r) = Inr (authorized_result stmt) \<longleftrightarrow>
     (\<exists>p. mo = Some (JObj p) \<and> f p = Inr (authorized_result stmt))"
proof -
  show "(case mo of Some (JObj p) \<Rightarrow> f p | _ \<Rightarrow> observed st r) = Inr (authorized_result stmt) \<longleftrightarrow>
     (\<exists>p. mo = Some (JObj p) \<and> f p = Inr (authorized_result stmt))"
    by (cases mo; cases "the mo") (simp_all add: observed_def authorized_result_def)
qed (auto simp: observed_def authorized_result_def split: option.split)

lemma guard_time:
  "(case t of None \<Rightarrow> observed st r | Some x \<Rightarrow> g x) = Inr (authorized_result stmt) \<longleftrightarrow>
     (\<exists>x. t = Some x \<and> g x = Inr (authorized_result stmt))"
  by (auto simp: observed_def authorized_result_def split: option.split)

lemma timestamp_of_Some: "timestamp_of m = Some ts \<longleftrightarrow> (\<exists>s. m = Some (JStr s) \<and> strptime s = Some ts)"
  by (cases m rule: timestamp_of.cases) auto

lemma validate_change_iff:
  assumes "jget stmt ''node_id'' = Some (JStr n)"
  shows "validate_change C stmt raw now revoked skew = Inr (authorized_result stmt') \<longleftrightarrow>
    stmt' = stmt \<and> n \<notin> set revoked \<and> jget stmt ''change_hash'' = Some (JStr (sha256_hex C raw)) \<and>
    (\<exists>s ts. jget stmt ''timestamp_utc'' = Some (JStr s) \<and> strptime s = Some ts \<and> \<not> out_of_window now ts skew)"
  unfolding validate_change_def guard_observed(1) guard_time authorized_result_def [symmetric] timestamp_of_Some
  by (auto simp: assms guard_observed(2))

lemma signed_by_key:
  assumes "signed_by C ty receipt payload stmt der k"
  shows "decode_statement C receipt = Inr stmt" "receipt_key_der receipt = Inr der"
    "jget stmt ''node_id'' = Some (JStr (node_id_from_pubkey C k))" "is_obj receipt" "is_obj stmt"
    "jget receipt ''payloadType'' = Some (JStr ty)"
  using assms
  by (auto simp: signed_by_def entry_by_def decode_statement_def receipt_key_der_def b64_field_def jkey_def jget_is_obj)

lemma guard_decode:
  "(case d of Inl e \<Rightarrow> if c e then observed st r else Inl e | Inr s \<Rightarrow> g s) = Inr (authorized_result stmt) \<longleftrightarrow>
     (\<exists>s. d = Inr s \<and> g s = Inr (authorized_result stmt))"
  by (auto simp: observed_def authorized_result_def split: sum.split)

lemma jget_obj: "jget v k = Some x \<longleftrightarrow> (\<exists>kvs. v = JObj kvs \<and> map_of kvs k = Some x)"
  by (cases v) auto

lemma validate_unfold:
  "validate_receipt C receipt raw now revoked skew registry = Inr (authorized_result stmt') \<longleftrightarrow>
    is_obj receipt \<and> jget receipt ''payloadType'' = Some (JStr PAYLOAD_TYPE) \<and>
    (\<exists>stmt. decode_statement C receipt = Inr stmt \<and> is_obj stmt \<and> doctrine_pinned stmt \<and>
      verify_receipt_signature C receipt = Inr True \<and>
      (\<forall>reg. registry = Some reg \<longrightarrow> (\<exists>der. receipt_key_der receipt = Inr der \<and>
        map_of reg (str_or_empty (jget stmt ''node_id'')) = Some der)) \<and>
      validate_change C stmt raw now revoked skew = Inr (authorized_result stmt'))"
  unfolding validate_receipt_def guard_observed guard_decode bindE_Inr_iff not_not doctrine_pinned_def jget_obj [of _ "''section_889_vendors''"]
  by (cases registry) (auto simp: guard_observed bindE_Inr_iff)

lemma validate_iff:
  "validate_receipt C receipt raw now revoked skew registry = Inr (authorized_result stmt) \<longleftrightarrow>
   receipt_acceptable C receipt raw now revoked skew registry stmt"
proof
  assume "validate_receipt C receipt raw now revoked skew registry = Inr (authorized_result stmt)"
  then obtain stmt' where v: "decode_statement C receipt = Inr stmt'" "doctrine_pinned stmt'"
    "verify_receipt_signature C receipt = Inr True"
    "jget receipt ''payloadType'' = Some (JStr PAYLOAD_TYPE)"
    "\<forall>reg. registry = Some reg \<longrightarrow> (\<exists>der. receipt_key_der receipt = Inr der \<and>
        map_of reg (str_or_empty (jget stmt' ''node_id'')) = Some der)"
    "validate_change C stmt' raw now revoked skew = Inr (authorized_result stmt)"
    unfolding validate_unfold by blast
  from v(3) obtain ty payload stmt2 der k where s: "signed_by C ty receipt payload stmt2 der k"
    unfolding verify_receipt_iff by blast
  note k = signed_by_key [OF s]
  from k v(1,4) have eq: "stmt2 = stmt'" "ty = PAYLOAD_TYPE" by simp_all
  with k(3) have n: "jget stmt' ''node_id'' = Some (JStr (node_id_from_pubkey C k))" by simp
  from v(6) [unfolded validate_change_iff [OF n]] have c: "stmt = stmt'"
    "node_id_from_pubkey C k \<notin> set revoked" "jget stmt' ''change_hash'' = Some (JStr (sha256_hex C raw))"
    "\<exists>s ts. jget stmt' ''timestamp_utc'' = Some (JStr s) \<and> strptime s = Some ts \<and> \<not> out_of_window now ts skew"
    by simp_all
  from v(5) n k(2) have "\<forall>reg. registry = Some reg \<longrightarrow> map_of reg (node_id_from_pubkey C k) = Some der" by auto
  with s eq v(2) c show "receipt_acceptable C receipt raw now revoked skew registry stmt"
    unfolding receipt_acceptable_def by blast
next
  assume a: "receipt_acceptable C receipt raw now revoked skew registry stmt"
  then obtain payload der k where s: "signed_by C PAYLOAD_TYPE receipt payload stmt der k"
    "\<forall>reg. registry = Some reg \<longrightarrow> map_of reg (node_id_from_pubkey C k) = Some der"
    "node_id_from_pubkey C k \<notin> set revoked"
    unfolding receipt_acceptable_def by blast
  note k = signed_by_key [OF s(1)]
  have "verify_receipt_signature C receipt = Inr True"
    unfolding verify_receipt_iff using s(1) by blast
  moreover have "validate_change C stmt raw now revoked skew = Inr (authorized_result stmt)"
    unfolding validate_change_iff [OF k(3)] using a s(3) by (simp add: receipt_acceptable_def)
  moreover have "doctrine_pinned stmt" using a by (simp add: receipt_acceptable_def)
  ultimately show "validate_receipt C receipt raw now revoked skew registry = Inr (authorized_result stmt)"
    unfolding validate_unfold using k s(2) by simp
qed

text \<open>A result on the authorised track is always of that shape.\<close>

lemma observed_track [simp]: "observed st r = Inr g \<Longrightarrow> gr_track g = OBSERVED"
  by (auto simp: observed_def)

lemma validate_change_track:
  "validate_change C stmt raw now revoked skew = Inr g \<Longrightarrow>
   gr_track g = OBSERVED \<or> g = authorized_result stmt"
  unfolding validate_change_def
  by (auto simp: authorized_result_def split: if_splits option.splits)

lemma validate_track:
  assumes "validate_receipt C receipt raw now revoked skew registry = Inr g"
  shows "gr_track g = OBSERVED \<or> (\<exists>stmt. g = authorized_result stmt)"
  using assms unfolding validate_receipt_def
  by (auto simp: bindE_Inr_iff dest!: validate_change_track split: if_splits sum.splits option.splits json.splits)

text \<open>Which exceptions leave the gate: only what key loading raises beyond the handler's list.\<close>

lemma b64url_decode_json_error: "b64url_decode_json v = Inl e \<Longrightarrow> e = ValueError \<or> e = TypeError"
  by (cases v) (auto simp: b64url_decode_def dest: urlsafe_error)

lemma jkey_error: "jkey v k = Inl e \<Longrightarrow> e = KeyError"
  by (simp add: jkey_def split: option.splits)

lemma verify_entry_error:
  "verify_entry C entry stmt m = Inl e \<Longrightarrow> verify_caught e \<or> (\<exists>b. load_der C b = Inl e)"
  unfolding verify_entry_def bindE_Inl_iff guard_error
  by (auto simp: verify_caught_def dest!: jkey_error b64url_decode_json_error)

lemma loads_bytes_caught: "loads_bytes d b = Inl e \<Longrightarrow> verify_caught e \<and> decode_caught e"
  by (drule loads_bytes_error) (auto simp: json_error_def verify_caught_def decode_caught_def)

lemma verify_body_error:
  assumes "verify_receipt_body C receipt = Inl e"
  shows "verify_caught e \<or> (\<exists>b. load_der C b = Inl e)"
  using assms unfolding verify_receipt_body_def bindE_Inl_iff guard_error shape_error
  by (auto dest!: verify_entry_error jkey_error b64url_decode_json_error loads_bytes_caught)
     (simp_all add: verify_caught_def)

lemma decode_statement_error: "decode_statement C receipt = Inl e \<Longrightarrow> decode_caught e"
  unfolding decode_statement_def
  by (auto simp: bindE_Inl_iff decode_caught_def[of KeyError] dest!: jkey_error b64url_decode_json_error loads_bytes_caught)
     (simp_all add: decode_caught_def)

lemma verify_error:
  "verify_receipt_signature C receipt = Inl e \<Longrightarrow> \<not> verify_caught e \<and> (\<exists>b. load_der C b = Inl e)"
  using verify_body_error [of C receipt e]
  by (auto simp: verify_receipt_signature_def split: sum.splits if_splits)

lemma verified_key_der:
  "verify_receipt_signature C receipt = Inr True \<Longrightarrow> receipt_key_der receipt \<noteq> Inl e"
  unfolding verify_receipt_iff by (auto dest: signed_by_key(2))

lemma validate_change_total: "validate_change C stmt raw now revoked skew \<noteq> Inl e"
  by (simp add: validate_change_def observed_def split: option.split)

lemma validate_raises:
  assumes "validate_receipt C receipt raw now revoked skew registry = Inl e"
  shows "verify_receipt_signature C receipt = Inl e"
proof -
  have no: "observed st r \<noteq> Inl e'" for st r e' by (simp add: observed_def)
  from assms show ?thesis
    unfolding validate_receipt_def
    by (auto simp: bindE_Inl_iff no validate_change_total verified_key_der decode_statement_error
        split: if_splits sum.splits option.splits json.splits dest!: decode_statement_error)
qed

lemma validate_error:
  "validate_receipt C receipt raw now revoked skew registry = Inl e \<Longrightarrow>
   \<not> verify_caught e \<and> (\<exists>b. load_der C b = Inl e)"
  by (drule validate_raises) (rule verify_error)

text \<open>
  Whether the gate raises depends on the receipt alone: not on the change, the time, the
  revocations or the registry.
\<close>

definition answerable :: "('k, 's) crypto \<Rightarrow> json \<Rightarrow> bool" where
  "answerable C receipt \<longleftrightarrow>
     (\<exists>g. validate_receipt C receipt [] \<lparr>year = 0, month = 0, day = 0, hour = 0, minute = 0, second = 0, micro = 0\<rparr>
        [] 0 None = Inr g)"

lemma raises_same:
  assumes "validate_receipt C receipt raw now revoked skew registry = Inl e"
  shows "validate_receipt C receipt raw' now' revoked' skew' registry' = Inl e"
proof -
  have no: "observed st r \<noteq> Inl e'" for st r e' by (simp add: observed_def)
  note v = validate_raises [OF assms]
  from assms show ?thesis
    unfolding validate_receipt_def
    by (auto simp: v no split: if_splits sum.splits option.splits json.splits)
qed

lemma answerable_iff:
  "answerable C receipt \<longleftrightarrow> (\<exists>g. validate_receipt C receipt raw now revoked skew registry = Inr g)"
  using raises_same unfolding answerable_def by (metis sum.exhaust sum.simps(4))

lemma answerable_JNull [simp]: "answerable C JNull"
  by (simp add: answerable_def validate_receipt_def observed_def)

section \<open>Building and validating\<close>

lemma const_ascii [simp]:
  "is_ascii DOCTRINE_VERSION" "is_ascii KERNEL_COMMIT" "is_ascii SLSA_LEVEL" "is_ascii PAYLOAD_TYPE"
  "is_ascii STATEMENT_TYPE" "v \<in> set SECTION_889_VENDORS \<Longrightarrow> is_ascii v"
  "c \<in> set TRANSITION_CLASSES \<Longrightarrow> is_ascii c"
  by (auto simp: const_defs)

text \<open>The statement as a value, for a class the constructor accepts.\<close>

abbreviation statement_of :: "string \<Rightarrow> string \<Rightarrow> string list \<Rightarrow> string list \<Rightarrow> string \<Rightarrow> string \<Rightarrow> string \<Rightarrow> json" where
  "statement_of doc_id change from_heads to_heads node_id cls ts \<equiv> JObj
        [(''type'', JStr STATEMENT_TYPE),
         (''doctrine_version'', JStr DOCTRINE_VERSION),
         (''kernel_commit'', JStr KERNEL_COMMIT),
         (''crdt_document_id'', JStr doc_id),
         (''change_hash'', JStr change),
         (''from_state_head'', JList (map JStr from_heads)),
         (''to_state_head'', JList (map JStr to_heads)),
         (''transition_class'', JStr cls),
         (''node_id'', JStr node_id),
         (''timestamp_utc'', JStr ts),
         (''policy_context'', JObj
           [(''section_889_vendors'', JList (map JStr SECTION_889_VENDORS)),
            (''slsa_level'', JStr SLSA_LEVEL)])]"

lemma statement_wf:
  assumes "utf8_valid doc_id" "is_ascii change" "\<forall>h \<in> set (from_heads @ to_heads). is_ascii h"
    "is_ascii node_id" "cls \<in> set TRANSITION_CLASSES" "is_ascii ts"
  shows "jwf (statement_of doc_id change from_heads to_heads node_id cls ts)"
  using assms by (auto simp: ascii_utf8_valid)

lemma jdepth_strings: "jdepth (JList (map JStr xs)) = 1"
proof -
  have "set (0 # map jdepth (map JStr xs)) = {0}" by auto
  then show ?thesis by (simp only: jdepth.simps Max_singleton)
qed

lemma statement_depth: "jdepth (statement_of doc_id change from_heads to_heads node_id cls ts) \<le> 3"
  by (simp add: jdepth_strings del: jdepth.simps(1)) 

lemma jsort_strings: "map jsort (map JStr xs) = map JStr xs"
  by simp

lemma statement_fields:
  assumes "jwf (statement_of d c fh th n cls ts)"
  defines "stmt \<equiv> jsort (statement_of d c fh th n cls ts)"
  shows "doctrine_pinned stmt" "jget stmt ''node_id'' = Some (JStr n)" "jget stmt ''change_hash'' = Some (JStr c)"
    "jget stmt ''timestamp_utc'' = Some (JStr ts)"
proof -
  have "jwf (JObj [(''section_889_vendors'', JList (map JStr SECTION_889_VENDORS)), (''slsa_level'', JStr SLSA_LEVEL)])"
    by (auto simp: ascii_utf8_valid)
  from jget_jsort [OF this, of "''section_889_vendors''"]
  have "jget (jsort (JObj [(''section_889_vendors'', JList (map JStr SECTION_889_VENDORS)), (''slsa_level'', JStr SLSA_LEVEL)]))
      ''section_889_vendors'' = Some (JList (map JStr SECTION_889_VENDORS))"
    by (simp add: comp_def del: jsort.simps(2))
  then show "doctrine_pinned stmt"
    unfolding doctrine_pinned_def stmt_def jget_jsort [OF assms(1)] by (simp del: jsort.simps(2))
qed (simp_all add: stmt_def jget_jsort [OF assms(1)] del: jsort.simps(2))

lemma build_dsse_signed:
  assumes C: "load_der C (spki_der C (public_key C priv)) = Inr (P256 (public_key C priv))"
      "\<And>m. ecdsa_verify C (public_key C priv) (ecdsa_sign C priv nonce m) m \<or> m \<noteq> pae PAYLOAD_TYPE (json_dumps True stmt)"
    and stmt: "jwf stmt" "jdepth stmt \<le> json_depth C"
    and node: "jget stmt ''node_id'' = Some (JStr (node_id_from_pubkey C (public_key C priv)))"
  shows "\<exists>r. build_dsse_receipt C stmt priv nonce = Inr r \<and>
    signed_by C PAYLOAD_TYPE r (json_dumps True stmt) (jsort stmt) (spki_der C (public_key C priv)) (public_key C priv)"
proof -
  have "jget (jsort stmt) ''node_id'' = Some (JStr (node_id_from_pubkey C (public_key C priv)))"
    by (simp add: jget_jsort stmt(1) node)
  then show ?thesis
    using node C(1) C(2) [of "pae PAYLOAD_TYPE (json_dumps True stmt)"] stmt
    by (simp add: build_dsse_receipt_def signed_by_def entry_by_def b64_field_def loads_bytes_dumps Let_def)
qed

lemma honest_receipt:
  assumes "crypto_ok C" "3 \<le> json_depth C" "utf8_valid doc_id" "\<forall>h \<in> set (fh @ th). is_ascii h"
    and "cls \<in> set TRANSITION_CLASSES" "valid_datetime now"
    and "n = node_id_from_pubkey C (public_key C priv)"
  shows "\<exists>stmt r. build_state_transition_statement doc_id (sha256_hex C raw) fh th n cls None now = Inr stmt \<and>
    build_dsse_receipt C stmt priv nonce = Inr r \<and> verify_receipt_signature C r = Inr True \<and> r \<noteq> JNull \<and>
    (\<forall>now' revoked skew registry. \<not> out_of_window now' (now\<lparr>micro := 0\<rparr>) skew \<longrightarrow> n \<notin> set revoked \<longrightarrow>
      (\<forall>reg. registry = Some reg \<longrightarrow> map_of reg n = Some (spki_der C (public_key C priv))) \<longrightarrow>
      validate_receipt C r raw now' revoked skew registry = Inr (authorized_result (jsort stmt)))"
proof -
  let ?stmt = "statement_of doc_id (sha256_hex C raw) fh th n cls (strftime now)"
  have ascii: "is_ascii n" "is_ascii (sha256_hex C raw)"
    using crypto_okD(6) [OF assms(1)] assms(7) by (simp_all add: node_id_from_pubkey_def)
  have wf: "jwf ?stmt" by (rule statement_wf) (use assms ascii in simp_all)
  note fields = statement_fields [OF wf]
  have node: "jget ?stmt ''node_id'' = Some (JStr (node_id_from_pubkey C (public_key C priv)))"
    using assms(7) by simp
  have depth: "jdepth ?stmt \<le> json_depth C" using statement_depth assms(2) by (rule order_trans)
  from build_dsse_signed [OF _ _ wf depth node] crypto_okD(1,4) [OF assms(1)] obtain r where
    r: "build_dsse_receipt C ?stmt priv nonce = Inr r" and
    s: "signed_by C PAYLOAD_TYPE r (json_dumps True ?stmt) (jsort ?stmt) (spki_der C (public_key C priv)) (public_key C priv)"
    by blast
  have "receipt_acceptable C r raw now' revoked skew registry (jsort ?stmt)"
    if "\<not> out_of_window now' (now\<lparr>micro := 0\<rparr>) skew" "n \<notin> set revoked"
      "\<forall>reg. registry = Some reg \<longrightarrow> map_of reg n = Some (spki_der C (public_key C priv))" for now' revoked skew registry
    unfolding receipt_acceptable_def
    using fields s assms(7) that strptime_strftime [OF assms(6)] by blast
  moreover have "build_state_transition_statement doc_id (sha256_hex C raw) fh th n cls None now = Inr ?stmt"
    using assms(5) by (simp add: build_state_transition_statement_def utc_now_iso_def)
  moreover have "r \<noteq> JNull" using signed_by_key(4) [OF s] by auto
  moreover have "verify_receipt_signature C r = Inr True" unfolding verify_receipt_iff using s by blast
  ultimately show ?thesis using r by (intro exI conjI allI impI) (simp_all only: validate_iff)
qed

section \<open>Properties\<close>

definition sample_time :: datetime where
  "sample_time = \<lparr>year = 2025, month = 6, day = 1, hour = 12, minute = 30, second = 5, micro = 0\<rparr>"

lemma sample_time_valid: "valid_datetime sample_time"
  by (simp add: sample_time_def valid_datetime_def days_in_month_def)

text \<open>
  C2: Soundness and completeness of the receipt gate. Its sequence of early returns answers
  \<open>AUTHORIZED\<close> for exactly the receipts that the specification accepts: a pinned statement,
  signed under PAE by the P-256 key that the envelope, the statement and (when there is one)
  the registry of enrolled keys name, by a signer that is not revoked, over the hash of these
  very change bytes, and with a timestamp within the skew window.
\<close>

theorem receipt_gate_refines_spec:
  "(\<exists>g. validate_receipt C receipt raw now revoked skew registry = Inr g \<and> gr_track g = AUTHORIZED \<and>
      gr_statement g = Some stmt) \<longleftrightarrow>
   receipt_acceptable C receipt raw now revoked skew registry stmt"
proof -
  have "(\<exists>g. validate_receipt C receipt raw now revoked skew registry = Inr g \<and> gr_track g = AUTHORIZED \<and>
      gr_statement g = Some stmt) \<longleftrightarrow>
    validate_receipt C receipt raw now revoked skew registry = Inr (authorized_result stmt)"
  proof
    assume "\<exists>g. validate_receipt C receipt raw now revoked skew registry = Inr g \<and> gr_track g = AUTHORIZED \<and>
      gr_statement g = Some stmt"
    then obtain g where g: "validate_receipt C receipt raw now revoked skew registry = Inr g"
      "gr_track g = AUTHORIZED" "gr_statement g = Some stmt" by blast
    with validate_track [OF g(1)] have "g = authorized_result stmt" by (auto simp: authorized_result_def)
    with g(1) show "validate_receipt C receipt raw now revoked skew registry = Inr (authorized_result stmt)" by simp
  qed (simp add: authorized_result_def)
  with validate_iff show ?thesis by simp
qed

text \<open>
  C23: Round trip from building to validating. With documented behaviour of the cryptographic
  library, a statement built by a node for a change, signed with its key and checked at the
  same time by a gate that knows the key and has not revoked it, verifies and is authorised.
\<close>

theorem receipt_round_trip:
  assumes "crypto_ok C" "3 \<le> json_depth C" "utf8_valid doc_id" "\<forall>h \<in> set (fh @ th). is_ascii h"
    and "cls \<in> set TRANSITION_CLASSES" "valid_datetime now" "1 \<le> skew"
    and "n = node_id_from_pubkey C (public_key C priv)" "n \<notin> set revoked"
    and "\<forall>reg. registry = Some reg \<longrightarrow> map_of reg n = Some (spki_der C (public_key C priv))"
  shows "\<exists>stmt r. build_state_transition_statement doc_id (sha256_hex C raw) fh th n cls None now = Inr stmt \<and>
    build_dsse_receipt C stmt priv nonce = Inr r \<and> verify_receipt_signature C r = Inr True \<and>
    validate_receipt C r raw now revoked skew registry = Inr (authorized_result (jsort stmt))"
  using honest_receipt [OF assms(1-6,8), of raw nonce] fresh_in_window [OF assms(6,7)] assms(9,10) by blast

theorem receipt_round_trip_witness:
  "\<exists>stmt r. build_state_transition_statement ''doc'' (to_hex ''x'') [] [''ab''] (to_hex ''k'') ''COMMAND'' None sample_time = Inr stmt \<and>
    build_dsse_receipt toy_crypto stmt ''k'' [] = Inr r \<and> verify_receipt_signature toy_crypto r = Inr True \<and>
    validate_receipt toy_crypto r ''x'' sample_time [] 5 (Some [(to_hex ''k'', ''k'')]) = Inr (authorized_result (jsort stmt))"
  using receipt_round_trip [OF toy_crypto_ok, of "''doc''" "[]" "[''ab'']" "''COMMAND''" sample_time 5 "to_hex ''k''"
      "''k''" "[]" "Some [(to_hex ''k'', ''k'')]" "''x''" "[]"]
  by (simp add: sample_time_valid ascii_utf8_valid node_id_from_pubkey_def TRANSITION_CLASSES_def) (simp add: toy_crypto_def)

text \<open>The signatures that an envelope carries.\<close>

definition carries_signature :: "json \<Rightarrow> bytes \<Rightarrow> bool" where
  "carries_signature receipt sig \<longleftrightarrow>
     (\<exists>entries entry. jget receipt ''signatures'' = Some (JList entries) \<and> entry \<in> set entries \<and>
        b64_field entry ''sig'' sig)"

lemma signed_by_signature:
  assumes "signed_by C ty receipt payload stmt der k"
  obtains sig where "carries_signature receipt sig" "ecdsa_verify C k sig (pae ty payload)"
proof -
  from assms obtain entry sig where "jget receipt ''signatures'' = Some (JList [entry])"
    "b64_field entry ''sig'' sig" "ecdsa_verify C k sig (pae ty payload)"
    unfolding signed_by_def entry_by_def by blast
  then show ?thesis using that [of sig] by (auto simp: carries_signature_def)
qed

text \<open>
  C24: Authenticity. Let \<open>B\<close> be the statements that the holder of the key has signed. Suppose the
  signatures in a receipt are not forged: one that verifies under the key which the registry binds
  to the node does so only over the encoding of a statement of \<open>B\<close>. If the gate authorises
  the receipt as one of this node, it carries a statement of \<open>B\<close>, made for exactly this
  change, and the node is not revoked.
\<close>

theorem receipt_authenticity:
  assumes "validate_receipt C receipt raw now revoked skew (Some reg) = Inr (authorized_result stmt)"
    and "jget stmt ''node_id'' = Some (JStr n)" "map_of reg n = Some der" "load_der C der = Inr (P256 k)"
    and "\<And>sig m. carries_signature receipt sig \<Longrightarrow> ecdsa_verify C k sig m \<Longrightarrow>
      \<exists>s \<in> B. m = pae PAYLOAD_TYPE (json_dumps True s)"
    and "\<forall>s \<in> B. jwf s \<and> jdepth s \<le> json_depth C"
  shows "\<exists>s \<in> B. stmt = jsort s \<and> jget s ''change_hash'' = Some (JStr (sha256_hex C raw)) \<and> n \<notin> set revoked"
proof -
  from assms(1) have acc: "receipt_acceptable C receipt raw now revoked skew (Some reg) stmt"
    by (simp only: validate_iff)
  then obtain payload der' k' where s: "signed_by C PAYLOAD_TYPE receipt payload stmt der' k'"
    "map_of reg (node_id_from_pubkey C k') = Some der'" "node_id_from_pubkey C k' \<notin> set revoked"
    unfolding receipt_acceptable_def by blast
  from signed_by_key(3) [OF s(1)] assms(2) have n: "node_id_from_pubkey C k' = n" by simp
  from s(1) have "load_der C der' = Inr (P256 k')" unfolding signed_by_def entry_by_def by blast
  with n s(2) assms(3,4) have k: "k' = k" by simp
  obtain sig where sig: "carries_signature receipt sig" "ecdsa_verify C k sig (pae PAYLOAD_TYPE payload)"
    using signed_by_signature [OF s(1)] unfolding k by blast
  from assms(5) [OF sig] obtain st where st: "st \<in> B" "payload = json_dumps True st"
    by (auto simp: pae_inject)
  with assms(6) have wf: "jwf st" "jdepth st \<le> json_depth C" by simp_all
  from s(1) have "loads_bytes (json_depth C) payload = Inr stmt" by (simp add: signed_by_def)
  with st(2) loads_bytes_dumps [OF wf] have eq: "stmt = jsort st" by simp
  have "jget stmt ''change_hash'' = Some (JStr (sha256_hex C raw))" using acc by (simp add: receipt_acceptable_def)
  then have "jget st ''change_hash'' = Some (JStr (sha256_hex C raw))"
    unfolding eq jget_jsort [OF wf(1)] by (auto elim: jsort.elims)
  with st(1) eq s(3) n show ?thesis by blast
qed

theorem receipt_authenticity_witness:
  "\<exists>r s. validate_receipt toy_crypto r ''x'' sample_time [] 5 (Some [(to_hex ''k'', ''k'')]) = Inr (authorized_result (jsort s)) \<and>
     jget s ''change_hash'' = Some (JStr (sha256_hex toy_crypto ''x'')) \<and> crypto_ok toy_crypto"
proof -
  let ?s = "statement_of ''doc'' (to_hex ''x'') [] [] (to_hex ''k'') ''COMMAND'' (strftime sample_time)"
  have wf': "jwf ?s" by (rule statement_wf) (simp_all add: to_hex_ascii ascii_utf8_valid TRANSITION_CLASSES_def)
  define s where "s = ?s"
  have C: "json_depth toy_crypto = 100" "load_der toy_crypto k = Inr (P256 k)" "spki_der toy_crypto k = k"
    "public_key toy_crypto k = k" "sha256_hex toy_crypto = to_hex" "node_id_from_pubkey toy_crypto k = to_hex k"
    "ecdsa_sign toy_crypto k n m = CHR ''S'' # k @ m" "ecdsa_verify toy_crypto k g m \<longleftrightarrow> g = CHR ''S'' # k @ m" for k n m g
    by (simp_all add: toy_crypto_def node_id_from_pubkey_def)
  have "jdepth s \<le> 3" unfolding s_def by (rule statement_depth)
  then have wf: "jwf s" "jdepth s \<le> json_depth toy_crypto" "jget s ''node_id'' = Some (JStr (to_hex ''k''))"
    using wf' by (simp_all only: s_def C(1)) simp_all
  note f = statement_fields [OF wf', folded s_def]
  have "\<exists>r. build_dsse_receipt toy_crypto s ''k'' [] = Inr r \<and>
    signed_by toy_crypto PAYLOAD_TYPE r (json_dumps True s) (jsort s) (spki_der toy_crypto (public_key toy_crypto ''k''))
      (public_key toy_crypto ''k'')"
    by (rule build_dsse_signed) (use wf in \<open>simp_all add: C\<close>)
  then obtain r where s: "signed_by toy_crypto PAYLOAD_TYPE r (json_dumps True s) (jsort s) ''k'' ''k''"
    unfolding C by blast
  obtain g where g: "carries_signature r g" "ecdsa_verify toy_crypto ''k'' g (pae PAYLOAD_TYPE (json_dumps True s))"
    using s by (rule signed_by_signature)
  have only: "g' = g" if "carries_signature r g'" for g'
  proof -
    from that g(1) s obtain entry where "b64_field entry ''sig'' g'" "b64_field entry ''sig'' g"
      by (auto simp: carries_signature_def signed_by_def)
    then show ?thesis by (rule b64_field_unique)
  qed
  have "receipt_acceptable toy_crypto r ''x'' sample_time [] 5 (Some [(to_hex ''k'', ''k'')]) (jsort s)"
    unfolding receipt_acceptable_def C(5,6)
    using f s fresh_in_window [OF sample_time_valid, of 5] strptime_strftime [OF sample_time_valid]
    by fastforce
  then have v: "validate_receipt toy_crypto r ''x'' sample_time [] 5 (Some [(to_hex ''k'', ''k'')]) = Inr (authorized_result (jsort s))"
    by (simp only: validate_iff)
  have "\<exists>s' \<in> {s}. jsort s = jsort s' \<and> jget s' ''change_hash'' = Some (JStr (sha256_hex toy_crypto ''x'')) \<and> to_hex ''k'' \<notin> set []"
  proof (rule receipt_authenticity [OF v])
    show "\<exists>s' \<in> {s}. m = pae PAYLOAD_TYPE (json_dumps True s')"
      if "carries_signature r g'" "ecdsa_verify toy_crypto ''k'' g' m" for g' m
      using only [OF that(1)] that(2) g(2) by (simp add: C)
  qed (use f wf in \<open>auto simp: C\<close>)
  with v toy_crypto_ok show ?thesis by blast
qed

text \<open>
  C25: The gate is fail-soft. If loading a key raises at most the two documented exceptions,
  the gate returns a result, authorised or observed with a reason, or it raises
  \<open>UnsupportedAlgorithm\<close>; no malformed receipt makes it raise anything else.
\<close>

theorem receipt_gate_total:
  assumes "\<forall>b e. load_der C b = Inl e \<longrightarrow> e = ValueError \<or> e = UnsupportedAlgorithm"
  shows "(\<exists>g. validate_receipt C receipt raw now revoked skew registry = Inr g \<and>
      (gr_track g = OBSERVED \<or> gr_track g = AUTHORIZED)) \<or>
    validate_receipt C receipt raw now revoked skew registry = Inl UnsupportedAlgorithm"
proof (cases "validate_receipt C receipt raw now revoked skew registry")
  case (Inl e)
  with validate_error [OF Inl] assms show ?thesis by (auto simp: verify_caught_def)
next
  case (Inr g)
  with validate_track [OF Inr] show ?thesis by (auto simp: authorized_result_def)
qed

theorem receipt_gate_total_witness:
  "(\<exists>g. validate_receipt toy_crypto JNull [] sample_time [] 5 None = Inr g \<and>
      (gr_track g = OBSERVED \<or> gr_track g = AUTHORIZED)) \<or>
    validate_receipt toy_crypto JNull [] sample_time [] 5 None = Inl UnsupportedAlgorithm"
  by (rule receipt_gate_total) (simp add: toy_crypto_def)

text \<open>
  An envelope that anybody can write: some payload, and a key of a kind the cryptographic
  library does not support.
\<close>

definition hostile_receipt :: "bytes \<Rightarrow> bytes \<Rightarrow> json" where
  "hostile_receipt payload der = JObj
     [(''payloadType'', JStr PAYLOAD_TYPE), (''payload'', JStr (b64url_encode payload)),
      (''signatures'', JList [JObj
         [(''sig_alg'', JStr ''ECDSA-P256-SHA256''), (''public_key_der'', JStr (b64url_encode der))]])]"

lemma hostile_fields:
  "jget (hostile_receipt p der) ''payloadType'' = Some (JStr PAYLOAD_TYPE)"
  "jkey (hostile_receipt p der) ''payload'' = Inr (JStr (b64url_encode p))"
  "jkey (hostile_receipt p der) ''signatures'' = Inr (JList [JObj
     [(''sig_alg'', JStr ''ECDSA-P256-SHA256''), (''public_key_der'', JStr (b64url_encode der))]])"
  "is_obj (hostile_receipt p der)"
  by (simp_all add: hostile_receipt_def jkey_def)

lemma hostile_escapes:
  assumes "load_der C der = Inl UnsupportedAlgorithm" "loads_bytes (json_depth C) p = Inr st" "doctrine_pinned st"
  shows "validate_receipt C (hostile_receipt p der) raw now revoked skew registry = Inl UnsupportedAlgorithm"
proof -
  from assms(3) obtain policy where policy: "jget st ''policy_context'' = Some (JObj policy)"
    "map_of policy ''section_889_vendors'' = Some (JList (map JStr SECTION_889_VENDORS))"
    by (auto simp: doctrine_pinned_def jget_obj [of _ "''section_889_vendors''"])
  have "verify_receipt_signature C (hostile_receipt p der) = Inl UnsupportedAlgorithm"
    using assms(1,2) policy(1)
    by (simp add: verify_receipt_signature_def verify_receipt_body_def verify_entry_def hostile_fields
        jkey_def [of "JObj _"] jget_is_obj verify_caught_def)
  moreover have "decode_statement C (hostile_receipt p der) = Inr st"
    using assms(2) by (simp add: decode_statement_def hostile_fields)
  ultimately show ?thesis
    using assms(3) policy unfolding validate_receipt_def doctrine_pinned_def
    by (simp add: hostile_fields jget_is_obj)
qed

lemma hostile_raises:
  assumes "load_der C der = Inl UnsupportedAlgorithm" "3 \<le> json_depth C"
  shows "\<exists>payload. \<forall>raw now revoked skew registry.
    validate_receipt C (hostile_receipt payload der) raw now revoked skew registry = Inl UnsupportedAlgorithm"
proof -
  let ?s = "statement_of [] [] [] [] [] ''COMMAND'' []"
  have wf: "jwf ?s" by (rule statement_wf) (simp_all add: TRANSITION_CLASSES_def)
  have "loads_bytes (json_depth C) (json_dumps True ?s) = Inr (jsort ?s)"
    by (rule loads_bytes_dumps [OF wf order_trans [OF statement_depth assms(2)]])
  from hostile_escapes [OF assms(1) this statement_fields(1) [OF wf]] show ?thesis by blast
qed

text \<open>
  The exception does escape. If the library raises \<open>UnsupportedAlgorithm\<close> for some key
  bytes, an envelope that carries these bytes, without any valid signature, makes the gate
  raise instead of answering \<open>OBSERVED\<close>.
\<close>

theorem unsupported_key_escapes:
  assumes "load_der C der = Inl UnsupportedAlgorithm" "3 \<le> json_depth C"
  shows "\<exists>payload. \<forall>raw now revoked skew registry.
    validate_receipt C (hostile_receipt payload der) raw now revoked skew registry = Inl UnsupportedAlgorithm"
  by (rule hostile_raises [OF assms])

theorem unsupported_key_escapes_witness:
  "\<exists>payload. validate_receipt (toy_crypto\<lparr>load_der := (\<lambda>_. Inl UnsupportedAlgorithm)\<rparr>)
     (hostile_receipt payload ''key'') [] sample_time [] 5 None = Inl UnsupportedAlgorithm"
  using unsupported_key_escapes [of "toy_crypto\<lparr>load_der := (\<lambda>_. Inl UnsupportedAlgorithm)\<rparr>" "''key''"]
  by (simp add: toy_crypto_def) blast

end
