(* ===== verification/Enrollment.thy ===== *)
theory Enrollment
  imports Receipts
begin

text \<open>
  \<open>src/szl_mesh/enrollment.py\<close>: the formation-key proof, the enrollment request and the
  gateway that admits nodes and keeps their certificates. A request is a record with an
  optional field for every key that \<open>enroll\<close> reads with \<open>get\<close>; an absent \<open>doctrine_claim\<close> or
  attestation is one whose fields are absent. The gateway is a state that \<open>enroll\<close> and
  \<open>revoke\<close> change; its histories are the inductive relation \<open>gateway_run\<close>.
\<close>

section \<open>Requests\<close>

definition SECTION_889_MATCH :: "string list" where
  "SECTION_889_MATCH = map lower SECTION_889_VENDORS @
     [''huawei technologies'', ''zte corporation'', ''hytera communications'', ''hangzhou hikvision'',
      ''hikvision digital'', ''dahua technology'']"

definition compute_formation_key_proof ::
  "('k, 's) crypto \<Rightarrow> bytes \<Rightarrow> string \<Rightarrow> string \<Rightarrow> string \<Rightarrow> string \<Rightarrow> string" where
  "compute_formation_key_proof C key node_id timestamp doctrine kern =
     hmac_hex C key (node_id @ timestamp @ doctrine @ kern)"

record enroll_request =
  er_node_id :: "string option"
  er_public_key_der :: "bytes option"
  er_proof :: "string option"
  er_timestamp :: "string option"
  er_doctrine :: "string option"
  er_kernel :: "string option"
  er_slsa :: "string option"
  er_confirmed :: "bool option"
  er_vendor :: "string option"
  er_method :: "string option"

definition build_enrollment_request ::
  "('k, 's) crypto \<Rightarrow> bytes \<Rightarrow> string \<Rightarrow> bytes \<Rightarrow> string \<Rightarrow> string \<Rightarrow> string \<Rightarrow> string \<Rightarrow> string \<Rightarrow> string
    \<Rightarrow> enroll_request" where
  "build_enrollment_request C key node_id der timestamp doctrine kern slsa vendor attestation =
     \<lparr>er_node_id = Some node_id, er_public_key_der = Some der,
      er_proof = Some (compute_formation_key_proof C key node_id timestamp doctrine kern),
      er_timestamp = Some timestamp, er_doctrine = Some doctrine, er_kernel = Some kern,
      er_slsa = Some slsa, er_confirmed = Some True, er_vendor = Some vendor, er_method = Some attestation\<rparr>"

section \<open>The gateway\<close>

record enroll_result =
  en_success :: bool
  en_node_id :: string
  en_reason :: "string option"
  en_enrolled_at :: "string option"

record cert =
  ce_node_id :: string
  ce_public_key_der :: bytes
  ce_enrolled_at :: string
  ce_doctrine :: string
  ce_kernel :: string

record gateway =
  gw_formation_id :: string
  gw_key :: bytes
  gw_skew :: int
  gw_certs :: "(string, cert) dict"
  gw_revoked :: "string list"

definition new_gateway :: "string \<Rightarrow> bytes \<Rightarrow> int \<Rightarrow> gateway" where
  "new_gateway formation key skew =
     \<lparr>gw_formation_id = formation, gw_key = key, gw_skew = skew, gw_certs = [], gw_revoked = []\<rparr>"

definition pubkey_registry :: "gateway \<Rightarrow> (string, bytes) dict" where
  "pubkey_registry g =
     map (\<lambda>(n, e). (n, ce_public_key_der e)) (filter (\<lambda>(n, e). n \<notin> set (gw_revoked g)) (gw_certs g))"

definition gw_revoke :: "string \<Rightarrow> gateway \<Rightarrow> gateway" where
  "gw_revoke n g = g\<lparr>gw_revoked := List.insert n (gw_revoked g)\<rparr>"

text \<open>\<open>hmac.compare_digest\<close> on two strings raises \<open>TypeError\<close> unless both are ASCII.\<close>

definition compare_digest :: "string \<Rightarrow> string \<Rightarrow> exn + bool" where
  "compare_digest a b = (if is_ascii a \<and> is_ascii b then Inr (a = b) else Inl TypeError)"

definition reject :: "string \<Rightarrow> string \<Rightarrow> exn + enroll_result" where
  "reject n reason = Inr \<lparr>en_success = False, en_node_id = n, en_reason = Some reason, en_enrolled_at = None\<rparr>"

definition covered_vendor :: "string \<Rightarrow> bool" where
  "covered_vendor vendor \<longleftrightarrow>
     vendor \<noteq> [] \<and> (\<exists>m \<in> set SECTION_889_MATCH. str_in m vendor \<or> str_in vendor m)"

definition request_node :: "enroll_request \<Rightarrow> string" where
  "request_node req = default_to [] (er_node_id req)"

definition request_vendor :: "enroll_request \<Rightarrow> string" where
  "request_vendor req = lower (strip (default_to [] (er_vendor req)))"

text \<open>
  The checks of the public key: \<open>Inr (Inr der)\<close> is the canonical encoding, \<open>Inr (Inl reason)\<close>
  a rejection; \<open>Inl e\<close> an exception that is not caught.
\<close>

definition check_public_key :: "('k, 's) crypto \<Rightarrow> enroll_request \<Rightarrow> string \<Rightarrow> exn + string + bytes" where
  "check_public_key C req n =
     (case er_public_key_der req of
        None \<Rightarrow> Inr (Inl ''INVALID_PUBLIC_KEY'')
      | Some der \<Rightarrow>
          (case load_der C der of
             Inl e \<Rightarrow> if e \<in> {ValueError, TypeError, UnsupportedAlgorithm}
                      then Inr (Inl ''INVALID_PUBLIC_KEY'') else Inl e
           | Inr OtherKey \<Rightarrow> Inr (Inl ''INVALID_PUBLIC_KEY'')
           | Inr (P256 k) \<Rightarrow>
               if der \<noteq> spki_der C k then Inr (Inl ''INVALID_PUBLIC_KEY'')
               else if n \<noteq> node_id_from_pubkey C k then Inr (Inl ''NODE_ID_KEY_MISMATCH'')
               else Inr (Inr (spki_der C k))))"

text \<open>Steps 2 to 7 and the duplicate guard: the reason of the first one that fails.\<close>

definition screen_request :: "gateway \<Rightarrow> enroll_request \<Rightarrow> datetime \<Rightarrow> string \<Rightarrow> string option" where
  "screen_request g req now n =
     (case timestamp_of (map_option JStr (er_timestamp req)) of
        None \<Rightarrow> Some ''BAD_TIMESTAMP''
      | Some ts \<Rightarrow>
          if out_of_window now ts (gw_skew g) then Some ''TIMESTAMP_OUT_OF_WINDOW''
          else if er_doctrine req \<noteq> Some DOCTRINE_VERSION then Some ''WRONG_DOCTRINE''
          else if er_kernel req \<noteq> Some KERNEL_COMMIT then Some ''WRONG_KERNEL''
          else if er_slsa req \<noteq> Some SLSA_LEVEL then Some ''WRONG_SLSA''
          else if n \<in> set (gw_revoked g) then Some ''REVOKED''
          else if \<not> default_to False (er_confirmed req) then Some ''SECTION_889_NOT_CONFIRMED''
          else if covered_vendor (request_vendor req) then Some ''SECTION_889_VIOLATION''
          else if map_of (gw_certs g) n \<noteq> None then Some ''DUPLICATE_NODE_ID''
          else None)"

definition gw_enroll ::
  "('k, 's) crypto \<Rightarrow> enroll_request \<Rightarrow> datetime \<Rightarrow> gateway \<Rightarrow> (exn + enroll_result) \<times> gateway" where
  "gw_enroll C req now g =
     (let n = request_node req;
          expected = compute_formation_key_proof C (gw_key g) n (default_to [] (er_timestamp req))
            (default_to [] (er_doctrine req)) (default_to [] (er_kernel req)) in
      case compare_digest expected (default_to [] (er_proof req)) of
        Inl e \<Rightarrow> (Inl e, g)
      | Inr False \<Rightarrow> (reject n ''BAD_FORMATION_PROOF'', g)
      | Inr True \<Rightarrow>
          (case screen_request g req now n of
             Some reason \<Rightarrow> (reject n reason, g)
           | None \<Rightarrow>
               (case check_public_key C req n of
                  Inl e \<Rightarrow> (Inl e, g)
                | Inr (Inl reason) \<Rightarrow> (reject n reason, g)
                | Inr (Inr der) \<Rightarrow>
                    (Inr \<lparr>en_success = True, en_node_id = n, en_reason = None, en_enrolled_at = Some (strftime now)\<rparr>,
                     g\<lparr>gw_certs := put n \<lparr>ce_node_id = n, ce_public_key_der = der, ce_enrolled_at = strftime now,
                          ce_doctrine = DOCTRINE_VERSION, ce_kernel = KERNEL_COMMIT\<rparr> (gw_certs g)\<rparr>))))"

section \<open>Specification\<close>

definition enroll_ok :: "('k, 's) crypto \<Rightarrow> enroll_request \<Rightarrow> datetime \<Rightarrow> gateway \<Rightarrow> string \<Rightarrow> 'k \<Rightarrow> bool" where
  "enroll_ok C req now g n k \<longleftrightarrow>
     n = request_node req \<and>
     (\<exists>p. default_to [] (er_proof req) = p \<and> is_ascii p \<and>
        p = hmac_hex C (gw_key g) (n @ default_to [] (er_timestamp req) @ DOCTRINE_VERSION @ KERNEL_COMMIT)) \<and>
     (\<exists>s ts. er_timestamp req = Some s \<and> strptime s = Some ts \<and> \<not> out_of_window now ts (gw_skew g)) \<and>
     er_doctrine req = Some DOCTRINE_VERSION \<and> er_kernel req = Some KERNEL_COMMIT \<and> er_slsa req = Some SLSA_LEVEL \<and>
     n \<notin> set (gw_revoked g) \<and> map_of (gw_certs g) n = None \<and>
     er_confirmed req = Some True \<and> \<not> covered_vendor (request_vendor req) \<and>
     n = node_id_from_pubkey C k \<and> er_public_key_der req = Some (spki_der C k) \<and>
     load_der C (spki_der C k) = Inr (P256 k)"

definition enrolled_cert :: "('k, 's) crypto \<Rightarrow> string \<Rightarrow> 'k \<Rightarrow> datetime \<Rightarrow> cert" where
  "enrolled_cert C n k now = \<lparr>ce_node_id = n, ce_public_key_der = spki_der C k, ce_enrolled_at = strftime now,
     ce_doctrine = DOCTRINE_VERSION, ce_kernel = KERNEL_COMMIT\<rparr>"

lemma enroll_ok_node: "enroll_ok C req now g n k \<Longrightarrow> n = node_id_from_pubkey C k"
  unfolding enroll_ok_def by (elim conjE)

lemma guard_None:
  "(if P then Some r else m) = None \<longleftrightarrow> \<not> P \<and> m = None"
  "(case t of None \<Rightarrow> Some r | Some x \<Rightarrow> f x) = None \<longleftrightarrow> (\<exists>x. t = Some x \<and> f x = None)"
  by (auto split: option.split)

lemma timestamp_of_map:
  "timestamp_of (map_option JStr t) = Some x \<longleftrightarrow> (\<exists>s. t = Some s \<and> strptime s = Some x)"
  by (cases t) simp_all

lemma enroll_ok_fresh: "enroll_ok C req now g n k \<Longrightarrow> map_of (gw_certs g) n = None \<and> n \<notin> set (gw_revoked g)"
  unfolding enroll_ok_def by (elim conjE, intro conjI; assumption)

lemma screen_None_iff:
  "screen_request g req now n = None \<longleftrightarrow>
     (\<exists>s ts. er_timestamp req = Some s \<and> strptime s = Some ts \<and> \<not> out_of_window now ts (gw_skew g)) \<and>
     er_doctrine req = Some DOCTRINE_VERSION \<and> er_kernel req = Some KERNEL_COMMIT \<and> er_slsa req = Some SLSA_LEVEL \<and>
     n \<notin> set (gw_revoked g) \<and> default_to False (er_confirmed req) \<and>
     \<not> covered_vendor (request_vendor req) \<and> map_of (gw_certs g) n = None"
  unfolding screen_request_def guard_None timestamp_of_map not_not
  by (intro iffI; elim exE conjE; intro conjI exI; (assumption | rule refl))

lemma guard_key:
  "(if P then Inr (Inl r) else m) = Inr (Inr d) \<longleftrightarrow> \<not> P \<and> m = Inr (Inr d)"
  "(if P then Inr (Inl r) else Inl e) \<noteq> Inr (Inr d)"
  by auto

lemma check_key_iff:
  "check_public_key C req n = Inr (Inr der) \<longleftrightarrow>
     (\<exists>k. der = spki_der C k \<and> n = node_id_from_pubkey C k \<and> er_public_key_der req = Some (spki_der C k) \<and>
       load_der C (spki_der C k) = Inr (P256 k))"
proof (cases "er_public_key_der req")
  case (Some b)
  show ?thesis
  proof (cases "load_der C b")
    case (Inr pk)
    with Some show ?thesis by (cases pk) (auto simp: check_public_key_def guard_key)
  qed (use Some in \<open>auto simp: check_public_key_def guard_key\<close>)
qed (simp add: check_public_key_def)

lemma default_True: "default_to False x \<longleftrightarrow> x = Some True"
  by (cases x) auto

lemma reject_not_success: "reject n r = Inr e \<Longrightarrow> \<not> en_success e"
  by (auto simp: reject_def)

text \<open>The three outcomes: success with one new certificate, or the state unchanged.\<close>

lemma gw_enroll_cases:
  obtains (success) k where "enroll_ok C req now g (request_node req) k"
      "gw_enroll C req now g =
        (Inr \<lparr>en_success = True, en_node_id = request_node req, en_reason = None, en_enrolled_at = Some (strftime now)\<rparr>,
         g\<lparr>gw_certs := put (request_node req) (enrolled_cert C (request_node req) k now) (gw_certs g)\<rparr>)"
  | (failure) r where "gw_enroll C req now g = (r, g)" "\<And>e. r = Inr e \<Longrightarrow> \<not> en_success e"
      "\<nexists>k. enroll_ok C req now g (request_node req) k"
proof (cases "\<exists>k. enroll_ok C req now g (request_node req) k")
  case True
  then obtain k where k: "enroll_ok C req now g (request_node req) k" by blast
  let ?n = "request_node req"
  have "screen_request g req now ?n = None"
    using k by (auto simp: screen_None_iff enroll_ok_def)
  moreover have "check_public_key C req ?n = Inr (Inr (spki_der C k))"
    unfolding check_key_iff using k by (auto simp: enroll_ok_def)
  ultimately show thesis
    using k by (intro success [OF k]) (auto simp: gw_enroll_def compare_digest_def compute_formation_key_proof_def
        enroll_ok_def enrolled_cert_def Let_def)
next
  case False
  let ?n = "request_node req"
  have "\<exists>r. gw_enroll C req now g = (r, g) \<and> (\<forall>e. r = Inr e \<longrightarrow> \<not> en_success e)"
  proof (rule ccontr)
    assume no: "\<nexists>r. gw_enroll C req now g = (r, g) \<and> (\<forall>e. r = Inr e \<longrightarrow> \<not> en_success e)"
    then have s: "screen_request g req now ?n = None" and c: "\<exists>der. check_public_key C req ?n = Inr (Inr der)"
      and p: "compare_digest (compute_formation_key_proof C (gw_key g) ?n (default_to [] (er_timestamp req))
          (default_to [] (er_doctrine req)) (default_to [] (er_kernel req))) (default_to [] (er_proof req)) = Inr True"
      by (auto simp: gw_enroll_def Let_def dest: reject_not_success split: sum.splits option.splits bool.splits)
    from c obtain k where "?n = node_id_from_pubkey C k" "er_public_key_der req = Some (spki_der C k)"
      "load_der C (spki_der C k) = Inr (P256 k)" unfolding check_key_iff by blast
    with s p have "enroll_ok C req now g ?n k"
      by (auto simp: enroll_ok_def screen_None_iff compare_digest_def compute_formation_key_proof_def default_True split: if_splits)
    with False show False by blast
  qed
  with False show thesis by (blast intro: failure)
qed

section \<open>Histories of a gateway\<close>

inductive gateway_run :: "('k, 's) crypto \<Rightarrow> gateway \<Rightarrow> gateway \<Rightarrow> bool" for C :: "('k, 's) crypto" and g0 :: gateway where
  start: "gateway_run C g0 g0"
| enroll: "gateway_run C g0 g \<Longrightarrow> gateway_run C g0 (snd (gw_enroll C req now g))"
| revoke: "gateway_run C g0 g \<Longrightarrow> gateway_run C g0 (gw_revoke n g)"

definition cert_ok :: "('k, 's) crypto \<Rightarrow> string \<Rightarrow> cert \<Rightarrow> bool" where
  "cert_ok C n c \<longleftrightarrow> ce_node_id c = n \<and>
     (\<exists>k. ce_public_key_der c = spki_der C k \<and> n = node_id_from_pubkey C k \<and> load_der C (spki_der C k) = Inr (P256 k))"

definition gateway_ok :: "('k, 's) crypto \<Rightarrow> gateway \<Rightarrow> bool" where
  "gateway_ok C g \<longleftrightarrow> dict_ok (gw_certs g) \<and> (\<forall>n c. map_of (gw_certs g) n = Some c \<longrightarrow> cert_ok C n c)"

lemma enrolled_cert_ok: "enroll_ok C req now g n k \<Longrightarrow> cert_ok C n (enrolled_cert C n k now)"
  by (auto simp: enroll_ok_def cert_ok_def enrolled_cert_def)

lemma gw_enroll_ok: "gateway_ok C g \<Longrightarrow> gateway_ok C (snd (gw_enroll C req now g))"
proof (cases C req now g rule: gw_enroll_cases)
  case (success k)
  then show "gateway_ok C g \<Longrightarrow> ?thesis" by (auto simp: gateway_ok_def enrolled_cert_ok)
qed simp

lemma gateway_run_ok: "gateway_run C g0 g \<Longrightarrow> gateway_ok C g0 \<Longrightarrow> gateway_ok C g"
proof (induction rule: gateway_run.induct)
  case (revoke g n)
  then show ?case by (simp add: gateway_ok_def gw_revoke_def)
qed (simp_all add: gw_enroll_ok)

lemma gw_enroll_keeps:
  "map_of (gw_certs g) n = Some c \<Longrightarrow> map_of (gw_certs (snd (gw_enroll C req now g))) n = Some c"
proof (cases C req now g rule: gw_enroll_cases)
  case (success k)
  then show "map_of (gw_certs g) n = Some c \<Longrightarrow> ?thesis" by (auto simp: enroll_ok_def)
qed simp

lemma gw_enroll_same [simp]:
  "gw_revoked (snd (gw_enroll C req now g)) = gw_revoked g" "gw_key (snd (gw_enroll C req now g)) = gw_key g"
  "gw_skew (snd (gw_enroll C req now g)) = gw_skew g"
  by (cases C req now g rule: gw_enroll_cases; simp)+

lemma gateway_run_keeps:
  "gateway_run C g0 g \<Longrightarrow> map_of (gw_certs g0) n = Some c \<Longrightarrow> map_of (gw_certs g) n = Some c"
  "gateway_run C g0 g \<Longrightarrow> set (gw_revoked g0) \<subseteq> set (gw_revoked g)"
proof (induction rule: gateway_run.induct)
  case (enroll g req now)
  { case 1 then show ?case using enroll.IH(1) gw_enroll_keeps by blast }
  { case 2 then show ?case using enroll.IH(2) by simp }
next
  case (revoke g n)
  { case 1 then show ?case using revoke.IH(1) by (simp add: gw_revoke_def) }
  { case 2 then show ?case using revoke.IH(2) by (auto simp: gw_revoke_def) }
qed simp_all

lemma registry_lookup:
  assumes "dict_ok (gw_certs g)"
  shows "map_of (pubkey_registry g) n =
    (if n \<in> set (gw_revoked g) then None else map_option ce_public_key_der (map_of (gw_certs g) n))"
  using assms
proof (induction "gw_certs g" arbitrary: g)
  case (Cons a cs)
  obtain m c where a: "a = (m, c)" by (cases a)
  define g' where "g' = g\<lparr>gw_certs := cs\<rparr>"
  with Cons have IH: "map_of (pubkey_registry g') n =
    (if n \<in> set (gw_revoked g') then None else map_option ce_public_key_der (map_of (gw_certs g') n))"
    by (metis distinct.simps(2) gateway.select_convs(4) gateway.surjective gateway.update_convs(4) list.simps(9))
  have "gw_certs g = (m, c) # cs" using Cons(2) a by simp
  with IH show ?case by (auto simp: pubkey_registry_def g'_def)
qed (simp add: pubkey_registry_def)

lemma honest_enroll_within:
  assumes "crypto_ok C" "valid_datetime now" "\<not> out_of_window now' (now\<lparr>micro := 0\<rparr>) (gw_skew g)"
    and "n = node_id_from_pubkey C k" "n \<notin> set (gw_revoked g)" "map_of (gw_certs g) n = None"
    and "\<not> covered_vendor (lower (strip vendor))"
    and "req = build_enrollment_request C (gw_key g) n (spki_der C k) (strftime now) DOCTRINE_VERSION KERNEL_COMMIT
      SLSA_LEVEL vendor ''self_report''"
  shows "enroll_ok C req now' g n k" "request_node req = n"
  using assms strptime_strftime [OF assms(2)] crypto_okD(1,7) [OF assms(1)]
  by (simp_all add: enroll_ok_def build_enrollment_request_def compute_formation_key_proof_def request_vendor_def request_node_def)

lemma honest_enroll_ok:
  assumes "crypto_ok C" "valid_datetime now" "1 \<le> gw_skew g"
    and "n = node_id_from_pubkey C k" "n \<notin> set (gw_revoked g)" "map_of (gw_certs g) n = None"
    and "\<not> covered_vendor (lower (strip vendor))"
    and "req = build_enrollment_request C (gw_key g) n (spki_der C k) (strftime now) DOCTRINE_VERSION KERNEL_COMMIT
      SLSA_LEVEL vendor ''self_report''"
  shows "enroll_ok C req now g n k" "request_node req = n"
  using honest_enroll_within [OF assms(1,2) fresh_in_window [OF assms(2,3)] assms(4-8)] by blast+

lemma admits_honest:
  assumes "crypto_ok C" "valid_datetime now" "1 \<le> gw_skew g" "gateway_ok C g"
    and "n = node_id_from_pubkey C k" "n \<notin> set (gw_revoked g)" "map_of (gw_certs g) n = None"
    and "\<not> covered_vendor (lower (strip vendor))"
    and "req = build_enrollment_request C (gw_key g) n (spki_der C k) (strftime now) DOCTRINE_VERSION KERNEL_COMMIT
      SLSA_LEVEL vendor ''self_report''"
  shows "(\<exists>e. fst (gw_enroll C req now g) = Inr e \<and> en_success e) \<and>
    map_of (pubkey_registry (snd (gw_enroll C req now g))) n = Some (spki_der C k)"
proof -
  note ok = honest_enroll_ok [OF assms(1-3,5-9)]
  show ?thesis
  proof (cases C req now g rule: gw_enroll_cases)
    case (success k')
    have "ce_public_key_der (enrolled_cert C n k' now) = spki_der C k"
      using success(1) ok by (simp add: enroll_ok_def enrolled_cert_def)
    moreover have "dict_ok (gw_certs (snd (gw_enroll C req now g)))"
      using gw_enroll_ok [OF assms(4)] by (simp add: gateway_ok_def)
    ultimately show ?thesis
      using success assms(6) ok(2) by (simp add: registry_lookup)
  qed (use ok in auto)
qed

section \<open>Properties\<close>

text \<open>
  C3: Enrollment refines its specification. The gateway admits a request exactly if the
  specification does, for the node identifier the request names; then its only effect is one
  new certificate that binds the identifier to the canonical encoding of the key, and
  otherwise (a rejection or an exception) the gateway is unchanged.
\<close>

theorem enroll_refines_spec:
  "((\<exists>e. fst (gw_enroll C req now g) = Inr e \<and> en_success e) \<longleftrightarrow> (\<exists>k. enroll_ok C req now g (request_node req) k)) \<and>
    (case fst (gw_enroll C req now g) of
       Inr e \<Rightarrow> en_node_id e = request_node req \<and>
         (if en_success e then \<exists>k. enroll_ok C req now g (request_node req) k \<and>
            snd (gw_enroll C req now g) =
              g\<lparr>gw_certs := gw_certs g @ [(request_node req, enrolled_cert C (request_node req) k now)]\<rparr>
          else snd (gw_enroll C req now g) = g)
     | Inl e \<Rightarrow> snd (gw_enroll C req now g) = g)"
proof (cases C req now g rule: gw_enroll_cases)
  case (success k)
  from success(1) have "map_of (gw_certs g) (request_node req) = None" by (rule enroll_ok_fresh [THEN conjunct1])
  with success show ?thesis by (auto simp: put_fresh)
next
  case (failure r)
  have "r = Inr e \<Longrightarrow> en_node_id e = request_node req" for e
    using failure(1) by (auto simp: gw_enroll_def reject_def Let_def split: sum.splits option.splits bool.splits)
  with failure show ?thesis by (auto split: sum.split)
qed

text \<open>
  C26: What the registry of a gateway holds, after any history. A key that the receipt gate may
  trust for a node is the canonical encoding of a P-256 key whose digest is that node's
  identifier, and the node has not been revoked.
\<close>

theorem registry_sound:
  assumes "gateway_run C (new_gateway f key skew) g" "map_of (pubkey_registry g) n = Some der"
  shows "n \<notin> set (gw_revoked g) \<and>
    (\<exists>k. der = spki_der C k \<and> n = node_id_from_pubkey C k \<and> load_der C der = Inr (P256 k))"
proof -
  have "gateway_ok C (new_gateway f key skew)" by (simp add: gateway_ok_def new_gateway_def)
  with assms(1) have "gateway_ok C g" by (rule gateway_run_ok)
  then have ok: "dict_ok (gw_certs g)" "map_of (gw_certs g) n = Some c \<Longrightarrow> cert_ok C n c" for c
    by (simp_all only: gateway_ok_def)
  from assms(2) have "n \<notin> set (gw_revoked g)" unfolding registry_lookup [OF ok(1)] by (simp split: if_splits)
  moreover from assms(2) obtain c where "map_of (gw_certs g) n = Some c" "der = ce_public_key_der c"
    unfolding registry_lookup [OF ok(1)] by (auto split: if_splits simp del: map_of_eq_Some_iff)
  ultimately show ?thesis using ok(2) [of c] by (auto simp: cert_ok_def)
qed

text \<open>
  Certificates are permanent and so are revocations. Whatever happens to a gateway, an
  enrolled identifier keeps its certificate and is never admitted again (so a captured request
  cannot be replayed to replace the key), and a revoked one never reappears in the registry.
\<close>

theorem enrollment_permanent:
  assumes "gateway_run C g0 g" "gateway_ok C g0"
  shows "(map_of (gw_certs g0) n = Some c \<longrightarrow> map_of (gw_certs g) n = Some c \<and> (\<nexists>k. enroll_ok C req now g n k)) \<and>
    (n \<in> set (gw_revoked g0) \<longrightarrow> map_of (pubkey_registry g) n = None \<and> (\<nexists>k. enroll_ok C req now g n k))"
proof -
  have "dict_ok (gw_certs g)" using gateway_run_ok [OF assms] by (simp add: gateway_ok_def)
  moreover have "n \<in> set (gw_revoked g0) \<Longrightarrow> n \<in> set (gw_revoked g)" using gateway_run_keeps(2) [OF assms(1)] by blast
  ultimately show ?thesis
    using gateway_run_keeps(1) [OF assms(1)] by (auto simp: registry_lookup enroll_ok_def)
qed

text \<open>
  An honest node gets in. The request that a node builds with the formation key, for its
  own key, locked doctrine and the current time is admitted by a gateway that has neither
  enrolled nor revoked it, unless its hardware vendor is covered by Section 889.
\<close>

theorem enrollment_round_trip:
  assumes "crypto_ok C" "valid_datetime now" "1 \<le> gw_skew g" "gateway_ok C g"
    and "n = node_id_from_pubkey C k" "n \<notin> set (gw_revoked g)" "map_of (gw_certs g) n = None"
    and "\<not> covered_vendor (lower (strip vendor))"
    and "req = build_enrollment_request C (gw_key g) n (spki_der C k) (strftime now) DOCTRINE_VERSION KERNEL_COMMIT
      SLSA_LEVEL vendor ''self_report''"
  shows "(\<exists>e. fst (gw_enroll C req now g) = Inr e \<and> en_success e) \<and>
    map_of (pubkey_registry (snd (gw_enroll C req now g))) n = Some (spki_der C k)"
  using assms by (rule admits_honest)

text \<open>
  A formation proof is not transferable. If the digests of node identifiers have one
  length (64 hexadecimal digits) and the HMAC does not collide on the two messages, two
  requests with the same proof that gateways of one formation admit name the same node and the
  same timestamp, although the message concatenates its parts without separators.
\<close>

theorem formation_proof_binds:
  assumes "enroll_ok C req now g n k" "enroll_ok C req' now' g' n' k'" "gw_key g' = gw_key g"
    and "er_proof req = er_proof req'"
    and "\<forall>b. length (sha256_hex C b) = 64"
    and "\<And>a b. hmac_hex C (gw_key g) a = hmac_hex C (gw_key g) b \<Longrightarrow> a = b"
  shows "n = n' \<and> er_timestamp req = er_timestamp req'"
proof -
  have len: "length n = 64" "length n' = 64"
    using assms(1,2) [THEN enroll_ok_node] assms(5) by (simp_all add: node_id_from_pubkey_def)
  obtain s s' where ts: "er_timestamp req = Some s" "er_timestamp req' = Some s'"
    using assms(1,2) unfolding enroll_ok_def by blast
  have p: "default_to [] (er_proof req) = hmac_hex C (gw_key g) (n @ s @ DOCTRINE_VERSION @ KERNEL_COMMIT)"
    "default_to [] (er_proof req') = hmac_hex C (gw_key g') (n' @ s' @ DOCTRINE_VERSION @ KERNEL_COMMIT)"
    using assms(1,2) ts unfolding enroll_ok_def by (metis default_to.simps(2))+
  then have "n @ s @ DOCTRINE_VERSION @ KERNEL_COMMIT = n' @ s' @ DOCTRINE_VERSION @ KERNEL_COMMIT"
    using assms(3,4,6) by simp
  with len ts show ?thesis by simp
qed

text \<open>
  What makes \<open>enroll\<close> raise. The comparison of proofs raises \<open>TypeError\<close> on every proof
  that is not ASCII, before anything else is checked; with digests printed in ASCII the only
  other exceptions are those that key loading raises beyond the three that are caught. No
  exception changes the gateway.
\<close>

theorem enroll_exceptions:
  assumes "crypto_ok C"
  shows "(\<not> is_ascii (default_to [] (er_proof req)) \<longrightarrow> gw_enroll C req now g = (Inl TypeError, g)) \<and>
    (\<forall>e. fst (gw_enroll C req now g) = Inl e \<and> is_ascii (default_to [] (er_proof req)) \<longrightarrow>
      e \<notin> {ValueError, TypeError, UnsupportedAlgorithm} \<and> (\<exists>b. load_der C b = Inl e) \<and> snd (gw_enroll C req now g) = g)"
proof -
  have key: "e \<notin> {ValueError, TypeError, UnsupportedAlgorithm} \<and> (\<exists>b. load_der C b = Inl e)"
    if "check_public_key C req n = Inl e" for e n
    using that by (auto simp: check_public_key_def split: option.splits sum.splits pubkey.splits if_splits)
  have "is_ascii (compute_formation_key_proof C a b c d e)" for a b c d e
    by (simp add: compute_formation_key_proof_def crypto_okD(7) [OF assms])
  then show ?thesis
    using key by (auto simp: gw_enroll_def Let_def compare_digest_def reject_def
        split: option.splits sum.splits bool.splits if_splits)
qed

section \<open>Witnesses\<close>

definition sample_gateway :: gateway where
  "sample_gateway = new_gateway ''f'' ''secret'' 300"

definition sample_request :: "string \<Rightarrow> enroll_request" where
  "sample_request k = build_enrollment_request toy_crypto ''secret'' (to_hex k) k (strftime sample_time)
     DOCTRINE_VERSION KERNEL_COMMIT SLSA_LEVEL [] ''self_report''"

lemma sample_gateway_simps [simp]:
  "gw_key sample_gateway = ''secret''" "gw_skew sample_gateway = 300" "gw_revoked sample_gateway = []"
  "gw_certs sample_gateway = []"
  by (simp_all add: sample_gateway_def new_gateway_def)

lemma sample_gateway_ok: "gateway_ok C sample_gateway"
  by (simp add: gateway_ok_def)

lemma toy_node_id: "node_id_from_pubkey toy_crypto k = to_hex k" "spki_der toy_crypto k = k"
  by (simp_all add: node_id_from_pubkey_def toy_crypto_def)

lemma strip_Nil: "strip [] = []"
proof -
  have "drop_space ws [] = None" for ws by (auto simp: drop_space_def find_None_iff split: option.split)
  then show ?thesis by (simp add: strip_def lstrip_with.simps)
qed

lemma covered_Nil: "\<not> covered_vendor (lower (strip []))"
  by (simp add: covered_vendor_def strip_Nil lower_def)

lemma sample_admitted:
  "map_of (pubkey_registry (snd (gw_enroll toy_crypto (sample_request k) sample_time sample_gateway))) (to_hex k) = Some k"
  using admits_honest [OF toy_crypto_ok sample_time_valid, of sample_gateway "to_hex k" k "[]" "sample_request k"]
  by (simp add: sample_gateway_ok toy_node_id covered_Nil sample_request_def)

theorem registry_sound_witness:
  "\<exists>k. ''k'' = spki_der toy_crypto k \<and> to_hex ''k'' = node_id_from_pubkey toy_crypto k"
proof -
  let ?g = "snd (gw_enroll toy_crypto (sample_request ''k'') sample_time sample_gateway)"
  have "gateway_run toy_crypto (new_gateway ''f'' ''secret'' 300) ?g"
    unfolding sample_gateway_def by (intro gateway_run.intros)
  from registry_sound [OF this sample_admitted] show ?thesis by blast
qed

theorem enrollment_permanent_witness:
  "map_of (pubkey_registry (gw_revoke ''n'' sample_gateway)) ''n'' = None"
  using enrollment_permanent [OF gateway_run.start, of toy_crypto "gw_revoke ''n'' sample_gateway" "''n''"]
  by (simp add: gateway_ok_def gw_revoke_def)

theorem enrollment_round_trip_witness:
  "\<exists>e. fst (gw_enroll toy_crypto (sample_request ''k'') sample_time sample_gateway) = Inr e \<and> en_success e"
  using enrollment_round_trip [OF toy_crypto_ok sample_time_valid, of sample_gateway "to_hex ''k''" "''k''" "[]" "sample_request ''k''"]
  by (simp add: sample_gateway_ok toy_node_id covered_Nil sample_request_def)

theorem enroll_exceptions_witness:
  "gw_enroll toy_crypto ((sample_request ''k'')\<lparr>er_proof := Some [chr 195, chr 169]\<rparr>) sample_time sample_gateway =
     (Inl TypeError, sample_gateway)"
  using enroll_exceptions [OF toy_crypto_ok, of "(sample_request ''k'')\<lparr>er_proof := Some [chr 195, chr 169]\<rparr>"]
  by simp

lemma to_hex_nonempty_length: "length (to_hex b) = 2 * length b"
  by (induction b) (simp_all add: to_hex_def)

theorem formation_proof_binds_witness:
  "\<exists>C :: (string, string) crypto. \<exists>req g n. enroll_ok C req sample_time g n ''k'' \<and>
     (\<forall>req' n' k'. enroll_ok C req' sample_time g n' k' \<longrightarrow> er_proof req = er_proof req' \<longrightarrow> n = n')"
proof -
  let ?C = "toy_crypto\<lparr>sha256_hex := \<lambda>_. replicate 64 CHR ''0''\<rparr>"
  let ?n = "replicate 64 CHR ''0''"
  let ?req = "build_enrollment_request ?C ''secret'' ?n ''k'' (strftime sample_time) DOCTRINE_VERSION KERNEL_COMMIT
      SLSA_LEVEL [] ''self_report''"
  have C: "crypto_ok ?C" using toy_crypto_ok by (simp add: crypto_ok_def is_ascii_def)
  have ok: "enroll_ok ?C ?req sample_time sample_gateway ?n ''k''"
    by (rule honest_enroll_ok(1) [OF C sample_time_valid, where vendor = "[]"])
       (simp_all add: node_id_from_pubkey_def covered_Nil, simp_all add: toy_crypto_def)
  have "?n = n'" if "enroll_ok ?C req' sample_time sample_gateway n' k'" "er_proof ?req = er_proof req'" for req' n' k'
    by (rule formation_proof_binds [OF ok that(1) refl that(2), THEN conjunct1]) (simp_all add: toy_crypto_def)
  with ok show ?thesis by blast
qed

end
