(* ===== verification/Node.thy ===== *)
theory Node
  imports Enrollment
begin

text \<open>
  \<open>src/szl_mesh/node.py\<close>: a node of the mesh, which writes receipted operations and applies
  those of its peers. The gateway is shared between nodes, so the methods take its present
  state as an argument; \<open>nd_enrolled\<close> stands for \<open>enrolled\<close> and for the reference that is set
  with it. A method returns its result, or the exception, beside the node it leaves behind.
\<close>

section \<open>State and operations\<close>

record 's node =
  nd_name :: string
  nd_doc_id :: string
  nd_priv :: 's
  nd_node_id :: string
  nd_doc :: crdt
  nd_ledger :: "(string, json) dict"
  nd_enrolled :: bool
  nd_lamport :: int

definition new_node :: "('k, 's) crypto \<Rightarrow> string \<Rightarrow> string \<Rightarrow> 's \<Rightarrow> 's node" where
  "new_node C name doc_id priv =
     \<lparr>nd_name = name, nd_doc_id = doc_id, nd_priv = priv,
      nd_node_id = node_id_from_pubkey C (public_key C priv),
      nd_doc = new_document doc_id, nd_ledger = [], nd_enrolled = False, nd_lamport = 0\<rparr>"

definition public_key_der :: "('k, 's) crypto \<Rightarrow> 's node \<Rightarrow> bytes" where
  "public_key_der C nd = spki_der C (public_key C (nd_priv nd))"

text \<open>\<open>enroll\<close> reads the clock twice: for the request, and in the gateway.\<close>

definition node_enroll ::
  "('k, 's) crypto \<Rightarrow> bytes \<Rightarrow> string \<Rightarrow> string \<Rightarrow> string \<Rightarrow> string \<Rightarrow> datetime \<Rightarrow> datetime \<Rightarrow> 's node \<Rightarrow> gateway
    \<Rightarrow> (exn + enroll_result) \<times> 's node \<times> gateway" where
  "node_enroll C key vendor doctrine kern slsa now now' nd g =
     (let req = build_enrollment_request C key (nd_node_id nd) (public_key_der C nd) (utc_now_iso now)
            doctrine kern slsa vendor ''self_report'' in
      case gw_enroll C req now' g of
        (Inl e, g') \<Rightarrow> (Inl e, nd, g')
      | (Inr r, g') \<Rightarrow> (Inr r, if en_success r then nd\<lparr>nd_enrolled := True\<rparr> else nd, g'))"

definition tick :: "int option \<Rightarrow> 's node \<Rightarrow> 's node" where
  "tick observed_lamport nd =
     (let base = (case observed_lamport of None \<Rightarrow> nd_lamport nd | Some l \<Rightarrow> max (nd_lamport nd) l)
      in nd\<lparr>nd_lamport := base + 1\<rparr>)"

definition classify ::
  "('k, 's) crypto \<Rightarrow> op \<Rightarrow> json \<Rightarrow> datetime \<Rightarrow> gateway \<Rightarrow> 's node \<Rightarrow> exn + gate_result" where
  "classify C x envelope now g nd =
     validate_receipt C envelope (raw_bytes x) now
       (if nd_enrolled nd then gw_revoked g else []) 5
       (Some (if nd_enrolled nd then pubkey_registry g else []))"

text \<open>The record that \<open>write\<close> returns for broadcasting.\<close>

record broadcast =
  bc_op :: op
  bc_receipt :: json
  bc_track :: string
  bc_status :: string

definition node_write ::
  "('k, 's) crypto \<Rightarrow> string \<Rightarrow> json \<Rightarrow> string \<Rightarrow> bool \<Rightarrow> bytes \<Rightarrow> datetime \<Rightarrow> datetime \<Rightarrow> gateway \<Rightarrow> 's node
    \<Rightarrow> (exn + broadcast) \<times> 's node" where
  "node_write C key val cls deletion nonce now now' g nd =
     (if \<not> nd_enrolled nd then (Inl RuntimeError, nd)
      else
        let from_heads = heads C (nd_doc nd);
            nd1 = tick None nd in
        case make_op C (nd_doc_id nd1) key val (nd_lamport nd1) (nd_node_id nd1) deletion OBSERVED of
          Inl e \<Rightarrow> (Inl e, nd1)
        | Inr x \<Rightarrow>
            let change = op_id C x in
            case add_op C x (nd_doc nd1) of
              (Inl e, doc) \<Rightarrow> (Inl e, nd1\<lparr>nd_doc := doc\<rparr>)
            | (Inr _, doc) \<Rightarrow>
                let nd2 = nd1\<lparr>nd_doc := doc\<rparr>; to_heads = heads C doc in
                case bindE (build_state_transition_statement (nd_doc_id nd) change from_heads to_heads
                       (nd_node_id nd) cls None now) (\<lambda>stmt. build_dsse_receipt C stmt (nd_priv nd) nonce) of
                  Inl e \<Rightarrow> (Inl e, nd2)
                | Inr envelope \<Rightarrow>
                    let nd3 = nd2\<lparr>nd_ledger := put change envelope (nd_ledger nd2)\<rparr> in
                    case classify C x envelope now' g nd3 of
                      Inl e \<Rightarrow> (Inl e, nd3)
                    | Inr gate \<Rightarrow>
                        (Inr \<lparr>bc_op = x, bc_receipt = envelope, bc_track = gr_track gate, bc_status = gr_status gate\<rparr>,
                         nd3\<lparr>nd_doc := set_op_track change (gr_track gate) (nd_doc nd3)\<rparr>))"

record applied =
  ap_newly :: bool
  ap_track :: string
  ap_status :: string

text \<open>
  \<open>copyable\<close> says whether \<open>deepcopy\<close> of the receipt succeeds (it raises \<open>RecursionError\<close> on one
  that is nested too deeply for the interpreter's stack); \<open>JNull\<close> is the absent receipt. The
  operation of the record is an \<open>op\<close>, so the copy that is made of its value succeeds.
\<close>

definition retained :: "(json \<Rightarrow> bool) \<Rightarrow> json \<Rightarrow> json" where
  "retained copyable receipt = (if copyable receipt then receipt else JNull)"

definition keep_receipt :: "string \<Rightarrow> json \<Rightarrow> (string, json) dict \<Rightarrow> (string, json) dict" where
  "keep_receipt i envelope ledger = (if envelope = JNull then ledger else put i envelope ledger)"

definition apply_remote ::
  "('k, 's) crypto \<Rightarrow> (json \<Rightarrow> bool) \<Rightarrow> op \<Rightarrow> json \<Rightarrow> datetime \<Rightarrow> gateway \<Rightarrow> 's node
    \<Rightarrow> (exn + applied) \<times> 's node" where
  "apply_remote C copyable x receipt now g nd =
     (let envelope = retained copyable receipt;
          nd1 = tick (Some (op_lamport x)) nd in
      case add_op C (x\<lparr>op_track := OBSERVED\<rparr>) (nd_doc nd1) of
        (Inl e, doc) \<Rightarrow> (Inl e, nd1\<lparr>nd_doc := doc\<rparr>)
      | (Inr newly, doc) \<Rightarrow>
          let nd2 = nd1\<lparr>nd_doc := doc, nd_ledger := keep_receipt (op_id C x) envelope (nd_ledger nd1)\<rparr> in
          case classify C x envelope now g nd2 of
            Inl e \<Rightarrow> (Inl e, nd2)
          | Inr gate \<Rightarrow>
              (Inr \<lparr>ap_newly = newly, ap_track = gr_track gate, ap_status = gr_status gate\<rparr>,
               nd2\<lparr>nd_doc := set_op_track (op_id C x) (gr_track gate) (nd_doc nd2)\<rparr>))"

definition authorized_state :: "('k, 's) crypto \<Rightarrow> 's node \<Rightarrow> (string, json) dict" where
  "authorized_state C nd = authorized_view C (nd_doc nd)"

definition observed_state :: "('k, 's) crypto \<Rightarrow> 's node \<Rightarrow> (string, json) dict" where
  "observed_state C nd = observed_view C (nd_doc nd)"

definition node_digest :: "('k, 's) crypto \<Rightarrow> string \<Rightarrow> 's node \<Rightarrow> string" where
  "node_digest C track nd = state_digest C track (nd_doc nd)"

text \<open>\<open>verify_ledger\<close>: the number of receipts whose signature verifies, and their total.\<close>

fun count_valid :: "('k, 's) crypto \<Rightarrow> json list \<Rightarrow> exn + nat" where
  "count_valid C [] = Inr 0"
| "count_valid C (r # rs) =
     bindE (verify_receipt_signature C r) (\<lambda>b. bindE (count_valid C rs) (\<lambda>n. Inr (of_bool b + n)))"

definition verify_ledger :: "('k, 's) crypto \<Rightarrow> 's node \<Rightarrow> exn + nat \<times> nat" where
  "verify_ledger C nd =
     bindE (count_valid C (map snd (nd_ledger nd))) (\<lambda>n. Inr (n, length (nd_ledger nd)))"

section \<open>Invariant of a node\<close>

text \<open>
  The document is well-formed and of this node's name; no clock in it is ahead of the node's;
  its operations are authorised or observed.
\<close>

definition node_ok :: "('k, 's) crypto \<Rightarrow> 's node \<Rightarrow> bool" where
  "node_ok C nd \<longleftrightarrow> crdt_ok C (nd_doc nd) \<and> cd_doc_id (nd_doc nd) = nd_doc_id nd \<and>
     (\<forall>x \<in> ran (log_of (nd_doc nd)). op_lamport x \<le> nd_lamport nd \<and> op_track x \<in> {AUTHORIZED, OBSERVED})"

lemma node_okD:
  assumes "node_ok C nd"
  shows "crdt_ok C (nd_doc nd)" "cd_doc_id (nd_doc nd) = nd_doc_id nd"
    "log_of (nd_doc nd) i = Some x \<Longrightarrow> op_lamport x \<le> nd_lamport nd"
    "log_of (nd_doc nd) i = Some x \<Longrightarrow> op_track x \<in> {AUTHORIZED, OBSERVED}"
  using assms unfolding node_ok_def by (blast intro: ranI)+

lemma new_node_ok: "node_ok C (new_node C name doc_id priv)"
  by (simp add: node_ok_def new_node_def) (simp add: new_document_def)

lemma tick_simps [simp]:
  "nd_doc (tick l nd) = nd_doc nd" "nd_doc_id (tick l nd) = nd_doc_id nd" "nd_node_id (tick l nd) = nd_node_id nd"
  "nd_ledger (tick l nd) = nd_ledger nd" "nd_enrolled (tick l nd) = nd_enrolled nd" "nd_priv (tick l nd) = nd_priv nd"
  by (simp_all add: tick_def Let_def)

lemma tick_lamport: "nd_lamport nd < nd_lamport (tick l nd)" "l = Some n \<Longrightarrow> n < nd_lamport (tick l nd)"
  by (auto simp: tick_def Let_def split: option.split)

lemma tick_None: "nd_lamport (tick None nd) = nd_lamport nd + 1"
  by (simp add: tick_def)

text \<open>
  What both methods do to a node when they get as far as the log: \<open>filed C x n t nd nd'\<close> says
  that \<open>nd'\<close> is \<open>nd\<close> with the clock at \<open>n\<close>, the operation added as observed and, if \<open>t\<close> is a
  track, filed under it. The ledger may differ.
\<close>

definition as_observed :: "op \<Rightarrow> op" where
  "as_observed x = x\<lparr>op_track := OBSERVED\<rparr>"

lemma as_observed_simps [simp]:
  "op_doc_id (as_observed x) = op_doc_id x" "op_key (as_observed x) = op_key x"
  "op_value (as_observed x) = op_value x" "op_lamport (as_observed x) = op_lamport x"
  "op_node_id (as_observed x) = op_node_id x" "op_deletion (as_observed x) = op_deletion x"
  "op_track (as_observed x) = OBSERVED" "op_id C (as_observed x) = op_id C x"
  "order_key C (as_observed x) = order_key C x" "as_observed (as_observed x) = as_observed x"
  "as_observed (x\<lparr>op_track := t\<rparr>) = as_observed x" "op_track x = OBSERVED \<Longrightarrow> as_observed x = x"
  by (simp_all add: as_observed_def)

definition filed :: "('k, 's) crypto \<Rightarrow> op \<Rightarrow> int \<Rightarrow> string option \<Rightarrow> 's node \<Rightarrow> 's node \<Rightarrow> bool" where
  "filed C x n t nd nd' \<longleftrightarrow>
     nd_doc nd' =
       (let d = snd (add_op C (as_observed x) (nd_doc nd)) in
        case t of None \<Rightarrow> d | Some track \<Rightarrow> set_op_track (op_id C x) track d) \<and>
     nd_lamport nd' = n \<and> nd_doc_id nd' = nd_doc_id nd \<and> nd_node_id nd' = nd_node_id nd \<and>
     nd_priv nd' = nd_priv nd \<and> nd_enrolled nd' = nd_enrolled nd \<and>
     (\<forall>track. t = Some track \<longrightarrow> track \<in> {AUTHORIZED, OBSERVED})"

lemma gate_track: "classify C x r now g nd = Inr gate \<Longrightarrow> gr_track gate \<in> {AUTHORIZED, OBSERVED}"
  unfolding classify_def by (drule validate_track) (auto simp: authorized_result_def)

text \<open>
  \<open>settled\<close>: either the ledger is untouched and the operation got no track, or a receipt was
  kept and the gate's verdict on it decided the track (an exception of the gate decides none).
\<close>

definition settled ::
  "('k, 's) crypto \<Rightarrow> op \<Rightarrow> datetime \<Rightarrow> gateway \<Rightarrow> string option \<Rightarrow> 's node \<Rightarrow> 's node \<Rightarrow> bool" where
  "settled C x now g t nd nd' \<longleftrightarrow>
     t = None \<and> nd_ledger nd' = nd_ledger nd \<or>
     (\<exists>e. nd_ledger nd' = keep_receipt (op_id C x) e (nd_ledger nd) \<and>
        (case classify C x e now g nd of Inl _ \<Rightarrow> t = None | Inr gate \<Rightarrow> t = Some (gr_track gate)))"

lemma settled_none: "nd_ledger nd' = nd_ledger nd \<Longrightarrow> settled C x now g None nd nd'"
  by (simp add: settled_def)

lemma settled_raise:
  "nd_ledger nd' = keep_receipt (op_id C x) e (nd_ledger nd) \<Longrightarrow> classify C x e now g nd = Inl er \<Longrightarrow>
   settled C x now g None nd nd'"
  unfolding settled_def by (rule disjI2, rule exI [of _ e]) simp

lemma settled_gate:
  "nd_ledger nd' = keep_receipt (op_id C x) e (nd_ledger nd) \<Longrightarrow> classify C x e now g nd = Inr gate \<Longrightarrow>
   settled C x now g (Some (gr_track gate)) nd nd'"
  unfolding settled_def by (rule disjI2, rule exI [of _ e]) simp

lemma settled_Some:
  assumes "settled C x now g (Some track) nd nd'"
  shows "\<exists>e gate. nd_ledger nd' = keep_receipt (op_id C x) e (nd_ledger nd) \<and>
    classify C x e now g nd = Inr gate \<and> track = gr_track gate"
proof -
  from assms obtain e where e: "nd_ledger nd' = keep_receipt (op_id C x) e (nd_ledger nd)"
    "case classify C x e now g nd of Inl _ \<Rightarrow> Some track = None | Inr gate \<Rightarrow> Some track = Some (gr_track gate)"
    unfolding settled_def by blast
  from e(2) show ?thesis by (cases "classify C x e now g nd") (use e(1) in auto)
qed

lemma settled_None:
  assumes "settled C x now g None nd nd'"
  shows "nd_ledger nd' = nd_ledger nd \<or>
    (\<exists>e er. nd_ledger nd' = keep_receipt (op_id C x) e (nd_ledger nd) \<and> classify C x e now g nd = Inl er)"
proof -
  have "\<exists>er. classify C x e now g nd = Inl er"
    if "case classify C x e now g nd of Inl _ \<Rightarrow> None = None | Inr gate \<Rightarrow> None = Some (gr_track gate)" for e
    using that by (cases "classify C x e now g nd") simp_all
  then show ?thesis using assms unfolding settled_def by blast
qed

lemma classify_enrolled: "nd_enrolled nd' = nd_enrolled nd \<Longrightarrow> classify C x e now g nd' = classify C x e now g nd"
  by (simp add: classify_def)

text \<open>The operation that \<open>write\<close> makes.\<close>

definition own_op :: "string \<Rightarrow> json \<Rightarrow> bool \<Rightarrow> 's node \<Rightarrow> op" where
  "own_op key val deletion nd =
     \<lparr>op_doc_id = nd_doc_id nd, op_key = key, op_value = val, op_lamport = nd_lamport nd + 1,
      op_node_id = nd_node_id nd, op_deletion = deletion, op_track = OBSERVED\<rparr>"

lemma own_op_simps [simp]:
  "op_doc_id (own_op key val del nd) = nd_doc_id nd" "op_key (own_op key val del nd) = key"
  "op_value (own_op key val del nd) = val" "op_lamport (own_op key val del nd) = nd_lamport nd + 1"
  "op_node_id (own_op key val del nd) = nd_node_id nd" "op_deletion (own_op key val del nd) = del"
  "op_track (own_op key val del nd) = OBSERVED"
  by (simp_all add: own_op_def)

lemma node_write_uncopied:
  "nd_enrolled nd \<Longrightarrow> \<not> copies C val \<Longrightarrow>
   node_write C key val cls deletion nonce now now' g nd = (Inl RecursionError, tick None nd)"
  by (simp add: node_write_def make_op_def Let_def)

lemma node_write_stuck:
  assumes "\<not> (nd_enrolled nd \<and> copies C val)"
  shows "snd (node_write C key val cls deletion nonce now now' g nd) = nd \<or>
    snd (node_write C key val cls deletion nonce now now' g nd) = tick None nd"
proof (cases "nd_enrolled nd")
  case True
  with assms show ?thesis by (simp add: node_write_uncopied)
qed (simp add: node_write_def)

lemma node_write_unfold:
  assumes "nd_enrolled nd" "copies C val"
  shows "node_write C key val cls deletion nonce now now' g nd =
    (let x = own_op key val deletion nd in
     case add_op C x (nd_doc nd) of
       (Inl e, doc) \<Rightarrow> (Inl e, (tick None nd)\<lparr>nd_doc := doc\<rparr>)
     | (Inr _, doc) \<Rightarrow>
         case bindE (build_state_transition_statement (nd_doc_id nd) (op_id C x) (heads C (nd_doc nd)) (heads C doc)
                (nd_node_id nd) cls None now) (\<lambda>stmt. build_dsse_receipt C stmt (nd_priv nd) nonce) of
           Inl e \<Rightarrow> (Inl e, (tick None nd)\<lparr>nd_doc := doc\<rparr>)
         | Inr envelope \<Rightarrow>
             let nd3 = (tick None nd)\<lparr>nd_doc := doc, nd_ledger := put (op_id C x) envelope (nd_ledger nd)\<rparr> in
             case classify C x envelope now' g nd3 of
               Inl e \<Rightarrow> (Inl e, nd3)
             | Inr gate \<Rightarrow>
                 (Inr \<lparr>bc_op = x, bc_receipt = envelope, bc_track = gr_track gate, bc_status = gr_status gate\<rparr>,
                  nd3\<lparr>nd_doc := set_op_track (op_id C x) (gr_track gate) doc\<rparr>))"
  unfolding node_write_def own_op_def Let_def by (simp add: assms make_op_def tick_None split: prod.split sum.split)

lemma node_write_filed:
  assumes "nd_enrolled nd" "copies C val"
  shows "\<exists>t. filed C (own_op key val deletion nd) (nd_lamport nd + 1) t nd
      (snd (node_write C key val cls deletion nonce now now' g nd)) \<and>
    settled C (own_op key val deletion nd) now' g t nd (snd (node_write C key val cls deletion nonce now now' g nd))"
proof -
  let ?x = "own_op key val deletion nd"
  let ?w = "node_write C key val cls deletion nonce now now' g nd"
  obtain r doc where add: "add_op C ?x (nd_doc nd) = (r, doc)" by fastforce
  let ?built = "bindE (build_state_transition_statement (nd_doc_id nd) (op_id C ?x) (heads C (nd_doc nd)) (heads C doc)
        (nd_node_id nd) cls None now) (\<lambda>stmt. build_dsse_receipt C stmt (nd_priv nd) nonce)"
  note base = node_write_unfold [OF assms, of key cls deletion nonce now now' g] add
  show ?thesis
  proof (cases "\<exists>b envelope. r = Inr b \<and> ?built = Inr envelope")
    case False
    then have "snd ?w = (tick None nd)\<lparr>nd_doc := doc\<rparr>"
      using base by (cases r; cases ?built) (simp_all add: Let_def)
    then show ?thesis
      by (intro exI [of _ None] conjI settled_none) (simp_all add: filed_def tick_None Let_def add)
  next
    case True
    then obtain b envelope where env: "r = Inr b" "?built = Inr envelope" by blast
    then have keep: "put (op_id C ?x) envelope L = keep_receipt (op_id C ?x) envelope L" for L
      by (auto simp: keep_receipt_def bindE_Inr_iff build_dsse_receipt_def Let_def split: if_splits)
    let ?nd3 = "(tick None nd)\<lparr>nd_doc := doc, nd_ledger := put (op_id C ?x) envelope (nd_ledger nd)\<rparr>"
    have cl: "classify C ?x envelope now' g ?nd3 = classify C ?x envelope now' g nd" by (rule classify_enrolled) simp
    show ?thesis
    proof (cases "classify C ?x envelope now' g nd")
      case (Inl e)
      with base env cl have "snd ?w = ?nd3" by (simp add: Let_def)
      then show ?thesis
        by (intro exI [of _ None] conjI settled_raise [OF _ Inl]) (simp_all add: filed_def tick_None Let_def add keep)
    next
      case (Inr gate)
      with base env cl have "snd ?w = ?nd3\<lparr>nd_doc := set_op_track (op_id C ?x) (gr_track gate) doc\<rparr>"
        by (simp add: Let_def)
      then show ?thesis using gate_track [OF Inr]
        by (intro exI [of _ "Some (gr_track gate)"] conjI settled_gate [OF _ Inr])
           (simp_all add: filed_def tick_None Let_def add keep)
    qed
  qed
qed

lemma apply_remote_unfold:
  "apply_remote C copyable x receipt now g nd =
    (let e = retained copyable receipt; nd1 = tick (Some (op_lamport x)) nd in
     case add_op C (as_observed x) (nd_doc nd) of
       (Inl er, doc) \<Rightarrow> (Inl er, nd1\<lparr>nd_doc := doc\<rparr>)
     | (Inr newly, doc) \<Rightarrow>
         let nd2 = nd1\<lparr>nd_doc := doc, nd_ledger := keep_receipt (op_id C x) e (nd_ledger nd)\<rparr> in
         case classify C x e now g nd2 of
           Inl er \<Rightarrow> (Inl er, nd2)
         | Inr gate \<Rightarrow>
             (Inr \<lparr>ap_newly = newly, ap_track = gr_track gate, ap_status = gr_status gate\<rparr>,
              nd2\<lparr>nd_doc := set_op_track (op_id C x) (gr_track gate) doc\<rparr>))"
  unfolding apply_remote_def Let_def as_observed_def by (simp split: prod.split sum.split)

lemma tick_Some: "nd_lamport (tick (Some l) nd) = max (nd_lamport nd) l + 1"
  by (simp add: tick_def)

lemma apply_remote_filed:
  "\<exists>t. filed C x (max (nd_lamport nd) (op_lamport x) + 1) t nd (snd (apply_remote C copyable x receipt now g nd)) \<and>
     settled C x now g t nd (snd (apply_remote C copyable x receipt now g nd))"
proof -
  let ?w = "apply_remote C copyable x receipt now g nd"
  let ?e = "retained copyable receipt"
  obtain r doc where add: "add_op C (as_observed x) (nd_doc nd) = (r, doc)" by fastforce
  note base = apply_remote_unfold [of C copyable x receipt now g nd] add
  show ?thesis
  proof (cases r)
    case (Inl e)
    with base have "snd ?w = (tick (Some (op_lamport x)) nd)\<lparr>nd_doc := doc\<rparr>" by (simp add: Let_def)
    then show ?thesis
      by (intro exI [of _ None] conjI settled_none) (simp_all add: filed_def tick_Some Let_def add)
  next
    case r: (Inr b)
    let ?nd2 = "(tick (Some (op_lamport x)) nd)\<lparr>nd_doc := doc,
          nd_ledger := keep_receipt (op_id C x) ?e (nd_ledger nd)\<rparr>"
    have cl: "classify C x ?e now g ?nd2 = classify C x ?e now g nd" by (rule classify_enrolled) simp
    show ?thesis
    proof (cases "classify C x ?e now g nd")
      case (Inl e)
      with base r cl have "snd ?w = ?nd2" by (simp add: Let_def)
      then show ?thesis
        by (intro exI [of _ None] conjI settled_raise [OF _ Inl]) (simp_all add: filed_def tick_Some Let_def add)
    next
      case (Inr gate)
      with base r cl have "snd ?w = ?nd2\<lparr>nd_doc := set_op_track (op_id C x) (gr_track gate) doc\<rparr>"
        by (simp add: Let_def)
      then show ?thesis using gate_track [OF Inr]
        by (intro exI [of _ "Some (gr_track gate)"] conjI settled_gate [OF _ Inr])
           (simp_all add: filed_def tick_Some Let_def add)
    qed
  qed
qed

lemma ran_add_op: "ran (log_of (snd (add_op C x d))) \<subseteq> insert x (ran (log_of d))"
  by (auto simp: add_op_def ran_def)

lemma ran_set_op_track:
  "y \<in> ran (log_of (set_op_track i t d)) \<Longrightarrow> y \<in> ran (log_of d) \<or> (\<exists>x \<in> ran (log_of d). y = x\<lparr>op_track := t\<rparr>)"
  by (auto simp: set_op_track_log ran_def split: option.splits if_splits)

lemma node_ok_filed:
  assumes "node_ok C nd" "filed C x n t nd nd'" "op_lamport x \<le> n" "nd_lamport nd \<le> n"
  shows "node_ok C nd'"
proof -
  let ?d = "snd (add_op C (as_observed x) (nd_doc nd))"
  let ?P = "\<lambda>y. op_lamport y \<le> n \<and> op_track y \<in> {AUTHORIZED, OBSERVED}"
  have "?P y" if "y \<in> ran (log_of ?d)" for y
  proof -
    from that ran_add_op have "y = as_observed x \<or> y \<in> ran (log_of (nd_doc nd))" by fast
    then show ?thesis using assms(1,3,4) unfolding node_ok_def by force
  qed
  then have "?P y" if "y \<in> ran (log_of (nd_doc nd'))" for y
    using that assms(2) unfolding filed_def by (cases t) (auto dest!: ran_set_op_track)
  moreover have "crdt_ok C ?d" using assms(1) by (simp add: node_ok_def add_op_ok)
  then have "crdt_ok C (nd_doc nd')" "cd_doc_id (nd_doc nd') = cd_doc_id (nd_doc nd)"
    using assms(2) unfolding filed_def by (cases t; simp add: set_op_track_ok)+
  ultimately show ?thesis using assms(1,2) unfolding node_ok_def filed_def by simp
qed

lemma tick_ok: "node_ok C nd \<Longrightarrow> node_ok C (tick l nd)"
  using tick_lamport(1) [of nd l] unfolding node_ok_def by fastforce

lemma node_write_ok:
  assumes "node_ok C nd"
  shows "node_ok C (snd (node_write C key val cls deletion nonce now now' g nd))"
proof (cases "nd_enrolled nd \<and> copies C val")
  case True
  then obtain t where "filed C (own_op key val deletion nd) (nd_lamport nd + 1) t nd
    (snd (node_write C key val cls deletion nonce now now' g nd))" using node_write_filed by blast
  from node_ok_filed [OF assms this] show ?thesis by simp
next
  case False
  from node_write_stuck [OF this] show ?thesis using tick_ok [OF assms] assms by metis
qed

lemma apply_remote_ok:
  assumes "node_ok C nd"
  shows "node_ok C (snd (apply_remote C copyable x receipt now g nd))"
proof -
  obtain t where "filed C x (max (nd_lamport nd) (op_lamport x) + 1) t nd (snd (apply_remote C copyable x receipt now g nd))"
    using apply_remote_filed by blast
  from node_ok_filed [OF assms this] show ?thesis by simp
qed

section \<open>Effect on the log\<close>

definition with_track :: "string option \<Rightarrow> op \<Rightarrow> op" where
  "with_track t x = (case t of None \<Rightarrow> x | Some track \<Rightarrow> x\<lparr>op_track := track\<rparr>)"

lemma with_track_simps [simp]:
  "op_doc_id (with_track t x) = op_doc_id x" "op_key (with_track t x) = op_key x"
  "op_value (with_track t x) = op_value x" "op_lamport (with_track t x) = op_lamport x"
  "op_deletion (with_track t x) = op_deletion x" "op_id C (with_track t x) = op_id C x"
  "order_key C (with_track t x) = order_key C x" "as_observed (with_track t x) = as_observed x"
  "op_track (with_track (Some s) x) = s" "with_track None x = x"
  by (simp_all add: with_track_def split: option.split)

lemma filed_log:
  assumes "filed C x n t nd nd'" "op_doc_id x = cd_doc_id (nd_doc nd)"
  shows "log_of (nd_doc nd') = (log_of (nd_doc nd))(op_id C x \<mapsto>
    with_track t (case log_of (nd_doc nd) (op_id C x) of None \<Rightarrow> as_observed x | Some y \<Rightarrow> y))"
  using assms add_op_log [of "as_observed x" "nd_doc nd" C]
  by (cases "log_of (nd_doc nd) (op_id C x)"; cases t)
     (auto simp: filed_def Let_def set_op_track_log with_track_def fun_eq_iff domIff)

lemma filed_foreign:
  assumes "filed C x n t nd nd'" "op_doc_id x \<noteq> cd_doc_id (nd_doc nd)" "t = None"
  shows "nd_doc nd' = nd_doc nd"
  using assms by (simp add: filed_def add_op_def)

text \<open>An operation that is new and ahead of every clock in the log wins its key.\<close>

lemma winners_new_top:
  assumes ok: "crdt_ok C d" "crdt_ok C d'" and log: "log_of d' = (log_of d)(op_id C x \<mapsto> x)"
    and new: "op_id C x \<notin> dom (log_of d)" and top: "\<forall>y \<in> ran (log_of d). op_lamport y < op_lamport x"
    and p: "p (op_track x)"
  shows "map_of (winners C p d') = (map_of (winners C p d))(op_key x \<mapsto> x)"
proof
  fix k
  have ran: "ran (log_of d') = insert x (ran (log_of d))"
    unfolding log using new by (simp add: domIff)
  have less: "order_key C y < order_key C x" if "y \<in> ran (log_of d)" for y
    using top that by (simp add: order_key_def less_prod_def)
  show "map_of (winners C p d') k = ((map_of (winners C p d))(op_key x \<mapsto> x)) k"
  proof (cases "k = op_key x")
    case True
    have "map_of (winners C p d') k = Some x"
      unfolding winners_iff [OF ok(2)] ran using p less True by (auto intro: less_imp_le)
    with True show ?thesis by simp
  next
    case False
    then have "map_of (winners C p d') k = Some y \<longleftrightarrow> map_of (winners C p d) k = Some y" for y
      unfolding winners_iff [OF ok(1)] winners_iff [OF ok(2)] ran by auto
    then have "map_of (winners C p d') k = map_of (winners C p d) k" by (rule option_eqI)
    with False show ?thesis by simp
  qed
qed

lemma materialise_new_top:
  assumes "map_of (winners C (\<lambda>t. t \<in> set ts) d') = (map_of (winners C (\<lambda>t. t \<in> set ts) d))(op_key x \<mapsto> x)"
  shows "map_of (materialise C ts d') =
    (map_of (materialise C ts d))(op_key x := if op_deletion x then None else Some (op_value x))"
proof
  fix k
  show "map_of (materialise C ts d') k =
    ((map_of (materialise C ts d))(op_key x := if op_deletion x then None else Some (op_value x))) k"
    by (rule option_eqI, cases "k = op_key x"; cases "op_deletion x")
       (simp_all add: materialise_lookup assms eq_commute [of _ "op_value x"])
qed

lemma filed_fresh_views:
  assumes nd: "node_ok C nd" "op_doc_id x = nd_doc_id nd" and f: "filed C x n t nd nd'"
    and new: "op_id C x \<notin> dom (log_of (nd_doc nd))" "nd_lamport nd < op_lamport x" "op_lamport x \<le> n"
    and ts: "op_track (with_track t (as_observed x)) \<in> set ts"
  shows "map_of (materialise C ts (nd_doc nd')) =
    (map_of (materialise C ts (nd_doc nd)))(op_key x := if op_deletion x then None else Some (op_value x))"
proof -
  let ?x = "with_track t (as_observed x)"
  have "node_ok C nd'" using node_ok_filed [OF nd(1) f] new by simp
  then have ok: "crdt_ok C (nd_doc nd)" "crdt_ok C (nd_doc nd')" using nd(1) by (simp_all add: node_ok_def)
  have log: "log_of (nd_doc nd') = (log_of (nd_doc nd))(op_id C ?x \<mapsto> ?x)"
    using filed_log [OF f] nd new(1) node_okD(2) [OF nd(1)] by (simp add: domIff)
  have top: "\<forall>y \<in> ran (log_of (nd_doc nd)). op_lamport y < op_lamport ?x"
    using nd(1) new(2) by (fastforce simp: node_ok_def)
  have "op_id C ?x \<notin> dom (log_of (nd_doc nd))" using new(1) by simp
  from materialise_new_top [OF winners_new_top [where p = "\<lambda>t. t \<in> set ts", OF ok log this top ts]] show ?thesis by simp
qed

section \<open>Writing\<close>

lemma put_last: "map_of d k = None \<Longrightarrow> put k v (d @ [(k, w)]) = d @ [(k, v)]"
  by (induction d) (auto split: if_splits)

lemma add_then_track:
  "op_doc_id x = cd_doc_id d \<Longrightarrow> log_of d (op_id C x) = None \<Longrightarrow>
   cd_ops (set_op_track (op_id C x) t (snd (add_op C x d))) = cd_ops d @ [(op_id C x, x\<lparr>op_track := t\<rparr>)]"
  by (simp add: add_op_def set_op_track_def put_fresh put_last map_add_def)

lemma node_write_success:
  assumes "fst (node_write C key val cls deletion nonce now now' g nd) = Inr b"
  shows "nd_enrolled nd" "copies C val" "bc_op b = own_op key val deletion nd"
    "filed C (bc_op b) (nd_lamport nd + 1) (Some (bc_track b)) nd (snd (node_write C key val cls deletion nonce now now' g nd))"
    "nd_ledger (snd (node_write C key val cls deletion nonce now now' g nd)) = put (op_id C (bc_op b)) (bc_receipt b) (nd_ledger nd)"
    "\<exists>gate. classify C (bc_op b) (bc_receipt b) now' g nd = Inr gate \<and> bc_track b = gr_track gate"
proof -
  let ?x = "own_op key val deletion nd"
  let ?w = "node_write C key val cls deletion nonce now now' g nd"
  show en: "nd_enrolled nd" using assms by (auto simp: node_write_def split: if_splits)
  show cp: "copies C val"
  proof (rule ccontr)
    assume "\<not> copies C val"
    from node_write_uncopied [OF en this] assms show False by simp
  qed
  obtain r doc where add: "add_op C ?x (nd_doc nd) = (r, doc)" by fastforce
  let ?nd3 = "\<lambda>e. (tick None nd)\<lparr>nd_doc := doc, nd_ledger := put (op_id C ?x) e (nd_ledger nd)\<rparr>"
  have cl: "classify C ?x e now' g (?nd3 e) = classify C ?x e now' g nd" for e by (rule classify_enrolled) simp
  from assms obtain e gate where eg: "classify C ?x e now' g nd = Inr gate"
    "?w = (Inr \<lparr>bc_op = ?x, bc_receipt = e, bc_track = gr_track gate, bc_status = gr_status gate\<rparr>,
      (?nd3 e)\<lparr>nd_doc := set_op_track (op_id C ?x) (gr_track gate) doc\<rparr>)"
    unfolding node_write_unfold [OF en cp] Let_def add by (auto simp: cl split: sum.splits)
  with assms have b: "b = \<lparr>bc_op = ?x, bc_receipt = e, bc_track = gr_track gate, bc_status = gr_status gate\<rparr>" by simp
  show "bc_op b = ?x" using b by simp
  show "filed C (bc_op b) (nd_lamport nd + 1) (Some (bc_track b)) nd (snd ?w)"
    using gate_track [OF eg(1)] unfolding eg(2) b by (simp add: filed_def tick_None Let_def add)
  show "nd_ledger (snd ?w) = put (op_id C (bc_op b)) (bc_receipt b) (nd_ledger nd)"
    unfolding eg(2) b by simp
  show "\<exists>gate. classify C (bc_op b) (bc_receipt b) now' g nd = Inr gate \<and> bc_track b = gr_track gate"
    using eg(1) b by simp
qed

lemma written_views:
  assumes "node_ok C nd" "fst (node_write C key val cls deletion nonce now now' g nd) = Inr b"
    and "op_id C (bc_op b) \<notin> dom (log_of (nd_doc nd))" "bc_track b \<in> set ts"
  shows "map_of (materialise C ts (nd_doc (snd (node_write C key val cls deletion nonce now now' g nd)))) =
    (map_of (materialise C ts (nd_doc nd)))(key := if deletion then None else Some val)"
proof -
  note w = node_write_success [OF assms(2)]
  from filed_fresh_views [OF assms(1) _ w(4) assms(3)] assms(4) show ?thesis
    by (simp add: w(3))
qed

lemma written_track:
  "fst (node_write C key val cls deletion nonce now now' g nd) = Inr b \<Longrightarrow> bc_track b \<in> {AUTHORIZED, OBSERVED}"
  using node_write_success(4) unfolding filed_def by blast

text \<open>An invalid transition class is found only after the operation has been filed.\<close>

lemma write_bad_class:
  assumes "node_ok C nd" "nd_enrolled nd" "copies C val" "cls \<notin> set TRANSITION_CLASSES"
  shows "fst (node_write C key val cls deletion nonce now now' g nd) = Inl ValueError"
    "filed C (own_op key val deletion nd) (nd_lamport nd + 1) None nd (snd (node_write C key val cls deletion nonce now now' g nd))"
    "nd_ledger (snd (node_write C key val cls deletion nonce now now' g nd)) = nd_ledger nd"
proof -
  let ?x = "own_op key val deletion nd"
  obtain b doc where add: "add_op C ?x (nd_doc nd) = (Inr b, doc)"
    using add_op_length [of ?x "nd_doc nd" C] node_okD(2) [OF assms(1)] by (metis own_op_simps(1) prod.collapse)
  have w: "node_write C key val cls deletion nonce now now' g nd = (Inl ValueError, (tick None nd)\<lparr>nd_doc := doc\<rparr>)"
    unfolding node_write_unfold [OF assms(2,3)] Let_def add
    using assms(4) by (simp add: build_state_transition_statement_def)
  show "fst (node_write C key val cls deletion nonce now now' g nd) = Inl ValueError"
    "filed C ?x (nd_lamport nd + 1) None nd (snd (node_write C key val cls deletion nonce now now' g nd))"
    "nd_ledger (snd (node_write C key val cls deletion nonce now now' g nd)) = nd_ledger nd"
    unfolding w by (simp_all add: filed_def tick_None add)
qed

section \<open>What a node shows does not depend on the tracks it assigned\<close>

definition untracked :: "crdt \<Rightarrow> crdt" where
  "untracked d = d\<lparr>cd_ops := map (\<lambda>(i, x). (i, as_observed x)) (cd_ops d)\<rparr>"

lemma untracked_log: "log_of (untracked d) = map_option as_observed \<circ> log_of d"
  by (simp add: untracked_def map_of_map)

lemma untracked_ok: "crdt_ok C d \<Longrightarrow> crdt_ok C (untracked d)"
  by (auto simp: crdt_ok_def untracked_def comp_def case_prod_unfold)

lemma winners_untracked:
  assumes "\<forall>x \<in> set (map snd (cd_ops d)). p (op_track x)" "p OBSERVED"
  shows "winners C p (untracked d) = map (\<lambda>(k, x). (k, as_observed x)) (winners C p d)"
proof -
  have "map snd (cd_ops (untracked d)) = map as_observed (map snd (cd_ops d))"
    by (simp add: untracked_def case_prod_unfold)
  moreover have "filter (\<lambda>x. p (op_track x)) (map snd (cd_ops d)) = map snd (cd_ops d)"
    using assms(1) by (intro filter_True) simp
  moreover have "filter (\<lambda>x. p (op_track x)) (map as_observed (map snd (cd_ops d))) = map as_observed (map snd (cd_ops d))"
    using assms(2) by (intro filter_True) auto
  ultimately show ?thesis
    unfolding winners_def by (simp only:) (rule lww_fold_map; simp)
qed

lemma sorted_dict_eqI:
  assumes "sorted (map fst d)" "dict_ok d" "sorted (map fst e)" "dict_ok e" "map_of d = map_of e"
  shows "d = e"
proof -
  have "sort_key fst d = sort_key fst e"
    using dict_mset_eqI [OF assms(2,4,5)] assms(2) by (intro sort_key_mset_eq) (auto simp: distinct_map)
  with assms(1,3) show ?thesis by (simp add: sorted_sort_id sort_key_id_if_sorted)
qed

lemma node_tracks:
  "node_ok C nd \<Longrightarrow> \<forall>x \<in> set (map snd (cd_ops (nd_doc nd))). op_track x \<in> {AUTHORIZED, OBSERVED}"
  using ops_of_log [of "nd_doc nd"] by (auto simp: node_ok_def crdt_ok_def)

lemma observed_untracked:
  assumes "node_ok C nd"
  shows "observed_state C nd = observed_view C (untracked (nd_doc nd))" "heads C (nd_doc nd) = heads C (untracked (nd_doc nd))"
proof -
  let ?d = "nd_doc nd"
  have "winners C (\<lambda>t. t \<in> set [AUTHORIZED, OBSERVED]) (untracked ?d) =
    map (\<lambda>(k, x). (k, as_observed x)) (winners C (\<lambda>t. t \<in> set [AUTHORIZED, OBSERVED]) ?d)"
    by (rule winners_untracked) (use node_tracks [OF assms] in simp_all)
  then have "map_of (winners C (\<lambda>t. t \<in> set [AUTHORIZED, OBSERVED]) (untracked ?d)) =
    map_option as_observed \<circ> map_of (winners C (\<lambda>t. t \<in> set [AUTHORIZED, OBSERVED]) ?d)"
    by (simp add: map_of_map)
  then have "map_of (materialise C [AUTHORIZED, OBSERVED] ?d) k = Some v \<longleftrightarrow>
    map_of (materialise C [AUTHORIZED, OBSERVED] (untracked ?d)) k = Some v" for k v
    unfolding materialise_lookup by auto
  then have "map_of (materialise C [AUTHORIZED, OBSERVED] ?d) = map_of (materialise C [AUTHORIZED, OBSERVED] (untracked ?d))"
    by (intro ext option_eqI)
  then show "observed_state C nd = observed_view C (untracked ?d)"
    unfolding observed_state_def observed_view_def
    by (intro sorted_dict_eqI materialise_keys)
  have "winners C (\<lambda>t. t \<noteq> REVOKED) (untracked ?d) = map (\<lambda>(k, x). (k, as_observed x)) (winners C (\<lambda>t. t \<noteq> REVOKED) ?d)"
    by (rule winners_untracked) (use node_tracks [OF assms] in auto)
  then show "heads C ?d = heads C (untracked ?d)" by (simp add: heads_def case_prod_unfold comp_def)
qed

text \<open>A delivery: what a peer sent, and the circumstances in which it is applied.\<close>

record delivery =
  dv_op :: op
  dv_receipt :: json
  dv_copyable :: "json \<Rightarrow> bool"
  dv_now :: datetime
  dv_gateway :: gateway

definition deliver :: "('k, 's) crypto \<Rightarrow> delivery \<Rightarrow> 's node \<Rightarrow> 's node" where
  "deliver C v nd = snd (apply_remote C (dv_copyable v) (dv_op v) (dv_receipt v) (dv_now v) (dv_gateway v) nd)"

abbreviation plain_log :: "'s node \<Rightarrow> string \<rightharpoonup> op" where
  "plain_log nd \<equiv> map_option as_observed \<circ> log_of (nd_doc nd)"

abbreviation delivery_id :: "('k, 's) crypto \<Rightarrow> delivery \<Rightarrow> string" where
  "delivery_id C v \<equiv> op_id C (dv_op v)"

lemma filed_plain_log:
  assumes "node_ok C nd" "filed C x n t nd nd'" "op_doc_id x = nd_doc_id nd"
  shows "plain_log nd' = (if op_id C x \<in> dom (plain_log nd) then plain_log nd else (plain_log nd)(op_id C x \<mapsto> as_observed x))"
  using filed_log [OF assms(2)] assms(3) node_okD(2) [OF assms(1)]
  by (cases "log_of (nd_doc nd) (op_id C x)") (auto simp: fun_eq_iff)

lemma deliver_log:
  assumes "node_ok C nd" "op_doc_id (dv_op v) = nd_doc_id nd"
  shows "plain_log (deliver C v nd) = (if delivery_id C v \<in> dom (plain_log nd) then plain_log nd
    else (plain_log nd)(delivery_id C v \<mapsto> as_observed (dv_op v)))"
  unfolding deliver_def using apply_remote_filed filed_plain_log [OF assms(1) _ assms(2)] by blast

lemma deliver_same [simp]:
  "nd_doc_id (deliver C v nd) = nd_doc_id nd" "nd_node_id (deliver C v nd) = nd_node_id nd"
  "nd_enrolled (deliver C v nd) = nd_enrolled nd"
  unfolding deliver_def using apply_remote_filed unfolding filed_def by metis+

lemma observed_query:
  assumes "node_ok C nd" "node_ok C nd'" "plain_log nd = plain_log nd'"
  shows "(observed_state C nd, heads C (nd_doc nd)) = (observed_state C nd', heads C (nd_doc nd'))"
proof -
  have "log_of (untracked (nd_doc nd)) = log_of (untracked (nd_doc nd'))" using assms(3) by (simp add: untracked_log)
  moreover have "crdt_ok C (untracked (nd_doc nd))" "crdt_ok C (untracked (nd_doc nd'))"
    using assms(1,2) by (simp_all add: untracked_ok node_ok_def)
  ultimately show ?thesis
    using views_log [of C "untracked (nd_doc nd)" "untracked (nd_doc nd')"]
    by (simp add: observed_untracked [OF assms(1)] observed_untracked [OF assms(2)] observed_view_def)
qed

interpretation mesh: replica plain_log "delivery_id C" "\<lambda>v. as_observed (dv_op v)"
  "\<lambda>nd v. op_doc_id (dv_op v) = nd_doc_id nd" "deliver C" "node_ok C"
  "\<lambda>nd. (observed_state C nd, heads C (nd_doc nd))" for C :: "('k, 's) crypto"
proof unfold_locales
  show "plain_log (deliver C v nd) = (if delivery_id C v \<in> dom (plain_log nd) then plain_log nd
    else (plain_log nd)(delivery_id C v \<mapsto> as_observed (dv_op v)))"
    if "node_ok C nd" "op_doc_id (dv_op v) = nd_doc_id nd" for nd :: "'s node" and v
    by (rule deliver_log) fact+
  show "node_ok C (deliver C v nd)" if "node_ok C nd" for nd :: "'s node" and v
    unfolding deliver_def by (rule apply_remote_ok) fact
qed (use observed_query in \<open>(blast | simp)+\<close>)

section \<open>Evidence for authorised operations\<close>

text \<open>
  The moves of one node beside its gateway: its own enrollment and methods, the enrollment of
  other nodes, revocations; a history is a sequence of them. (Exceptions included: a move leaves
  behind whatever the method leaves behind.)
\<close>

inductive mesh_step :: "('k, 's) crypto \<Rightarrow> 's node \<times> gateway \<Rightarrow> 's node \<times> gateway \<Rightarrow> bool"
  for C :: "('k, 's) crypto" where
  enroll: "mesh_step C (nd, g) (snd (node_enroll C key vendor doctrine kern slsa now now' nd g))"
| writing: "mesh_step C (nd, g) (snd (node_write C k v cls deletion nonce now now' g nd), g)"
| receiving: "mesh_step C (nd, g) (snd (apply_remote C copyable x receipt now g nd), g)"
| other: "mesh_step C (nd, g) (nd, snd (gw_enroll C req now g))"
| revoke: "mesh_step C (nd, g) (nd, gw_revoke n g)"

inductive_cases mesh_stepE: "mesh_step C (nd, g) (nd', g')"

abbreviation mesh_run :: "('k, 's) crypto \<Rightarrow> 's node \<times> gateway \<Rightarrow> 's node \<times> gateway \<Rightarrow> bool" where
  "mesh_run C \<equiv> (mesh_step C)\<^sup>*\<^sup>*"

text \<open>
  The ledger holds a receipt for the operation with identifier \<open>i\<close>: a pinned statement over
  exactly this identifier, signed by the certified key of an enrolled node.
\<close>

definition evidence :: "('k, 's) crypto \<Rightarrow> 's node \<Rightarrow> gateway \<Rightarrow> string \<Rightarrow> bool" where
  "evidence C nd g i \<longleftrightarrow>
     (\<exists>r payload stmt c k. map_of (nd_ledger nd) i = Some r \<and>
        signed_by C PAYLOAD_TYPE r payload stmt (ce_public_key_der c) k \<and> doctrine_pinned stmt \<and>
        jget stmt ''change_hash'' = Some (JStr i) \<and>
        map_of (gw_certs g) (node_id_from_pubkey C k) = Some c)"

text \<open>
  The receipt in the ledger is one that the gate could not judge: checking its signature raises.
\<close>

definition unjudged :: "('k, 's) crypto \<Rightarrow> 's node \<Rightarrow> string \<Rightarrow> bool" where
  "unjudged C nd i \<longleftrightarrow> (\<exists>r e. map_of (nd_ledger nd) i = Some r \<and> verify_receipt_signature C r = Inl e)"

definition authorizes :: "'s node \<Rightarrow> string \<Rightarrow> bool" where
  "authorizes nd i \<longleftrightarrow> (\<exists>x. log_of (nd_doc nd) i = Some x \<and> op_track x = AUTHORIZED)"

lemma authorizes_log:
  "log_of (nd_doc nd') i = log_of (nd_doc nd) i \<Longrightarrow> authorizes nd' i \<longleftrightarrow> authorizes nd i"
  by (simp add: authorizes_def)

lemma classify_evidence:
  assumes "classify C x e now g nd = Inr gate" "gr_track gate = AUTHORIZED" "gateway_ok C g"
    and "map_of (nd_ledger nd') (op_id C x) = Some e"
  shows "evidence C nd' g (op_id C x)"
proof -
  from assms(1,2) obtain stmt where gate: "gate = authorized_result stmt"
    unfolding classify_def by (auto dest: validate_track)
  from assms(1) [unfolded classify_def gate validate_iff] obtain payload der k where
    a: "doctrine_pinned stmt" "signed_by C PAYLOAD_TYPE e payload stmt der k"
      "map_of (if nd_enrolled nd then pubkey_registry g else []) (node_id_from_pubkey C k) = Some der"
      "jget stmt ''change_hash'' = Some (JStr (sha256_hex C (raw_bytes x)))"
    unfolding receipt_acceptable_def by blast
  from a(3) have en: "map_of (pubkey_registry g) (node_id_from_pubkey C k) = Some der" by (cases "nd_enrolled nd") auto
  from assms(3) have "dict_ok (gw_certs g)" by (simp add: gateway_ok_def)
  from en [unfolded registry_lookup [OF this]] obtain c where
    "map_of (gw_certs g) (node_id_from_pubkey C k) = Some c" "der = ce_public_key_der c"
    by (auto split: if_splits simp del: map_of_eq_Some_iff)
  with a assms(4) show ?thesis unfolding evidence_def op_id_raw by blast
qed

lemma classify_no_receipt: "classify C x JNull now g nd = Inr gate \<Longrightarrow> gr_track gate = OBSERVED"
  by (auto simp: classify_def validate_receipt_def observed_def)

lemma classify_raises: "classify C x e now g nd = Inl er \<Longrightarrow> verify_receipt_signature C e = Inl er"
  unfolding classify_def by (rule validate_raises)

lemma classify_returns: "(\<exists>gate. classify C x e now g nd = Inr gate) \<longleftrightarrow> answerable C e"
  unfolding classify_def answerable_iff [symmetric] ..

lemma evidence_mono:
  assumes "evidence C nd g i" "map_of (nd_ledger nd') i = map_of (nd_ledger nd) i"
    and "\<And>n c. map_of (gw_certs g) n = Some c \<Longrightarrow> map_of (gw_certs g') n = Some c"
  shows "evidence C nd' g' i"
proof -
  from assms(1) obtain r payload stmt c k where "map_of (nd_ledger nd) i = Some r"
    "signed_by C PAYLOAD_TYPE r payload stmt (ce_public_key_der c) k" "doctrine_pinned stmt"
    "jget stmt ''change_hash'' = Some (JStr i)" "map_of (gw_certs g) (node_id_from_pubkey C k) = Some c"
    unfolding evidence_def by blast
  with assms(2,3) show ?thesis unfolding evidence_def by (intro exI conjI) auto
qed

text \<open>
  What a move may do to the authorised operations: one that is authorised afterwards has its
  evidence afterwards, or it was authorised before and the move left its receipt alone or replaced
  it by one that the gate could not judge.
\<close>

definition authority_kept :: "('k, 's) crypto \<Rightarrow> 's node \<times> gateway \<Rightarrow> 's node \<times> gateway \<Rightarrow> bool" where
  "authority_kept C = (\<lambda>(nd, g) (nd', g').
     (\<forall>n c. map_of (gw_certs g) n = Some c \<longrightarrow> map_of (gw_certs g') n = Some c) \<and>
     (\<forall>i. authorizes nd' i \<longrightarrow> evidence C nd' g' i \<or>
        authorizes nd i \<and> (map_of (nd_ledger nd') i = map_of (nd_ledger nd) i \<or> unjudged C nd' i)))"

lemma authority_kept_same:
  assumes "nd_doc nd' = nd_doc nd" "nd_ledger nd' = nd_ledger nd"
    and "\<forall>n c. map_of (gw_certs g) n = Some c \<longrightarrow> map_of (gw_certs g') n = Some c"
  shows "authority_kept C (nd, g) (nd', g')"
  using assms by (simp add: authority_kept_def authorizes_def)

lemma authority_kept_settled:
  assumes nd: "node_ok C nd" and g: "gateway_ok C g" and doc: "op_doc_id x = nd_doc_id nd"
    and f: "filed C x n t nd nd'" and s: "settled C x now g t nd nd'"
  shows "authority_kept C (nd, g) (nd', g)"
proof -
  let ?i = "op_id C x"
  have led: "map_of (nd_ledger nd') j = map_of (nd_ledger nd) j" if "j \<noteq> ?i" for j
    using s that by (auto simp: settled_def keep_receipt_def)
  have log: "log_of (nd_doc nd') = (log_of (nd_doc nd))(?i \<mapsto>
      with_track t (case log_of (nd_doc nd) ?i of None \<Rightarrow> as_observed x | Some y \<Rightarrow> y))"
    using filed_log [OF f] doc node_okD(2) [OF nd] by simp
  have "evidence C nd' g j \<or>
      authorizes nd j \<and> (map_of (nd_ledger nd') j = map_of (nd_ledger nd) j \<or> unjudged C nd' j)"
    if j: "authorizes nd' j" for j
  proof (cases "j = ?i")
    case False
    then have "log_of (nd_doc nd') j = log_of (nd_doc nd) j" by (simp add: log)
    with j authorizes_log led [OF False] show ?thesis by blast
  next
    case True
    show ?thesis
    proof (cases t)
      case None
      with j True log have was: "authorizes nd j"
        by (cases "log_of (nd_doc nd) ?i") (auto simp: authorizes_def)
      from s None consider "nd_ledger nd' = nd_ledger nd"
        | e er where "nd_ledger nd' = keep_receipt ?i e (nd_ledger nd)" "classify C x e now g nd = Inl er"
        using settled_None by blast
      then show ?thesis
      proof cases
        case (2 e er)
        from classify_raises [OF 2(2)] have r: "verify_receipt_signature C e = Inl er" .
        have "e \<noteq> JNull" using r by (auto simp: verify_receipt_signature_def verify_receipt_body_def)
        then have "map_of (nd_ledger nd') j = Some e" using 2(1) True by (simp add: keep_receipt_def)
        with r was show ?thesis unfolding unjudged_def by blast
      qed (use was in simp)
    next
      case (Some track)
      with s obtain e gate where e: "nd_ledger nd' = keep_receipt ?i e (nd_ledger nd)"
        "classify C x e now g nd = Inr gate" "track = gr_track gate"
        using settled_Some by blast
      from j True log Some have "track = AUTHORIZED" by (auto simp: authorizes_def)
      with e classify_no_receipt have "e \<noteq> JNull" by fastforce
      with e(1) have "map_of (nd_ledger nd') ?i = Some e" by (simp add: keep_receipt_def)
      from classify_evidence [OF e(2) _ g this] e(3) \<open>track = AUTHORIZED\<close> True show ?thesis by simp
    qed
  qed
  then show ?thesis by (simp add: authority_kept_def)
qed

lemma authority_kept_foreign:
  assumes nd: "node_ok C nd" and "op_doc_id x \<noteq> nd_doc_id nd"
  shows "authority_kept C (nd, g) (snd (apply_remote C copyable x receipt now g nd), g)"
proof (rule authority_kept_same)
  let ?nd = "snd (apply_remote C copyable x receipt now g nd)"
  have "?nd = (tick (Some (op_lamport x)) nd)\<lparr>nd_doc := nd_doc nd\<rparr>"
    unfolding apply_remote_unfold Let_def using assms(2) node_okD(2) [OF nd] by (simp add: add_op_def)
  then show "nd_doc ?nd = nd_doc nd" "nd_ledger ?nd = nd_ledger nd" by simp_all
qed simp

lemma node_enroll_cases:
  "snd (node_enroll C key vendor doctrine kern slsa now now' nd g) = (nd', g') \<Longrightarrow>
   (nd' = nd \<or> nd' = nd\<lparr>nd_enrolled := True\<rparr>) \<and> (\<exists>req. g' = snd (gw_enroll C req now' g))"
  unfolding node_enroll_def Let_def by (auto split: prod.splits sum.splits if_splits) (metis snd_conv)+

lemma mesh_step_ok:
  assumes "mesh_step C (nd, g) (nd', g')" and nd: "node_ok C nd" and g: "gateway_ok C g"
  shows "node_ok C nd' \<and> gateway_ok C g' \<and> authority_kept C (nd, g) (nd', g')"
  using assms(1)
proof (cases rule: mesh_stepE [consumes 1, case_names enroll writing receiving other revoke])
  case (enroll key vendor doctrine kern slsa now now')
  from node_enroll_cases [OF enroll [symmetric]] obtain req where
    e: "nd' = nd \<or> nd' = nd\<lparr>nd_enrolled := True\<rparr>" "g' = snd (gw_enroll C req now' g)" by blast
  have "node_ok C nd'" using e(1) nd by (auto simp: node_ok_def)
  moreover have "nd_doc nd' = nd_doc nd" "nd_ledger nd' = nd_ledger nd" using e(1) by auto
  ultimately show ?thesis using gw_enroll_ok [OF g] gw_enroll_keeps
    unfolding e(2) by (intro conjI authority_kept_same) blast+
next
  case (writing k v cls deletion nonce now now')
  have ok: "node_ok C nd'" unfolding writing by (rule node_write_ok [OF nd])
  have "authority_kept C (nd, g) (nd', g')"
  proof (cases "nd_enrolled nd \<and> copies C v")
    case True
    then obtain t where
      "filed C (own_op k v deletion nd) (nd_lamport nd + 1) t nd nd'" "settled C (own_op k v deletion nd) now' g t nd nd'"
      using node_write_filed unfolding writing by blast
    from authority_kept_settled [OF nd g _ this] show ?thesis by (simp add: writing(2))
  next
    case False
    from node_write_stuck [OF this, of k cls deletion nonce now now' g] have "nd' = nd \<or> nd' = tick None nd"
      by (simp only: writing)
    then show ?thesis unfolding writing(2) by (intro authority_kept_same) auto
  qed
  with ok g writing(2) show ?thesis by simp
next
  case (receiving copyable x receipt now)
  have "node_ok C nd'" unfolding receiving by (rule apply_remote_ok [OF nd])
  moreover have "authority_kept C (nd, g) (nd', g')"
  proof (cases "op_doc_id x = nd_doc_id nd")
    case True
    obtain t where "filed C x (max (nd_lamport nd) (op_lamport x) + 1) t nd nd'" "settled C x now g t nd nd'"
      using apply_remote_filed unfolding receiving by blast
    from authority_kept_settled [OF nd g True this] show ?thesis by (simp add: receiving(2))
  qed (use authority_kept_foreign [OF nd] in \<open>simp add: receiving\<close>)
  ultimately show ?thesis using g receiving(2) by simp
next
  case (other req now)
  then show ?thesis using nd gw_enroll_ok [OF g] gw_enroll_keeps by (auto intro!: authority_kept_same)
next
  case (revoke n)
  then show ?thesis using nd g by (auto simp: gateway_ok_def gw_revoke_def intro!: authority_kept_same)
qed

text \<open>The invariant of a history that starts at \<open>s0\<close>.\<close>

definition mesh_ok :: "('k, 's) crypto \<Rightarrow> 's node \<times> gateway \<Rightarrow> 's node \<times> gateway \<Rightarrow> bool" where
  "mesh_ok C s0 = (\<lambda>(nd, g). node_ok C nd \<and> gateway_ok C g \<and>
     (\<forall>i. authorizes nd i \<longrightarrow> (evidence C nd g i \<or> unjudged C nd i) \<and>
        (\<exists>nd0 g0. mesh_run C s0 (nd0, g0) \<and> mesh_run C (nd0, g0) (nd, g) \<and> evidence C nd0 g i)))"

lemma mesh_ok_step:
  assumes run: "mesh_run C s0 (nd, g)" and ok: "mesh_ok C s0 (nd, g)" and step: "mesh_step C (nd, g) (nd', g')"
  shows "mesh_ok C s0 (nd', g')"
proof -
  from ok have "node_ok C nd" "gateway_ok C g" by (simp_all add: mesh_ok_def)
  note s = mesh_step_ok [OF step this]
  then have certs: "\<And>n c. map_of (gw_certs g) n = Some c \<Longrightarrow> map_of (gw_certs g') n = Some c"
    by (simp add: authority_kept_def)
  have "(evidence C nd' g' i \<or> unjudged C nd' i) \<and>
      (\<exists>nd0 g0. mesh_run C s0 (nd0, g0) \<and> mesh_run C (nd0, g0) (nd', g') \<and> evidence C nd0 g' i)"
    if i: "authorizes nd' i" for i
  proof (cases "evidence C nd' g' i")
    case True
    moreover have "mesh_run C s0 (nd', g')" using run step by simp
    ultimately show ?thesis by blast
  next
    case False
    with s i have was: "authorizes nd i" and led: "map_of (nd_ledger nd') i = map_of (nd_ledger nd) i \<or> unjudged C nd' i"
      by (auto simp: authority_kept_def)
    from was ok obtain nd0 g0 where past: "mesh_run C s0 (nd0, g0)" "mesh_run C (nd0, g0) (nd, g)" "evidence C nd0 g i"
      and now: "evidence C nd g i \<or> unjudged C nd i" by (auto simp: mesh_ok_def)
    have "evidence C nd0 g' i" by (rule evidence_mono [OF past(3) refl certs])
    moreover have "mesh_run C (nd0, g0) (nd', g')" using past(2) step by simp
    moreover have "evidence C nd' g' i \<or> unjudged C nd' i"
    proof (rule disjE [OF led])
      assume eq: "map_of (nd_ledger nd') i = map_of (nd_ledger nd) i"
      from now show ?thesis
      proof
        assume "evidence C nd g i"
        from evidence_mono [OF this eq certs] show ?thesis ..
      qed (simp add: unjudged_def eq)
    qed simp
    ultimately show ?thesis using past(1) by blast
  qed
  with s show ?thesis by (simp add: mesh_ok_def)
qed

lemma mesh_run_ok:
  assumes "mesh_run C s0 s" "mesh_ok C s0 s0"
  shows "mesh_ok C s0 s"
  using assms
proof (induction rule: rtranclp_induct)
  case (step s t)
  then show ?case using mesh_ok_step by (cases s; cases t) blast
qed

lemma mesh_ok_new:
  "mesh_ok C s0 (new_node C name doc_id priv, new_gateway f key skew)"
  using new_node_ok
  by (simp add: mesh_ok_def authorizes_def gateway_ok_def new_gateway_def new_node_def new_document_def)

section \<open>Honest writes\<close>

lemma op_ids_ascii:
  assumes "crypto_ok C"
  shows "\<forall>h \<in> set (heads C d @ heads C e). is_ascii h"
  using crypto_okD(6) [OF assms] by (auto simp: heads_def op_id_raw)

text \<open>A gateway that has enrolled the node's key and not revoked it.\<close>

definition admitted :: "('k, 's) crypto \<Rightarrow> 's node \<Rightarrow> gateway \<Rightarrow> bool" where
  "admitted C nd g \<longleftrightarrow> gateway_ok C g \<and>
     nd_node_id nd = node_id_from_pubkey C (public_key C (nd_priv nd)) \<and>
     map_of (pubkey_registry g) (nd_node_id nd) = Some (public_key_der C nd)"

lemma admitted_not_revoked:
  assumes "admitted C nd g"
  shows "nd_node_id nd \<notin> set (gw_revoked g)"
proof -
  have "dict_ok (gw_certs g)" using assms by (simp add: admitted_def gateway_ok_def)
  from registry_lookup [OF this, of "nd_node_id nd"] assms show ?thesis by (auto simp: admitted_def split: if_splits)
qed

lemma honest_write:
  assumes C: "crypto_ok C" "3 \<le> json_depth C" and nd: "node_ok C nd" "nd_enrolled nd" "utf8_valid (nd_doc_id nd)"
    and g: "admitted C nd g" and cls: "cls \<in> set TRANSITION_CLASSES"
    and time: "valid_datetime now" "\<not> out_of_window now' (now\<lparr>micro := 0\<rparr>) 5" and val: "copies C val"
  shows "\<exists>b. fst (node_write C key val cls deletion nonce now now' g nd) = Inr b \<and> bc_track b = AUTHORIZED \<and>
    bc_receipt b \<noteq> JNull \<and> verify_receipt_signature C (bc_receipt b) = Inr True \<and>
    (\<forall>peer g2 now2. nd_enrolled (peer :: 's node) \<longrightarrow> admitted C nd g2 \<longrightarrow> \<not> out_of_window now2 (now\<lparr>micro := 0\<rparr>) 5 \<longrightarrow>
      (\<exists>stmt. classify C (bc_op b) (bc_receipt b) now2 g2 peer = Inr (authorized_result stmt)))"
proof -
  let ?x = "own_op key val deletion nd"
  obtain r doc where add: "add_op C ?x (nd_doc nd) = (Inr r, doc)"
    using add_op_length [of ?x "nd_doc nd" C] node_okD(2) [OF nd(1)] by (metis own_op_simps(1) prod.collapse)
  have n: "nd_node_id nd = node_id_from_pubkey C (public_key C (nd_priv nd))" using g by (simp add: admitted_def)
  from honest_receipt [OF C nd(3) op_ids_ascii [OF C(1)] cls time(1) n, of "raw_bytes ?x" "nd_doc nd" doc nonce]
  obtain stmt e where e:
    "build_state_transition_statement (nd_doc_id nd) (op_id C ?x) (heads C (nd_doc nd)) (heads C doc) (nd_node_id nd) cls None now = Inr stmt"
    "build_dsse_receipt C stmt (nd_priv nd) nonce = Inr e" "e \<noteq> JNull" "verify_receipt_signature C e = Inr True"
    "\<forall>now' revoked skew registry. \<not> out_of_window now' (now\<lparr>micro := 0\<rparr>) skew \<longrightarrow> nd_node_id nd \<notin> set revoked \<longrightarrow>
      (\<forall>reg. registry = Some reg \<longrightarrow> map_of reg (nd_node_id nd) = Some (spki_der C (public_key C (nd_priv nd)))) \<longrightarrow>
      validate_receipt C e (raw_bytes ?x) now' revoked skew registry = Inr (authorized_result (jsort stmt))"
    unfolding op_id_raw by blast
  have cl: "classify C ?x e now2 g2 peer = Inr (authorized_result (jsort stmt))"
    if "nd_enrolled peer" "admitted C nd g2" "\<not> out_of_window now2 (now\<lparr>micro := 0\<rparr>) 5" for peer :: "'s node" and g2 now2
  proof -
    have "map_of (pubkey_registry g2) (nd_node_id nd) = Some (spki_der C (public_key C (nd_priv nd)))"
      using that(2) unfolding admitted_def public_key_der_def by (elim conjE)
    then show ?thesis
      unfolding classify_def using that(1) e(5) [rule_format, OF that(3) admitted_not_revoked [OF that(2)], of "Some (pubkey_registry g2)"]
      by simp
  qed
  let ?nd3 = "(tick None nd)\<lparr>nd_doc := doc, nd_ledger := put (op_id C ?x) e (nd_ledger nd)\<rparr>"
  have "classify C ?x e now' g ?nd3 = Inr (authorized_result (jsort stmt))" by (rule cl) (use nd g time in simp_all)
  then have "fst (node_write C key val cls deletion nonce now now' g nd) =
    Inr \<lparr>bc_op = ?x, bc_receipt = e, bc_track = AUTHORIZED, bc_status = RECEIPT_VALID\<rparr>"
    unfolding node_write_unfold [OF nd(2) val] Let_def add using e(1,2) by (simp add: authorized_result_def)
  with cl e(3,4) show ?thesis by auto
qed

lemma apply_remote_track:
  assumes "op_doc_id x = cd_doc_id (nd_doc nd)" "classify C x (retained copyable r) now g nd = Inr gate"
  shows "\<exists>a. fst (apply_remote C copyable x r now g nd) = Inr a \<and> ap_track a = gr_track gate \<and> ap_status a = gr_status gate"
    "filed C x (max (nd_lamport nd) (op_lamport x) + 1) (Some (gr_track gate)) nd (snd (apply_remote C copyable x r now g nd))"
    "nd_ledger (snd (apply_remote C copyable x r now g nd)) = keep_receipt (op_id C x) (retained copyable r) (nd_ledger nd)"
proof -
  obtain b doc where add: "add_op C (as_observed x) (nd_doc nd) = (Inr b, doc)"
    using add_op_length [of "as_observed x" "nd_doc nd" C] assms(1) by (metis as_observed_simps(1) prod.collapse)
  let ?nd2 = "(tick (Some (op_lamport x)) nd)\<lparr>nd_doc := doc,
          nd_ledger := keep_receipt (op_id C x) (retained copyable r) (nd_ledger nd)\<rparr>"
  have "classify C x (retained copyable r) now g ?nd2 = Inr gate"
    unfolding assms(2) [symmetric] by (rule classify_enrolled) simp
  then have w: "apply_remote C copyable x r now g nd =
      (Inr \<lparr>ap_newly = b, ap_track = gr_track gate, ap_status = gr_status gate\<rparr>,
       ?nd2\<lparr>nd_doc := set_op_track (op_id C x) (gr_track gate) doc\<rparr>)"
    unfolding apply_remote_unfold Let_def add by simp
  show "\<exists>a. fst (apply_remote C copyable x r now g nd) = Inr a \<and> ap_track a = gr_track gate \<and> ap_status a = gr_status gate"
    unfolding w by simp
  show "filed C x (max (nd_lamport nd) (op_lamport x) + 1) (Some (gr_track gate)) nd (snd (apply_remote C copyable x r now g nd))"
    unfolding w using gate_track [OF assms(2)] by (simp add: filed_def tick_Some Let_def add)
  show "nd_ledger (snd (apply_remote C copyable x r now g nd)) = keep_receipt (op_id C x) (retained copyable r) (nd_ledger nd)"
    unfolding w by simp
qed

section \<open>Properties\<close>

text \<open>
  A node reads its own writes. After a successful write the observed state maps the key to
  the new value (or lacks it, if the write was a deletion) and every other key is as before;
  the same holds of the authorised state when the gate authorised the operation, and that
  state is untouched when it did not. (The identifier of the new operation must not collide
  with that of an older one.)
\<close>

theorem node_reads_own_writes:
  assumes "node_ok C nd" "fst (node_write C key val cls deletion nonce now now' g nd) = Inr b"
    and "op_id C (bc_op b) \<notin> dom (log_of (nd_doc nd))"
    and nd'_def: "nd' = snd (node_write C key val cls deletion nonce now now' g nd)"
  shows "map_of (observed_state C nd') = (map_of (observed_state C nd))(key := if deletion then None else Some val) \<and>
    map_of (authorized_state C nd') =
      (if bc_track b = AUTHORIZED then (map_of (authorized_state C nd))(key := if deletion then None else Some val)
       else map_of (authorized_state C nd)) \<and> node_ok C nd'"
proof (intro conjI)
  have t: "bc_track b \<in> {AUTHORIZED, OBSERVED}" by (rule written_track [OF assms(2)])
  then show "map_of (observed_state C nd') = (map_of (observed_state C nd))(key := if deletion then None else Some val)"
    unfolding observed_state_def observed_view_def nd'_def by (intro written_views [OF assms(1-3)]) auto
  show "node_ok C nd'" unfolding nd'_def by (rule node_write_ok [OF assms(1)])
  show "map_of (authorized_state C nd') =
      (if bc_track b = AUTHORIZED then (map_of (authorized_state C nd))(key := if deletion then None else Some val)
       else map_of (authorized_state C nd))"
  proof (cases "bc_track b = AUTHORIZED")
    case True
    then show ?thesis unfolding authorized_state_def authorized_view_def nd'_def
      by (simp add: written_views [OF assms(1-3)])
  next
    case False
    note w = node_write_success [OF assms(2)]
    have "cd_ops (nd_doc nd') = cd_ops (nd_doc nd) @ [(op_id C (bc_op b), (bc_op b)\<lparr>op_track := bc_track b\<rparr>)]"
      using w(4) assms(3) node_okD(2) [OF assms(1)] unfolding nd'_def filed_def
      by (simp add: Let_def add_then_track w(3) domIff)
    with False show ?thesis
      unfolding authorized_state_def authorized_view_def materialise_def winners_def by simp
  qed
qed

text \<open>
  An honest write is authorised everywhere. A node that the gateway has enrolled and not
  revoked succeeds in writing a value that can be copied with a valid class, its own gate authorises the operation, and so
  does the gate of every enrolled peer that applies the broadcast record within the skew window
  of five seconds.
\<close>

theorem honest_write_authorized:
  assumes "crypto_ok C" "3 \<le> json_depth C" "node_ok C nd" "nd_enrolled nd" "utf8_valid (nd_doc_id nd)"
    and "admitted C nd g" "cls \<in> set TRANSITION_CLASSES"
    and "valid_datetime now" "\<not> out_of_window now' (now\<lparr>micro := 0\<rparr>) 5"
    and "node_ok C peer" "nd_enrolled peer" "nd_doc_id peer = nd_doc_id nd" "admitted C nd g2"
    and "\<not> out_of_window now2 (now\<lparr>micro := 0\<rparr>) 5" and "copies C val"
  shows "\<exists>b. fst (node_write C key val cls deletion nonce now now' g nd) = Inr b \<and> bc_track b = AUTHORIZED \<and>
    (\<forall>copyable. copyable (bc_receipt b) \<longrightarrow>
      (\<exists>a. fst (apply_remote C copyable (bc_op b) (bc_receipt b) now2 g2 peer) = Inr a \<and> ap_track a = AUTHORIZED))"
proof -
  from honest_write [OF assms(1-9,15)] assms(11,13,14) obtain b stmt where b:
    "fst (node_write C key val cls deletion nonce now now' g nd) = Inr b" "bc_track b = AUTHORIZED"
    "classify C (bc_op b) (bc_receipt b) now2 g2 peer = Inr (authorized_result stmt)" by blast
  have doc: "op_doc_id (bc_op b) = cd_doc_id (nd_doc peer)"
    using node_write_success(3) [OF b(1)] node_okD(2) [OF assms(10)] assms(12) by simp
  have "\<exists>a. fst (apply_remote C copyable (bc_op b) (bc_receipt b) now2 g2 peer) = Inr a \<and> ap_track a = AUTHORIZED"
    if "copyable (bc_receipt b)" for copyable
    using apply_remote_track(1) [OF doc, of C copyable "bc_receipt b" now2 g2] b(3) that
    by (auto simp: retained_def authorized_result_def)
  with b show ?thesis by blast
qed

text \<open>
  C4: No authorised operation without evidence. Whatever one node and its gateway go through
  (enrollments of any kind, writes, deliveries of arbitrary records, revocations, methods left
  by an exception; nothing is assumed of the cryptographic library), every operation the node
  files as authorised has had, at some moment of the history, a receipt in the ledger with a pinned
  statement over exactly this operation, signed by the certified key of a node that this gateway
  enrolled. The ledger still holds such a receipt, unless a later delivery has replaced it by a
  receipt on which the check of the signature raises an exception.
\<close>

theorem authorized_has_evidence:
  assumes "mesh_run C (new_node C name doc_id priv, new_gateway f key skew) (nd, g)"
    and "log_of (nd_doc nd) i = Some x" "op_track x = AUTHORIZED"
  shows "(\<exists>nd0 g0. mesh_run C (new_node C name doc_id priv, new_gateway f key skew) (nd0, g0) \<and>
      mesh_run C (nd0, g0) (nd, g) \<and> evidence C nd0 g i) \<and>
    (evidence C nd g i \<or> unjudged C nd i)"
  using mesh_run_ok [OF assms(1) mesh_ok_new] assms(2,3) by (auto simp: mesh_ok_def authorizes_def)

text \<open>
  The exception in this property happens. \<open>apply_remote\<close> puts the receipt of the record into the
  ledger before it asks the gate: when an authorised operation is delivered again with an envelope
  whose key is of an unsupported kind, the gate raises, the operation stays authorised, and the
  receipt that authorised it is gone.
\<close>

theorem redelivery_loses_evidence:
  assumes "node_ok C nd" "authorizes nd (op_id C x)" "op_doc_id x = nd_doc_id nd"
    and "load_der C der = Inl UnsupportedAlgorithm" "3 \<le> json_depth C" "\<And>r. copyable r"
  shows "\<exists>r. fst (apply_remote C copyable x r now g nd) = Inl UnsupportedAlgorithm \<and>
    authorizes (snd (apply_remote C copyable x r now g nd)) (op_id C x) \<and>
    \<not> evidence C (snd (apply_remote C copyable x r now g nd)) g (op_id C x)"
proof -
  obtain payload where esc: "\<forall>raw now revoked skew registry.
      validate_receipt C (hostile_receipt payload der) raw now revoked skew registry = Inl UnsupportedAlgorithm"
    using hostile_raises [OF assms(4,5)] by blast
  let ?r = "hostile_receipt payload der"
  obtain y where y: "log_of (nd_doc nd) (op_id C x) = Some y" "op_track y = AUTHORIZED"
    using assms(2) by (auto simp: authorizes_def)
  have add: "add_op C (as_observed x) (nd_doc nd) = (Inr False, nd_doc nd)"
    using y(1) assms(3) node_okD(2) [OF assms(1)] by (simp add: add_op_def)
  have ret: "retained copyable ?r = ?r" "?r \<noteq> JNull" using assms(6) by (simp_all add: retained_def hostile_receipt_def)
  let ?nd2 = "(tick (Some (op_lamport x)) nd)\<lparr>nd_doc := nd_doc nd, nd_ledger := put (op_id C x) ?r (nd_ledger nd)\<rparr>"
  have w: "apply_remote C copyable x ?r now g nd = (Inl UnsupportedAlgorithm, ?nd2)"
    unfolding apply_remote_unfold Let_def add using esc ret by (simp add: keep_receipt_def classify_def)
  have "verify_receipt_signature C ?r = Inl UnsupportedAlgorithm"
    using esc validate_raises by blast
  then have "\<not> signed_by C PAYLOAD_TYPE ?r p stmt d k" for p stmt d k
    using verify_receipt_iff [of C ?r] by auto
  then have "\<not> evidence C ?nd2 g (op_id C x)" by (simp add: evidence_def)
  moreover have "authorizes ?nd2 (op_id C x)" using y by (simp add: authorizes_def)
  ultimately show ?thesis by (intro exI [of _ ?r]) (simp add: w)
qed

text \<open>
  C27: The observed state converges under any delivery. Two nodes of a document that hold the
  same operations (say, none) and then apply deliveries of the same set of operations agree on
  the observed state and on the heads, whatever the order and the repetitions, and whatever
  receipts, clocks and gateway states accompany them (the tracks the gates assign may differ).
\<close>

theorem observed_state_converges:
  assumes "node_ok C nd" "node_ok C nd'" "plain_log nd = plain_log nd'"
    and "\<forall>v \<in> set vs. op_doc_id (dv_op v) = nd_doc_id nd" "\<forall>v \<in> set vs'. op_doc_id (dv_op v) = nd_doc_id nd'"
    and "functional ((\<lambda>v. (delivery_id C v, as_observed (dv_op v))) ` set vs)"
    and "(\<lambda>v. as_observed (dv_op v)) ` set vs = (\<lambda>v. as_observed (dv_op v)) ` set vs'"
  shows "observed_state C (fold (deliver C) vs nd) = observed_state C (fold (deliver C) vs' nd') \<and>
    heads C (nd_doc (fold (deliver C) vs nd)) = heads C (nd_doc (fold (deliver C) vs' nd')) \<and>
    node_digest C OBSERVED (fold (deliver C) vs nd) = node_digest C OBSERVED (fold (deliver C) vs' nd')"
proof -
  have pairs: "(\<lambda>v. (delivery_id C v, as_observed (dv_op v))) ` X = (\<lambda>x. (op_id C x, x)) ` (\<lambda>v. as_observed (dv_op v)) ` X" for X
    by (auto simp: image_image)
  have "(\<lambda>v. (delivery_id C v, as_observed (dv_op v))) ` set vs = (\<lambda>v. (delivery_id C v, as_observed (dv_op v))) ` set vs'"
    unfolding pairs assms(7) ..
  from mesh.convergence [OF assms(1-6) this]
  show ?thesis by (simp add: node_digest_def state_digest_def view_def observed_state_def)
qed

text \<open>
  A later delivery can take the authorisation of an operation away. When anybody delivers
  an operation of the log again without a receipt, the node files it as observed, even if it
  was authorised and its valid receipt stays in the ledger: the authorised state becomes that of
  the log without the operation.
\<close>

theorem redelivery_demotes:
  assumes "node_ok C nd" "log_of (nd_doc nd) i = Some x" "op_id C y = i" "op_doc_id y = nd_doc_id nd"
    and nd'_def: "nd' = snd (apply_remote C copyable y JNull now g nd)"
  shows "log_of (nd_doc nd') i = Some (as_observed x) \<and> nd_ledger nd' = nd_ledger nd \<and>
    authorized_state C nd' = authorized_view C (without_op i (nd_doc nd))"
proof -
  have doc: "op_doc_id y = cd_doc_id (nd_doc nd)" using assms(4) node_okD(2) [OF assms(1)] by simp
  have cl: "classify C y (retained copyable JNull) now g nd =
      Inr \<lparr>gr_track = OBSERVED, gr_status = RECEIPT_MISSING, gr_statement = None\<rparr>"
    by (simp add: classify_def validate_receipt_def observed_def retained_def)
  from apply_remote_track(2) [OF doc cl] have f:
    "filed C y (max (nd_lamport nd) (op_lamport y) + 1) (Some OBSERVED) nd nd'" by (simp add: nd'_def)
  have add: "add_op C (as_observed y) (nd_doc nd) = (Inr False, nd_doc nd)"
    using assms(2,3) doc by (simp add: add_op_def)
  have "nd_doc nd' = set_op_track i OBSERVED (nd_doc nd)"
    using f by (simp add: filed_def add assms(3))
  moreover have "nd_ledger nd' = nd_ledger nd"
    unfolding nd'_def apply_remote_unfold Let_def add
    by (simp add: retained_def keep_receipt_def split: sum.split)
  moreover have "winners C (\<lambda>t. t \<in> set [AUTHORIZED]) (set_op_track i OBSERVED (nd_doc nd)) =
      winners C (\<lambda>t. t \<in> set [AUTHORIZED]) (without_op i (nd_doc nd))"
    by (rule winners_revoke) (use crdt_okD(1) [OF node_okD(1) [OF assms(1)]] in simp_all)
  ultimately show ?thesis
    using assms(2) by (simp add: set_op_track_log as_observed_def authorized_state_def authorized_view_def materialise_def)
qed

text \<open>
  A write with an invalid transition class raises \<open>ValueError\<close> only after it has filed the
  operation: the failed write is visible in the node's own observed state, the clock has
  advanced, and the ledger has no receipt for it.
\<close>

theorem failed_write_stays_visible:
  assumes "node_ok C nd" "nd_enrolled nd" "copies C val" "cls \<notin> set TRANSITION_CLASSES"
    and "op_id C (own_op key val deletion nd) \<notin> dom (log_of (nd_doc nd))"
    and nd'_def: "nd' = snd (node_write C key val cls deletion nonce now now' g nd)"
  shows "fst (node_write C key val cls deletion nonce now now' g nd) = Inl ValueError \<and>
    map_of (observed_state C nd') = (map_of (observed_state C nd))(key := if deletion then None else Some val) \<and>
    nd_lamport nd' = nd_lamport nd + 1 \<and> nd_ledger nd' = nd_ledger nd"
proof -
  note w = write_bad_class [OF assms(1-4), of key deletion nonce now now' g]
  have "map_of (observed_state C nd') = (map_of (observed_state C nd))(key := if deletion then None else Some val)"
    using filed_fresh_views [OF assms(1) _ w(2) assms(5), of "[AUTHORIZED, OBSERVED]"]
    by (simp add: nd'_def observed_state_def observed_view_def)
  with w show ?thesis by (simp add: nd'_def filed_def)
qed

section \<open>Witnesses\<close>

definition sample_node :: "string \<Rightarrow> string node" where
  "sample_node k = (new_node toy_crypto ''a'' ''doc'' k)\<lparr>nd_enrolled := True\<rparr>"

definition sample_enrolled :: "string \<Rightarrow> gateway" where
  "sample_enrolled k = snd (gw_enroll toy_crypto (sample_request k) sample_time sample_gateway)"

lemma sample_node_simps [simp]:
  "nd_enrolled (sample_node k)" "nd_doc_id (sample_node k) = ''doc''" "nd_doc (sample_node k) = new_document ''doc''"
  "cd_ops (nd_doc (sample_node k)) = []" "nd_priv (sample_node k) = k" "nd_node_id (sample_node k) = to_hex k"
  "nd_ledger (sample_node k) = []"
  by (simp_all add: sample_node_def new_node_def new_document_def) (simp add: toy_crypto_def node_id_from_pubkey_def)

lemma new_document_simps [simp]: "cd_ops (new_document i) = []" "cd_doc_id (new_document i) = i"
  by (simp_all add: new_document_def)

lemma sample_node_ok: "node_ok toy_crypto (sample_node k)"
  by (simp add: node_ok_def)

lemma toy_public [simp]: "public_key toy_crypto k = k" "json_depth toy_crypto = 100"
  by (simp_all add: toy_crypto_def)

lemma sample_admitted_node: "admitted toy_crypto (sample_node k) (sample_enrolled k)"
  by (simp add: admitted_def sample_enrolled_def sample_admitted public_key_der_def toy_node_id gw_enroll_ok sample_gateway_ok)

lemma sample_window: "\<not> out_of_window sample_time (sample_time\<lparr>micro := 0\<rparr>) 5"
  by (rule fresh_in_window) (simp_all add: sample_time_valid)

lemma sample_write:
  "\<exists>b. fst (node_write toy_crypto ''x'' (JInt 1) ''COMMAND'' False [] sample_time sample_time (sample_enrolled ''k'') (sample_node ''k'')) = Inr b \<and>
     bc_track b = AUTHORIZED"
proof -
  have "3 \<le> json_depth toy_crypto" "nd_enrolled (sample_node ''k'')" "utf8_valid (nd_doc_id (sample_node ''k''))"
    "''COMMAND'' \<in> set TRANSITION_CLASSES"
    by (simp_all add: TRANSITION_CLASSES_def ascii_utf8_valid)
  from honest_write [OF toy_crypto_ok this(1) sample_node_ok this(2,3) sample_admitted_node this(4) sample_time_valid sample_window toy_limits(2)]
  show ?thesis by blast
qed

theorem node_reads_own_writes_witness:
  "map_of (authorized_state toy_crypto (snd (node_write toy_crypto ''x'' (JInt 1) ''COMMAND'' False [] sample_time sample_time
     (sample_enrolled ''k'') (sample_node ''k'')))) ''x'' = Some (JInt 1)"
proof -
  obtain b where b: "fst (node_write toy_crypto ''x'' (JInt 1) ''COMMAND'' False [] sample_time sample_time
     (sample_enrolled ''k'') (sample_node ''k'')) = Inr b" "bc_track b = AUTHORIZED"
    using sample_write by blast
  from node_reads_own_writes [OF sample_node_ok b(1) _ refl] b(2) show ?thesis by simp
qed

theorem honest_write_authorized_witness:
  "\<exists>b a. fst (node_write toy_crypto ''x'' (JInt 1) ''COMMAND'' False [] sample_time sample_time (sample_enrolled ''k'') (sample_node ''k'')) = Inr b \<and>
     fst (apply_remote toy_crypto (\<lambda>_. True) (bc_op b) (bc_receipt b) sample_time (sample_enrolled ''k'') (sample_node ''p'')) = Inr a \<and>
     ap_track a = AUTHORIZED"
proof -
  have "3 \<le> json_depth toy_crypto" "nd_enrolled (sample_node ''k'')" "utf8_valid (nd_doc_id (sample_node ''k''))"
    "''COMMAND'' \<in> set TRANSITION_CLASSES" "nd_enrolled (sample_node ''p'')" "nd_doc_id (sample_node ''p'') = nd_doc_id (sample_node ''k'')"
    by (simp_all add: TRANSITION_CLASSES_def ascii_utf8_valid)
  from honest_write_authorized [OF toy_crypto_ok this(1) sample_node_ok this(2,3) sample_admitted_node this(4) sample_time_valid sample_window
      sample_node_ok this(5,6) sample_admitted_node sample_window toy_limits(2),
      where key = "''x''" and val = "JInt 1" and deletion = False and nonce = "[]"]
  obtain b where b: "fst (node_write toy_crypto ''x'' (JInt 1) ''COMMAND'' False [] sample_time sample_time (sample_enrolled ''k'') (sample_node ''k'')) = Inr b"
    "\<forall>copyable. copyable (bc_receipt b) \<longrightarrow>
      (\<exists>a. fst (apply_remote toy_crypto copyable (bc_op b) (bc_receipt b) sample_time (sample_enrolled ''k'') (sample_node ''p'')) = Inr a \<and> ap_track a = AUTHORIZED)"
    by (elim exE conjE)
  from b(2) [rule_format, of "\<lambda>_. True", OF TrueI] obtain a where
    "fst (apply_remote toy_crypto (\<lambda>_. True) (bc_op b) (bc_receipt b) sample_time (sample_enrolled ''k'') (sample_node ''p'')) = Inr a"
    "ap_track a = AUTHORIZED" by (elim exE conjE)
  with b(1) show ?thesis by (intro exI [of _ b] exI [of _ a] conjI)
qed

theorem authorized_has_evidence_witness:
  "\<exists>nd i. authorizes nd i \<and> (evidence toy_crypto nd (sample_enrolled ''k'') i \<or> unjudged toy_crypto nd i)"
proof -
  let ?n0 = "new_node toy_crypto ''a'' ''doc'' ''k''"
  let ?e = "snd (node_enroll toy_crypto ''secret'' [] DOCTRINE_VERSION KERNEL_COMMIT SLSA_LEVEL sample_time sample_time ?n0 sample_gateway)"
  have req: "build_enrollment_request toy_crypto ''secret'' (nd_node_id ?n0) (public_key_der toy_crypto ?n0) (utc_now_iso sample_time)
      DOCTRINE_VERSION KERNEL_COMMIT SLSA_LEVEL [] ''self_report'' = sample_request ''k''"
    by (simp add: sample_request_def new_node_def public_key_der_def utc_now_iso_def toy_node_id)
  obtain r where r: "fst (gw_enroll toy_crypto (sample_request ''k'') sample_time sample_gateway) = Inr r" "en_success r"
    using admits_honest [OF toy_crypto_ok sample_time_valid, of sample_gateway "to_hex ''k''" "''k''" "[]" "sample_request ''k''"]
    by (auto simp: sample_gateway_ok toy_node_id covered_Nil sample_request_def)
  have "gw_enroll toy_crypto (sample_request ''k'') sample_time sample_gateway = (Inr r, sample_enrolled ''k'')"
    using r(1) by (simp add: sample_enrolled_def prod_eq_iff)
  then have e: "?e = (sample_node ''k'', sample_enrolled ''k'')"
    using r(2) by (simp add: node_enroll_def req sample_node_def)
  let ?nd = "snd (node_write toy_crypto ''x'' (JInt 1) ''COMMAND'' False [] sample_time sample_time (sample_enrolled ''k'') (sample_node ''k''))"
  have "mesh_run toy_crypto (?n0, new_gateway ''f'' ''secret'' 300) ?e"
    unfolding sample_gateway_def by (intro r_into_rtranclp mesh_step.enroll)
  then have run: "mesh_run toy_crypto (?n0, new_gateway ''f'' ''secret'' 300) (?nd, sample_enrolled ''k'')"
    unfolding e by (rule rtranclp.rtrancl_into_rtrancl) (rule mesh_step.writing)
  obtain b where b: "fst (node_write toy_crypto ''x'' (JInt 1) ''COMMAND'' False [] sample_time sample_time
     (sample_enrolled ''k'') (sample_node ''k'')) = Inr b" "bc_track b = AUTHORIZED" using sample_write by blast
  note w = node_write_success [OF b(1)]
  have log: "log_of (nd_doc ?nd) (op_id toy_crypto (bc_op b)) = Some (with_track (Some AUTHORIZED) (as_observed (bc_op b)))"
    using filed_log [OF w(4)] b(2) w(3) by (simp add: new_document_def)
  from authorized_has_evidence [OF run log, THEN conjunct2] log show ?thesis unfolding authorizes_def by fastforce
qed

theorem redelivery_loses_evidence_witness:
  "\<exists>(C :: (string, string) crypto) nd r. authorizes nd (op_id C (sample_op ''x'' 1 OBSERVED)) \<and>
    fst (apply_remote C (\<lambda>_. True) (sample_op ''x'' 1 OBSERVED) r sample_time sample_gateway nd) = Inl UnsupportedAlgorithm"
proof -
  define C where "C = toy_crypto\<lparr>load_der := (\<lambda>_. Inl UnsupportedAlgorithm)\<rparr>"
  have C: "load_der C ''key'' = Inl UnsupportedAlgorithm" "3 \<le> json_depth C" by (simp_all add: C_def toy_crypto_def)
  let ?x = "sample_op ''x'' 1 AUTHORIZED"
  let ?nd = "(sample_node ''k'')\<lparr>nd_doc := snd (add_op C ?x (new_document ''doc'')), nd_lamport := 1\<rparr>"
  have doc: "nd_doc ?nd = \<lparr>cd_doc_id = ''doc'', cd_ops = [(op_id C ?x, ?x)]\<rparr>"
    by (simp add: add_op_def new_document_def)
  have ok: "node_ok C ?nd" unfolding node_ok_def doc by (simp add: crdt_ok_def)
  have id: "op_id C (sample_op ''x'' 1 OBSERVED) = op_id C ?x" by (simp add: op_id_def)
  have auth: "authorizes ?nd (op_id C (sample_op ''x'' 1 OBSERVED))" unfolding authorizes_def doc id by simp
  from redelivery_loses_evidence [OF ok auth _ C TrueI, of sample_time sample_gateway] auth show ?thesis by auto
qed

definition sample_delivery :: "string \<Rightarrow> int \<Rightarrow> delivery" where
  "sample_delivery k n = \<lparr>dv_op = sample_op k n OBSERVED, dv_receipt = JNull, dv_copyable = (\<lambda>_. True), dv_now = sample_time,
     dv_gateway = sample_gateway\<rparr>"

theorem observed_state_converges_witness:
  "observed_state toy_crypto (fold (deliver toy_crypto) [sample_delivery ''x'' 1, sample_delivery ''x'' 2] (sample_node ''k'')) =
   observed_state toy_crypto (fold (deliver toy_crypto) [sample_delivery ''x'' 2, sample_delivery ''x'' 1] (sample_node ''p''))"
  by (rule observed_state_converges [THEN conjunct1])
     (simp_all add: sample_node_ok sample_delivery_def functional_def sample_op_id insert_commute)

theorem redelivery_demotes_witness:
  "\<exists>nd. log_of (nd_doc nd) (op_id toy_crypto (sample_op ''x'' 1 OBSERVED)) = Some (sample_op ''x'' 1 AUTHORIZED) \<and>
    authorized_state toy_crypto (snd (apply_remote toy_crypto (\<lambda>_. True) (sample_op ''x'' 1 OBSERVED) JNull sample_time sample_gateway nd)) = []"
proof -
  let ?x = "sample_op ''x'' 1 AUTHORIZED"
  let ?nd = "(sample_node ''k'')\<lparr>nd_doc := snd (add_op toy_crypto ?x (new_document ''doc'')), nd_lamport := 1\<rparr>"
  have doc: "nd_doc ?nd = \<lparr>cd_doc_id = ''doc'', cd_ops = [(op_id toy_crypto ?x, ?x)]\<rparr>"
    by (simp add: add_op_def new_document_def)
  have ok: "node_ok toy_crypto ?nd" unfolding node_ok_def doc by (simp add: crdt_ok_def)
  have id: "op_id toy_crypto (sample_op ''x'' 1 OBSERVED) = op_id toy_crypto ?x" by (simp add: sample_op_id)
  from redelivery_demotes [OF ok _ id _ refl, of ?x "\<lambda>_. True" sample_time sample_gateway]
  have "authorized_state toy_crypto (snd (apply_remote toy_crypto (\<lambda>_. True) (sample_op ''x'' 1 OBSERVED) JNull sample_time sample_gateway ?nd)) = []"
    unfolding doc by (simp add: without_op_def authorized_view_def materialise_def winners_def lww_fold_def)
  moreover have "log_of (nd_doc ?nd) (op_id toy_crypto (sample_op ''x'' 1 OBSERVED)) = Some ?x"
    unfolding doc id by simp
  ultimately show ?thesis by blast
qed

theorem failed_write_stays_visible_witness:
  "map_of (observed_state toy_crypto (snd (node_write toy_crypto ''x'' (JInt 1) ''OTHER'' False [] sample_time sample_time
     sample_gateway (sample_node ''k'')))) ''x'' = Some (JInt 1)"
  using failed_write_stays_visible [OF sample_node_ok, of "''k''" "JInt 1" "''OTHER''" "''x''" False _ "[]" sample_time sample_time sample_gateway]
  by (simp add: TRANSITION_CLASSES_def)

end
