(* ===== verification/Harness.thy ===== *)
theory Harness
  imports Node
begin

text \<open>
  \<open>src/szl_mesh/harness.py\<close>: several nodes that share one gateway, a log of what they
  broadcast, and gossip, which delivers every record to every node but its origin in a
  shuffled order. Nodes are known by their place in the list; the order of the deliveries (the
  result of \<open>shuffle\<close>) and the clock readings are arguments.
\<close>

section \<open>State and operations\<close>

record 's harness =
  hs_formation_id :: string
  hs_doc_id :: string
  hs_key :: bytes
  hs_gateway :: gateway
  hs_nodes :: "'s node list"
  hs_log :: "(string \<times> broadcast) list"

definition new_harness :: "string \<Rightarrow> string \<Rightarrow> bytes \<Rightarrow> 's harness" where
  "new_harness formation doc_id key =
     \<lparr>hs_formation_id = formation, hs_doc_id = doc_id, hs_key = key,
      hs_gateway = new_gateway formation key 300, hs_nodes = [], hs_log = []\<rparr>"

definition add_node ::
  "('k, 's) crypto \<Rightarrow> string \<Rightarrow> string \<Rightarrow> 's \<Rightarrow> datetime \<Rightarrow> datetime \<Rightarrow> 's harness \<Rightarrow> (exn + enroll_result) \<times> 's harness" where
  "add_node C name vendor priv now now' h =
     (case node_enroll C (hs_key h) vendor DOCTRINE_VERSION KERNEL_COMMIT SLSA_LEVEL now now'
             (new_node C name (hs_doc_id h) priv) (hs_gateway h) of
        (Inl e, nd, g) \<Rightarrow> (Inl e, h\<lparr>hs_gateway := g\<rparr>)
      | (Inr r, nd, g) \<Rightarrow>
          (Inr r, h\<lparr>hs_gateway := g, hs_nodes := (if en_success r then hs_nodes h @ [nd] else hs_nodes h)\<rparr>))"

text \<open>A node that the harness does not hold was not enrolled by it.\<close>

definition hs_write ::
  "('k, 's) crypto \<Rightarrow> nat \<Rightarrow> string \<Rightarrow> json \<Rightarrow> string \<Rightarrow> bytes \<Rightarrow> datetime \<Rightarrow> datetime \<Rightarrow> 's harness
    \<Rightarrow> (exn + broadcast) \<times> 's harness" where
  "hs_write C j key val cls nonce now now' h =
     (if length (hs_nodes h) \<le> j then (Inl RuntimeError, h)
      else
        let nd = hs_nodes h ! j in
        case node_write C key val cls False nonce now now' (hs_gateway h) nd of
          (Inl e, nd') \<Rightarrow> (Inl e, h\<lparr>hs_nodes := (hs_nodes h)[j := nd']\<rparr>)
        | (Inr b, nd') \<Rightarrow>
            (Inr b, h\<lparr>hs_nodes := (hs_nodes h)[j := nd'], hs_log := hs_log h @ [(nd_node_id nd, b)]\<rparr>))"

definition deliveries :: "'s harness \<Rightarrow> (nat \<times> broadcast) list" where
  "deliveries h =
     concat (map (\<lambda>(origin, b). map (\<lambda>j. (j, b))
       (filter (\<lambda>j. nd_node_id (hs_nodes h ! j) \<noteq> origin) [0..<length (hs_nodes h)])) (hs_log h))"

text \<open>The delivery loop; an exception ends it.\<close>

fun gossip_loop ::
  "('k, 's) crypto \<Rightarrow> (json \<Rightarrow> bool) \<Rightarrow> gateway \<Rightarrow> ((nat \<times> broadcast) \<times> datetime) list \<Rightarrow> 's node list
    \<Rightarrow> (exn + unit) \<times> 's node list" where
  "gossip_loop C copyable g [] nodes = (Inr (), nodes)"
| "gossip_loop C copyable g (((j, b), now) # ds) nodes =
     (case apply_remote C copyable (bc_op b) (bc_receipt b) now g (nodes ! j) of
        (Inl e, nd) \<Rightarrow> (Inl e, nodes[j := nd])
      | (Inr _, nd) \<Rightarrow> gossip_loop C copyable g ds (nodes[j := nd]))"

definition gossip ::
  "('k, 's) crypto \<Rightarrow> (json \<Rightarrow> bool) \<Rightarrow> ((nat \<times> broadcast) \<times> datetime) list \<Rightarrow> 's harness \<Rightarrow> (exn + unit) \<times> 's harness" where
  "gossip C copyable order h =
     (case gossip_loop C copyable (hs_gateway h) order (hs_nodes h) of
        (r, nodes) \<Rightarrow> (r, h\<lparr>hs_nodes := nodes\<rparr>))"

definition shuffled :: "'s harness \<Rightarrow> ((nat \<times> broadcast) \<times> datetime) list \<Rightarrow> bool" where
  "shuffled h order \<longleftrightarrow> mset (map fst order) = mset (deliveries h)"

definition digests :: "('k, 's) crypto \<Rightarrow> string \<Rightarrow> 's harness \<Rightarrow> (string, string) dict" where
  "digests C track h = foldl (\<lambda>d nd. put (nd_name nd) (node_digest C track nd) d) [] (hs_nodes h)"

definition converged :: "('k, 's) crypto \<Rightarrow> string \<Rightarrow> 's harness \<Rightarrow> bool" where
  "converged C track h \<longleftrightarrow> length (remdups (map (node_digest C track) (hs_nodes h))) = 1"

section \<open>Invariant\<close>

text \<open>The pairs of identifier and operation that the log has broadcast.\<close>

definition broadcast_pairs :: "('k, 's) crypto \<Rightarrow> (string \<times> broadcast) list \<Rightarrow> (string \<times> op) set" where
  "broadcast_pairs C log = (\<lambda>(o', b). (op_id C (bc_op b), as_observed (bc_op b))) ` set log"

text \<open>The identifiers in a node's log.\<close>

definition known :: "'s node \<Rightarrow> string set" where
  "known nd = dom (log_of (nd_doc nd))"

lemma known_plain: "known nd = dom (plain_log nd)"
  by (auto simp: known_def)

definition node_within :: "('k, 's) crypto \<Rightarrow> string \<Rightarrow> (string \<times> op) set \<Rightarrow> 's node \<Rightarrow> bool" where
  "node_within C doc R nd \<longleftrightarrow> node_ok C nd \<and> nd_doc_id nd = doc \<and>
     (\<forall>i x. plain_log nd i = Some x \<longrightarrow> (i, x) \<in> R)"

definition harness_ok :: "('k, 's) crypto \<Rightarrow> 's harness \<Rightarrow> bool" where
  "harness_ok C h \<longleftrightarrow>
     (\<forall>nd \<in> set (hs_nodes h). node_within C (hs_doc_id h) (broadcast_pairs C (hs_log h)) nd \<and>
        map_of (gw_certs (hs_gateway h)) (nd_node_id nd) \<noteq> None \<and>
        (\<forall>b. (nd_node_id nd, b) \<in> set (hs_log h) \<longrightarrow> op_id C (bc_op b) \<in> known nd)) \<and>
     distinct (map nd_node_id (hs_nodes h)) \<and>
     (\<forall>(o', b) \<in> set (hs_log h). op_doc_id (bc_op b) = hs_doc_id h \<and> answerable C (bc_receipt b) \<and>
        map_of (gw_certs (hs_gateway h)) o' \<noteq> None)"

text \<open>Histories without a failed write (a failed write leaves an operation that is never broadcast).\<close>

inductive harness_run :: "('k, 's) crypto \<Rightarrow> 's harness \<Rightarrow> 's harness \<Rightarrow> bool"
  for C :: "('k, 's) crypto" and h0 :: "'s harness" where
  start: "harness_run C h0 h0"
| joins: "harness_run C h0 h \<Longrightarrow> harness_run C h0 (snd (add_node C name vendor priv now now' h))"
| writes: "harness_run C h0 h \<Longrightarrow> fst (hs_write C j key val cls nonce now now' h) = Inr b \<Longrightarrow>
    harness_run C h0 (snd (hs_write C j key val cls nonce now now' h))"
| gossips: "harness_run C h0 h \<Longrightarrow> shuffled h order \<Longrightarrow> harness_run C h0 (snd (gossip C copyable order h))"

lemma node_within_mono: "node_within C doc R nd \<Longrightarrow> R \<subseteq> S \<Longrightarrow> node_within C doc S nd"
  unfolding node_within_def by blast

lemma filed_within:
  assumes "node_within C doc R nd" "filed C x n t nd nd'" "op_lamport x \<le> n" "nd_lamport nd \<le> n"
    and "op_doc_id x = doc" "(op_id C x, as_observed x) \<in> R"
  shows "node_within C doc R nd'" "known nd \<subseteq> known nd'" "op_id C x \<in> known nd'"
    "nd_node_id nd' = nd_node_id nd"
proof -
  have nd: "node_ok C nd" "nd_doc_id nd = doc" "\<And>i y. plain_log nd i = Some y \<Longrightarrow> (i, y) \<in> R"
    using assms(1) unfolding node_within_def by blast+
  have log: "plain_log nd' = (if op_id C x \<in> known nd then plain_log nd else (plain_log nd)(op_id C x \<mapsto> as_observed x))"
    unfolding known_plain by (rule filed_plain_log [OF nd(1) assms(2)]) (simp add: nd(2) assms(5))
  have "\<forall>i y. plain_log nd' i = Some y \<longrightarrow> (i, y) \<in> R"
    unfolding log using nd(3) assms(6) by (auto split: if_splits)
  moreover have "nd_doc_id nd' = doc" using assms(2) nd(2) by (simp add: filed_def)
  ultimately show "node_within C doc R nd'"
    unfolding node_within_def using node_ok_filed [OF nd(1) assms(2-4)] by blast
  show "known nd \<subseteq> known nd'" "op_id C x \<in> known nd'" unfolding known_plain log by auto
  show "nd_node_id nd' = nd_node_id nd" using assms(2) by (simp add: filed_def)
qed

lemma broadcast_pairs_snoc [simp]:
  "broadcast_pairs C (log @ [(n, b)]) = insert (op_id C (bc_op b), as_observed (bc_op b)) (broadcast_pairs C log)"
  by (simp add: broadcast_pairs_def)

lemma harness_write_ok:
  assumes ok: "harness_ok C h" and w: "fst (hs_write C j key val cls nonce now now' h) = Inr b"
  shows "harness_ok C (snd (hs_write C j key val cls nonce now now' h))"
proof -
  let ?nd = "hs_nodes h ! j"
  let ?W = "node_write C key val cls False nonce now now' (hs_gateway h) ?nd"
  have j: "j < length (hs_nodes h)" using w by (auto simp: hs_write_def split: if_splits)
  have fst: "fst ?W = Inr b"
    using w j by (cases ?W; cases "fst ?W") (auto simp: hs_write_def)
  define nd' where "nd' = snd ?W"
  have h': "snd (hs_write C j key val cls nonce now now' h) =
    h\<lparr>hs_nodes := (hs_nodes h)[j := nd'], hs_log := hs_log h @ [(nd_node_id ?nd, b)]\<rparr>"
    using fst j by (cases ?W) (simp add: hs_write_def nd'_def)
  let ?R = "broadcast_pairs C (hs_log h)" and ?S = "broadcast_pairs C (hs_log h @ [(nd_node_id ?nd, b)])"
  have mem: "?nd \<in> set (hs_nodes h)" using j by simp
  have within: "node_within C (hs_doc_id h) ?R nd" if "nd \<in> set (hs_nodes h)" for nd
    using ok that unfolding harness_ok_def by blast
  note wr = node_write_success [OF fst]
  have doc: "op_doc_id (bc_op b) = hs_doc_id h" using within [OF mem] wr(3) by (simp add: node_within_def)
  have ans: "answerable C (bc_receipt b)" using wr(6) classify_returns by blast
  have sub: "?R \<subseteq> ?S" by auto
  have f: "node_within C (hs_doc_id h) ?S nd'" "known ?nd \<subseteq> known nd'"
    "op_id C (bc_op b) \<in> known nd'" "nd_node_id nd' = nd_node_id ?nd"
    using filed_within [OF node_within_mono [OF within [OF mem] sub] wr(4) _ _ doc] wr(3)
    by (simp_all add: nd'_def)
  have ids: "map nd_node_id ((hs_nodes h)[j := nd']) = map nd_node_id (hs_nodes h)"
    using f(4) j by (simp add: map_update list_update_same_conv)
  have cert: "map_of (gw_certs (hs_gateway h)) (nd_node_id ?nd) \<noteq> None" using ok mem unfolding harness_ok_def by blast
  have "node_within C (hs_doc_id h) ?S nd \<and> map_of (gw_certs (hs_gateway h)) (nd_node_id nd) \<noteq> None \<and>
      (\<forall>b'. (nd_node_id nd, b') \<in> set (hs_log h @ [(nd_node_id ?nd, b)]) \<longrightarrow> op_id C (bc_op b') \<in> known nd)"
    if nd: "nd \<in> set ((hs_nodes h)[j := nd'])" for nd
  proof -
    from nd obtain i where i: "i < length (hs_nodes h)" "nd = (hs_nodes h)[j := nd'] ! i" by (auto simp: in_set_conv_nth)
    show ?thesis
    proof (cases "i = j")
      case True
      then have "nd = nd'" using i j by simp
      moreover have "\<forall>b'. (nd_node_id ?nd, b') \<in> set (hs_log h) \<longrightarrow> op_id C (bc_op b') \<in> known ?nd"
        using ok mem unfolding harness_ok_def by blast
      ultimately show ?thesis using f cert by (auto)
    next
      case False
      then have nd: "nd = hs_nodes h ! i" using i by simp
      then have m: "nd \<in> set (hs_nodes h)" using i by simp
      have "nd_node_id nd \<noteq> nd_node_id ?nd"
        using ok i j False nd unfolding harness_ok_def by (simp add: distinct_conv_nth)
      then show ?thesis
        using m ok node_within_mono [OF within [OF m] sub] unfolding harness_ok_def by auto
    qed
  qed
  then show ?thesis
    unfolding h' using ok doc ans cert ids unfolding harness_ok_def by auto
qed

lemma add_node_cases:
  obtains (rejected) g where "snd (add_node C name vendor priv now now' h) = h\<lparr>hs_gateway := g\<rparr>"
      "\<And>n. map_of (gw_certs (hs_gateway h)) n \<noteq> None \<Longrightarrow> map_of (gw_certs g) n \<noteq> None"
  | (joined) nd g where "snd (add_node C name vendor priv now now' h) = h\<lparr>hs_gateway := g, hs_nodes := hs_nodes h @ [nd]\<rparr>"
      "nd = (new_node C name (hs_doc_id h) priv)\<lparr>nd_enrolled := True\<rparr>"
      "map_of (gw_certs (hs_gateway h)) (nd_node_id nd) = None" "map_of (gw_certs g) (nd_node_id nd) \<noteq> None"
      "\<And>n. map_of (gw_certs (hs_gateway h)) n \<noteq> None \<Longrightarrow> map_of (gw_certs g) n \<noteq> None"
proof -
  let ?n = "new_node C name (hs_doc_id h) priv"
  let ?req = "build_enrollment_request C (hs_key h) (nd_node_id ?n) (public_key_der C ?n) (utc_now_iso now)
    DOCTRINE_VERSION KERNEL_COMMIT SLSA_LEVEL vendor ''self_report''"
  let ?g = "snd (gw_enroll C ?req now' (hs_gateway h))"
  have n: "request_node ?req = nd_node_id ?n" by (simp add: request_node_def build_enrollment_request_def)
  have keep: "map_of (gw_certs (hs_gateway h)) m \<noteq> None \<Longrightarrow> map_of (gw_certs ?g) m \<noteq> None" for m
    using gw_enroll_keeps by fastforce
  show thesis
  proof (cases C ?req now' "hs_gateway h" rule: gw_enroll_cases)
    case (success k)
    show thesis
    proof (rule joined)
      show "snd (add_node C name vendor priv now now' h) =
          h\<lparr>hs_gateway := ?g, hs_nodes := hs_nodes h @ [?n\<lparr>nd_enrolled := True\<rparr>]\<rparr>"
        using success(2) by (simp add: add_node_def node_enroll_def Let_def)
      show "map_of (gw_certs (hs_gateway h)) (nd_node_id (?n\<lparr>nd_enrolled := True\<rparr>)) = None"
        using enroll_ok_fresh [OF success(1)] n by simp
      show "map_of (gw_certs ?g) (nd_node_id (?n\<lparr>nd_enrolled := True\<rparr>)) \<noteq> None"
        using success(2) n by simp
    qed (use keep in auto)
  next
    case (failure r)
    have "snd (add_node C name vendor priv now now' h) = h\<lparr>hs_gateway := ?g\<rparr>"
      using failure(1,2) by (cases r) (auto simp: add_node_def node_enroll_def Let_def)
    then show thesis using keep by (rule rejected) auto
  qed
qed

lemma harness_add_ok:
  assumes ok: "harness_ok C h"
  shows "harness_ok C (snd (add_node C name vendor priv now now' h))"
proof (cases C name vendor priv now now' h rule: add_node_cases)
  case (rejected g)
  with ok show ?thesis unfolding harness_ok_def by fastforce
next
  case (joined nd g)
  have fresh: "(nd_node_id nd, b) \<notin> set (hs_log h)" for b
    using ok joined(3) unfolding harness_ok_def by auto
  have new: "nd_node_id nd \<notin> set (map nd_node_id (hs_nodes h))"
    using ok joined(3) unfolding harness_ok_def by auto
  have "node_ok C nd" using new_node_ok [of C name "hs_doc_id h" priv] unfolding joined(2) by (simp add: node_ok_def)
  then have "node_within C (hs_doc_id h) (broadcast_pairs C (hs_log h)) nd"
    unfolding node_within_def by (simp add: joined(2) new_node_def)
  with ok joined(4,5) fresh new show ?thesis unfolding joined(1) harness_ok_def by (auto simp: split_beta)
qed

text \<open>
  What the delivery loop leaves behind. The gate of the writer has answered for every receipt in
  the log, hence every other gate does, and no application raises.
\<close>

lemma apply_remote_returns:
  assumes "answerable C r" "op_doc_id x = cd_doc_id (nd_doc nd)"
  shows "\<exists>a. fst (apply_remote C copyable x r now g nd) = Inr a"
proof -
  obtain gate where "classify C x (retained copyable r) now g nd = Inr gate"
  proof -
    have "answerable C (retained copyable r)" using assms(1) by (simp add: retained_def)
    then show ?thesis using classify_returns that by blast
  qed
  from apply_remote_track(1) [OF assms(2) this] show ?thesis by blast
qed

lemma gossip_loop_ok:
  assumes "\<forall>((j, b), t) \<in> set ds. j < length nodes \<and> op_doc_id (bc_op b) = doc \<and> answerable C (bc_receipt b) \<and>
      (op_id C (bc_op b), as_observed (bc_op b)) \<in> R"
    and "\<forall>nd \<in> set nodes. node_within C doc R nd"
  shows "\<exists>nodes'. gossip_loop C copyable g ds nodes = (Inr (), nodes') \<and> length nodes' = length nodes \<and>
    (\<forall>j < length nodes. node_within C doc R (nodes' ! j) \<and> nd_node_id (nodes' ! j) = nd_node_id (nodes ! j) \<and>
      known (nodes ! j) \<subseteq> known (nodes' ! j)) \<and>
    (\<forall>((j, b), t) \<in> set ds. op_id C (bc_op b) \<in> known (nodes' ! j))"
  using assms
proof (induction ds arbitrary: nodes)
  case (Cons d ds)
  obtain j b t where d: "d = ((j, b), t)" by (cases d) auto
  from Cons.prems d have j: "j < length nodes" "op_doc_id (bc_op b) = doc" "(op_id C (bc_op b), as_observed (bc_op b)) \<in> R"
    and ans: "answerable C (bc_receipt b)" by auto
  let ?nd = "nodes ! j"
  let ?W = "apply_remote C copyable (bc_op b) (bc_receipt b) t g ?nd"
  have w: "node_within C doc R ?nd" using Cons.prems(2) j(1) by simp
  then have "op_doc_id (bc_op b) = cd_doc_id (nd_doc ?nd)" using j(2) node_okD(2) by (metis node_within_def)
  from apply_remote_returns [OF ans this] obtain a where a: "fst ?W = Inr a" by blast
  obtain tr where f: "filed C (bc_op b) (max (nd_lamport ?nd) (op_lamport (bc_op b)) + 1) tr ?nd (snd ?W)"
    using apply_remote_filed by blast
  have F: "node_within C doc R (snd ?W)" "known ?nd \<subseteq> known (snd ?W)"
    "op_id C (bc_op b) \<in> known (snd ?W)" "nd_node_id (snd ?W) = nd_node_id ?nd"
    using filed_within [OF w f _ _ j(2,3)] by simp_all
  let ?nodes = "nodes[j := snd ?W]"
  have within: "\<forall>nd \<in> set ?nodes. node_within C doc R nd"
    using Cons.prems(2) F(1) by (auto dest: set_update_subset_insert [THEN subsetD])
  have "\<forall>((j, b), t) \<in> set ds. j < length ?nodes \<and> op_doc_id (bc_op b) = doc \<and> answerable C (bc_receipt b) \<and>
      (op_id C (bc_op b), as_observed (bc_op b)) \<in> R"
    using Cons.prems(1) by auto
  from Cons.IH [OF this within] obtain nodes' where n: "gossip_loop C copyable g ds ?nodes = (Inr (), nodes')"
    "length nodes' = length nodes"
    "\<forall>i < length nodes. node_within C doc R (nodes' ! i) \<and> nd_node_id (nodes' ! i) = nd_node_id (?nodes ! i) \<and>
      known (?nodes ! i) \<subseteq> known (nodes' ! i)"
    "\<forall>((j, b), t) \<in> set ds. op_id C (bc_op b) \<in> known (nodes' ! j)"
    by auto
  have step: "nd_node_id (?nodes ! i) = nd_node_id (nodes ! i) \<and> known (nodes ! i) \<subseteq> known (?nodes ! i)" for i
    using F(2,4) j(1) by (cases "i = j") simp_all
  have "gossip_loop C copyable g (d # ds) nodes = (Inr (), nodes')"
    using a n(1) by (cases ?W) (simp add: d)
  moreover have "op_id C (bc_op b) \<in> known (nodes' ! j)"
    using n(3) [rule_format, OF j(1)] F(3) j(1) by auto
  moreover have "node_within C doc R (nodes' ! i) \<and> nd_node_id (nodes' ! i) = nd_node_id (nodes ! i) \<and>
      known (nodes ! i) \<subseteq> known (nodes' ! i)" if "i < length nodes" for i
    using n(3) [rule_format, OF that] step [of i] by auto
  moreover have "\<forall>((j, b), t) \<in> set (d # ds). op_id C (bc_op b) \<in> known (nodes' ! j)"
    using n(4) calculation(2) by (simp add: d)
  ultimately show ?case using n(2) by blast
qed simp

lemma in_deliveries:
  "(j, b) \<in> set (deliveries h) \<longleftrightarrow>
     j < length (hs_nodes h) \<and> (\<exists>origin. (origin, b) \<in> set (hs_log h) \<and> nd_node_id (hs_nodes h ! j) \<noteq> origin)"
proof -
  have "(j, b) \<in> set (concat (map (\<lambda>(origin, b). map (\<lambda>j. (j, b)) (filter (\<lambda>j. f j \<noteq> origin) [0..<n])) log)) \<longleftrightarrow>
    j < n \<and> (\<exists>origin. (origin, b) \<in> set log \<and> f j \<noteq> origin)" for f :: "nat \<Rightarrow> string" and n log
    by (induction log) auto
  then show ?thesis unfolding deliveries_def .
qed

text \<open>What the deliveries of a round leave behind: the nodes keep their names and know every operation of the log.\<close>

lemma gossip_delivers:
  assumes ok: "harness_ok C h" and order: "shuffled h order"
  obtains nodes where "gossip_loop C copyable (hs_gateway h) order (hs_nodes h) = (Inr (), nodes)"
    "length nodes = length (hs_nodes h)" "map nd_node_id nodes = map nd_node_id (hs_nodes h)"
    "\<forall>nd \<in> set nodes. node_within C (hs_doc_id h) (broadcast_pairs C (hs_log h)) nd \<and>
       known nd = fst ` broadcast_pairs C (hs_log h)"
proof -
  let ?R = "broadcast_pairs C (hs_log h)" and ?nodes = "hs_nodes h"
  have set: "fst ` set order = set (deliveries h)"
    using mset_eq_setD [OF order [unfolded shuffled_def]] by simp
  have log: "op_doc_id (bc_op b) = hs_doc_id h \<and> answerable C (bc_receipt b) \<and> (op_id C (bc_op b), as_observed (bc_op b)) \<in> ?R" if "(o', b) \<in> set (hs_log h)" for o' b
    using ok that unfolding harness_ok_def broadcast_pairs_def by force
  have ds: "\<forall>((j, b), t) \<in> set order. j < length ?nodes \<and> op_doc_id (bc_op b) = hs_doc_id h \<and> answerable C (bc_receipt b) \<and>
      (op_id C (bc_op b), as_observed (bc_op b)) \<in> ?R"
  proof (clarify)
    fix j b t
    assume "((j, b), t) \<in> set order"
    with set have "(j, b) \<in> set (deliveries h)" by force
    then show "j < length ?nodes \<and> op_doc_id (bc_op b) = hs_doc_id h \<and> answerable C (bc_receipt b) \<and> (op_id C (bc_op b), as_observed (bc_op b)) \<in> ?R"
      unfolding in_deliveries using log by blast
  qed
  have within: "\<forall>nd \<in> set ?nodes. node_within C (hs_doc_id h) ?R nd" using ok unfolding harness_ok_def by blast
  from gossip_loop_ok [OF ds within] obtain nodes where n:
    "gossip_loop C copyable (hs_gateway h) order ?nodes = (Inr (), nodes)" "length nodes = length ?nodes"
    "\<And>j. j < length ?nodes \<Longrightarrow> node_within C (hs_doc_id h) ?R (nodes ! j) \<and> nd_node_id (nodes ! j) = nd_node_id (?nodes ! j) \<and>
      known (?nodes ! j) \<subseteq> known (nodes ! j)"
    "\<And>j b t. ((j, b), t) \<in> set order \<Longrightarrow> op_id C (bc_op b) \<in> known (nodes ! j)"
    by blast
  have all: "op_id C (bc_op b) \<in> known (nodes ! j)" if "j < length nodes" "(o', b) \<in> set (hs_log h)" for j o' b
  proof (cases "nd_node_id (?nodes ! j) = o'")
    case True
    with ok that n(2) have "op_id C (bc_op b) \<in> known (?nodes ! j)" unfolding harness_ok_def by force
    with n(3) that n(2) show ?thesis by force
  next
    case False
    with that n(2) have "(j, b) \<in> set (deliveries h)" unfolding in_deliveries by auto
    with set obtain t where "((j, b), t) \<in> set order" by force
    then show ?thesis by (rule n(4))
  qed
  have known: "known nd = fst ` ?R" if "nd \<in> set nodes" for nd
  proof
    from that n(2,3) obtain j where j: "j < length nodes" "nd = nodes ! j" "node_within C (hs_doc_id h) ?R nd"
      by (metis in_set_conv_nth)
    then show "known nd \<subseteq> fst ` ?R" unfolding known_plain node_within_def by force
    show "fst ` ?R \<subseteq> known nd" using all [OF j(1)] by (auto simp: broadcast_pairs_def j(2))
  qed
  have "map nd_node_id nodes = map nd_node_id ?nodes" by (rule nth_equalityI) (simp_all add: n(2,3))
  moreover have "node_within C (hs_doc_id h) ?R nd" if "nd \<in> set nodes" for nd
    using that n(2,3) by (metis in_set_conv_nth)
  ultimately show thesis using n(1,2) known by (intro that) blast+
qed

lemma gossip_ok:
  assumes ok: "harness_ok C h" and order: "shuffled h order"
  shows "\<exists>nodes. gossip C copyable order h = (Inr (), h\<lparr>hs_nodes := nodes\<rparr>) \<and> length nodes = length (hs_nodes h) \<and>
    harness_ok C (h\<lparr>hs_nodes := nodes\<rparr>) \<and>
    (\<forall>nd \<in> set nodes. known nd = fst ` broadcast_pairs C (hs_log h))"
proof -
  from gossip_delivers [OF assms, of copyable] obtain nodes where n:
    "gossip_loop C copyable (hs_gateway h) order (hs_nodes h) = (Inr (), nodes)" "length nodes = length (hs_nodes h)"
    "map nd_node_id nodes = map nd_node_id (hs_nodes h)"
    "\<forall>nd \<in> set nodes. node_within C (hs_doc_id h) (broadcast_pairs C (hs_log h)) nd \<and>
       known nd = fst ` broadcast_pairs C (hs_log h)" .
  have "map_of (gw_certs (hs_gateway h)) (nd_node_id nd) \<noteq> None" if "nd \<in> set nodes" for nd
  proof -
    from that have "nd_node_id nd \<in> set (map nd_node_id (hs_nodes h))" unfolding n(3) [symmetric] by simp
    with ok show ?thesis unfolding harness_ok_def by auto
  qed
  moreover have "op_id C (bc_op b) \<in> known nd" if "nd \<in> set nodes" "(o', b) \<in> set (hs_log h)" for nd o' b
    using n(4) that by (force simp: broadcast_pairs_def)
  ultimately have "harness_ok C (h\<lparr>hs_nodes := nodes\<rparr>)"
    using ok n(3,4) unfolding harness_ok_def by auto
  with n show ?thesis by (intro exI [of _ nodes]) (simp add: gossip_def)
qed

lemma new_harness_ok: "harness_ok C (new_harness f d k)"
  by (simp add: harness_ok_def new_harness_def)

lemma harness_run_ok:
  assumes "harness_run C h0 h" "harness_ok C h0"
  shows "harness_ok C h"
  using assms
proof (induction rule: harness_run.induct)
  case (gossips h order copyable)
  then have "harness_ok C h" by simp
  from gossip_ok [OF this gossips.hyps(2), of copyable] show ?case by auto
qed (simp_all add: harness_add_ok harness_write_ok)

section \<open>One round of gossip\<close>

lemma gossip_agreement:
  assumes "harness_ok C h" "shuffled h order"
    and "functional (broadcast_pairs C (hs_log h))" "hs_nodes h \<noteq> []"
  shows "fst (gossip C copyable order h) = Inr () \<and> converged C OBSERVED (snd (gossip C copyable order h)) \<and>
    (\<forall>nd \<in> set (hs_nodes (snd (gossip C copyable order h))). \<forall>nd' \<in> set (hs_nodes (snd (gossip C copyable order h))).
      observed_state C nd = observed_state C nd' \<and> heads C (nd_doc nd) = heads C (nd_doc nd'))"
proof -
  from gossip_ok [OF assms(1,2)] obtain nodes where n:
    "gossip C copyable order h = (Inr (), h\<lparr>hs_nodes := nodes\<rparr>)" "length nodes = length (hs_nodes h)"
    "harness_ok C (h\<lparr>hs_nodes := nodes\<rparr>)" "\<forall>nd \<in> set nodes. known nd = fst ` broadcast_pairs C (hs_log h)"
    by blast
  have node: "node_ok C nd" "plain_log nd i = Some x \<Longrightarrow> (i, x) \<in> broadcast_pairs C (hs_log h)" if "nd \<in> set nodes" for nd i x
    using n(3) that unfolding harness_ok_def node_within_def by auto
  have "plain_log nd = plain_log nd'" if m: "nd \<in> set nodes" "nd' \<in> set nodes" for nd nd'
  proof (rule ext, rule option_eqI)
    fix i x
    have dom: "dom (plain_log nd) = dom (plain_log nd')" unfolding known_plain [symmetric] using n(4) m by simp
    have "plain_log m' i = Some x" if x: "plain_log m i = Some x" and mm: "dom (plain_log m) = dom (plain_log m')" "m \<in> set nodes" "m' \<in> set nodes"
      for m m'
    proof -
      from x have "i \<in> dom (plain_log m')" unfolding mm(1) [symmetric] by (rule domI)
      then obtain y where y: "plain_log m' i = Some y" by (blast dest: domD)
      from node(2) [OF mm(2) x] node(2) [OF mm(3) y] assms(3) have "x = y" unfolding functional_def by blast
      with y show ?thesis by simp
    qed
    from this [OF _ dom m] this [OF _ dom [symmetric] m(2,1)]
    show "plain_log nd i = Some x \<longleftrightarrow> plain_log nd' i = Some x" by (rule iffI)
  qed
  then have same: "observed_state C nd = observed_state C nd' \<and> heads C (nd_doc nd) = heads C (nd_doc nd')"
    if "nd \<in> set nodes" "nd' \<in> set nodes" for nd nd'
    using observed_query [OF node(1) node(1), OF that] that by blast
  then have dig: "node_digest C OBSERVED nd = node_digest C OBSERVED nd'" if "nd \<in> set nodes" "nd' \<in> set nodes" for nd nd'
    using same [OF that] by (simp add: node_digest_def state_digest_def view_def observed_state_def)
  have "nodes \<noteq> []" using n(2) assms(4) by auto
  then have hd: "hd nodes \<in> set nodes" by simp
  have "set (map (node_digest C OBSERVED) nodes) = {node_digest C OBSERVED (hd nodes)}"
  proof
    show "set (map (node_digest C OBSERVED) nodes) \<subseteq> {node_digest C OBSERVED (hd nodes)}"
      using dig [OF _ hd] by (simp add: image_subset_iff)
  qed (use hd in simp)
  then have "length (remdups (map (node_digest C OBSERVED) nodes)) = 1"
    unfolding length_remdups_card_conv by simp
  with n(1) have "fst (gossip C copyable order h) = Inr () \<and> converged C OBSERVED (snd (gossip C copyable order h))"
    by (simp add: converged_def)
  moreover have "hs_nodes (snd (gossip C copyable order h)) = nodes" using n(1) by simp
  ultimately show ?thesis using same by (simp only:) blast
qed

section \<open>Property\<close>

text \<open>
  C7: Gossip makes the mesh converge. After any history of joins, successful writes and
  earlier gossip, one round of gossip, in any order, at any clock readings and with whatever
  receipts survive copying, raises nothing (whatever the cryptographic library raises: the
  writer's own gate has answered for each receipt) and leaves all nodes with one and the same
  observed state: every node holds exactly the operations that were broadcast, and \<open>converged\<close>
  reports agreement. (Provided no two broadcast operations share an identifier.)
\<close>

theorem gossip_converges:
  assumes "harness_run C (new_harness f d key) h" "shuffled h order"
    and "functional (broadcast_pairs C (hs_log h))" "hs_nodes h \<noteq> []"
  shows "fst (gossip C copyable order h) = Inr () \<and> converged C OBSERVED (snd (gossip C copyable order h)) \<and>
    (\<forall>nd \<in> set (hs_nodes (snd (gossip C copyable order h))).
      dom (log_of (nd_doc nd)) = op_id C ` bc_op ` snd ` set (hs_log h) \<and>
      (\<forall>nd' \<in> set (hs_nodes (snd (gossip C copyable order h))).
        observed_state C nd = observed_state C nd' \<and> heads C (nd_doc nd) = heads C (nd_doc nd')))"
proof -
  have ok: "harness_ok C h" by (rule harness_run_ok [OF assms(1) new_harness_ok])
  from gossip_ok [OF ok assms(2), of copyable] have "\<forall>nd \<in> set (hs_nodes (snd (gossip C copyable order h))).
      known nd = fst ` broadcast_pairs C (hs_log h)" by (elim exE conjE) simp
  moreover have "fst ` broadcast_pairs C (hs_log h) = op_id C ` bc_op ` snd ` set (hs_log h)"
    by (simp add: broadcast_pairs_def image_image case_prod_unfold)
  ultimately have "\<forall>nd \<in> set (hs_nodes (snd (gossip C copyable order h))).
      dom (log_of (nd_doc nd)) = op_id C ` bc_op ` snd ` set (hs_log h)"
    by (simp only: known_def)
  with gossip_agreement [OF ok assms(2-4), of copyable] show ?thesis by blast
qed

end
