(* ===== verification/HonestMesh.thy ===== *)
theory HonestMesh
  imports Harness
begin

text \<open>
  The harness among honest nodes: anyone may try to join, nodes write with valid transition classes, gossip
  runs in any order, and the clocks agree within four seconds. The invariant of such a history
  is that every log is authorised throughout, so that gossip brings the nodes together on both tracks.
\<close>

section \<open>Trust\<close>

text \<open>All clock readings lie within four seconds.\<close>

definition brisk :: "datetime set \<Rightarrow> bool" where
  "brisk T \<longleftrightarrow> (\<forall>a \<in> T. valid_datetime a \<and> (\<forall>b \<in> T. \<bar>diff_us a b\<bar> \<le> 4000000))"

lemma brisk_window:
  assumes "brisk T" "a \<in> T" "b \<in> T" "5 \<le> limit"
  shows "valid_datetime b" "\<not> out_of_window a (b\<lparr>micro := 0\<rparr>) limit"
proof -
  show v: "valid_datetime b" using assms by (simp add: brisk_def)
  have "\<bar>diff_us a b\<bar> \<le> 4000000" using assms by (simp add: brisk_def)
  moreover have "diff_us a (b\<lparr>micro := 0\<rparr>) = diff_us a b + int (micro b)" by (simp add: diff_us_def seconds_def)
  moreover have "micro b < 1000000" using v by (simp add: valid_datetime_def)
  ultimately show "\<not> out_of_window a (b\<lparr>micro := 0\<rparr>) limit" using assms(4) by (simp add: out_of_window_def)
qed

text \<open>
  A broadcast that every enrolled peer authorises at any time of \<open>T\<close>, whatever else its gateway
  holds beside the key of the writer. The receipt is shallow.
\<close>

definition trusted :: "('k, 's) crypto \<Rightarrow> datetime set \<Rightarrow> gateway \<Rightarrow> broadcast \<Rightarrow> bool" where
  "trusted C T g b \<longleftrightarrow> jdepth (bc_receipt b) \<le> 3 \<and> verify_receipt_signature C (bc_receipt b) = Inr True \<and>
     (\<exists>writer :: 's node. admitted C writer g \<and>
        (\<forall>peer :: 's node. \<forall>now \<in> T. \<forall>g'. nd_enrolled peer \<longrightarrow> admitted C writer g' \<longrightarrow>
          (\<exists>stmt. classify C (bc_op b) (bc_receipt b) now g' peer = Inr (authorized_result stmt))))"

text \<open>The ledger has one receipt for each operation of the log, and its signature verifies.\<close>

definition ledger_complete :: "('k, 's) crypto \<Rightarrow> 's node \<Rightarrow> bool" where
  "ledger_complete C nd \<longleftrightarrow> dict_ok (nd_ledger nd) \<and> fst ` set (nd_ledger nd) = known nd \<and>
     (\<forall>r \<in> snd ` set (nd_ledger nd). verify_receipt_signature C r = Inr True)"

definition honest_node :: "('k, 's) crypto \<Rightarrow> gateway \<Rightarrow> 's node \<Rightarrow> bool" where
  "honest_node C g nd \<longleftrightarrow> admitted C nd g \<and> nd_enrolled nd \<and> ledger_complete C nd \<and>
     (\<forall>x \<in> ran (log_of (nd_doc nd)). op_track x = AUTHORIZED)"

definition honest_mesh :: "('k, 's) crypto \<Rightarrow> datetime set \<Rightarrow> 's harness \<Rightarrow> bool" where
  "honest_mesh C T h \<longleftrightarrow> harness_ok C h \<and> gateway_ok C (hs_gateway h) \<and>
     (\<forall>nd \<in> set (hs_nodes h). honest_node C (hs_gateway h) nd) \<and>
     (\<forall>(o', b) \<in> set (hs_log h). trusted C T (hs_gateway h) b)"

lemma trusted_classify:
  fixes C :: "('k, 's) crypto" and peer :: "'s node"
  assumes "trusted C T g b" "now \<in> T" "nd_enrolled peer"
  obtains stmt where "classify C (bc_op b) (bc_receipt b) now g peer = Inr (authorized_result stmt)"
  using assms unfolding trusted_def by blast

lemma filed_honest:
  assumes "honest_node C g nd" "filed C x n (Some AUTHORIZED) nd nd'" "op_doc_id x = cd_doc_id (nd_doc nd)"
    and "nd_ledger nd' = put (op_id C x) r (nd_ledger nd)" "verify_receipt_signature C r = Inr True"
  shows "honest_node C g nd'"
proof -
  have l: "ledger_complete C nd" using assms(1) by (simp add: honest_node_def)
  then have d: "dict_ok (nd_ledger nd)" by (simp add: ledger_complete_def)
  have "known nd' = insert (op_id C x) (known nd)"
    unfolding known_def filed_log [OF assms(2,3)] by auto
  with l set_put [OF d, of "op_id C x" r] assms(5) have led: "ledger_complete C nd'"
    unfolding ledger_complete_def assms(4) keys_put by auto
  let ?log = "log_of (nd_doc nd)"
  let ?y = "with_track (Some AUTHORIZED) (case ?log (op_id C x) of None \<Rightarrow> as_observed x | Some y \<Rightarrow> y)"
  have "ran (log_of (nd_doc nd')) \<subseteq> insert ?y (ran ?log)"
    unfolding filed_log [OF assms(2,3)] by (auto simp: ran_def)
  then have "\<forall>z \<in> ran (log_of (nd_doc nd')). op_track z = AUTHORIZED"
    using assms(1) unfolding honest_node_def by (auto dest!: subsetD)
  moreover have "nd_priv nd' = nd_priv nd" "nd_node_id nd' = nd_node_id nd" "nd_enrolled nd' = nd_enrolled nd"
    using assms(2) by (simp_all add: filed_def)
  ultimately show ?thesis
    using assms(1) led unfolding honest_node_def admitted_def public_key_der_def by metis
qed

lemma receipt_shallow:
  assumes "fst (node_write C key val cls deletion nonce now now' g nd) = Inr b"
  shows "jdepth (bc_receipt b) \<le> 3"
proof -
  let ?x = "own_op key val deletion nd"
  note en = node_write_success(1,2) [OF assms]
  obtain r doc where add: "add_op C ?x (nd_doc nd) = (r, doc)" by fastforce
  have "\<exists>stmt. build_dsse_receipt C stmt (nd_priv nd) nonce = Inr (bc_receipt b)"
    using assms unfolding node_write_unfold [OF en] Let_def add by (auto simp: bindE_Inr_iff split: sum.splits)
  then obtain stmt where "Inr (bc_receipt b) = build_dsse_receipt C stmt (nd_priv nd) nonce" by metis
  then show ?thesis by (auto simp: build_dsse_receipt_def Let_def split: if_splits)
qed

section \<open>Joining\<close>

text \<open>A new certificate leaves the admitted nodes admitted.\<close>

lemma admitted_put:
  assumes g: "gateway_ok C g" "gateway_ok C (g\<lparr>gw_certs := put n c (gw_certs g)\<rparr>)"
    and n: "map_of (gw_certs g) n = None" "n \<notin> set (gw_revoked g)"
  shows "admitted C nd g \<Longrightarrow> admitted C nd (g\<lparr>gw_certs := put n c (gw_certs g)\<rparr>)"
    and "nd_node_id nd = n \<Longrightarrow> n = node_id_from_pubkey C (public_key C (nd_priv nd)) \<Longrightarrow>
      ce_public_key_der c = spki_der C (public_key C (nd_priv nd)) \<Longrightarrow> admitted C nd (g\<lparr>gw_certs := put n c (gw_certs g)\<rparr>)"
proof -
  let ?g = "g\<lparr>gw_certs := put n c (gw_certs g)\<rparr>"
  have d: "dict_ok (gw_certs ?g)" "dict_ok (gw_certs g)" using g by (simp_all add: gateway_ok_def)
  have look: "map_of (pubkey_registry ?g) m = (if m = n then Some (ce_public_key_der c) else map_of (pubkey_registry g) m)" for m
    by (simp only: registry_lookup [OF d(1)] registry_lookup [OF d(2)]) (simp add: n(2))
  have absent: "map_of (pubkey_registry g) n = None" by (simp add: registry_lookup [OF d(2)] n(1))
  show "admitted C nd g \<Longrightarrow> admitted C nd ?g"
    unfolding admitted_def look using g(2) absent by (elim conjE) (intro conjI; force)
  show "nd_node_id nd = n \<Longrightarrow> n = node_id_from_pubkey C (public_key C (nd_priv nd)) \<Longrightarrow>
      ce_public_key_der c = spki_der C (public_key C (nd_priv nd)) \<Longrightarrow> admitted C nd ?g"
    unfolding admitted_def look public_key_der_def using g(2) by (intro conjI) (assumption, metis, simp)
qed

text \<open>Whoever asks to join, the mesh stays honest: a refusal changes nothing, an admitted node is empty.\<close>

lemma honest_join_step:
  assumes h: "honest_mesh C T h"
  shows "honest_mesh C T (snd (add_node C name vendor priv now now' h))"
proof -
  let ?nd = "new_node C name (hs_doc_id h) priv" and ?g = "hs_gateway h"
  let ?req = "build_enrollment_request C (hs_key h) (nd_node_id ?nd) (public_key_der C ?nd) (utc_now_iso now)
    DOCTRINE_VERSION KERNEL_COMMIT SLSA_LEVEL vendor ''self_report''"
  let ?h = "snd (add_node C name vendor priv now now' h)"
  have ok: "harness_ok C ?h" using h by (intro harness_add_ok) (simp add: honest_mesh_def)
  have g: "gateway_ok C ?g" using h by (simp add: honest_mesh_def)
  have id: "request_node ?req = nd_node_id ?nd" by (simp add: request_node_def build_enrollment_request_def)
  show ?thesis
  proof (cases C ?req now' ?g rule: gw_enroll_cases)
    case (success k)
    let ?n = "nd_node_id ?nd" and ?m = "?nd\<lparr>nd_enrolled := True\<rparr>"
    let ?c = "enrolled_cert C ?n k now'"
    let ?g' = "?g\<lparr>gw_certs := put ?n ?c (gw_certs ?g)\<rparr>"
    have e: "enroll_ok C ?req now' ?g ?n k" using success(1) by (simp only: id)
    have h': "?h = h\<lparr>hs_gateway := ?g', hs_nodes := hs_nodes h @ [?m]\<rparr>"
      using success(2) by (simp add: add_node_def node_enroll_def Let_def id)
    have g': "gateway_ok C ?g'" using gw_enroll_ok [OF g, of ?req now'] success(2) by (simp add: id)
    note keep = admitted_put(1) [OF g g' enroll_ok_fresh [OF e, THEN conjunct1] enroll_ok_fresh [OF e, THEN conjunct2]]
    have "ce_public_key_der ?c = spki_der C (public_key C priv)"
      using e by (simp add: enroll_ok_def enrolled_cert_def build_enrollment_request_def public_key_der_def new_node_def)
    then have "admitted C ?m ?g'"
      by (intro admitted_put(2) [OF g g' enroll_ok_fresh [OF e, THEN conjunct1] enroll_ok_fresh [OF e, THEN conjunct2]])
         (simp_all add: new_node_def)
    then have "honest_node C ?g' ?m"
      by (simp add: honest_node_def ledger_complete_def known_def new_node_def new_document_def)
    moreover have "honest_node C ?g' m" if "m \<in> set (hs_nodes h)" for m
      using h that keep by (simp add: honest_mesh_def honest_node_def)
    moreover have "trusted C T ?g' b" if "(o', b) \<in> set (hs_log h)" for o' b
      using h that keep unfolding honest_mesh_def trusted_def by fast
    ultimately show ?thesis using ok g' unfolding h' honest_mesh_def by auto
  next
    case (failure r)
    have "?h = h" using failure(1,2) by (cases r) (auto simp: add_node_def node_enroll_def Let_def)
    with h show ?thesis by simp
  qed
qed

text \<open>An honest request, a fresh key and a clock close to the gateway's, is admitted.\<close>

lemma add_node_admits:
  assumes C: "crypto_ok C" and g: "gateway_ok C (hs_gateway h)" "gw_key (hs_gateway h) = hs_key h"
    and time: "valid_datetime now" "\<not> out_of_window now' (now\<lparr>micro := 0\<rparr>) (gw_skew (hs_gateway h))"
    and new: "gw_revoked (hs_gateway h) = []" "map_of (gw_certs (hs_gateway h)) n = None"
    and n: "n = node_id_from_pubkey C (public_key C priv)"
    and nd: "nd = (new_node C name (hs_doc_id h) priv)\<lparr>nd_enrolled := True\<rparr>"
  shows "\<exists>r c. en_success r \<and> ce_public_key_der c = spki_der C (public_key C priv) \<and>
    add_node C name [] priv now now' h =
      (Inr r, h\<lparr>hs_gateway := (hs_gateway h)\<lparr>gw_certs := put n c (gw_certs (hs_gateway h))\<rparr>, hs_nodes := hs_nodes h @ [nd]\<rparr>) \<and>
    gateway_ok C ((hs_gateway h)\<lparr>gw_certs := put n c (gw_certs (hs_gateway h))\<rparr>)"
proof -
  let ?n = "new_node C name (hs_doc_id h) priv"
  let ?g = "hs_gateway h"
  let ?req = "build_enrollment_request C (hs_key h) (nd_node_id ?n) (public_key_der C ?n) (utc_now_iso now)
    DOCTRINE_VERSION KERNEL_COMMIT SLSA_LEVEL [] ''self_report''"
  have id: "nd_node_id ?n = n" "public_key_der C ?n = spki_der C (public_key C priv)"
    by (simp_all add: new_node_def n public_key_der_def)
  have req: "?req = build_enrollment_request C (gw_key ?g) n (spki_der C (public_key C priv)) (strftime now)
      DOCTRINE_VERSION KERNEL_COMMIT SLSA_LEVEL [] ''self_report''"
    by (simp add: id g(2) utc_now_iso_def)
  have "n \<notin> set (gw_revoked ?g)" by (simp add: new(1))
  note ok = honest_enroll_within [OF C time n this new(2) covered_Nil req]
  show ?thesis
  proof (cases C ?req now' ?g rule: gw_enroll_cases)
    case (success k)
    let ?c = "enrolled_cert C n k now'"
    from ok have "er_public_key_der ?req = Some (spki_der C (public_key C priv))" by (simp add: enroll_ok_def)
    then have "ce_public_key_der ?c = spki_der C (public_key C priv)"
      using success(1) by (simp add: enroll_ok_def enrolled_cert_def)
    moreover have "gateway_ok C (?g\<lparr>gw_certs := put n ?c (gw_certs ?g)\<rparr>)"
      using gw_enroll_ok [OF g(1), of ?req now'] success(2) ok(2) by simp
    ultimately show ?thesis
      using success(2) ok(2) by (intro exI [of _ "\<lparr>en_success = True, en_node_id = n, en_reason = None, en_enrolled_at = Some (strftime now')\<rparr>"]
          exI [of _ ?c] conjI) (simp_all add: add_node_def node_enroll_def Let_def nd)
  next
    case (failure r)
    with ok show ?thesis by auto
  qed
qed

text \<open>A harness before the first write: the gateway has certified exactly its nodes.\<close>

definition joined_only :: "('k, 's) crypto \<Rightarrow> datetime set \<Rightarrow> 's harness \<Rightarrow> bool" where
  "joined_only C T h \<longleftrightarrow> honest_mesh C T h \<and> hs_log h = [] \<and>
     gw_key (hs_gateway h) = hs_key h \<and> gw_skew (hs_gateway h) = 300 \<and> gw_revoked (hs_gateway h) = [] \<and>
     fst ` set (gw_certs (hs_gateway h)) = nd_node_id ` set (hs_nodes h) \<and>
     (\<forall>nd \<in> set (hs_nodes h). nd_lamport nd = 0)"

lemma joins_one:
  assumes C: "crypto_ok C" and j: "joined_only C T h" and T: "brisk T" "now \<in> T" "now' \<in> T"
    and n: "n = node_id_from_pubkey C (public_key C priv)" "n \<notin> nd_node_id ` set (hs_nodes h)"
  shows "\<exists>r h'. add_node C name [] priv now now' h = (Inr r, h') \<and> joined_only C T h' \<and> hs_doc_id h' = hs_doc_id h \<and>
    map nd_node_id (hs_nodes h') = map nd_node_id (hs_nodes h) @ [n]"
proof -
  let ?g = "hs_gateway h"
  define nd where "nd = (new_node C name (hs_doc_id h) priv)\<lparr>nd_enrolled := True\<rparr>"
  have g: "gateway_ok C ?g" "gw_key ?g = hs_key h" "gw_skew ?g = 300" "gw_revoked ?g = []"
    using j by (simp_all add: joined_only_def honest_mesh_def)
  have "map_of (gw_certs ?g) n = None" using j n(2) by (simp add: joined_only_def map_of_eq_None_iff)
  moreover have "\<not> out_of_window now' (now\<lparr>micro := 0\<rparr>) (gw_skew ?g)"
    by (rule brisk_window(2) [OF T(1,3,2)]) (simp add: g(3))
  ultimately obtain r c where a: "add_node C name [] priv now now' h =
      (Inr r, h\<lparr>hs_gateway := ?g\<lparr>gw_certs := put n c (gw_certs ?g)\<rparr>, hs_nodes := hs_nodes h @ [nd]\<rparr>)"
    using add_node_admits [OF C g(1,2) brisk_window(1) [OF T(1,3,2) order_refl] _ g(4) _ n(1) nd_def] by blast
  let ?h = "h\<lparr>hs_gateway := ?g\<lparr>gw_certs := put n c (gw_certs ?g)\<rparr>, hs_nodes := hs_nodes h @ [nd]\<rparr>"
  have id: "nd_node_id nd = n" "nd_lamport nd = 0" by (simp_all add: nd_def new_node_def n(1))
  have "honest_mesh C T ?h"
    using honest_join_step [of C T h name "[]" priv now now'] j a by (simp add: joined_only_def)
  then have "joined_only C T ?h" using g j id by (simp add: joined_only_def keys_put)
  with a id(1) show ?thesis by simp
qed

lemma new_joined: "joined_only C T (new_harness f d key)"
  using new_harness_ok [of C f d key]
  by (simp add: joined_only_def honest_mesh_def) (simp add: new_harness_def new_gateway_def gateway_ok_def)

section \<open>Writing\<close>

text \<open>Who the nodes are and how far their clocks are.\<close>

definition clocks :: "'s harness \<Rightarrow> (string \<times> int) list" where
  "clocks h = map (\<lambda>nd. (nd_node_id nd, nd_lamport nd)) (hs_nodes h)"

lemma honest_write_step:
  fixes C :: "('k, 's) crypto"
  assumes C: "crypto_ok C" "3 \<le> json_depth C" and h: "honest_mesh C T h" "utf8_valid (hs_doc_id h)" "j < length (hs_nodes h)"
    and cls: "cls \<in> set TRANSITION_CLASSES" and T: "brisk T" "now \<in> T" "now' \<in> T" and val: "copies C val"
  shows "\<exists>b h'. hs_write C j key val cls nonce now now' h = (Inr b, h') \<and> honest_mesh C T h' \<and>
    hs_doc_id h' = hs_doc_id h \<and> hs_gateway h' = hs_gateway h \<and>
    hs_log h' = hs_log h @ [(nd_node_id (hs_nodes h ! j), b)] \<and> bc_op b = own_op key val False (hs_nodes h ! j) \<and>
    clocks h' = (clocks h)[j := (nd_node_id (hs_nodes h ! j), nd_lamport (hs_nodes h ! j) + 1)] \<and>
    nd_doc_id (hs_nodes h ! j) = hs_doc_id h \<and> bc_track b = AUTHORIZED \<and> verify_receipt_signature C (bc_receipt b) = Inr True"
proof -
  let ?nd = "hs_nodes h ! j" and ?g = "hs_gateway h"
  let ?W = "node_write C key val cls False nonce now now' ?g ?nd"
  have m: "?nd \<in> set (hs_nodes h)" using h(3) by simp
  have hon: "honest_node C ?g ?nd" and within: "node_within C (hs_doc_id h) (broadcast_pairs C (hs_log h)) ?nd"
    using h(1) m by (auto simp: honest_mesh_def harness_ok_def)
  have nd: "node_ok C ?nd" "nd_doc_id ?nd = hs_doc_id h" "nd_enrolled ?nd" "admitted C ?nd ?g"
    using hon within by (simp_all add: honest_node_def node_within_def)
  have valid: "utf8_valid (nd_doc_id ?nd)" using h(2) nd(2) by simp
  note win = brisk_window [OF T(1) _ T(2) order_refl]
  from honest_write [OF C nd(1,3) valid nd(4) cls win(1) [OF T(2)] win(2) [OF T(3)] val, of key False nonce]
  obtain b where b: "fst ?W = Inr b" "bc_track b = AUTHORIZED" and ver: "verify_receipt_signature C (bc_receipt b) = Inr True" and cl:
    "\<And>(peer :: 's node) g2 now2. nd_enrolled peer \<Longrightarrow> admitted C ?nd g2 \<Longrightarrow> \<not> out_of_window now2 (now\<lparr>micro := 0\<rparr>) 5 \<Longrightarrow>
      \<exists>stmt. classify C (bc_op b) (bc_receipt b) now2 g2 peer = Inr (authorized_result stmt)"
    by blast
  note w = node_write_success [OF b(1)]
  have tr: "trusted C T ?g b"
    unfolding trusted_def using receipt_shallow [OF b(1)] ver cl [OF _ _ win(2)] nd(4) by blast
  have f: "filed C (bc_op b) (nd_lamport ?nd + 1) (Some AUTHORIZED) ?nd (snd ?W)" using w(4) b(2) by simp
  have hon': "honest_node C ?g (snd ?W)"
    by (rule filed_honest [OF hon f _ w(5) ver]) (use w(3) node_okD(2) [OF nd(1)] in simp)
  let ?h = "h\<lparr>hs_nodes := (hs_nodes h)[j := snd ?W], hs_log := hs_log h @ [(nd_node_id ?nd, b)]\<rparr>"
  have wr: "hs_write C j key val cls nonce now now' h = (Inr b, ?h)"
    using b(1) h(3) by (cases ?W) (simp add: hs_write_def)
  have "harness_ok C ?h"
    using harness_write_ok [of C h j key val cls nonce now now' b] h(1) wr by (simp add: honest_mesh_def)
  then have "honest_mesh C T ?h"
    using h(1) tr hon' by (auto simp: honest_mesh_def dest!: set_update_subset_insert [THEN subsetD])
  moreover have "clocks ?h = (clocks h)[j := (nd_node_id ?nd, nd_lamport ?nd + 1)]"
    using f by (simp add: clocks_def map_update filed_def)
  ultimately show ?thesis using wr w(3) nd(2) b(2) ver by simp
qed

section \<open>Gossip among honest nodes\<close>

definition honest_of :: "('k, 's) crypto \<Rightarrow> string \<Rightarrow> gateway \<Rightarrow> 's node \<Rightarrow> bool" where
  "honest_of C doc g nd \<longleftrightarrow> honest_node C g nd \<and> node_ok C nd \<and> nd_doc_id nd = doc"

lemma apply_remote_honest:
  assumes "honest_of C doc g nd" "trusted C T g b" "now \<in> T" "op_doc_id (bc_op b) = doc" "copyable (bc_receipt b)"
  shows "honest_of C doc g (snd (apply_remote C copyable (bc_op b) (bc_receipt b) now g nd))"
proof -
  have nd: "honest_node C g nd" "node_ok C nd" "nd_doc_id nd = doc" using assms(1) by (simp_all add: honest_of_def)
  have d: "op_doc_id (bc_op b) = cd_doc_id (nd_doc nd)" using node_okD(2) [OF nd(2)] nd(3) assms(4) by simp
  have "nd_enrolled nd" using nd(1) by (simp add: honest_node_def)
  from trusted_classify [OF assms(2,3) this] obtain stmt where
    cl: "classify C (bc_op b) (bc_receipt b) now g nd = Inr (authorized_result stmt)" .
  let ?nd' = "snd (apply_remote C copyable (bc_op b) (bc_receipt b) now g nd)"
  have f: "filed C (bc_op b) (max (nd_lamport nd) (op_lamport (bc_op b)) + 1) (Some AUTHORIZED) nd ?nd'"
    using apply_remote_track(2) [OF d, of C copyable "bc_receipt b" now g "authorized_result stmt"] cl assms(5)
    by (simp add: retained_def authorized_result_def)
  have ver: "verify_receipt_signature C (bc_receipt b) = Inr True" using assms(2) by (simp add: trusted_def)
  then have "bc_receipt b \<noteq> JNull" by (auto simp: verify_receipt_signature_def verify_receipt_body_def)
  then have led: "nd_ledger ?nd' = put (op_id C (bc_op b)) (bc_receipt b) (nd_ledger nd)"
    using apply_remote_track(3) [OF d, of C copyable "bc_receipt b" now g "authorized_result stmt"] cl assms(5)
    by (simp add: retained_def keep_receipt_def)
  have "nd_doc_id ?nd' = doc" using f nd(3) by (simp add: filed_def)
  with filed_honest [OF nd(1) f d led ver] apply_remote_ok [OF nd(2)] show ?thesis by (simp add: honest_of_def)
qed

lemma gossip_loop_honest:
  assumes "gossip_loop C copyable g ds nodes = (Inr (), nodes')" "\<forall>nd \<in> set nodes. honest_of C doc g nd"
    and "\<forall>((j, b), t) \<in> set ds. j < length nodes \<and> trusted C T g b \<and> t \<in> T \<and> op_doc_id (bc_op b) = doc \<and> copyable (bc_receipt b)"
  shows "\<forall>nd \<in> set nodes'. honest_of C doc g nd"
  using assms
proof (induction ds arbitrary: nodes)
  case (Cons d ds)
  obtain j b t where d: "d = ((j, b), t)" by (cases d) auto
  let ?W = "apply_remote C copyable (bc_op b) (bc_receipt b) t g (nodes ! j)"
  from Cons.prems(3) d have j: "j < length nodes" "trusted C T g b" "t \<in> T" "op_doc_id (bc_op b) = doc" "copyable (bc_receipt b)"
    by simp_all
  have "honest_of C doc g (snd ?W)"
    using Cons.prems(2) j by (intro apply_remote_honest [where T = T]) simp_all
  then have ok: "\<forall>nd \<in> set (nodes[j := snd ?W]). honest_of C doc g nd"
    using Cons.prems(2) by (auto dest: set_update_subset_insert [THEN subsetD])
  have "gossip_loop C copyable g ds (nodes[j := snd ?W]) = (Inr (), nodes')"
    using Cons.prems(1) d by (cases ?W) (auto split: sum.splits)
  from Cons.IH [OF this ok] Cons.prems(3) show ?case by simp
qed simp

text \<open>A node whose operations are all authorised shows the same state on both tracks.\<close>

lemma honest_digest:
  assumes "honest_of C doc g nd"
  shows "node_digest C AUTHORIZED nd = node_digest C OBSERVED nd"
proof -
  have "dict_ok (cd_ops (nd_doc nd))" using assms by (simp add: honest_of_def node_ok_def crdt_ok_def)
  then have "\<forall>x \<in> set (map snd (cd_ops (nd_doc nd))). op_track x = AUTHORIZED"
    using assms ops_of_log [of "nd_doc nd"] by (simp add: honest_of_def honest_node_def)
  then have "filter (\<lambda>x. op_track x \<in> set [AUTHORIZED]) (map snd (cd_ops (nd_doc nd))) =
      filter (\<lambda>x. op_track x \<in> set [AUTHORIZED, OBSERVED]) (map snd (cd_ops (nd_doc nd)))"
    by (intro filter_cong) auto
  then have "materialise C [AUTHORIZED] (nd_doc nd) = materialise C [AUTHORIZED, OBSERVED] (nd_doc nd)"
    unfolding materialise_def winners_def by (simp only:)
  then show ?thesis by (simp add: node_digest_def state_digest_def view_def authorized_view_def observed_view_def)
qed

text \<open>A round of gossip raises nothing and keeps the mesh honest.\<close>

lemma honest_gossip_step:
  assumes h: "honest_mesh C T h" and order: "shuffled h order" "snd ` set order \<subseteq> T"
    and copy: "\<forall>v. jdepth v \<le> 3 \<longrightarrow> copyable v"
  shows "fst (gossip C copyable order h) = Inr ()" "honest_mesh C T (snd (gossip C copyable order h))"
proof -
  have ok: "harness_ok C h" using h(1) by (simp add: honest_mesh_def)
  let ?g = "hs_gateway h"
  from gossip_ok [OF ok order(1)] obtain nodes where n:
    "gossip C copyable order h = (Inr (), h\<lparr>hs_nodes := nodes\<rparr>)" "harness_ok C (h\<lparr>hs_nodes := nodes\<rparr>)" by blast
  then have loop: "gossip_loop C copyable ?g order (hs_nodes h) = (Inr (), nodes)"
    by (cases "gossip_loop C copyable ?g order (hs_nodes h)") (auto simp: gossip_def dest: arg_cong [where f = hs_nodes])
  have hon: "\<forall>nd \<in> set (hs_nodes h). honest_of C (hs_doc_id h) ?g nd"
    using h(1) by (simp add: honest_of_def honest_mesh_def harness_ok_def node_within_def)
  have set: "fst ` set order = set (deliveries h)"
    using mset_eq_setD [OF order(1) [unfolded shuffled_def]] by simp
  have "\<forall>((j, b), t) \<in> set order. j < length (hs_nodes h) \<and> trusted C T ?g b \<and> t \<in> T \<and>
      op_doc_id (bc_op b) = hs_doc_id h \<and> copyable (bc_receipt b)"
  proof (clarify)
    fix j b t
    assume o: "((j, b), t) \<in> set order"
    with set have "(j, b) \<in> set (deliveries h)" by force
    then obtain o' where j: "j < length (hs_nodes h)" "(o', b) \<in> set (hs_log h)" unfolding in_deliveries by blast
    then have tr: "trusted C T ?g b" "op_doc_id (bc_op b) = hs_doc_id h" using h(1) by (auto simp: honest_mesh_def harness_ok_def)
    moreover have "t \<in> T" using o order(2) by force
    moreover have "copyable (bc_receipt b)" using tr(1) copy by (simp add: trusted_def)
    ultimately show "j < length (hs_nodes h) \<and> trusted C T ?g b \<and> t \<in> T \<and>
      op_doc_id (bc_op b) = hs_doc_id h \<and> copyable (bc_receipt b)" using j(1) by simp
  qed
  from gossip_loop_honest [OF loop hon this] have "\<forall>nd \<in> set nodes. honest_node C ?g nd" by (simp add: honest_of_def)
  then show "fst (gossip C copyable order h) = Inr ()" "honest_mesh C T (snd (gossip C copyable order h))"
    using n h(1) by (simp_all add: honest_mesh_def)
qed

lemma honest_converged:
  assumes "honest_mesh C T h"
  shows "converged C AUTHORIZED h = converged C OBSERVED h"
proof -
  have "\<forall>nd \<in> set (hs_nodes h). honest_of C (hs_doc_id h) (hs_gateway h) nd"
    using assms by (simp add: honest_of_def honest_mesh_def harness_ok_def node_within_def)
  then have "map (node_digest C AUTHORIZED) (hs_nodes h) = map (node_digest C OBSERVED) (hs_nodes h)"
    by (auto intro: honest_digest)
  then show ?thesis by (simp only: converged_def)
qed

lemma gossip_honest:
  assumes h: "honest_mesh C T h" and order: "shuffled h order" "snd ` set order \<subseteq> T"
    and copy: "\<forall>v. jdepth v \<le> 3 \<longrightarrow> copyable v" and nc: "functional (broadcast_pairs C (hs_log h))" "hs_nodes h \<noteq> []"
  shows "\<exists>h'. gossip C copyable order h = (Inr (), h') \<and> honest_mesh C T h' \<and>
    converged C AUTHORIZED h' \<and> converged C OBSERVED h' \<and> length (hs_nodes h') = length (hs_nodes h) \<and>
    (\<forall>nd \<in> set (hs_nodes h'). known nd = op_id C ` bc_op ` snd ` set (hs_log h) \<and>
      (\<forall>(o', b) \<in> set (hs_log h).
        log_of (nd_doc nd) (op_id C (bc_op b)) = Some ((bc_op b)\<lparr>op_track := AUTHORIZED\<rparr>)))"
proof -
  have ok: "harness_ok C h" using h by (simp add: honest_mesh_def)
  from gossip_ok [OF ok order(1)] obtain nodes where n: "gossip C copyable order h = (Inr (), h\<lparr>hs_nodes := nodes\<rparr>)"
    "length nodes = length (hs_nodes h)" "harness_ok C (h\<lparr>hs_nodes := nodes\<rparr>)"
    "\<forall>nd \<in> set nodes. known nd = fst ` broadcast_pairs C (hs_log h)" by blast
  have hon: "honest_mesh C T (h\<lparr>hs_nodes := nodes\<rparr>)"
    using honest_gossip_step(2) [OF h order copy] by (simp add: n(1))
  have auth: "log_of (nd_doc nd) (op_id C (bc_op b)) = Some ((bc_op b)\<lparr>op_track := AUTHORIZED\<rparr>)"
    if nd: "nd \<in> set nodes" and b: "(o', b) \<in> set (hs_log h)" for nd o' b
  proof -
    let ?i = "op_id C (bc_op b)"
    have p: "(?i, as_observed (bc_op b)) \<in> broadcast_pairs C (hs_log h)" using b by (force simp: broadcast_pairs_def)
    then have "?i \<in> known nd" using n(4) nd by force
    then obtain x where x: "log_of (nd_doc nd) ?i = Some x" by (auto simp: known_def)
    then have "plain_log nd ?i = Some (as_observed x)" by simp
    then have "(?i, as_observed x) \<in> broadcast_pairs C (hs_log h)"
      using n(3) nd by (simp add: harness_ok_def node_within_def)
    with p nc(1) have same: "as_observed x = as_observed (bc_op b)" unfolding functional_def by blast
    have "op_track x = AUTHORIZED" using hon nd x by (auto simp: honest_mesh_def honest_node_def intro: ranI)
    then have "x = (as_observed x)\<lparr>op_track := AUTHORIZED\<rparr>" by (cases x) (simp add: as_observed_def)
    also have "\<dots> = (bc_op b)\<lparr>op_track := AUTHORIZED\<rparr>" unfolding same by (cases "bc_op b") (simp add: as_observed_def)
    finally show ?thesis using x by simp
  qed
  have "fst ` broadcast_pairs C (hs_log h) = op_id C ` bc_op ` snd ` set (hs_log h)"
    by (simp add: broadcast_pairs_def image_image case_prod_unfold)
  with n(4) have known: "\<forall>nd \<in> set nodes. known nd = op_id C ` bc_op ` snd ` set (hs_log h)" by simp
  have "converged C OBSERVED (h\<lparr>hs_nodes := nodes\<rparr>)"
    using gossip_agreement [OF ok order(1) nc, of copyable, THEN conjunct2, THEN conjunct1] by (simp add: n(1))
  with honest_converged [OF hon] have "converged C AUTHORIZED (h\<lparr>hs_nodes := nodes\<rparr>)" by simp
  with \<open>converged C OBSERVED (h\<lparr>hs_nodes := nodes\<rparr>)\<close> n(1,2) hon known auth show ?thesis
    by (intro exI [of _ "h\<lparr>hs_nodes := nodes\<rparr>"]) auto
qed

section \<open>Honest histories\<close>

text \<open>
  Anyone may ask to join at any time. Nodes of the harness write values that can be copied, with a valid class; deliveries are in
  any order. Writes and gossip read the clock at times of \<open>T\<close>.
\<close>

inductive honest_run :: "('k, 's) crypto \<Rightarrow> (json \<Rightarrow> bool) \<Rightarrow> datetime set \<Rightarrow> 's harness \<Rightarrow> 's harness \<Rightarrow> bool"
  for C :: "('k, 's) crypto" and copyable :: "json \<Rightarrow> bool" and T :: "datetime set" and h0 :: "'s harness" where
  start: "honest_run C copyable T h0 h0"
| joins: "honest_run C copyable T h0 h \<Longrightarrow> honest_run C copyable T h0 (snd (add_node C name vendor priv now now' h))"
| writes: "honest_run C copyable T h0 h \<Longrightarrow> j < length (hs_nodes h) \<Longrightarrow> cls \<in> set TRANSITION_CLASSES \<Longrightarrow> now \<in> T \<Longrightarrow> now' \<in> T \<Longrightarrow>
    copies C val \<Longrightarrow> honest_run C copyable T h0 (snd (hs_write C j key val cls nonce now now' h))"
| gossips: "honest_run C copyable T h0 h \<Longrightarrow> shuffled h order \<Longrightarrow> snd ` set order \<subseteq> T \<Longrightarrow>
    honest_run C copyable T h0 (snd (gossip C copyable order h))"

lemma add_node_doc_id [simp]: "hs_doc_id (snd (add_node C name vendor priv now now' h)) = hs_doc_id h"
  by (cases C name vendor priv now now' h rule: add_node_cases) simp_all

lemma gossip_doc_id [simp]: "hs_doc_id (snd (gossip C copyable order h)) = hs_doc_id h"
  by (simp add: gossip_def split: prod.split)

lemma honest_run_ok:
  assumes "honest_run C copyable T (new_harness f d key) h" "crypto_ok C" "3 \<le> json_depth C"
    and "brisk T" "utf8_valid d" "\<forall>v. jdepth v \<le> 3 \<longrightarrow> copyable v"
  shows "honest_mesh C T h \<and> hs_doc_id h = d"
  using assms
proof (induction rule: honest_run.induct)
  case start
  then show ?case using new_joined [of C T f d key] by (simp add: joined_only_def) (simp add: new_harness_def)
next
  case (joins h name vendor priv now now')
  then show ?case by (simp add: honest_join_step)
next
  case (writes h j cls now now' val key nonce)
  then have h: "honest_mesh C T h" "hs_doc_id h = d" by simp_all
  with writes.prems have "utf8_valid (hs_doc_id h)" by simp
  from honest_write_step [OF writes.prems(1,2) h(1) this writes.hyps(2,3) writes.prems(3) writes.hyps(4,5,6), of key nonce] h(2)
  show ?case by auto
next
  case (gossips h order)
  then show ?case by (simp add: honest_gossip_step(2))
qed

section \<open>Property\<close>

text \<open>
  C6: An honest mesh reaches agreement. After any history in which anyone asks to join, nodes of
  the mesh write with a valid class, and gossip runs in any order (with clocks that agree within four
  seconds), one more round of gossip raises nothing, every node then holds exactly the operations that were ever broadcast and
  has authorised each, and the nodes agree on the authorised state as well as on the
  observed one. (The primitives behave as documented: keys survive serialisation, signatures verify, digests are ASCII; no two
  broadcast operations share an identifier, and shallow values can be copied.)
\<close>

theorem honest_mesh_agrees:
  assumes "honest_run C copyable T (new_harness f d key) h" "crypto_ok C" "3 \<le> json_depth C"
    and "brisk T" "utf8_valid d" "\<forall>v. jdepth v \<le> 3 \<longrightarrow> copyable v"
    and "functional (broadcast_pairs C (hs_log h))" "hs_nodes h \<noteq> []" "shuffled h order" "snd ` set order \<subseteq> T"
  shows "\<exists>h'. gossip C copyable order h = (Inr (), h') \<and> converged C AUTHORIZED h' \<and> converged C OBSERVED h' \<and>
    (\<forall>nd \<in> set (hs_nodes h'). dom (log_of (nd_doc nd)) = op_id C ` bc_op ` snd ` set (hs_log h) \<and>
      (\<forall>(o', b) \<in> set (hs_log h).
        log_of (nd_doc nd) (op_id C (bc_op b)) = Some ((bc_op b)\<lparr>op_track := AUTHORIZED\<rparr>)))"
proof -
  have h: "honest_mesh C T h" using honest_run_ok [OF assms(1-6)] by blast
  show ?thesis using gossip_honest [OF h assms(9,10,6,7,8)] unfolding known_def by blast
qed

text \<open>Two nodes of the toy cryptography join, and one writes; the record is to be delivered to the other.\<close>

lemma sample_mesh:
  obtains h :: "string harness" where
    "honest_run toy_crypto (\<lambda>_. True) {sample_time} (new_harness ''f'' ''doc'' ''secret'') h"
    "harness_run toy_crypto (new_harness ''f'' ''doc'' ''secret'') h"
    "length (hs_nodes h) = 2" "length (hs_log h) = 1" "length (deliveries h) = 1"
    "functional (broadcast_pairs toy_crypto (hs_log h))" "hs_nodes h \<noteq> []"
    "shuffled h (map (\<lambda>d. (d, sample_time)) (deliveries h))"
    "snd ` set (map (\<lambda>d. (d, sample_time)) (deliveries h)) \<subseteq> {sample_time}"
proof -
  let ?T = "{sample_time}" and ?t = sample_time and ?cp = "\<lambda>_ :: json. True"
  let ?h0 = "new_harness ''f'' ''doc'' ''secret'' :: string harness"
  have T: "brisk ?T" "?t \<in> ?T" by (simp_all add: brisk_def sample_time_valid)
  have doc: "utf8_valid ''doc''" by (simp add: ascii_utf8_valid)
  have depth: "3 \<le> json_depth toy_crypto" by (simp add: toy_crypto_def)
  have z: "hs_nodes ?h0 = []" "hs_doc_id ?h0 = ''doc''" by (simp_all add: new_harness_def)
  have id: "to_hex k = node_id_from_pubkey toy_crypto (public_key toy_crypto k)" for k
    by (simp add: node_id_from_pubkey_def toy_crypto_def)
  note run = honest_run.intros [of toy_crypto ?cp ?T ?h0]
  have "to_hex ''k'' \<notin> nd_node_id ` set (hs_nodes ?h0)" by (simp add: z)
  from joins_one [OF toy_crypto_ok new_joined T T(2) id this, of "''a''"] obtain r1 h1 where
    h1: "add_node toy_crypto ''a'' [] ''k'' ?t ?t ?h0 = (Inr r1, h1)" "joined_only toy_crypto ?T h1" "hs_doc_id h1 = ''doc''"
      "map nd_node_id (hs_nodes h1) = [to_hex ''k'']" by (auto simp: z)
  have "nd_node_id ` set (hs_nodes h1) = {to_hex ''k''}" using arg_cong [OF h1(4), of set] by simp
  then have "to_hex ''p'' \<notin> nd_node_id ` set (hs_nodes h1)" by simp
  from joins_one [OF toy_crypto_ok h1(2) T T(2) id this, of "''b''"] obtain r2 h2 where
    h2: "add_node toy_crypto ''b'' [] ''p'' ?t ?t h1 = (Inr r2, h2)" "joined_only toy_crypto ?T h2" "hs_doc_id h2 = ''doc''"
      "map nd_node_id (hs_nodes h2) = [to_hex ''k'', to_hex ''p'']" by (auto simp: h1(3,4))
  have len: "length (hs_nodes h2) = 2" using arg_cong [OF h2(4), of length] by simp
  have hon: "honest_mesh toy_crypto ?T h2" "hs_log h2 = []" using h2(2) by (simp_all add: joined_only_def)
  have cls: "''COMMAND'' \<in> set TRANSITION_CLASSES" by (simp add: TRANSITION_CLASSES_def)
  have "utf8_valid (hs_doc_id h2)" "0 < length (hs_nodes h2)" using doc by (simp_all add: h2(3) len)
  from honest_write_step [OF toy_crypto_ok depth hon(1) this cls T T(2) toy_limits(2), of "''x''" "JInt 1" "[]"] obtain b h3 where
    h3: "hs_write toy_crypto 0 ''x'' (JInt 1) ''COMMAND'' [] ?t ?t h2 = (Inr b, h3)"
      "hs_log h3 = [(nd_node_id (hs_nodes h2 ! 0), b)]" "length (clocks h3) = length (clocks h2)"
      "clocks h3 = (clocks h2)[0 := (nd_node_id (hs_nodes h2 ! 0), nd_lamport (hs_nodes h2 ! 0) + 1)]"
    by (auto simp: hon(2))
  have len3: "length (hs_nodes h3) = 2" using h3(3) len by (simp add: clocks_def)
  have "honest_run toy_crypto ?cp ?T ?h0 h1" using run(2) [OF run(1), of "''a''" "[]" "''k''" ?t ?t] by (simp add: h1(1))
  then have "honest_run toy_crypto ?cp ?T ?h0 h2" using run(2) [of h1 "''b''" "[]" "''p''" ?t ?t] by (simp add: h2(1))
  then have h: "honest_run toy_crypto ?cp ?T ?h0 h3"
    using run(3) [of h2 0 "''COMMAND''" ?t ?t "JInt 1" "''x''" "[]"] by (simp add: h3(1) len cls)
  note run' = harness_run.intros [of toy_crypto ?h0]
  have "harness_run toy_crypto ?h0 h1" using run'(2) [OF run'(1), of "''a''" "[]" "''k''" ?t ?t] by (simp add: h1(1))
  then have "harness_run toy_crypto ?h0 h2" using run'(2) [of h1 "''b''" "[]" "''p''" ?t ?t] by (simp add: h2(1))
  then have h': "harness_run toy_crypto ?h0 h3"
    using run'(3) [of h2 0 "''x''" "JInt 1" "''COMMAND''" "[]" ?t ?t b] by (simp add: h3(1))
  have first: "nd_node_id (hs_nodes h2 ! 0) = to_hex ''k''"
    using nth_map [of 0 "hs_nodes h2" nd_node_id] len unfolding h2(4) by simp
  have ids: "map nd_node_id (hs_nodes h3) = [to_hex ''k'', to_hex ''p'']"
    using arg_cong [OF h3(4), of "map fst"] h2(4) len first by (simp add: clocks_def comp_def map_update list_update_same_conv)
  then have id: "nd_node_id (hs_nodes h3 ! 0) = to_hex ''k''" "nd_node_id (hs_nodes h3 ! Suc 0) = to_hex ''p''"
    using len3 by (auto dest: arg_cong [where f = "\<lambda>xs. xs ! 0"] arg_cong [where f = "\<lambda>xs. xs ! Suc 0"])
  have one: "length (deliveries h3) = 1"
    unfolding deliveries_def h3(2) len3 by (simp add: id first upt_conv_Cons)
  have "functional (broadcast_pairs toy_crypto (hs_log h3))" by (simp add: h3(2) functional_def broadcast_pairs_def)
  moreover have "hs_nodes h3 \<noteq> []" using len3 by auto
  moreover have "shuffled h3 (map (\<lambda>d. (d, ?t)) (deliveries h3))" by (simp add: shuffled_def comp_def)
  moreover have "snd ` set (map (\<lambda>d. (d, ?t)) (deliveries h3)) \<subseteq> ?T" by auto
  ultimately show thesis using h h' len3 h3(2) one by (intro that [of h3]) simp_all
qed

theorem honest_mesh_agrees_witness:
  "\<exists>h :: string harness. length (hs_nodes h) = 2 \<and> length (deliveries h) = 1 \<and>
     converged toy_crypto AUTHORIZED (snd (gossip toy_crypto (\<lambda>_. True) (map (\<lambda>d. (d, sample_time)) (deliveries h)) h))"
proof -
  obtain h :: "string harness" where h: "honest_run toy_crypto (\<lambda>_. True) {sample_time} (new_harness ''f'' ''doc'' ''secret'') h"
    "length (hs_nodes h) = 2" "length (deliveries h) = 1"
    "functional (broadcast_pairs toy_crypto (hs_log h))" "hs_nodes h \<noteq> []"
    "shuffled h (map (\<lambda>d. (d, sample_time)) (deliveries h))"
    "snd ` set (map (\<lambda>d. (d, sample_time)) (deliveries h)) \<subseteq> {sample_time}"
    by (rule sample_mesh) blast
  have "brisk {sample_time}" "utf8_valid ''doc''" "3 \<le> json_depth toy_crypto"
    by (simp_all add: brisk_def sample_time_valid ascii_utf8_valid)
  from honest_mesh_agrees [OF h(1) toy_crypto_ok this(3,1,2) _ h(4-7)] h(2,3) show ?thesis
    by (intro exI [of _ h]) auto
qed

text \<open>The same mesh under the property that needs no honesty: one record is delivered, and both nodes hold it.\<close>

theorem gossip_converges_witness:
  "\<exists>h :: string harness. length (hs_nodes h) = 2 \<and> length (deliveries h) = 1 \<and>
     fst (gossip toy_crypto (\<lambda>_. True) (map (\<lambda>d. (d, sample_time)) (deliveries h)) h) = Inr () \<and>
     converged toy_crypto OBSERVED (snd (gossip toy_crypto (\<lambda>_. True) (map (\<lambda>d. (d, sample_time)) (deliveries h)) h))"
proof -
  obtain h :: "string harness" where h: "harness_run toy_crypto (new_harness ''f'' ''doc'' ''secret'') h"
    "length (hs_nodes h) = 2" "length (deliveries h) = 1"
    "functional (broadcast_pairs toy_crypto (hs_log h))" "hs_nodes h \<noteq> []"
    "shuffled h (map (\<lambda>d. (d, sample_time)) (deliveries h))"
    by (rule sample_mesh) blast
  from gossip_converges [OF h(1,6,4,5), of "\<lambda>_. True"] h(2,3) show ?thesis
    by (intro exI [of _ h]) blast
qed

end
