(* ===== verification/Demo.thy ===== *)
theory Demo
  imports HonestMesh
begin

text \<open>
  \<open>src/szl_mesh/demo.py\<close>: the whole mesh in one run. Three nodes join, a fourth is turned away, five
  receipted writes are gossiped in a shuffled order, and the exit code says whether all nodes
  agree. The keys, the nonces, the clock readings (numbered in the order in which they are taken)
  and the shuffle are arguments; printing is left out.
\<close>

section \<open>The program\<close>

definition FORMATION_KEY :: bytes where [const_defs]:
  "FORMATION_KEY = ''demo-formation-key-not-a-secret-in-repo''"

definition DOC_ID :: string where [const_defs]: "DOC_ID = ''demo-formation-001/platforms''"

text \<open>The enrollment loop: names and private keys, two clock readings for each.\<close>

fun demo_joins :: "('k, 's) crypto \<Rightarrow> (nat \<Rightarrow> datetime) \<Rightarrow> nat \<Rightarrow> (string \<times> 's) list \<Rightarrow> 's harness \<Rightarrow> exn + 's harness" where
  "demo_joins C clock i [] h = Inr h"
| "demo_joins C clock i ((name, priv) # js) h =
     (case add_node C name [] priv (clock (2 * i)) (clock (2 * i + 1)) h of
        (Inl e, _) \<Rightarrow> Inl e
      | (Inr _, h') \<Rightarrow> demo_joins C clock (Suc i) js h')"

definition demo_plan :: "(nat \<times> string \<times> string \<times> string) list" where
  "demo_plan =
     [(0, ''platform.alpha.status'', ''ONLINE'', ''PLATFORM_STATUS''),
      (1, ''platform.bravo.status'', ''ONLINE'', ''PLATFORM_STATUS''),
      (2, ''deployment.pkg-7'', ''v1.4.2'', ''DEPLOYMENT''),
      (0, ''command.move-north'', ''ISSUED'', ''COMMAND''),
      (1, ''platform.alpha.status'', ''DEGRADED'', ''PLATFORM_STATUS'')]"

fun demo_writes ::
  "('k, 's) crypto \<Rightarrow> (nat \<Rightarrow> bytes) \<Rightarrow> (nat \<Rightarrow> datetime) \<Rightarrow> nat \<Rightarrow> (nat \<times> string \<times> string \<times> string) list \<Rightarrow> 's harness
    \<Rightarrow> exn + broadcast list \<times> 's harness" where
  "demo_writes C nonce clock i [] h = Inr ([], h)"
| "demo_writes C nonce clock i ((j, key, val, cls) # ws) h =
     (case hs_write C j key (JStr val) cls (nonce i) (clock (2 * i)) (clock (2 * i + 1)) h of
        (Inl e, _) \<Rightarrow> Inl e
      | (Inr b, h') \<Rightarrow>
          bindE (demo_writes C nonce clock (Suc i) ws h') (\<lambda>(bs, h''). Inr (b # bs, h'')))"

fun ledger_reports :: "('k, 's) crypto \<Rightarrow> 's node list \<Rightarrow> exn + (nat \<times> nat) list" where
  "ledger_reports C [] = Inr []"
| "ledger_reports C (nd # nds) =
     bindE (verify_ledger C nd) (\<lambda>r. bindE (ledger_reports C nds) (\<lambda>rs. Inr (r # rs)))"

text \<open>
  \<open>main\<close>: what it prints about, and its exit code. \<open>shuffle\<close> is the order in which the generator
  puts the deliveries, with the clock reading of each. Unpacking anything but three nodes raises.
\<close>

record ('s) demo_report =
  dr_turned_away :: enroll_result
  dr_records :: "broadcast list"
  dr_mesh :: "'s harness"
  dr_verified :: bool
  dr_ledgers :: "(nat \<times> nat) list"

definition demo_run ::
  "('k, 's) crypto \<Rightarrow> (json \<Rightarrow> bool) \<Rightarrow> (nat \<Rightarrow> 's) \<Rightarrow> (nat \<Rightarrow> bytes) \<Rightarrow> (nat \<Rightarrow> datetime)
    \<Rightarrow> ((nat \<times> broadcast) list \<Rightarrow> ((nat \<times> broadcast) \<times> datetime) list) \<Rightarrow> exn + 's demo_report" where
  "demo_run C copyable keys nonce clock shuffle =
     bindE (demo_joins C clock 0 [(''alpha'', keys 0), (''bravo'', keys 1), (''charlie'', keys 2)]
              (new_harness ''demo-formation-001'' DOC_ID FORMATION_KEY)) (\<lambda>h1.
     case add_node C ''delta-889'' ''Huawei'' (keys 3) (clock 6) (clock 7) h1 of
       (Inl e, _) \<Rightarrow> Inl e
     | (Inr bad_res, h2) \<Rightarrow>
         if length (hs_nodes h2) \<noteq> 3 then Inl ValueError
         else
           bindE (demo_writes C nonce clock 4 demo_plan h2) (\<lambda>(records, h3).
           case gossip C copyable (shuffle (deliveries h3)) h3 of
             (Inl e, _) \<Rightarrow> Inl e
           | (Inr _, h4) \<Rightarrow>
               bindE (verify_receipt_signature C (bc_receipt (hd records))) (\<lambda>verified.
               bindE (ledger_reports C (hs_nodes h4)) (\<lambda>reports.
               Inr \<lparr>dr_turned_away = bad_res, dr_records = records, dr_mesh = h4, dr_verified = verified,
                    dr_ledgers = reports\<rparr>))))"

definition demo_main ::
  "('k, 's) crypto \<Rightarrow> (json \<Rightarrow> bool) \<Rightarrow> (nat \<Rightarrow> 's) \<Rightarrow> (nat \<Rightarrow> bytes) \<Rightarrow> (nat \<Rightarrow> datetime)
    \<Rightarrow> ((nat \<times> broadcast) list \<Rightarrow> ((nat \<times> broadcast) \<times> datetime) list) \<Rightarrow> exn + int" where
  "demo_main C copyable keys nonce clock shuffle =
     bindE (demo_run C copyable keys nonce clock shuffle) (\<lambda>r.
     Inr (if converged C AUTHORIZED (dr_mesh r) \<and> converged C OBSERVED (dr_mesh r) \<and> dr_verified r \<and>
             \<not> en_success (dr_turned_away r)
          then 0 else 1))"

section \<open>Joining\<close>

text \<open>A vendor of Section 889 is turned away, and nothing changes.\<close>

lemma huawei_covered: "covered_vendor (lower (strip ''Huawei''))"
proof -
  have "strip ''Huawei'' = ''Huawei''" by (rule strip_printable) (simp_all add: printable_def)
  moreover have "lower ''Huawei'' = ''huawei''" by code_simp
  ultimately have l: "lower (strip ''Huawei'') = ''huawei''" by simp
  have "''huawei'' \<in> set SECTION_889_MATCH"
    by code_simp
  then show ?thesis unfolding l covered_vendor_def by (auto intro: str_in_refl)
qed

lemma add_node_turned_away:
  assumes C: "crypto_ok C" and g: "gw_key (hs_gateway h) = hs_key h" and vendor: "covered_vendor (lower (strip vendor))"
  shows "\<exists>r. \<not> en_success r \<and> add_node C name vendor priv now now' h = (Inr r, h)"
proof -
  let ?n = "new_node C name (hs_doc_id h) priv"
  let ?g = "hs_gateway h"
  define req where "req = build_enrollment_request C (hs_key h) (nd_node_id ?n) (public_key_der C ?n) (utc_now_iso now)
    DOCTRINE_VERSION KERNEL_COMMIT SLSA_LEVEL vendor ''self_report''"
  have "request_vendor req = lower (strip vendor)" by (simp add: req_def request_vendor_def build_enrollment_request_def)
  then have "screen_request ?g req now' (request_node req) \<noteq> None"
    unfolding screen_None_iff using vendor by simp
  then obtain reason where s: "screen_request ?g req now' (request_node req) = Some reason" by blast
  have "compare_digest (compute_formation_key_proof C (gw_key ?g) (request_node req) (default_to [] (er_timestamp req))
          (default_to [] (er_doctrine req)) (default_to [] (er_kernel req))) (default_to [] (er_proof req)) = Inr True"
    using crypto_okD(7) [OF C]
    by (simp add: req_def g request_node_def build_enrollment_request_def compute_formation_key_proof_def compare_digest_def)
  with s have "gw_enroll C req now' ?g = (reject (request_node req) reason, ?g)"
    by (simp add: gw_enroll_def Let_def)
  then show ?thesis
    by (simp add: add_node_def node_enroll_def Let_def reject_def flip: req_def)
qed

lemma joins_all:
  assumes C: "crypto_ok C" and T: "brisk (range clock)"
    and "joined_only C (range clock) h" "distinct (map nd_node_id (hs_nodes h) @ map (\<lambda>(m, p). node_id_from_pubkey C (public_key C p)) js)"
  shows "\<exists>h'. demo_joins C clock i js h = Inr h' \<and> joined_only C (range clock) h' \<and> hs_doc_id h' = hs_doc_id h \<and>
    map nd_node_id (hs_nodes h') = map nd_node_id (hs_nodes h) @ map (\<lambda>(m, p). node_id_from_pubkey C (public_key C p)) js"
  using assms(3,4)
proof (induction js arbitrary: i h)
  case (Cons js1 js)
  obtain m p where js1: "js1 = (m, p)" by (cases js1)
  let ?n = "node_id_from_pubkey C (public_key C p)"
  have "?n \<notin> nd_node_id ` set (hs_nodes h)" using Cons.prems(2) js1 by auto
  from joins_one [OF C Cons.prems(1) T rangeI rangeI refl this, where name = m] obtain r h' where
    a: "add_node C m [] p (clock (2 * i)) (clock (2 * i + 1)) h = (Inr r, h')" "joined_only C (range clock) h'" "hs_doc_id h' = hs_doc_id h"
      "map nd_node_id (hs_nodes h') = map nd_node_id (hs_nodes h) @ [?n]" by blast
  have "distinct (map nd_node_id (hs_nodes h') @ map (\<lambda>(m, p). node_id_from_pubkey C (public_key C p)) js)"
    using Cons.prems(2) by (simp add: a(4) js1)
  from Cons.IH [OF a(2) this, of "Suc i"] a js1 show ?case by auto
qed simp

section \<open>Writing\<close>

text \<open>What the nodes write is determined by who they are and how far their clocks are.\<close>

fun planned_ops :: "string \<Rightarrow> (nat \<times> string \<times> string \<times> string) list \<Rightarrow> (string \<times> int) list \<Rightarrow> op list" where
  "planned_ops doc [] cs = []"
| "planned_ops doc ((j, key, val, cls) # ws) cs =
     (let (n, l) = cs ! j in
      \<lparr>op_doc_id = doc, op_key = key, op_value = JStr val, op_lamport = l + 1, op_node_id = n,
       op_deletion = False, op_track = OBSERVED\<rparr> # planned_ops doc ws (cs[j := (n, l + 1)]))"

lemma writes_all:
  assumes C: "crypto_ok C" "3 \<le> json_depth C" and T: "brisk (range clock)" and str: "\<forall>s. copies C (JStr s)"
    and "honest_mesh C (range clock) h" "utf8_valid (hs_doc_id h)"
    and "\<forall>(j, key, val, cls) \<in> set ws. j < length (hs_nodes h) \<and> cls \<in> set TRANSITION_CLASSES"
  shows "\<exists>bs h'. demo_writes C nonce clock i ws h = Inr (bs, h') \<and> honest_mesh C (range clock) h' \<and>
    hs_doc_id h' = hs_doc_id h \<and> hs_gateway h' = hs_gateway h \<and> length (hs_nodes h') = length (hs_nodes h) \<and>
    map (bc_op \<circ> snd) (hs_log h') = map (bc_op \<circ> snd) (hs_log h) @ planned_ops (hs_doc_id h) ws (clocks h) \<and>
    length bs = length ws \<and>
    map bc_op bs = planned_ops (hs_doc_id h) ws (clocks h) \<and>
    (\<forall>b \<in> set bs. bc_track b = AUTHORIZED \<and> verify_receipt_signature C (bc_receipt b) = Inr True)"
  using assms(5-7)
proof (induction ws arbitrary: i h)
  case (Cons w ws)
  obtain j key val cls where w: "w = (j, key, val, cls)" by (cases w) auto
  from Cons.prems(3) w have j: "j < length (hs_nodes h)" and cls: "cls \<in> set TRANSITION_CLASSES" by simp_all
  let ?nd = "hs_nodes h ! j"
  from honest_write_step [OF C Cons.prems(1,2) j cls T rangeI rangeI str [rule_format], of key val "nonce i" "2 * i" "2 * i + 1"]
  obtain b h1 where s: "hs_write C j key (JStr val) cls (nonce i) (clock (2 * i)) (clock (2 * i + 1)) h = (Inr b, h1)"
    "honest_mesh C (range clock) h1" "hs_doc_id h1 = hs_doc_id h" "hs_gateway h1 = hs_gateway h"
    "hs_log h1 = hs_log h @ [(nd_node_id ?nd, b)]" "bc_op b = own_op key (JStr val) False ?nd"
    "clocks h1 = (clocks h)[j := (nd_node_id ?nd, nd_lamport ?nd + 1)]" "nd_doc_id ?nd = hs_doc_id h"
    "bc_track b = AUTHORIZED" "verify_receipt_signature C (bc_receipt b) = Inr True"
    by blast
  have len: "length (hs_nodes h1) = length (hs_nodes h)"
    using arg_cong [OF s(7), of length] by (simp add: clocks_def)
  have c: "clocks h ! j = (nd_node_id ?nd, nd_lamport ?nd)" using j by (simp add: clocks_def)
  have "utf8_valid (hs_doc_id h1)" "\<forall>(j, key, val, cls) \<in> set ws. j < length (hs_nodes h1) \<and> cls \<in> set TRANSITION_CLASSES"
    using Cons.prems by (simp_all add: s(3) len)
  from Cons.IH [OF s(2) this, of "Suc i"] obtain bs h2 where "demo_writes C nonce clock (Suc i) ws h1 = Inr (bs, h2)"
    "honest_mesh C (range clock) h2" "hs_doc_id h2 = hs_doc_id h1" "hs_gateway h2 = hs_gateway h1" "length (hs_nodes h2) = length (hs_nodes h1)"
    "map (bc_op \<circ> snd) (hs_log h2) = map (bc_op \<circ> snd) (hs_log h1) @ planned_ops (hs_doc_id h1) ws (clocks h1)"
    "length bs = length ws" "map bc_op bs = planned_ops (hs_doc_id h1) ws (clocks h1)"
    "\<forall>b \<in> set bs. bc_track b = AUTHORIZED \<and> verify_receipt_signature C (bc_receipt b) = Inr True"
    by blast
  then show ?case
    using s by (intro exI [of _ "b # bs"] exI [of _ h2])
      (simp add: w len c own_op_def comp_def)
qed simp

section \<open>Property\<close>

lemma count_valid_all: "\<forall>r \<in> set rs. verify_receipt_signature C r = Inr True \<Longrightarrow> count_valid C rs = Inr (length rs)"
  by (induction rs) simp_all

text \<open>A complete ledger re-verifies in full, and has as many receipts as the node has operations.\<close>

lemma verify_complete:
  assumes "ledger_complete C nd"
  shows "verify_ledger C nd = Inr (card (known nd), card (known nd))"
proof -
  have "distinct (map fst (nd_ledger nd))" using assms by (simp add: ledger_complete_def)
  from distinct_card [OF this] have "length (nd_ledger nd) = card (fst ` set (nd_ledger nd))" by simp
  with assms count_valid_all [of "map snd (nd_ledger nd)" C] show ?thesis
    by (simp add: verify_ledger_def ledger_complete_def)
qed

lemma ledger_reports_complete:
  "\<forall>nd \<in> set nds. ledger_complete C nd \<and> card (known nd) = n \<Longrightarrow>
   ledger_reports C nds = Inr (replicate (length nds) (n, n))"
  by (induction nds) (simp_all add: verify_complete)

text \<open>Distinct operations that the hash tells apart keep their identifiers apart.\<close>

lemma planned_wf:
  "utf8_valid doc \<Longrightarrow> \<forall>(j, key, val, cls) \<in> set ws. utf8_valid key \<and> utf8_valid val \<and> j < length cs \<Longrightarrow>
   \<forall>(n, l) \<in> set cs. utf8_valid n \<Longrightarrow>
   \<forall>x \<in> set (planned_ops doc ws cs). op_wf x \<and> jsort (op_value x) = op_value x \<and> op_track x = OBSERVED"
proof (induction doc ws cs rule: planned_ops.induct)
  case (2 doc j key val cls ws cs)
  obtain n l where c: "cs ! j = (n, l)" by fastforce
  with 2(3,4) have n: "utf8_valid n" by (metis (no_types, lifting) case_prodD list.set_intros(1) nth_mem)
  have "\<forall>(n, l) \<in> set (cs[j := (n, l + 1)]). utf8_valid n"
    using 2(4) n by (auto dest!: set_update_subset_insert [THEN subsetD])
  then have "\<forall>x \<in> set (planned_ops doc ws (cs[j := (n, l + 1)])). op_wf x \<and> jsort (op_value x) = op_value x \<and> op_track x = OBSERVED"
    using 2(1) [OF c [symmetric] refl] 2(2,3) by simp
  then show ?case using 2(2,3) n by (simp add: c op_wf_def)
qed simp

lemma no_collision:
  assumes "inj_on (sha256_hex C) (raw_bytes ` X)" "(\<lambda>(o', b). bc_op b) ` set log = X"
    and "\<forall>x \<in> X. op_wf x \<and> jsort (op_value x) = op_value x \<and> op_track x = OBSERVED"
  shows "functional (broadcast_pairs C log)"
proof -
  have same: "as_observed x = as_observed y" if "x \<in> X" "y \<in> X" "op_id C x = op_id C y" for x y
  proof -
    have "raw_bytes x = raw_bytes y"
      by (rule inj_onD [OF assms(1)]) (use that in \<open>simp_all add: op_id_raw\<close>)
    moreover have "op_wf x" "op_wf y" "jsort (op_value x) = op_value x" "jsort (op_value y) = op_value y"
      "op_track x = OBSERVED" "op_track y = OBSERVED" using assms(3) that by simp_all
    ultimately show ?thesis using raw_bytes_eq [of x y] by simp
  qed
  have pairs: "broadcast_pairs C log = (\<lambda>x. (op_id C x, as_observed x)) ` X"
    unfolding broadcast_pairs_def assms(2) [symmetric] image_image by (simp add: case_prod_unfold)
  have "u = v" if "(i, u) \<in> broadcast_pairs C log" "(i, v) \<in> broadcast_pairs C log" for i u v
    using that [unfolded pairs] by (elim imageE) (simp only: prod.inject, blast dest: same)
  then show ?thesis unfolding functional_def by blast
qed

text \<open>The five operations of the demo, given the identifiers of its three nodes.\<close>

definition demo_ops :: "('k, 's) crypto \<Rightarrow> (nat \<Rightarrow> 's) \<Rightarrow> op list" where
  "demo_ops C keys =
     planned_ops DOC_ID demo_plan (map (\<lambda>i. (node_id_from_pubkey C (public_key C (keys i)), 0)) [0, 1, 2])"

text \<open>The run up to the gossip: three nodes, five verified writes, no two operations with one identifier.\<close>

lemma demo_enrolls:
  assumes "crypto_ok C" "distinct (map (\<lambda>i. node_id_from_pubkey C (public_key C (keys i))) [0, 1, 2])" "brisk (range clock)"
  obtains h r where
    "demo_joins C clock 0 [(''alpha'', keys 0), (''bravo'', keys 1), (''charlie'', keys 2)]
       (new_harness ''demo-formation-001'' DOC_ID FORMATION_KEY) = Inr h"
    "joined_only C (range clock) h" "hs_doc_id h = DOC_ID" "length (hs_nodes h) = 3"
    "clocks h = map (\<lambda>i. (node_id_from_pubkey C (public_key C (keys i)), 0)) [0, 1, 2]"
    "\<not> en_success r" "add_node C ''delta-889'' ''Huawei'' (keys 3) (clock 6) (clock 7) h = (Inr r, h)"
proof -
  let ?id = "\<lambda>i. node_id_from_pubkey C (public_key C (keys i))"
  let ?h0 = "new_harness ''demo-formation-001'' DOC_ID FORMATION_KEY"
  let ?js = "[(''alpha'', keys 0), (''bravo'', keys 1), (''charlie'', keys 2)]"
  have "distinct (map nd_node_id (hs_nodes ?h0) @ map (\<lambda>(m, p). node_id_from_pubkey C (public_key C p)) ?js)"
    using assms(2) by (simp add: new_harness_def)
  from joins_all [OF assms(1,3) new_joined this, of 0] obtain h where h: "demo_joins C clock 0 ?js ?h0 = Inr h"
    "joined_only C (range clock) h" "hs_doc_id h = DOC_ID" "map nd_node_id (hs_nodes h) = map ?id [0, 1, 2]"
    by (auto simp: new_harness_def)
  have "gw_key (hs_gateway h) = hs_key h" "\<forall>nd \<in> set (hs_nodes h). nd_lamport nd = 0" using h(2) by (simp_all add: joined_only_def)
  from add_node_turned_away [OF assms(1) this(1) huawei_covered] this(2) obtain r where
    bad: "\<not> en_success r" "add_node C ''delta-889'' ''Huawei'' (keys 3) (clock 6) (clock 7) h = (Inr r, h)" by blast
  have "clocks h = map (\<lambda>n. (n, 0)) (map nd_node_id (hs_nodes h))"
    using \<open>\<forall>nd \<in> set (hs_nodes h). nd_lamport nd = 0\<close> by (simp add: clocks_def)
  then have "clocks h = map (\<lambda>i. (?id i, 0)) [0, 1, 2]" by (simp add: h(4))
  moreover have "length (hs_nodes h) = 3" using arg_cong [OF h(4), of length] by simp
  ultimately show thesis using h(1-3) bad by (intro that)
qed

text \<open>They are five, and the digest keeps their identifiers apart.\<close>

lemma demo_ops_wf:
  assumes "crypto_ok C"
  shows "\<forall>x \<in> set (demo_ops C keys). op_wf x \<and> jsort (op_value x) = op_value x \<and> op_track x = OBSERVED"
proof -
  have "is_ascii (node_id_from_pubkey C (public_key C (keys i)))" for i
    using crypto_okD(6) [OF assms] by (simp add: node_id_from_pubkey_def)
  moreover have "utf8_valid DOC_ID" by (simp add: DOC_ID_def ascii_utf8_valid)
  ultimately show ?thesis
    unfolding demo_ops_def by (intro planned_wf) (simp_all add: demo_plan_def ascii_utf8_valid)
qed

lemma demo_ops_list:
  "demo_ops C keys =
     (let n = \<lambda>i. node_id_from_pubkey C (public_key C (keys i));
          x = \<lambda>key val l i. \<lparr>op_doc_id = DOC_ID, op_key = key, op_value = JStr val, op_lamport = l, op_node_id = n i,
                op_deletion = False, op_track = OBSERVED\<rparr> in
      [x ''platform.alpha.status'' ''ONLINE'' 1 0, x ''platform.bravo.status'' ''ONLINE'' 1 1,
       x ''deployment.pkg-7'' ''v1.4.2'' 1 2, x ''command.move-north'' ''ISSUED'' 2 0,
       x ''platform.alpha.status'' ''DEGRADED'' 2 1])"
  by (simp add: demo_ops_def demo_plan_def Let_def numeral_2_eq_2)

lemma demo_ids:
  assumes "crypto_ok C" "inj_on (sha256_hex C) (raw_bytes ` set (demo_ops C keys))"
  shows "card (op_id C ` set (demo_ops C keys)) = 5"
proof -
  have "inj_on raw_bytes (set (demo_ops C keys))"
  proof (rule inj_onI)
    fix x y assume m: "x \<in> set (demo_ops C keys)" "y \<in> set (demo_ops C keys)" "raw_bytes x = raw_bytes y"
    from m(1,2) demo_ops_wf [OF assms(1), of keys] have wf: "op_wf x" "op_wf y" "jsort (op_value x) = op_value x"
      "jsort (op_value y) = op_value y" "op_track x = OBSERVED" "op_track y = OBSERVED" by simp_all
    from m(3) [unfolded raw_bytes_eq [OF wf(1,2)]] wf(3-6) show "x = y" by (intro op.equality) simp_all
  qed
  with assms(2) have "inj_on (sha256_hex C \<circ> raw_bytes) (set (demo_ops C keys))" by (intro comp_inj_on)
  then have "inj_on (op_id C) (set (demo_ops C keys))" by (simp add: inj_on_def op_id_raw)
  then have "card (op_id C ` set (demo_ops C keys)) = card (set (demo_ops C keys))" by (rule card_image)
  also have "\<dots> = 5" by (simp add: demo_ops_list Let_def)
  finally show ?thesis .
qed

text \<open>The authorised view of a node that holds exactly these five operations as authorised.\<close>

definition demo_view :: "(string, json) dict" where
  "demo_view =
     [(''command.move-north'', JStr ''ISSUED''), (''deployment.pkg-7'', JStr ''v1.4.2''),
      (''platform.alpha.status'', JStr ''DEGRADED''), (''platform.bravo.status'', JStr ''ONLINE'')]"

lemma demo_view_sorted: "sorted (map fst demo_view)" "dict_ok demo_view"
  by (simp_all add: demo_view_def less_char_def)

lemma demo_state:
  assumes ok: "node_ok C nd" and known: "known nd = op_id C ` set (demo_ops C keys)"
    and auth: "\<forall>x \<in> set (demo_ops C keys). log_of (nd_doc nd) (op_id C x) = Some (x\<lparr>op_track := AUTHORIZED\<rparr>)"
  shows "authorized_state C nd = demo_view"
proof -
  have ran: "ran (log_of (nd_doc nd)) = (\<lambda>x. x\<lparr>op_track := AUTHORIZED\<rparr>) ` set (demo_ops C keys)"
  proof
    show "ran (log_of (nd_doc nd)) \<subseteq> (\<lambda>x. x\<lparr>op_track := AUTHORIZED\<rparr>) ` set (demo_ops C keys)"
    proof
      fix y assume "y \<in> ran (log_of (nd_doc nd))"
      then obtain i where i: "log_of (nd_doc nd) i = Some y" by (auto simp: ran_def)
      then have "i \<in> known nd" by (auto simp: known_def)
      with known auth i show "y \<in> (\<lambda>x. x\<lparr>op_track := AUTHORIZED\<rparr>) ` set (demo_ops C keys)" by auto
    qed
  qed (use auth in \<open>auto intro: ranI\<close>)
  have win: "map_of (winners C (\<lambda>t. t \<in> set [AUTHORIZED]) (nd_doc nd)) k = Some x \<longleftrightarrow>
      x \<in> ran (log_of (nd_doc nd)) \<and> op_key x = k \<and>
      (\<forall>y \<in> ran (log_of (nd_doc nd)). op_key y = k \<longrightarrow> order_key C y \<le> order_key C x)" for k x
    unfolding winners_iff [OF node_okD(1) [OF ok]] ran by auto
  let ?x = "\<lambda>key val l i. \<lparr>op_doc_id = DOC_ID, op_key = key, op_value = JStr val, op_lamport = l,
      op_node_id = node_id_from_pubkey C (public_key C (keys i)), op_deletion = False, op_track = AUTHORIZED\<rparr>"
  have ops: "ran (log_of (nd_doc nd)) = {?x ''platform.alpha.status'' ''ONLINE'' 1 0, ?x ''platform.bravo.status'' ''ONLINE'' 1 1,
      ?x ''deployment.pkg-7'' ''v1.4.2'' 1 2, ?x ''command.move-north'' ''ISSUED'' 2 0,
      ?x ''platform.alpha.status'' ''DEGRADED'' 2 1}"
    unfolding ran demo_ops_list Let_def by simp
  have keys: "op_key ` ran (log_of (nd_doc nd)) = fst ` set demo_view"
    unfolding ops demo_view_def by (simp add: insert_commute)
  have later: "(1 :: int, a :: string \<times> string) \<le> (2, b)" for a b
    by (simp add: less_eq_prod_def)
  have won: "map_of (materialise C [AUTHORIZED] (nd_doc nd)) k = Some (op_value x)"
    if "map_of (winners C (\<lambda>t. t \<in> set [AUTHORIZED]) (nd_doc nd)) k = Some x" "\<not> op_deletion x" for k x
    using that by (simp add: materialise_lookup)
  have "map_of (materialise C [AUTHORIZED] (nd_doc nd)) k = map_of demo_view k" for k
  proof -
    consider (move) "k = ''command.move-north''" | (pkg) "k = ''deployment.pkg-7''" | (alpha) "k = ''platform.alpha.status''"
      | (bravo) "k = ''platform.bravo.status''" | (other) "k \<notin> fst ` set demo_view" by (auto simp: demo_view_def)
    then show ?thesis
    proof cases
      case move
      have "map_of (winners C (\<lambda>t. t \<in> set [AUTHORIZED]) (nd_doc nd)) k = Some (?x ''command.move-north'' ''ISSUED'' 2 0)"
        unfolding win ops move by simp
      from won [OF this] show ?thesis by (simp add: move demo_view_def)
    next
      case pkg
      have "map_of (winners C (\<lambda>t. t \<in> set [AUTHORIZED]) (nd_doc nd)) k = Some (?x ''deployment.pkg-7'' ''v1.4.2'' 1 2)"
        unfolding win ops pkg by simp
      from won [OF this] show ?thesis by (simp add: pkg demo_view_def)
    next
      case alpha
      have "map_of (winners C (\<lambda>t. t \<in> set [AUTHORIZED]) (nd_doc nd)) k = Some (?x ''platform.alpha.status'' ''DEGRADED'' 2 1)"
        unfolding win ops alpha by (simp add: order_key_def later)
      from won [OF this] show ?thesis by (simp add: alpha demo_view_def)
    next
      case bravo
      have "map_of (winners C (\<lambda>t. t \<in> set [AUTHORIZED]) (nd_doc nd)) k = Some (?x ''platform.bravo.status'' ''ONLINE'' 1 1)"
        unfolding win ops bravo by simp
      from won [OF this] show ?thesis by (simp add: bravo demo_view_def)
    next
      case other
      then have "map_of demo_view k = None" by (simp add: map_of_eq_None_iff)
      moreover have "map_of (winners C (\<lambda>t. t \<in> set [AUTHORIZED]) (nd_doc nd)) k \<noteq> Some x" for x
        using other unfolding win keys [symmetric] by blast
      ultimately show ?thesis
        by (intro option_eqI) (simp add: materialise_lookup)
    qed
  qed
  then have "map_of (materialise C [AUTHORIZED] (nd_doc nd)) = map_of demo_view" by (intro ext)
  then show ?thesis
    unfolding authorized_state_def authorized_view_def
    by (intro sorted_dict_eqI materialise_keys demo_view_sorted)
qed

lemma demo_records:
  assumes C: "crypto_ok C" "3 \<le> json_depth C" "brisk (range clock)" "\<forall>s. copies C (JStr s)" "inj_on (sha256_hex C) (raw_bytes ` set (demo_ops C keys))"
    and h: "joined_only C (range clock) h" "hs_doc_id h = DOC_ID" "length (hs_nodes h) = 3"
      "clocks h = map (\<lambda>i. (node_id_from_pubkey C (public_key C (keys i)), 0)) [0, 1, 2]"
  obtains bs h' where "demo_writes C nonce clock 4 demo_plan h = Inr (bs, h')" "honest_mesh C (range clock) h'"
    "length (hs_nodes h') = 3" "map bc_op bs = demo_ops C keys" "\<forall>b \<in> set bs. bc_track b = AUTHORIZED"
    "bc_op ` snd ` set (hs_log h') = set (demo_ops C keys)" "functional (broadcast_pairs C (hs_log h'))" "verify_receipt_signature C (bc_receipt (hd bs)) = Inr True"
proof -
  let ?id = "\<lambda>i. node_id_from_pubkey C (public_key C (keys i))"
  have honest: "honest_mesh C (range clock) h" "hs_log h = []" using h(1) by (simp_all add: joined_only_def)
  have doc: "utf8_valid DOC_ID" by (simp add: DOC_ID_def ascii_utf8_valid)
  then have "utf8_valid (hs_doc_id h)" by (simp add: h(2))
  moreover have "\<forall>(j, key, val, cls) \<in> set demo_plan. j < length (hs_nodes h) \<and> cls \<in> set TRANSITION_CLASSES"
    by (simp add: h(3) demo_plan_def TRANSITION_CLASSES_def)
  ultimately obtain bs h' where w: "demo_writes C nonce clock 4 demo_plan h = Inr (bs, h')" "honest_mesh C (range clock) h'"
    "length (hs_nodes h') = 3" "map (bc_op \<circ> snd) (hs_log h') = demo_ops C keys" "length bs = 5"
    "map bc_op bs = demo_ops C keys"
    "\<forall>b \<in> set bs. bc_track b = AUTHORIZED \<and> verify_receipt_signature C (bc_receipt b) = Inr True"
    using writes_all [OF C(1-4) honest(1), of demo_plan nonce 4]
    by (auto simp: h(2-4) honest(2) demo_ops_def) (simp add: demo_plan_def)
  have ops: "bc_op ` snd ` set (hs_log h') = set (demo_ops C keys)"
    unfolding w(4) [symmetric] by (simp add: image_image comp_def)
  then have "(\<lambda>(o', b). bc_op b) ` set (hs_log h') = set (demo_ops C keys)"
    by (simp add: image_image case_prod_unfold)
  then have "functional (broadcast_pairs C (hs_log h'))" using no_collision [OF C(5)] demo_ops_wf [OF C(1)] by blast
  moreover have "hd bs \<in> set bs" using w(5) by (intro hd_in_set) auto
  ultimately show thesis using w ops by (intro that [OF w(1,2,3,6)]) simp_all
qed

text \<open>
  C10: The demo does what it shows. Whatever keys its nodes draw (three different identities), whatever nonces,
  delivery order and clock readings (within four seconds of each other), the program raises nothing and its exit
  code is 0. The node with a Section 889 vendor is turned away; the three others make the five planned
  operations, and each is authorised by its writer; after one round of gossip every node holds exactly
  these five, authorised, and shows the same four keys with the later status of the first platform; each
  ledger re-verifies five receipts of five; and the nodes agree on both tracks. (The primitives behave as
  documented, shallow values can be copied, and the digest tells the five operations apart.)
\<close>

theorem demo_returns_zero:
  assumes "crypto_ok C" "3 \<le> json_depth C"
    and "distinct (map (\<lambda>i. node_id_from_pubkey C (public_key C (keys i))) [0, 1, 2])"
    and "brisk (range clock)" "\<forall>ds. mset (map fst (shuffle ds)) = mset ds \<and> snd ` set (shuffle ds) \<subseteq> range clock"
    and "\<forall>v. jdepth v \<le> 3 \<longrightarrow> copyable v \<and> copies C v" "inj_on (sha256_hex C) (raw_bytes ` set (demo_ops C keys))"
  shows "\<exists>r. demo_run C copyable keys nonce clock shuffle = Inr r \<and>
    demo_main C copyable keys nonce clock shuffle = Inr 0 \<and> \<not> en_success (dr_turned_away r) \<and>
    map bc_op (dr_records r) = demo_ops C keys \<and> (\<forall>b \<in> set (dr_records r). bc_track b = AUTHORIZED) \<and>
    length (hs_nodes (dr_mesh r)) = 3 \<and>
    (\<forall>nd \<in> set (hs_nodes (dr_mesh r)).
      dom (log_of (nd_doc nd)) = op_id C ` set (demo_ops C keys) \<and>
      (\<forall>x \<in> set (demo_ops C keys). log_of (nd_doc nd) (op_id C x) = Some (x\<lparr>op_track := AUTHORIZED\<rparr>)) \<and>
      authorized_state C nd = demo_view) \<and>
    dr_ledgers r = [(5, 5), (5, 5), (5, 5)] \<and>
    converged C AUTHORIZED (dr_mesh r) \<and> converged C OBSERVED (dr_mesh r)"
proof -
  have str: "\<forall>s. copies C (JStr s)" and cp: "\<forall>v. jdepth v \<le> 3 \<longrightarrow> copyable v" using assms(6) by simp_all
  from demo_enrolls [OF assms(1,3,4)] obtain h1 e where
    h1: "demo_joins C clock 0 [(''alpha'', keys 0), (''bravo'', keys 1), (''charlie'', keys 2)]
      (new_harness ''demo-formation-001'' DOC_ID FORMATION_KEY) = Inr h1"
    "joined_only C (range clock) h1" "hs_doc_id h1 = DOC_ID" "length (hs_nodes h1) = 3"
    "clocks h1 = map (\<lambda>i. (node_id_from_pubkey C (public_key C (keys i)), 0)) [0, 1, 2]" and
    bad: "\<not> en_success e" "add_node C ''delta-889'' ''Huawei'' (keys 3) (clock 6) (clock 7) h1 = (Inr e, h1)" .
  from demo_records [OF assms(1,2,4) str assms(7) h1(2-5)] obtain bs h3 where
    h3: "demo_writes C nonce clock 4 demo_plan h1 = Inr (bs, h3)" "honest_mesh C (range clock) h3" "length (hs_nodes h3) = 3"
      "map bc_op bs = demo_ops C keys" "\<forall>b \<in> set bs. bc_track b = AUTHORIZED"
      "bc_op ` snd ` set (hs_log h3) = set (demo_ops C keys)"
      "functional (broadcast_pairs C (hs_log h3))" "verify_receipt_signature C (bc_receipt (hd bs)) = Inr True" .
  let ?order = "shuffle (deliveries h3)"
  have "shuffled h3 ?order" "snd ` set ?order \<subseteq> range clock" "hs_nodes h3 \<noteq> []"
    using assms(5) h3(3) by (auto simp: shuffled_def)
  from gossip_honest [OF h3(2) this(1,2) cp h3(7) this(3)] obtain h4 where
    h4: "gossip C copyable ?order h3 = (Inr (), h4)" "honest_mesh C (range clock) h4" "converged C AUTHORIZED h4"
      "converged C OBSERVED h4" "length (hs_nodes h4) = length (hs_nodes h3)"
      "\<forall>nd \<in> set (hs_nodes h4). known nd = op_id C ` bc_op ` snd ` set (hs_log h3) \<and>
        (\<forall>(o', b) \<in> set (hs_log h3).
          log_of (nd_doc nd) (op_id C (bc_op b)) = Some ((bc_op b)\<lparr>op_track := AUTHORIZED\<rparr>))"
    by blast
  have len: "length (hs_nodes h4) = 3" using h4(5) h3(3) by simp
  have known: "known nd = op_id C ` set (demo_ops C keys)" if "nd \<in> set (hs_nodes h4)" for nd
    using h4(6) that by (simp add: h3(6))
  have auth: "\<forall>x \<in> set (demo_ops C keys). log_of (nd_doc nd) (op_id C x) = Some (x\<lparr>op_track := AUTHORIZED\<rparr>)"
    if "nd \<in> set (hs_nodes h4)" for nd
  proof -
    from h4(6) that have "\<forall>(o', b) \<in> set (hs_log h3).
        log_of (nd_doc nd) (op_id C (bc_op b)) = Some ((bc_op b)\<lparr>op_track := AUTHORIZED\<rparr>)" by blast
    then show ?thesis unfolding h3(6) [symmetric] by (simp add: case_prod_unfold)
  qed
  have state: "authorized_state C nd = demo_view" if "nd \<in> set (hs_nodes h4)" for nd
    by (rule demo_state [OF _ known [OF that] auth [OF that]])
      (use h4(2) that in \<open>simp add: honest_mesh_def harness_ok_def node_within_def\<close>)
  have "ledger_reports C (hs_nodes h4) = Inr (replicate 3 (5, 5))"
    using ledger_reports_complete [of "hs_nodes h4" C 5] h4(2) len known demo_ids [OF assms(1,7)]
    by (simp add: honest_mesh_def honest_node_def)
  moreover have "replicate 3 (5 :: nat, 5 :: nat) = [(5, 5), (5, 5), (5, 5)]" by (simp add: numeral_3_eq_3)
  ultimately have "ledger_reports C (hs_nodes h4) = Inr [(5, 5), (5, 5), (5, 5)]" by simp
  then have "demo_run C copyable keys nonce clock shuffle =
      Inr \<lparr>dr_turned_away = e, dr_records = bs, dr_mesh = h4, dr_verified = True, dr_ledgers = [(5, 5), (5, 5), (5, 5)]\<rparr>"
    using h3(8) by (simp add: demo_run_def h1(1,4) bad(2) h3(1) h4(1) del: demo_joins.simps One_nat_def)
  then show ?thesis
    using bad(1) h3(4,5) h4(3,4) len known auth state by (simp add: demo_main_def known_def)
qed

theorem demo_returns_zero_witness:
  "demo_main toy_crypto (\<lambda>_. True) (\<lambda>i. replicate i CHR ''k'') (\<lambda>_. []) (\<lambda>_. sample_time) (map (\<lambda>d. (d, sample_time))) = Inr 0"
proof -
  have "distinct (map (\<lambda>i. node_id_from_pubkey toy_crypto (public_key toy_crypto (replicate i CHR ''k''))) [0, 1, 2])"
    by (simp add: toy_node_id numeral_2_eq_2)
  moreover have "brisk (range (\<lambda>_ :: nat. sample_time))"
    by (simp add: brisk_def sample_time_valid)
  moreover have "inj_on (sha256_hex toy_crypto) (raw_bytes ` set (demo_ops toy_crypto (\<lambda>i. replicate i CHR ''k'')))"
    by (simp add: toy_crypto_def inj_on_def)
  moreover have "\<forall>ds :: (nat \<times> broadcast) list. mset (map fst (map (\<lambda>d. (d, sample_time)) ds)) = mset ds \<and>
      snd ` set (map (\<lambda>d. (d, sample_time)) ds) \<subseteq> range (\<lambda>_ :: nat. sample_time)"
    by (auto simp: comp_def image_image)
  moreover have "3 \<le> json_depth toy_crypto" "\<forall>v. jdepth v \<le> 3 \<longrightarrow> True \<and> copies toy_crypto v" by simp_all
  ultimately obtain r where "demo_main toy_crypto (\<lambda>_. True) (\<lambda>i. replicate i CHR ''k'') (\<lambda>_. []) (\<lambda>_. sample_time)
      (map (\<lambda>d. (d, sample_time))) = Inr 0"
    using demo_returns_zero [OF toy_crypto_ok, of "\<lambda>i. replicate i CHR ''k''" "\<lambda>_. sample_time" "map (\<lambda>d. (d, sample_time))" "\<lambda>_. True" "\<lambda>_. []"]
    by blast
  then show ?thesis .
qed

end
