(* ===== verification/Hello.thy ===== *)
theory Hello
  imports Enrollment
begin

text \<open>
  \<open>examples/hello-mesh/hello_mesh.py\<close> and \<open>enroll.py\<close>: the offline preview of a state change and of an
  enrolment. The scripts carry their own copies of the constants, of PAE and of the proof; here
  they are compared with the mesh's. What the scripts print is a record of the values printed.
\<close>

section \<open>The constants of the scripts\<close>

definition HELLO_DOCTRINE_VERSION :: string where [const_defs]: "HELLO_DOCTRINE_VERSION = ''749/14/163''"
definition HELLO_KERNEL_COMMIT :: string where [const_defs]: "HELLO_KERNEL_COMMIT = ''c7c0ba17''"
definition HELLO_SLSA_LEVEL :: string where [const_defs]: "HELLO_SLSA_LEVEL = ''L1''"

definition HELLO_SECTION_889_VENDORS :: "string list" where [const_defs]:
  "HELLO_SECTION_889_VENDORS = [''Huawei'', ''ZTE'', ''Hytera'', ''Hikvision'', ''Dahua'']"

definition ENROLL_DOCTRINE_VERSION :: string where [const_defs]: "ENROLL_DOCTRINE_VERSION = ''749/14/163''"
definition ENROLL_KERNEL_COMMIT :: string where [const_defs]: "ENROLL_KERNEL_COMMIT = ''c7c0ba17''"
definition ENROLL_SLSA_LEVEL :: string where [const_defs]: "ENROLL_SLSA_LEVEL = ''L1''"

lemma hello_consts:
  "HELLO_DOCTRINE_VERSION = DOCTRINE_VERSION" "HELLO_KERNEL_COMMIT = KERNEL_COMMIT"
  "HELLO_SLSA_LEVEL = SLSA_LEVEL" "HELLO_SECTION_889_VENDORS = SECTION_889_VENDORS"
  "ENROLL_DOCTRINE_VERSION = DOCTRINE_VERSION" "ENROLL_KERNEL_COMMIT = KERNEL_COMMIT"
  "ENROLL_SLSA_LEVEL = SLSA_LEVEL"
  by (simp_all add: const_defs)

section \<open>The preview of a state change\<close>

definition hello_statement ::
  "string \<Rightarrow> string \<Rightarrow> string list \<Rightarrow> string list \<Rightarrow> string \<Rightarrow> string \<Rightarrow> datetime \<Rightarrow> json" where
  "hello_statement doc_id change from_heads to_heads node_id transition_class now = JObj
     [(''type'', JStr ''szl-mesh/state-transition/v1''),
      (''doctrine_version'', JStr HELLO_DOCTRINE_VERSION),
      (''kernel_commit'', JStr HELLO_KERNEL_COMMIT),
      (''crdt_document_id'', JStr doc_id),
      (''change_hash'', JStr change),
      (''from_state_head'', JList (map JStr from_heads)),
      (''to_state_head'', JList (map JStr to_heads)),
      (''transition_class'', JStr transition_class),
      (''node_id'', JStr node_id),
      (''timestamp_utc'', JStr (strftime now)),
      (''policy_context'', JObj
        [(''section_889_vendors'', JList (map JStr HELLO_SECTION_889_VENDORS)),
         (''slsa_level'', JStr HELLO_SLSA_LEVEL)])]"

definition hello_pae :: "string \<Rightarrow> bytes \<Rightarrow> bytes" where
  "hello_pae payload_type payload =
     join '' '' [''DSSEv1'', nat_str (length payload_type), payload_type, nat_str (length payload), payload]"

lemma hello_pae: "hello_pae = pae"
  by (intro ext) (simp add: hello_pae_def pae_def)

text \<open>\<open>json.dumps(stmt, separators=(",", ":"))\<close> keeps the order of the dictionary.\<close>

definition hello_envelope :: "json \<Rightarrow> json" where
  "hello_envelope stmt = JObj
     [(''payloadType'', JStr ''application/vnd.szl.mesh.state-transition+json''),
      (''payload'', JStr (rstrip_eq (urlsafe_b64encode (jdump True stmt)))),
      (''signatures'', JList [])]"

text \<open>\<open>json.dumps\<close> with its default separators, of a dictionary of texts.\<close>

definition dumps_texts :: "(string, string) dict \<Rightarrow> string" where
  "dumps_texts d = ''{'' @ join '', '' (map (\<lambda>(k, v). json_str True k @ '': '' @ json_str True v) d) @ ''}''"

definition hello_event :: "string \<Rightarrow> json" where
  "hello_event change = JObj
     [(''event_type'', JStr ''szl_mesh_state_transition''),
      (''formation_id'', JStr ''hello-formation-001''),
      (''change_hash'', JStr change),
      (''receipt_status'', JStr ''RECEIPT_MISSING''),
      (''corroboration_status'', JStr ''CORROBORATION_STATUS_UNSPECIFIED''),
      (''track'', JStr ''OBSERVED''),
      (''transition_class'', JStr ''PLATFORM_STATUS''),
      (''doctrine_version'', JStr HELLO_DOCTRINE_VERSION),
      (''kernel_commit'', JStr HELLO_KERNEL_COMMIT),
      (''labels'', JObj
        [(''simulated'', JStr ''true''), (''published'', JStr ''false''), (''latency_status'', JStr ''UNAVAILABLE''),
         (''receipt_evaluated'', JStr ''false''), (''corroboration_evaluated'', JStr ''false'')])]"

record hello_output =
  ho_change :: bytes
  ho_statement :: json
  ho_envelope :: json
  ho_event :: json

text \<open>
  \<open>main\<close>: the exit code and what it prints. The clock is read twice: \<open>now_iso\<close> is the text of the
  first reading's \<open>isoformat()\<close>.
\<close>

definition hello_main :: "('k, 's) crypto \<Rightarrow> string \<Rightarrow> datetime \<Rightarrow> int \<times> hello_output" where
  "hello_main C now_iso now =
     (let change_data = dumps_texts [(''platform_id'', ''node-alpha''), (''status'', ''ONLINE''), (''timestamp'', now_iso)];
          change = sha256_hex C change_data;
          stmt = hello_statement ''hello-formation-001/platforms'' change [replicate 64 CHR ''0''] [change]
            ''example-node-not-enrolled'' ''PLATFORM_STATUS'' now in
      (0, \<lparr>ho_change = change_data, ho_statement = stmt, ho_envelope = hello_envelope stmt, ho_event = hello_event change\<rparr>))"

section \<open>The preview of an enrolment\<close>

definition hello_node_id :: "('k, 's) crypto \<Rightarrow> bytes \<Rightarrow> string" where
  "hello_node_id C pubkey = sha256_hex C pubkey"

definition hello_formation_key_proof ::
  "('k, 's) crypto \<Rightarrow> bytes \<Rightarrow> string \<Rightarrow> string \<Rightarrow> string \<Rightarrow> string \<Rightarrow> string" where
  "hello_formation_key_proof C key node_id timestamp doctrine kern =
     hmac_hex C key (node_id @ timestamp @ doctrine @ kern)"

record enroll_preview =
  ep_formation_id :: string
  ep_node_id :: string
  ep_proof :: string
  ep_timestamp :: string

text \<open>
  \<open>main\<close> of \<open>enroll.py\<close>: the environment is a map, the file \<open>node_pub.pem\<close> its bytes or \<open>None\<close> when it
  does not exist. Exit code 1 comes without a preview.
\<close>

definition enroll_main ::
  "('k, 's) crypto \<Rightarrow> (string \<rightharpoonup> string) \<Rightarrow> bytes option \<Rightarrow> datetime \<Rightarrow> int \<times> enroll_preview option" where
  "enroll_main C env pem_file now =
     (let formation_id = (case env ''SZL_FORMATION_ID'' of None \<Rightarrow> ''hello-formation-001'' | Some f \<Rightarrow> f);
          key = (case env ''SZL_FORMATION_KEY'' of None \<Rightarrow> [] | Some s \<Rightarrow> s) in
      if key = [] then (1, None)
      else
        (case pem_file of
           None \<Rightarrow> (1, None)
         | Some pem \<Rightarrow>
             let node_id = hello_node_id C pem; timestamp = strftime now;
                 proof_hex = hello_formation_key_proof C key node_id timestamp ENROLL_DOCTRINE_VERSION ENROLL_KERNEL_COMMIT in
             (0, Some \<lparr>ep_formation_id = formation_id, ep_node_id = node_id, ep_proof = proof_hex, ep_timestamp = timestamp\<rparr>)))"

section \<open>What the mesh makes of the previews\<close>

text \<open>The statement of the example is the one that the mesh would build.\<close>

lemma hello_statement_is_mesh:
  assumes "cls \<in> set TRANSITION_CLASSES"
  shows "build_state_transition_statement d c fh th n cls None now = Inr (hello_statement d c fh th n cls now)"
  using assms
  by (simp add: build_state_transition_statement_def hello_statement_def hello_consts utc_now_iso_def)
     (simp add: const_defs)

lemma loads_unsorted:
  assumes "jwf v" "jdepth v \<le> depth"
  shows "loads_bytes depth (jdump a v) = Inr v"
proof -
  have "starts (jdump a v)" using assms(1) by (rule starts_jdump)
  then have "skip_ws (jdump a v) = jdump a v" using starts_append [of _ "[]"] by simp
  moreover have "scan_value depth (jdump a v @ []) = Inr (v, [])" by (rule scan_jdump) (use assms in simp_all)
  ultimately show ?thesis by (simp add: loads_bytes_def utf8_decode_def json_loads_def jdump_valid [OF assms(1)])
qed

lemma unsigned_not_verified:
  "verify_receipt_signature C (JObj [(''payloadType'', JStr t), (''payload'', JStr p), (''signatures'', JList [])]) = Inr False"
  by (simp add: verify_receipt_signature_def verify_receipt_body_def jkey_def)

text \<open>An unsigned envelope around a pinned statement passes every check up to the signature.\<close>

lemma unsigned_preview:
  assumes "jwf stmt" "jdepth stmt \<le> json_depth C" "doctrine_pinned stmt"
  shows "validate_receipt C (hello_envelope stmt) raw now revoked skew registry = observed RECEIPT_BAD_SIGNATURE (Some stmt)"
proof -
  let ?e = "hello_envelope stmt"
  have dec: "decode_statement C ?e = Inr stmt"
    using loads_unsorted [OF assms(1,2)]
    by (simp add: decode_statement_def hello_envelope_def jkey_def flip: b64url_encode_def)
  have ver: "verify_receipt_signature C ?e = Inr False"
    unfolding hello_envelope_def by (rule unsigned_not_verified)
  have ty: "is_obj ?e" "jget ?e ''payloadType'' = Some (JStr PAYLOAD_TYPE)"
    by (simp_all add: hello_envelope_def PAYLOAD_TYPE_def)
  obtain pc where "jget stmt ''policy_context'' = Some (JObj pc)"
      "map_of pc ''section_889_vendors'' = Some (JList (map JStr SECTION_889_VENDORS))"
    using assms(3) unfolding doctrine_pinned_def jget_obj [of _ "''section_889_vendors''"] by blast
  then show ?thesis
    using assms(3) dec ver ty by (simp add: validate_receipt_def doctrine_pinned_def jget_is_obj)
qed

text \<open>
  The identity that \<open>enroll.py\<close> derives is the digest of the PEM file. A gateway compares the node id
  with the digest of the key's DER encoding, so a request under this identity is never admitted
  unless the two digests coincide.
\<close>

lemma pem_identity_rejected:
  assumes "enroll_main C env (Some pem) now = (0, Some p)"
    and "\<And>k. sha256_hex C pem \<noteq> sha256_hex C (spki_der C k)"
    and "request_node req = ep_node_id p" "gw_enroll C req now' g = (Inr e, g')"
  shows "\<not> en_success e \<and> g' = g"
proof -
  have n: "request_node req = sha256_hex C pem"
    using assms(1,3) by (auto simp: enroll_main_def hello_node_id_def Let_def split: if_splits)
  show ?thesis
  proof (cases rule: gw_enroll_cases [of C req now' g])
    case (success k)
    then have "request_node req = sha256_hex C (spki_der C k)"
      using enroll_ok_node node_id_from_pubkey_def by metis
    with n assms(2) show ?thesis by metis
  next
    case (failure r)
    with assms(4) show ?thesis by auto
  qed
qed

section \<open>Properties\<close>

lemma hello_main_statement:
  assumes "hello_main C now_iso now = (code, out)" "is_ascii (sha256_hex C (ho_change out))" "3 \<le> json_depth C"
  shows "jwf (ho_statement out)" "jdepth (ho_statement out) \<le> json_depth C" "doctrine_pinned (ho_statement out)"
proof -
  let ?h = "sha256_hex C (ho_change out)"
  have s: "ho_statement out = statement_of ''hello-formation-001/platforms'' ?h [replicate 64 CHR ''0''] [?h]
      ''example-node-not-enrolled'' ''PLATFORM_STATUS'' (strftime now)"
    using assms(1) by (auto simp: hello_main_def Let_def hello_statement_def hello_consts STATEMENT_TYPE_def)
  have "jwf (statement_of ''hello-formation-001/platforms'' ?h [replicate 64 CHR ''0''] [?h]
      ''example-node-not-enrolled'' ''PLATFORM_STATUS'' (strftime now))"
    by (rule statement_wf) (use assms(2) strftime_ascii [of now, unfolded is_ascii_def] in
        \<open>simp_all add: is_ascii_def TRANSITION_CLASSES_def ascii_utf8_valid\<close>)
  then show "jwf (ho_statement out)" unfolding s .
  show "jdepth (ho_statement out) \<le> json_depth C" unfolding s using statement_depth assms(3) by (rule order_trans)
  show "doctrine_pinned (ho_statement out)" unfolding s by (simp add: doctrine_pinned_def)
qed

text \<open>
  An honest preview. The example always ends with exit code 0; the statement it shows is the one
  the mesh builds for this change; its envelope is unsigned, and whatever registry, revocation list, clock and
  skew a receipt gate uses, it files the change as observed with a bad signature, the track that the previewed event
  names; the gate never raises and never authorises it.
\<close>

theorem hello_preview_observed:
  assumes "hello_main C now_iso now = (code, out)" "is_ascii (sha256_hex C (ho_change out))" "3 \<le> json_depth C"
  shows "code = 0 \<and>
    build_state_transition_statement ''hello-formation-001/platforms'' (sha256_hex C (ho_change out))
      [replicate 64 CHR ''0''] [sha256_hex C (ho_change out)] ''example-node-not-enrolled'' ''PLATFORM_STATUS'' None now =
      Inr (ho_statement out) \<and>
    jget (ho_event out) ''track'' = Some (JStr OBSERVED) \<and>
    validate_receipt C (ho_envelope out) raw now' revoked skew registry =
      Inr \<lparr>gr_track = OBSERVED, gr_status = RECEIPT_BAD_SIGNATURE, gr_statement = Some (ho_statement out)\<rparr>"
proof -
  have out: "code = 0" "ho_envelope out = hello_envelope (ho_statement out)"
    "ho_event out = hello_event (sha256_hex C (ho_change out))"
    "ho_statement out = hello_statement ''hello-formation-001/platforms'' (sha256_hex C (ho_change out))
       [replicate 64 CHR ''0''] [sha256_hex C (ho_change out)] ''example-node-not-enrolled'' ''PLATFORM_STATUS'' now"
    using assms(1) by (auto simp: hello_main_def Let_def)
  have "jget (ho_event out) ''track'' = Some (JStr OBSERVED)"
    unfolding out(3) by (simp add: hello_event_def OBSERVED_def)
  moreover have "validate_receipt C (ho_envelope out) raw now' revoked skew registry =
      Inr \<lparr>gr_track = OBSERVED, gr_status = RECEIPT_BAD_SIGNATURE, gr_statement = Some (ho_statement out)\<rparr>"
    unfolding out(2) by (simp only: unsigned_preview [OF hello_main_statement [OF assms]] observed_def)
  moreover have "''PLATFORM_STATUS'' \<in> set TRANSITION_CLASSES" by (simp add: TRANSITION_CLASSES_def)
  ultimately show ?thesis using out(1) hello_statement_is_mesh out(4) by metis
qed

theorem hello_preview_observed_witness:
  "\<exists>g. validate_receipt toy_crypto (ho_envelope (snd (hello_main toy_crypto ''t'' sample_time))) [] sample_time [] 300 None = Inr g \<and>
     gr_track g = OBSERVED"
proof -
  obtain code out where h: "hello_main toy_crypto ''t'' sample_time = (code, out)" by fastforce
  have "is_ascii (sha256_hex toy_crypto (ho_change out))" "3 \<le> json_depth toy_crypto"
    by (simp_all add: toy_crypto_def to_hex_ascii)
  from hello_preview_observed [OF h this, of "[]" sample_time "[]" 300 None] h show ?thesis by simp
qed

text \<open>
  The preview of an enrolment. \<open>enroll.py\<close> ends with exit code 0 exactly when the formation key is set
  and not empty and the key file exists; then the proof it shows is the one that a gateway with this
  formation key expects from this node id and time.
\<close>

lemma enroll_preview_proof:
  "fst (enroll_main C env pem_file now) = 0 \<longleftrightarrow>
     (\<exists>key. env ''SZL_FORMATION_KEY'' = Some key \<and> key \<noteq> []) \<and> pem_file \<noteq> None"
  "enroll_main C env pem_file now = (0, Some p) \<Longrightarrow> env ''SZL_FORMATION_KEY'' = Some key \<Longrightarrow>
     ep_proof p = compute_formation_key_proof C key (ep_node_id p) (ep_timestamp p) DOCTRINE_VERSION KERNEL_COMMIT"
  by (auto simp: enroll_main_def Let_def hello_formation_key_proof_def compute_formation_key_proof_def hello_consts
      split: option.splits if_splits)

end
