(* ===== verification/Double.thy ===== *)
theory Double
  imports Complex_Main Json
begin

text \<open>
  Python's numbers as the scheduler uses them: IEEE doubles as exact rationals with
  round-to-nearest-even after every operation, infinities and NaN (the sign of zero is not
  kept), and the conversions \<open>float(v)\<close> and \<open>int(v)\<close> of JSON values. Non-ASCII digits and the limit on
  the length of integer literals are left out.
\<close>

section \<open>Doubles\<close>

text \<open>\<open>Inf True\<close> is negative infinity.\<close>

datatype dbl = NaN | Inf bool | Fin rat

fun nlog2 :: "nat \<Rightarrow> nat" where
  "nlog2 n = (if n < 2 then 0 else Suc (nlog2 (n div 2)))"

declare nlog2.simps [simp del]

text \<open>The exponent of a positive rational, \<open>2 ^ e \<le> x < 2 ^ (e + 1)\<close>.\<close>

definition ilog2 :: "rat \<Rightarrow> int" where
  "ilog2 x =
     (let (a, b) = quotient_of x;
          e = int (nlog2 (nat a)) - int (nlog2 (nat b)) in
      if 2 powi e \<le> x then e else e - 1)"

text \<open>The nearest integer, ties to even: also Python's \<open>round\<close>.\<close>

definition half_even :: "rat \<Rightarrow> int" where
  "half_even x =
     (let f = floor x; r = x - of_int f in
      if r < 1/2 then f else if 1/2 < r then f + 1 else if even f then f else f + 1)"

definition dround :: "rat \<Rightarrow> dbl" where
  "dround x =
     (if x = 0 then Fin 0
      else
        let u = 2 powi (max (ilog2 \<bar>x\<bar> - 52) (-1074));
            y = of_int (half_even (x / u)) * u in
        if 2 ^ 1024 \<le> \<bar>y\<bar> then Inf (x < 0) else Fin y)"

fun dneg :: "dbl \<Rightarrow> dbl" where
  "dneg NaN = NaN"
| "dneg (Inf s) = Inf (\<not> s)"
| "dneg (Fin x) = Fin (- x)"

fun dadd :: "dbl \<Rightarrow> dbl \<Rightarrow> dbl" where
  "dadd (Fin x) (Fin y) = dround (x + y)"
| "dadd (Inf s) (Fin y) = Inf s"
| "dadd (Fin x) (Inf t) = Inf t"
| "dadd (Inf s) (Inf t) = (if s = t then Inf s else NaN)"
| "dadd _ _ = NaN"

definition dsub :: "dbl \<Rightarrow> dbl \<Rightarrow> dbl" where
  "dsub x y = dadd x (dneg y)"

fun dmul :: "dbl \<Rightarrow> dbl \<Rightarrow> dbl" where
  "dmul (Fin x) (Fin y) = dround (x * y)"
| "dmul (Inf s) (Fin y) = (if y = 0 then NaN else Inf (s \<noteq> (y < 0)))"
| "dmul (Fin x) (Inf t) = (if x = 0 then NaN else Inf (t \<noteq> (x < 0)))"
| "dmul (Inf s) (Inf t) = Inf (s \<noteq> t)"
| "dmul _ _ = NaN"

text \<open>Division; the code excludes a zero divisor.\<close>

fun ddiv :: "dbl \<Rightarrow> dbl \<Rightarrow> dbl" where
  "ddiv (Fin x) (Fin y) = dround (x / y)"
| "ddiv (Inf s) (Fin y) = Inf (s \<noteq> (y < 0))"
| "ddiv (Fin x) (Inf t) = Fin 0"
| "ddiv _ _ = NaN"

fun dlt :: "dbl \<Rightarrow> dbl \<Rightarrow> bool" where
  "dlt (Fin x) (Fin y) = (x < y)"
| "dlt (Fin x) (Inf t) = (\<not> t)"
| "dlt (Inf s) (Fin y) = s"
| "dlt (Inf s) (Inf t) = (s \<and> \<not> t)"
| "dlt _ _ = False"

definition deq :: "dbl \<Rightarrow> dbl \<Rightarrow> bool" where
  "deq x y \<longleftrightarrow> x \<noteq> NaN \<and> x = y"

definition dle :: "dbl \<Rightarrow> dbl \<Rightarrow> bool" where
  "dle x y \<longleftrightarrow> dlt x y \<or> deq x y"

text \<open>\<open>int(x)\<close> and \<open>round(x)\<close>.\<close>

fun dbl_int :: "(rat \<Rightarrow> int) \<Rightarrow> dbl \<Rightarrow> exn + int" where
  "dbl_int f NaN = Inl ValueError"
| "dbl_int f (Inf _) = Inl OverflowError"
| "dbl_int f (Fin x) = Inr (f x)"

definition trunc :: "rat \<Rightarrow> int" where
  "trunc x = (if x < 0 then - floor (- x) else floor x)"

section \<open>Conversions\<close>

text \<open>A run of digits, single underscores allowed between digits.\<close>

fun take_digits :: "bool \<Rightarrow> string \<Rightarrow> string \<times> string" where
  "take_digits prev [] = ([], [])"
| "take_digits prev (c # cs) =
     (if is_digit c then (let (d, r) = take_digits True cs in (c # d, r))
      else if prev \<and> c = CHR ''_'' \<and> cs \<noteq> [] \<and> is_digit (hd cs) then take_digits False cs
      else ([], c # cs))"

definition take_sign :: "string \<Rightarrow> bool \<times> string" where
  "take_sign s =
     (case s of c # cs \<Rightarrow> if c = CHR ''-'' then (True, cs) else if c = CHR ''+'' then (False, cs) else (False, s)
      | [] \<Rightarrow> (False, s))"

definition int_text :: "string \<Rightarrow> exn + int" where
  "int_text s =
     (let (neg, t) = take_sign (strip s); (d, r) = take_digits False t in
      if d = [] \<or> r \<noteq> [] then Inl ValueError
      else Inr (if neg then - int (str_nat d) else int (str_nat d)))"

definition exponent_text :: "string \<Rightarrow> int option" where
  "exponent_text s =
     (case s of
        [] \<Rightarrow> Some 0
      | c # cs \<Rightarrow>
          (let (neg, t) = take_sign cs; (d, r) = take_digits False t in
           if c \<noteq> CHR ''e'' \<or> d = [] \<or> r \<noteq> [] then None
           else Some (if neg then - int (str_nat d) else int (str_nat d))))"

definition float_text :: "string \<Rightarrow> exn + dbl" where
  "float_text s =
     (let (neg, t) = take_sign (lower (strip s)) in
      if t = ''inf'' \<or> t = ''infinity'' then Inr (Inf neg)
      else if t = ''nan'' then Inr NaN
      else
        let (ip, t1) = take_digits False t;
            (fp, t2) = (case t1 of c # cs \<Rightarrow> if c = CHR ''.'' then take_digits False cs else ([], t1) | [] \<Rightarrow> ([], t1)) in
        if ip = [] \<and> fp = [] then Inl ValueError
        else
          (case exponent_text t2 of
             None \<Rightarrow> Inl ValueError
           | Some e \<Rightarrow>
               let x = of_nat (str_nat (ip @ fp)) * 10 powi (e - int (length fp)) in
               Inr (dround (if neg then - x else x))))"

definition int_float :: "int \<Rightarrow> exn + dbl" where
  "int_float i = (case dround (of_int i) of Inf _ \<Rightarrow> Inl OverflowError | d \<Rightarrow> Inr d)"

text \<open>\<open>float(v)\<close> and \<open>int(v)\<close>.\<close>

fun py_float :: "json \<Rightarrow> exn + dbl" where
  "py_float (JInt i) = int_float i"
| "py_float (JBool b) = Inr (Fin (if b then 1 else 0))"
| "py_float (JFloat f) = float_text f"
| "py_float (JStr s) = float_text s"
| "py_float _ = Inl TypeError"

fun py_int :: "json \<Rightarrow> exn + int" where
  "py_int (JInt i) = Inr i"
| "py_int (JBool b) = Inr (if b then 1 else 0)"
| "py_int (JFloat f) = bindE (float_text f) (dbl_int trunc)"
| "py_int (JStr s) = int_text s"
| "py_int _ = Inl TypeError"

text \<open>The comparison \<open>v < x\<close> of a JSON value with a float; integers compare exactly.\<close>

fun json_lt :: "json \<Rightarrow> dbl \<Rightarrow> exn + bool" where
  "json_lt (JInt i) x = Inr (dlt (Fin (of_int i)) x)"
| "json_lt (JBool b) x = Inr (dlt (Fin (if b then 1 else 0)) x)"
| "json_lt (JFloat f) x = bindE (float_text f) (\<lambda>y. Inr (dlt y x))"
| "json_lt _ x = Inl TypeError"

text \<open>The comparison \<open>v == i\<close> with an integer.\<close>

fun json_is_int :: "json \<Rightarrow> int \<Rightarrow> bool" where
  "json_is_int (JInt j) i = (j = i)"
| "json_is_int (JBool b) i = ((if b then 1 else 0) = i)"
| "json_is_int (JFloat f) i = (float_text f = Inr (Fin (of_int i)))"
| "json_is_int _ i = False"

section \<open>Dictionary keys\<close>

text \<open>
  Keys as a dictionary compares them: booleans and integral floats are integers, a NaN is found only by
  identity. Lists and dictionaries are unhashable. Every float literal of a JSON text is a number, so the
  \<open>Inl\<close> case of \<open>float_key\<close> does not arise.
\<close>

datatype dkey = KNone | KInt int | KFloat dbl | KStr string

definition float_key :: "string \<Rightarrow> dkey" where
  "float_key f =
     (case float_text f of
        Inr (Fin x) \<Rightarrow> if x = of_int (floor x) then KInt (floor x) else KFloat (Fin x)
      | Inr d \<Rightarrow> KFloat d
      | Inl _ \<Rightarrow> KFloat NaN)"

fun dict_key :: "json \<Rightarrow> exn + dkey" where
  "dict_key JNull = Inr KNone"
| "dict_key (JBool b) = Inr (KInt (if b then 1 else 0))"
| "dict_key (JInt i) = Inr (KInt i)"
| "dict_key (JFloat f) = Inr (float_key f)"
| "dict_key (JStr s) = Inr (KStr s)"
| "dict_key _ = Inl TypeError"

text \<open>A dictionary whose keys are texts.\<close>

definition str_keys :: "(string, 'v) dict \<Rightarrow> (dkey, 'v) dict" where
  "str_keys d = map (\<lambda>(k, v). (KStr k, v)) d"

lemma map_of_str_keys:
  "map_of (str_keys d) k = (case k of KStr s \<Rightarrow> map_of d s | _ \<Rightarrow> None)"
  by (induction d) (auto simp: str_keys_def split: dkey.split)

section \<open>Exactness\<close>

lemma nlog2_le: "n < 2 ^ Suc k \<Longrightarrow> nlog2 n \<le> k"
proof (induction k arbitrary: n)
  case 0
  then show ?case by (subst nlog2.simps) simp
next
  case (Suc k)
  then have "nlog2 (n div 2) \<le> k" by (intro Suc.IH) (simp add: less_mult_imp_div_less mult.commute)
  then show ?case by (subst nlog2.simps) simp
qed

lemma half_even_int [simp]: "half_even (of_int i) = i"
  by (simp add: half_even_def)

text \<open>Integers up to \<open>2 ^ 53\<close> in absolute value are doubles.\<close>

lemma dround_int:
  assumes "\<bar>i\<bar> < 2 ^ 53"
  shows "dround (of_int i) = Fin (of_int i)"
proof (cases "i = 0")
  case False
  define e where "e = ilog2 \<bar>of_int i\<bar>"
  have "nat \<bar>i\<bar> < 2 ^ Suc 52" using assms by simp
  then have "nlog2 (nat \<bar>i\<bar>) \<le> 52" by (rule nlog2_le)
  moreover have "quotient_of \<bar>of_int i :: rat\<bar> = (\<bar>i\<bar>, 1)" unfolding of_int_abs [symmetric] by (rule quotient_of_rat_of_int)
  moreover have "nlog2 (nat 1) = 0" by (subst nlog2.simps) simp
  ultimately have "e \<le> 52" by (simp add: e_def ilog2_def Let_def)
  define m where "m = nat (- max (e - 52) (-1074))"
  have u: "(2 :: rat) powi (max (e - 52) (-1074)) = 1 / 2 ^ m"
  proof -
    have "max (e - 52) (-1074) = - int m" using \<open>e \<le> 52\<close> by (simp add: m_def)
    then show ?thesis by (simp add: power_int_minus inverse_eq_divide)
  qed
  have "of_int i / (2 powi (max (e - 52) (-1074))) = (of_int (i * 2 ^ m) :: rat)" unfolding u by simp
  then have "of_int (half_even (of_int i / (2 powi (max (e - 52) (-1074))))) * 2 powi (max (e - 52) (-1074))
      = (of_int i :: rat)"
    by (simp only: half_even_int) (simp add: u)
  moreover have "\<not> 2 ^ 1024 \<le> \<bar>of_int i :: rat\<bar>"
  proof -
    have "\<bar>of_int i :: rat\<bar> = of_int \<bar>i\<bar>" by simp
    also have "\<dots> < of_int (2 ^ 53)" unfolding of_int_less_iff by (rule assms)
    also have "(of_int (2 ^ 53) :: rat) = 2 ^ 53" by (simp only: of_int_power of_int_numeral)
    also have "(2 :: rat) ^ 53 \<le> 2 ^ 1024" by (rule power_increasing) simp_all
    finally show ?thesis by (simp only: not_le)
  qed
  ultimately show ?thesis using False by (simp add: dround_def Let_def e_def)
qed (simp add: dround_def)

lemma nlog2_bounds: "0 < n \<Longrightarrow> 2 ^ nlog2 n \<le> n \<and> n < 2 ^ Suc (nlog2 n)"
proof (induction n rule: nlog2.induct)
  case (1 n)
  show ?case
  proof (cases "n < 2")
    case False
    then have "2 ^ nlog2 (n div 2) \<le> n div 2 \<and> n div 2 < 2 ^ Suc (nlog2 (n div 2))" using 1 by simp
    then have "2 * 2 ^ nlog2 (n div 2) \<le> n \<and> n < 2 * 2 ^ Suc (nlog2 (n div 2))" by linarith
    then show ?thesis using False by (subst (1 2) nlog2.simps) simp
  qed (use 1 in \<open>subst (1 2) nlog2.simps, simp\<close>)
qed

lemma ilog2_le:
  assumes "0 < x"
  shows "2 powi ilog2 x \<le> x"
proof -
  obtain a b where ab: "quotient_of x = (a, b)" by (cases "quotient_of x")
  have x: "x = of_int a / of_int b" and b: "0 < b" using quotient_of_div [OF ab] quotient_of_denom_pos [OF ab] by simp_all
  with assms have a: "0 < a" by (simp add: zero_less_divide_iff)
  let ?p = "nlog2 (nat a)" and ?q = "nlog2 (nat b)"
  have "(2 :: int) ^ ?p \<le> a" "b < 2 ^ Suc ?q"
    using nlog2_bounds [of "nat a"] nlog2_bounds [of "nat b"] a b by (simp_all add: le_nat_iff nat_less_iff)
  then have "(2 :: rat) ^ ?p \<le> of_int a" "(of_int b :: rat) \<le> 2 ^ Suc ?q"
    by (metis of_int_le_iff of_int_numeral of_int_power, metis less_imp_le of_int_le_iff of_int_numeral of_int_power)
  then have "2 ^ ?p / 2 ^ Suc ?q \<le> x" unfolding x using a b by (intro frac_le) simp_all
  moreover have "(2 :: rat) powi (int ?p - int ?q - 1) = 2 ^ ?p / 2 ^ Suc ?q"
    by (simp add: power_int_diff)
  ultimately show ?thesis by (simp add: ilog2_def ab Let_def)
qed

lemma half_even_ge: "1 \<le> x \<Longrightarrow> 1 \<le> half_even x"
  by (simp add: half_even_def Let_def le_floor_iff)

text \<open>Numbers of at least the smallest double do not round to zero.\<close>

lemma dround_pos:
  assumes "2 powi (-1074) \<le> x"
  shows "dlt (Fin 0) (dround x)"
proof -
  let ?u = "(2 :: rat) powi (max (ilog2 \<bar>x\<bar> - 52) (-1074))"
  have x: "0 < x" by (rule less_le_trans [OF _ assms]) simp
  have "(2 :: rat) powi (ilog2 x - 52) \<le> 2 powi ilog2 x" by (intro power_int_increasing) simp_all
  with ilog2_le [OF x] have "2 powi (ilog2 x - 52) \<le> x" by (rule order_trans [rotated])
  with assms x have "?u \<le> x" by (auto simp: max_def)
  then have "1 \<le> x / ?u" by (simp add: le_divide_eq)
  then have "1 \<le> half_even (x / ?u)" by (rule half_even_ge)
  then have "0 < of_int (half_even (x / ?u)) * ?u" by (intro mult_pos_pos) simp_all
  with x show ?thesis by (simp add: dround_def Let_def)
qed

end
