(* ===== verification/Strict.thy ===== *)
theory Strict
  imports Double
begin

text \<open>
  What \<open>lab/\<close> and \<open>mesh_command/\<close> share: list comprehensions that may raise, the strict encoder (\<open>allow_nan=False\<close>,
  \<open>ensure_ascii=False\<close>), Python's equality of JSON values, the shapes of identifiers and slices
  with a step.
\<close>

section \<open>Comprehensions that may raise\<close>

fun mapE :: "('a \<Rightarrow> exn + 'b) \<Rightarrow> 'a list \<Rightarrow> exn + 'b list" where
  "mapE f [] = Inr []"
| "mapE f (x # xs) = bindE (f x) (\<lambda>y. bindE (mapE f xs) (\<lambda>ys. Inr (y # ys)))"

lemma mapE_Inr: "(\<And>x. x \<in> set xs \<Longrightarrow> f x = Inr (g x)) \<Longrightarrow> mapE f xs = Inr (map g xs)"
  by (induction xs) auto

section \<open>Strict encoding\<close>

text \<open>Values without NaN and infinities.\<close>

fun finite_json :: "json \<Rightarrow> bool" where
  "finite_json (JFloat f) = (case float_text f of Inr (Fin x) \<Rightarrow> True | _ \<Rightarrow> False)"
| "finite_json (JList xs) = (\<forall>x \<in> set xs. finite_json x)"
| "finite_json (JObj kvs) = (\<forall>(k, v) \<in> set kvs. finite_json v)"
| "finite_json _ = True"

definition strict_dumps :: "json \<Rightarrow> exn + bytes" where
  "strict_dumps v = (if finite_json v then Inr (json_dumps False v) else Inl ValueError)"

lemma strict_dumps_iff: "strict_dumps v = Inr b \<longleftrightarrow> finite_json v \<and> b = json_dumps False v"
  by (auto simp: strict_dumps_def)

section \<open>Equality\<close>

text \<open>\<open>a == b\<close>: numbers of all types compare by value, dictionaries without regard to order.\<close>

fun json_num :: "json \<Rightarrow> dbl option" where
  "json_num (JBool b) = Some (Fin (if b then 1 else 0))"
| "json_num (JInt i) = Some (Fin (of_int i))"
| "json_num (JFloat f) = (case float_text f of Inl _ \<Rightarrow> None | Inr d \<Rightarrow> Some d)"
| "json_num _ = None"

lemma size_elem: "x \<in> set xs \<Longrightarrow> size x < size (JList xs)"
  by (induction xs) auto

lemma size_member: "(k, x) \<in> set kvs \<Longrightarrow> size x < size (JObj kvs)"
  by (induction kvs) auto

function json_eq :: "json \<Rightarrow> json \<Rightarrow> bool" where
  "json_eq v w =
     (case (v, w) of
        (JNull, JNull) \<Rightarrow> True
      | (JStr s, JStr t) \<Rightarrow> s = t
      | (JList xs, JList ys) \<Rightarrow> length xs = length ys \<and> (\<forall>(x, y) \<in> set (zip xs ys). json_eq x y)
      | (JObj a, JObj b) \<Rightarrow>
          length a = length b \<and>
          (\<forall>(k, x) \<in> set a. case map_of b k of None \<Rightarrow> False | Some y \<Rightarrow> json_eq x y)
      | _ \<Rightarrow> (case (json_num v, json_num w) of (Some x, Some y) \<Rightarrow> deq x y | _ \<Rightarrow> False))"
  by pat_completeness auto
termination
  by (relation "measure (\<lambda>(v, w). size v)")
    (auto dest!: set_zip_leftD dest: size_elem [simplified] size_member [simplified])

declare json_eq.simps [simp del]

lemma json_eq_JStr [simp]: "json_eq v (JStr s) \<longleftrightarrow> v = JStr s"
  by (cases v) (simp_all add: json_eq.simps split: option.split)

text \<open>Objects without repeated keys, at every level, as every Python dictionary is.\<close>

fun keys_ok :: "json \<Rightarrow> bool" where
  "keys_ok (JList xs) = (\<forall>x \<in> set xs. keys_ok x)"
| "keys_ok (JObj kvs) = (dict_ok kvs \<and> (\<forall>(k, v) \<in> set kvs. keys_ok v))"
| "keys_ok _ = True"

lemma keys_ok_get: "keys_ok v \<Longrightarrow> jget v k = Some w \<Longrightarrow> keys_ok w"
  by (cases v) (auto dest: map_of_SomeD)

lemma json_eq_refl: "keys_ok v \<Longrightarrow> finite_json v \<Longrightarrow> json_eq v v"
proof (induction v)
  case (JFloat f)
  then show ?case
    by (subst json_eq.simps) (auto simp: deq_def split: sum.splits dbl.splits)
next
  case (JList xs)
  then show ?case by (subst json_eq.simps) (auto simp: set_zip in_set_conv_nth)
next
  case (JObj kvs)
  then have "\<forall>(k, x) \<in> set kvs. map_of kvs k = Some x \<and> json_eq x x" by fastforce
  then show ?case by (subst json_eq.simps) (auto split: option.split)
qed (subst json_eq.simps, simp add: deq_def)+

section \<open>Shapes\<close>

definition alnum :: "char \<Rightarrow> bool" where
  "alnum c \<longleftrightarrow> is_digit c \<or> (65 \<le> ord c \<and> ord c \<le> 90) \<or> (97 \<le> ord c \<and> ord c \<le> 122)"

text \<open>\<open>^[A-Za-z0-9][A-Za-z0-9\<dots>]{0,n}$\<close> on the whole string, with the further characters \<open>extra\<close>.\<close>

definition ident_shape :: "string \<Rightarrow> nat \<Rightarrow> string \<Rightarrow> bool" where
  "ident_shape extra n s =
     (case s of [] \<Rightarrow> False
      | c # cs \<Rightarrow> alnum c \<and> length cs \<le> n \<and> (\<forall>d \<in> set cs. alnum d \<or> d \<in> set extra))"

text \<open>\<open>xs[start::step]\<close> for \<open>start < step\<close>.\<close>

definition stride :: "nat \<Rightarrow> nat \<Rightarrow> 'a list \<Rightarrow> 'a list" where
  "stride start step xs = map snd (filter (\<lambda>(i, x). i mod step = start) (enumerate 0 xs))"

lemma set_stride: "set (stride start step xs) = {xs ! i | i. i < length xs \<and> i mod step = start}"
  by (auto simp: stride_def in_set_enumerate_eq image_iff)

lemma strides_cover:
  assumes "0 < n"
  shows "(\<Union>i < n. set (stride i n xs)) = set xs"
  using assms by (auto simp: set_stride in_set_conv_nth) force

end
