(* ===== verification/JsonBytes.thy ===== *)
theory JsonBytes
  imports Json
begin

text \<open>
  \<open>json.loads\<close> on bytes that nobody has decoded: the library guesses the encoding from a byte order
  mark, or from where the first bytes are zero. (It also lets lone surrogates pass, which a text of the
  model cannot hold; they are refused here.)
\<close>

section \<open>UTF-16 and UTF-32\<close>

text \<open>The next code point, with the most significant byte first or last.\<close>

fun word16 :: "bool \<Rightarrow> char \<Rightarrow> char \<Rightarrow> nat" where
  "word16 big a b = (if big then 256 * ord a + ord b else 256 * ord b + ord a)"

fun utf16_next :: "bool \<Rightarrow> bytes \<Rightarrow> (nat \<times> bytes) option" where
  "utf16_next big (a # b # r) =
     (let u = word16 big a b in
      if u < 55296 \<or> 57343 < u then Some (u, r)
      else if 56320 \<le> u then None
      else
        (case r of c # d # r' \<Rightarrow>
           let v = word16 big c d in
           if 56320 \<le> v \<and> v \<le> 57343 then Some (65536 + 1024 * (u - 55296) + (v - 56320), r') else None
         | _ \<Rightarrow> None))"
| "utf16_next big _ = None"

fun utf32_next :: "bool \<Rightarrow> bytes \<Rightarrow> (nat \<times> bytes) option" where
  "utf32_next big (a # b # c # d # r) =
     (let u = (if big then 65536 * word16 big a b + word16 big c d else 65536 * word16 big c d + word16 big a b) in
      if u < 1114112 \<and> (u < 55296 \<or> 57343 < u) then Some (u, r) else None)"
| "utf32_next big _ = None"

text \<open>The text that the code points spell.\<close>

function transcode :: "(bytes \<Rightarrow> (nat \<times> bytes) option) \<Rightarrow> bytes \<Rightarrow> exn + string" where
  "transcode next_cp s =
     (if s = [] then Inr []
      else
        (case next_cp s of
           None \<Rightarrow> Inl ValueError
         | Some (cp, r) \<Rightarrow>
             if length s \<le> length r then Inl ValueError
             else bindE (transcode next_cp r) (\<lambda>t. Inr (utf8_enc cp @ t))))"
  by pat_completeness auto
termination by (relation "measure (\<lambda>(next_cp, s). length s)") auto

declare transcode.simps [simp del]

lemma utf16_next_length: "utf16_next big s = Some (cp, r) \<Longrightarrow> length r < length s"
  by (cases "(big, s)" rule: utf16_next.cases) (auto simp: Let_def split: if_splits list.splits)

lemma utf32_next_length: "utf32_next big s = Some (cp, r) \<Longrightarrow> length r < length s"
  by (cases "(big, s)" rule: utf32_next.cases) (auto simp: Let_def split: if_splits)

section \<open>The encoding of JSON bytes\<close>

datatype encoding = Utf8 | Utf8Sig | Utf16 bool | Utf32 bool | Utf16Mark bool | Utf32Mark bool

definition byte_zero :: "bytes \<Rightarrow> nat \<Rightarrow> bool" where
  "byte_zero b i \<longleftrightarrow> b ! i = CHR 0x00"

text \<open>\<open>detect_encoding\<close>: \<open>True\<close> for the most significant byte first; a mark is skipped by its decoder.\<close>

definition detect_encoding :: "bytes \<Rightarrow> encoding" where
  "detect_encoding b =
     (if take 4 b = [CHR 0x00, CHR 0x00, CHR 0xFE, CHR 0xFF] then Utf32Mark True
      else if take 4 b = [CHR 0xFF, CHR 0xFE, CHR 0x00, CHR 0x00] then Utf32Mark False
      else if take 2 b = [CHR 0xFE, CHR 0xFF] then Utf16Mark True
      else if take 2 b = [CHR 0xFF, CHR 0xFE] then Utf16Mark False
      else if take 3 b = [CHR 0xEF, CHR 0xBB, CHR 0xBF] then Utf8Sig
      else if 4 \<le> length b \<and> byte_zero b 0 then (if byte_zero b 1 then Utf32 True else Utf16 True)
      else if 4 \<le> length b \<and> byte_zero b 1 then
        (if byte_zero b 2 \<and> byte_zero b 3 then Utf32 False else Utf16 False)
      else if length b = 2 \<and> byte_zero b 0 then Utf16 True
      else if length b = 2 \<and> byte_zero b 1 then Utf16 False
      else Utf8)"

fun decode_as :: "encoding \<Rightarrow> bytes \<Rightarrow> exn + string" where
  "decode_as Utf8 b = utf8_decode b"
| "decode_as Utf8Sig b = utf8_decode (drop 3 b)"
| "decode_as (Utf16 big) b = transcode (utf16_next big) b"
| "decode_as (Utf32 big) b = transcode (utf32_next big) b"
| "decode_as (Utf16Mark big) b = transcode (utf16_next big) (drop 2 b)"
| "decode_as (Utf32Mark big) b = transcode (utf32_next big) (drop 4 b)"

definition loads_raw :: "nat \<Rightarrow> bytes \<Rightarrow> exn + json" where
  "loads_raw depth b = bindE (decode_as (detect_encoding b) b) (json_loads depth)"

section \<open>What it decodes\<close>

lemma transcode_error: "transcode f s = Inl e \<Longrightarrow> e = ValueError"
proof (induction f s rule: transcode.induct)
  case (1 f s)
  show ?case
  proof (cases "s = [] \<or> f s = None \<or> length s \<le> length (snd (the (f s)))")
    case True
    with "1.prems" show ?thesis by (subst (asm) transcode.simps) (cases "f s"; auto split: if_splits)
  next
    case False
    then obtain cp r where f: "s \<noteq> []" "f s = Some (cp, r)" "\<not> length s \<le> length r" by auto
    from "1.prems" have "transcode f r = Inl e"
      by (subst (asm) transcode.simps) (simp add: f bindE_Inl_iff)
    from "1.IH" [OF f(1,2) refl f(3) this] show ?thesis .
  qed
qed

lemma decode_as_error: "decode_as enc b = Inl e \<Longrightarrow> e = ValueError"
  by (cases enc) (auto simp: utf8_decode_def dest: transcode_error split: if_splits)

lemma json_loads_error: "json_loads d s = Inl e \<Longrightarrow> json_error e"
  by (cases "scan_value d (skip_ws s)") (auto simp: json_loads_def dest: scan_error(1) split: if_splits)

lemma loads_raw_error: "loads_raw d b = Inl e \<Longrightarrow> json_error e"
  by (cases "decode_as (detect_encoding b) b") (auto simp: loads_raw_def dest: decode_as_error json_loads_error)

text \<open>Bytes that begin with two ASCII characters other than zero are UTF-8.\<close>

lemma detect_plain:
  assumes "ord x < 128" "x \<noteq> CHR 0x00" "y \<noteq> CHR 0x00"
  shows "detect_encoding (x # y # r) = Utf8"
proof -
  have "x \<noteq> CHR 0xFE" "x \<noteq> CHR 0xFF" "x \<noteq> CHR 0xEF" using assms(1) by auto
  with assms(2,3) show ?thesis by (simp add: detect_encoding_def byte_zero_def)
qed

lemma loads_raw_plain: "ord x < 128 \<Longrightarrow> x \<noteq> CHR 0x00 \<Longrightarrow> y \<noteq> CHR 0x00 \<Longrightarrow> loads_raw d (x # y # r) = loads_bytes d (x # y # r)"
  by (simp add: loads_raw_def loads_bytes_def detect_plain)

text \<open>The encoder's objects round trip.\<close>

lemma jdump_obj: "\<exists>y r. jdump a (JObj kvs) = CHR ''{'' # y # r \<and> y \<noteq> CHR 0x00"
  by (cases kvs; cases "tl kvs") (auto simp: json_str_def)

theorem loads_raw_dumps:
  assumes "jwf v" "jdepth v \<le> depth" "is_obj v"
  shows "loads_raw depth (json_dumps a v) = Inr (jsort v)"
proof -
  obtain kvs where "jsort v = JObj kvs" using assms(3) by (cases v) simp_all
  then obtain y r where b: "json_dumps a v = CHR ''{'' # y # r" "y \<noteq> CHR 0x00"
    using jdump_obj [of a kvs] by (auto simp: json_dumps_def)
  have "loads_raw depth (json_dumps a v) = loads_bytes depth (json_dumps a v)"
    unfolding b(1) using b(2) by (intro loads_raw_plain) simp_all
  then show ?thesis by (simp add: loads_bytes_dumps [OF assms(1,2)])
qed

text \<open>The same object in UTF-16 is read as well.\<close>

lemma loads_utf16: "loads_raw 1 (concat (map (\<lambda>c. [CHR 0x00, c]) ''{}'')) = Inr (JObj [])"
proof -
  have "chr 123 = CHR ''{''" "chr 125 = CHR ''}''" by (rule chr_eqI, simp)+
  then show ?thesis
    by (simp add: loads_raw_def detect_encoding_def byte_zero_def transcode.simps Let_def utf8_enc_def json_loads_def
        skip_ws_def is_ws_def scan_value.simps)
qed

end
