(* ===== verification/Khipu.thy ===== *)
theory Khipu
  imports Crypto Strict JsonBytes
begin

text \<open>
  \<open>src/szl_mesh/_vendor/khipu_consensus/__init__.py\<close>: one organ's signed verdict, its
  verification, and the tally over a list of verdicts. Verdicts come from JSON, so the fields
  of \<open>organ_verdict\<close> are JSON values (\<open>None\<close> is \<open>JNull\<close>). \<open>verify_verdict\<close> catches every
  exception; \<open>tally\<close> does not. The encoding of a body is guessed (\<open>loads_raw\<close>).
\<close>

section \<open>Verdicts\<close>

definition ORGAN_VERDICT_PAYLOAD_TYPE :: string where [const_defs]:
  "ORGAN_VERDICT_PAYLOAD_TYPE = ''application/vnd.szl.khipu.organ-verdict+json''"

definition canonical_json :: "json \<Rightarrow> bytes" where
  "canonical_json v = json_dumps False v"

record organ_verdict =
  ov_organ :: json
  ov_keyid :: json
  ov_payload_type :: json
  ov_payload :: json
  ov_signature :: json
  ov_verdict :: json
  ov_reason :: json

definition verdict_from_dict :: "json \<Rightarrow> organ_verdict" where
  "verdict_from_dict d =
     \<lparr>ov_organ = jget_or d ''organ'' (JStr []),
      ov_keyid = jget_or d ''keyid'' (JStr []),
      ov_payload_type = jget_or d ''payloadType'' (JStr ORGAN_VERDICT_PAYLOAD_TYPE),
      ov_payload = jget_or d ''payload'' (JStr []),
      ov_signature = jget_or d ''signature'' (JStr []),
      ov_verdict = jget_or d ''verdict'' (JStr ''allow''),
      ov_reason = jget_or d ''reason'' (JStr [])\<rparr>"

text \<open>The texts of \<open>reason\<close>, one constructor each; \<open>Raised\<close> is the caught exception.\<close>

datatype check_reason = NoReason | MissingPart | Mismatch | Raised exn | NoKey | Abstain

record organ_check =
  oc_organ :: json
  oc_keyid :: json
  oc_valid :: bool
  oc_verdict :: json
  oc_match :: bool
  oc_counts :: bool
  oc_reason :: check_reason

record consensus_result =
  cr_action_hash :: json
  cr_threshold :: int
  cr_n :: int
  cr_count :: nat
  cr_decision :: string
  cr_checks :: "organ_check list"

text \<open>\<open>base64.b64decode\<close> raises \<open>TypeError\<close> on a value that is neither text nor bytes.\<close>

fun b64decode_json :: "json \<Rightarrow> exn + bytes" where
  "b64decode_json (JStr s) = b64decode s"
| "b64decode_json _ = Inl TypeError"

text \<open>\<open>payload_type.encode\<close> exists on strings only.\<close>

fun pae_json :: "json \<Rightarrow> bytes \<Rightarrow> exn + bytes" where
  "pae_json (JStr t) body = Inr (khipu_pae t body)"
| "pae_json _ body = Inl AttributeError"

definition sign_verdict ::
  "('k, 's) crypto \<Rightarrow> string \<Rightarrow> string \<Rightarrow> string \<Rightarrow> string \<Rightarrow> string \<Rightarrow> string \<Rightarrow> string \<Rightarrow> string \<Rightarrow> bytes \<Rightarrow> exn + json" where
  "sign_verdict C organ action_hash verdict private_key_pem reason lean_sha ts now_iso nonce =
     (let keyid = organ @ ''-cosign'';
          statement = JObj
            [(''schema'', JStr ''szl.khipu.organ_verdict/v1''), (''organ'', JStr organ), (''keyid'', JStr keyid),
             (''action_hash'', JStr action_hash), (''verdict'', JStr verdict), (''reason'', JStr reason),
             (''lean_sha'', JStr lean_sha), (''ts'', JStr (if ts = [] then now_iso else ts))];
          body = canonical_json statement in
      bindE (load_pem_private C private_key_pem) (\<lambda>priv.
      let sig = ecdsa_sign C priv nonce (khipu_pae ORGAN_VERDICT_PAYLOAD_TYPE body) in
      Inr (JObj
        [(''organ'', JStr organ), (''keyid'', JStr keyid), (''payloadType'', JStr ORGAN_VERDICT_PAYLOAD_TYPE),
         (''payload'', JStr (b64encode body)), (''signature'', JStr (b64encode sig)),
         (''verdict'', JStr verdict), (''reason'', JStr reason)])))"

section \<open>Verification\<close>

definition invalid_check :: "organ_verdict \<Rightarrow> check_reason \<Rightarrow> organ_check" where
  "invalid_check v r =
     \<lparr>oc_organ = ov_organ v, oc_keyid = ov_keyid v, oc_valid = False, oc_verdict = JNull,
      oc_match = False, oc_counts = False, oc_reason = r\<rparr>"

text \<open>The body of the \<open>try\<close>: \<open>get\<close> on a decoded value that is not an object is an \<open>AttributeError\<close>.\<close>

definition verify_verdict_body ::
  "('k, 's) crypto \<Rightarrow> organ_verdict \<Rightarrow> string \<Rightarrow> json \<Rightarrow> exn + organ_check" where
  "verify_verdict_body C v public_key_pem action_hash =
     bindE (b64decode_json (ov_payload v)) (\<lambda>body.
     bindE (pae_json (ov_payload_type v) body) (\<lambda>to_verify.
     bindE (load_pem_public C public_key_pem) (\<lambda>pub.
     bindE (b64decode_json (ov_signature v)) (\<lambda>sig.
     if \<not> ecdsa_verify C pub sig to_verify then Inr (invalid_check v Mismatch)
     else
       bindE (loads_raw (json_depth C) body) (\<lambda>decoded.
       if \<not> is_obj decoded then Inl AttributeError
       else
         let ah_match = json_eq (jget_or decoded ''action_hash'' JNull) action_hash;
             verdict = jget_or decoded ''verdict'' JNull in
         Inr \<lparr>oc_organ = ov_organ v, oc_keyid = ov_keyid v, oc_valid = True, oc_verdict = verdict,
              oc_match = ah_match, oc_counts = (ah_match \<and> verdict = JStr ''allow''), oc_reason = NoReason\<rparr>)))))"

definition verify_verdict :: "('k, 's) crypto \<Rightarrow> organ_verdict \<Rightarrow> string \<Rightarrow> json \<Rightarrow> organ_check" where
  "verify_verdict C v public_key_pem action_hash =
     (if \<not> truthy (ov_payload v) \<or> \<not> truthy (ov_signature v) then invalid_check v MissingPart
      else (case verify_verdict_body C v public_key_pem action_hash of
              Inl e \<Rightarrow> invalid_check v (Raised e) | Inr c \<Rightarrow> c))"

section \<open>Tally\<close>

text \<open>\<open>pubkeys.get(organ, "")\<close>: a list or a dictionary cannot be a key and raises \<open>TypeError\<close>.\<close>

definition pubkey_for :: "(dkey, string) dict \<Rightarrow> json \<Rightarrow> exn + string" where
  "pubkey_for pubkeys organ =
     bindE (dict_key organ) (\<lambda>k. Inr (case map_of pubkeys k of None \<Rightarrow> [] | Some pem \<Rightarrow> pem))"

definition abstain_check :: organ_check where
  "abstain_check =
     \<lparr>oc_organ = JNull, oc_keyid = JNull, oc_valid = False, oc_verdict = JNull, oc_match = False,
      oc_counts = False, oc_reason = Abstain\<rparr>"

fun check_item :: "('k, 's) crypto \<Rightarrow> json \<Rightarrow> (dkey, string) dict \<Rightarrow> json \<Rightarrow> exn + organ_check" where
  "check_item C ah pubkeys item =
     (if item = JNull then Inr abstain_check
      else if \<not> is_obj item then Inl AttributeError
      else
        let v = verdict_from_dict item in
        bindE (pubkey_for pubkeys (ov_organ v)) (\<lambda>pem.
        if pem = [] then Inr (invalid_check v NoKey) else Inr (verify_verdict C v pem ah)))"

declare check_item.simps [simp del]

fun check_items :: "('k, 's) crypto \<Rightarrow> json \<Rightarrow> (dkey, string) dict \<Rightarrow> json list \<Rightarrow> exn + organ_check list" where
  "check_items C ah pubkeys [] = Inr []"
| "check_items C ah pubkeys (item # items) =
     bindE (check_item C ah pubkeys item) (\<lambda>c. bindE (check_items C ah pubkeys items) (\<lambda>cs. Inr (c # cs)))"

definition tally ::
  "('k, 's) crypto \<Rightarrow> json \<Rightarrow> json list \<Rightarrow> (dkey, string) dict \<Rightarrow> int \<Rightarrow> int \<Rightarrow> exn + consensus_result" where
  "tally C action_hash verdicts pubkeys threshold n =
     bindE (check_items C action_hash pubkeys verdicts) (\<lambda>checks.
     let count = length (filter oc_counts checks) in
     Inr \<lparr>cr_action_hash = action_hash, cr_threshold = threshold, cr_n = n, cr_count = count,
          cr_decision = (if threshold \<le> int count then ''canonical'' else ''rejected''), cr_checks = checks\<rparr>)"

section \<open>What counts\<close>

text \<open>
  A genuine allow vote for the action: a body that the organ's key has signed and that says
  \<open>allow\<close> for this action hash.
\<close>

definition allow_vote :: "('k, 's) crypto \<Rightarrow> string \<Rightarrow> json \<Rightarrow> bytes \<Rightarrow> bytes \<Rightarrow> string \<Rightarrow> bool" where
  "allow_vote C pem ty body sig ah \<longleftrightarrow>
     (\<exists>k t d. load_pem_public C pem = Inr k \<and> ty = JStr t \<and> ecdsa_verify C k sig (khipu_pae t body) \<and>
        loads_raw (json_depth C) body = Inr d \<and> jget d ''action_hash'' = Some (JStr ah) \<and>
        jget d ''verdict'' = Some (JStr ''allow''))"

definition b64_of :: "json \<Rightarrow> bytes \<Rightarrow> bool" where
  "b64_of v b \<longleftrightarrow> (\<exists>s. v = JStr s \<and> s \<noteq> [] \<and> b64decode s = Inr b)"

definition genuine :: "('k, 's) crypto \<Rightarrow> organ_verdict \<Rightarrow> string \<Rightarrow> string \<Rightarrow> bool" where
  "genuine C v pem ah \<longleftrightarrow>
     (\<exists>body sig. b64_of (ov_payload v) body \<and> b64_of (ov_signature v) sig \<and>
        allow_vote C pem (ov_payload_type v) body sig ah)"

lemma b64decode_json_Inr: "b64decode_json v = Inr b \<longleftrightarrow> (\<exists>s. v = JStr s \<and> b64decode s = Inr b)"
  by (cases v) auto

lemma pae_json_Inr: "pae_json t b = Inr m \<longleftrightarrow> (\<exists>s. t = JStr s \<and> m = khipu_pae s b)"
  by (cases t) auto

lemma b64_of_truthy: "truthy v \<Longrightarrow> b64decode_json v = Inr b \<longleftrightarrow> b64_of v b"
  by (cases v) (simp_all add: b64_of_def)

lemma jget_or_JStr: "jget_or v k JNull = JStr s \<longleftrightarrow> jget v k = Some (JStr s)"
  by (auto simp: jget_or_def split: option.split)

lemma verify_verdict_body_counts:
  assumes "truthy (ov_payload v)" "truthy (ov_signature v)"
  shows "okE oc_counts (verify_verdict_body C v pem (JStr ah)) \<longleftrightarrow> genuine C v pem ah"
proof -
  have obj: "is_obj d" if "jget d k = Some x" for d k x using that by (cases d) auto
  have no: "oc_counts (invalid_check v r) = False" for r by (simp add: invalid_check_def)
  have "okE oc_counts (verify_verdict_body C v pem (JStr ah)) \<longleftrightarrow>
    (\<exists>body. b64decode_json (ov_payload v) = Inr body \<and> (\<exists>m. pae_json (ov_payload_type v) body = Inr m \<and>
      (\<exists>k. load_pem_public C pem = Inr k \<and> (\<exists>sig. b64decode_json (ov_signature v) = Inr sig \<and>
      ecdsa_verify C k sig m \<and> (\<exists>d. loads_raw (json_depth C) body = Inr d \<and> is_obj d \<and>
        jget_or d ''action_hash'' JNull = JStr ah \<and> jget_or d ''verdict'' JNull = JStr ''allow'')))))"
    unfolding verify_verdict_body_def Let_def okE_simps no by (simp add: okE_iff)
  also have "\<dots> \<longleftrightarrow> genuine C v pem ah"
    unfolding genuine_def allow_vote_def b64_of_truthy [OF assms(1)] b64_of_truthy [OF assms(2)]
      pae_json_Inr jget_or_JStr
    using obj by blast
  finally show ?thesis .
qed

lemma verify_verdict_counts:
  "oc_counts (verify_verdict C v pem (JStr ah)) \<longleftrightarrow> genuine C v pem ah"
proof (cases "truthy (ov_payload v) \<and> truthy (ov_signature v)")
  case True
  have "oc_counts (verify_verdict C v pem (JStr ah)) \<longleftrightarrow> okE oc_counts (verify_verdict_body C v pem (JStr ah))"
    using True by (cases "verify_verdict_body C v pem (JStr ah)") (simp_all add: verify_verdict_def invalid_check_def)
  also have "\<dots> \<longleftrightarrow> genuine C v pem ah" using True verify_verdict_body_counts by blast
  finally show ?thesis .
qed (auto simp: verify_verdict_def invalid_check_def genuine_def b64_of_def)

lemma verify_verdict_body_organ:
  assumes "verify_verdict_body C v pem a = Inr c"
  shows "oc_organ c = ov_organ v"
proof -
  have "\<not> okE (\<lambda>c. oc_organ c \<noteq> ov_organ v) (verify_verdict_body C v pem a)"
    unfolding verify_verdict_body_def Let_def okE_simps by (simp add: okE_iff invalid_check_def)
  with assms show ?thesis by simp
qed

lemma verify_verdict_organ [simp]: "oc_organ (verify_verdict C v pem a) = ov_organ v"
  by (cases "verify_verdict_body C v pem a")
     (simp_all add: verify_verdict_def invalid_check_def verify_verdict_body_organ)

text \<open>A counting check comes from an object that names an organ with a key, and is genuine.\<close>

lemma check_item_counts:
  "(\<exists>c. check_item C (JStr ah) (str_keys pubkeys) item = Inr c \<and> oc_counts c \<and> oc_organ c = o') \<longleftrightarrow>
   (\<exists>organ pem. is_obj item \<and> o' = JStr organ \<and> ov_organ (verdict_from_dict item) = JStr organ \<and>
      map_of pubkeys organ = Some pem \<and> pem \<noteq> [] \<and> genuine C (verdict_from_dict item) pem ah)"
proof -
  let ?v = "verdict_from_dict item"
  show ?thesis
  proof (cases "item = JNull \<or> \<not> is_obj item")
    case True
    then show ?thesis by (auto simp: check_item.simps abstain_check_def)
  next
    case False
    show ?thesis
    proof (cases "ov_organ ?v")
      case (JStr organ)
      with False show ?thesis
        by (cases "map_of pubkeys organ")
           (auto simp: check_item.simps Let_def pubkey_for_def map_of_str_keys invalid_check_def verify_verdict_counts)
    qed (use False in \<open>auto simp: check_item.simps Let_def pubkey_for_def map_of_str_keys float_key_def invalid_check_def
        split: sum.splits dbl.splits\<close>)
  qed
qed

lemma check_items_map:
  "check_items C a pubkeys items = Inr cs \<Longrightarrow> list_all2 (\<lambda>item c. check_item C a pubkeys item = Inr c) items cs"
  by (induction items arbitrary: cs) (auto simp: bindE_Inr_iff)

lemma check_items_error:
  "check_items C a pubkeys items = Inl e \<Longrightarrow> \<exists>item \<in> set items. check_item C a pubkeys item = Inl e"
  by (induction items) (auto simp: bindE_Inl_iff)

lemma counting_organs:
  assumes "check_items C (JStr ah) (str_keys pubkeys) items = Inr cs"
  shows "{oc_organ c |c. c \<in> set cs \<and> oc_counts c} =
    {JStr organ |organ. \<exists>item \<in> set items. \<exists>pem. is_obj item \<and> ov_organ (verdict_from_dict item) = JStr organ \<and>
      map_of pubkeys organ = Some pem \<and> pem \<noteq> [] \<and> genuine C (verdict_from_dict item) pem ah}"
proof -
  note l = check_items_map [OF assms]
  have "{oc_organ c |c. c \<in> set cs \<and> oc_counts c} =
    {o'. \<exists>item \<in> set items. \<exists>c. check_item C (JStr ah) (str_keys pubkeys) item = Inr c \<and> oc_counts c \<and> oc_organ c = o'}"
    using l by (fastforce simp: list_all2_conv_all_nth in_set_conv_nth)
  then show ?thesis unfolding check_item_counts by blast
qed

end
