(* ===== verification/Voting.thy ===== *)
theory Voting
  imports Prelude
begin

text \<open>
  The contract shared by everything in the mesh that accepts a subject once enough distinct
  parties have voted for it (quorum certificates, corroborated changes, witnessed jobs), and
  what follows from the contract by counting.
\<close>

locale threshold_votes =
  fixes voters :: "'a \<Rightarrow> 'o set" and accepted :: "'a \<Rightarrow> bool" and threshold :: nat
  assumes finite_voters: "finite (voters a)"
    and accepted_votes: "accepted a \<Longrightarrow> threshold \<le> card (voters a)"
begin

text \<open>Fewer parties than the threshold cannot have an acceptance of their own.\<close>

lemma outside_voter:
  assumes "accepted a" "finite F" "card F < threshold"
  shows "\<exists>o' \<in> voters a. o' \<notin> F"
proof (rule ccontr)
  assume "\<not> (\<exists>o' \<in> voters a. o' \<notin> F)"
  then have "card (voters a) \<le> card F" using assms(2) by (intro card_mono) auto
  with accepted_votes [OF assms(1)] assms(3) show False by simp
qed

text \<open>Two acceptances among the same electorate share at least \<open>2 * threshold - n\<close> voters.\<close>

lemma common_voters:
  assumes "accepted a" "accepted b" "voters a \<subseteq> U" "voters b \<subseteq> U" "finite U"
  shows "2 * threshold \<le> card U + card (voters a \<inter> voters b)"
proof -
  have "card (voters a) + card (voters b) = card (voters a \<union> voters b) + card (voters a \<inter> voters b)"
    by (rule card_Un_Int) (rule finite_voters)+
  moreover have "card (voters a \<union> voters b) \<le> card U" using assms(3-5) by (intro card_mono) auto
  ultimately show ?thesis using accepted_votes [OF assms(1)] accepted_votes [OF assms(2)] by linarith
qed

end

end
