(* ===== verification/Quorum.thy ===== *)
theory Quorum
  imports Khipu Voting
begin

text \<open>
  \<open>src/szl_mesh/quorum.py\<close>, first part: action hashes, quorum certificates, \<open>propose_action\<close>
  and \<open>verify_quorum\<close> over the consensus engine of \<open>Khipu\<close>. The policy arguments are JSON
  values because the code tests their type. In \<open>propose_action\<close> the keys, the verdicts and
  the organs are strings, a missing verdict dictionary is empty, and the clock and the
  signature nonces of the successive signatures are functions of their number.
\<close>

section \<open>Action hashes\<close>

definition KHIPU_DOCTRINE :: string where [const_defs]: "KHIPU_DOCTRINE = ''749/14/163''"
definition KHIPU_KERNEL :: string where [const_defs]: "KHIPU_KERNEL = ''c7c0ba17''"
definition DEFAULT_N :: int where [const_defs]: "DEFAULT_N = 4"
definition DEFAULT_THRESHOLD :: int where [const_defs]: "DEFAULT_THRESHOLD = 3"

definition DEFAULT_ORGANS :: "string list" where [const_defs]:
  "DEFAULT_ORGANS = [''sentra'', ''amaru'', ''a11oy'', ''killinchu'']"

datatype action = ActStr string | ActBytes bytes | ActDict "(string \<times> json) list" | ActOther

definition hex_digits :: string where
  "hex_digits = ''0123456789abcdef''"

fun action_hash :: "('k, 's) crypto \<Rightarrow> action \<Rightarrow> exn + string" where
  "action_hash C (ActStr s) =
     (let h = lower (strip s) in
      if length h = 64 \<and> (\<forall>c \<in> set h. c \<in> set hex_digits) then Inr h
      else Inr (sha256_hex C s))"
| "action_hash C (ActBytes b) = Inr (sha256_hex C b)"
| "action_hash C (ActDict kvs) = Inr (sha256_hex C (canonical_json (JObj kvs)))"
| "action_hash C ActOther = Inl TypeError"

section \<open>Certificates\<close>

record quorum_certificate =
  qc_action_hash :: string
  qc_witnesses :: "json list"
  qc_threshold :: int
  qc_n :: int
  qc_canonical :: bool
  qc_count :: nat

definition of_n :: "nat \<Rightarrow> int \<Rightarrow> string" where
  "of_n k n = nat_str k @ ''-of-'' @ int_str n"

definition safety_model :: "int \<Rightarrow> int \<Rightarrow> string" where
  "safety_model t n =
     ''khipu-'' @ int_str t @ ''of'' @ int_str n @ ''-quorum (real ECDSA-P256 DSSE); ''
     @ ''unconditional BFT safety = Conjecture 2 (NOT proven)''"

text \<open>Python's \<open>a or b\<close>.\<close>

definition jor :: "json \<Rightarrow> json \<Rightarrow> json" where
  "jor a b = (if truthy a then a else b)"

definition cert_witness :: "json \<Rightarrow> json" where
  "cert_witness w = JObj
     [(''organ'', jget_or w ''organ'' JNull), (''keyid'', jget_or w ''keyid'' JNull),
      (''sig'', jor (jget_or w ''signature'' JNull) (jget_or w ''sig'' JNull)),
      (''payloadType'', jget_or w ''payloadType'' (JStr ORGAN_VERDICT_PAYLOAD_TYPE)),
      (''payload'', jget_or w ''payload'' JNull), (''verdict'', jget_or w ''verdict'' (JStr ''allow''))]"

fun cert_witnesses :: "json list \<Rightarrow> exn + json list" where
  "cert_witnesses [] = Inr []"
| "cert_witnesses (w # ws) =
     (if w = JNull then cert_witnesses ws
      else if \<not> is_obj w then Inl AttributeError
      else bindE (cert_witnesses ws) (\<lambda>vs. Inr (cert_witness w # vs)))"

definition certificate_dict :: "quorum_certificate \<Rightarrow> exn + json" where
  "certificate_dict q =
     bindE (cert_witnesses (qc_witnesses q)) (\<lambda>ws.
     Inr (JObj
       [(''schema'', JStr ''szl.mesh.quorum_certificate/v1''),
        (''action_hash'', JStr (qc_action_hash q)), (''threshold'', JInt (qc_threshold q)), (''n'', JInt (qc_n q)),
        (''canonical'', JBool (qc_canonical q)), (''consensus_count'', JInt (int (qc_count q))),
        (''khipu_consensus'', JStr (of_n (qc_count q) (qc_n q))),
        (''witnesses'', JList ws),
        (''safety_model'', JStr (safety_model (qc_threshold q) (qc_n q))),
        (''doctrine_version'', JStr KHIPU_DOCTRINE), (''kernel_commit'', JStr KHIPU_KERNEL)]))"

text \<open>\<open>_validate_quorum_policy\<close>; the result is the policy as integers.\<close>

fun validate_quorum_policy :: "json \<Rightarrow> json \<Rightarrow> exn + int \<times> int" where
  "validate_quorum_policy (JInt t) (JInt n) = (if 1 \<le> t \<and> t \<le> n then Inr (t, n) else Inl ValueError)"
| "validate_quorum_policy _ _ = Inl ValueError"

section \<open>Proposing\<close>

fun propose_loop ::
  "('k, 's) crypto \<Rightarrow> string \<Rightarrow> (string, string) dict \<Rightarrow> (string, string) dict \<Rightarrow> string \<Rightarrow> string \<Rightarrow> string \<Rightarrow>
   (nat \<Rightarrow> string) \<Rightarrow> (nat \<Rightarrow> bytes) \<Rightarrow> string list \<Rightarrow> json list \<Rightarrow> (string, string) dict \<Rightarrow>
   exn + json list \<times> (string, string) dict" where
  "propose_loop C ah keys verdicts reason lean_sha ts now nonce [] ws pubs = Inr (ws, pubs)"
| "propose_loop C ah keys verdicts reason lean_sha ts now nonce (organ # organs) ws pubs =
     (let pem = (case map_of keys organ of None \<Rightarrow> [] | Some p \<Rightarrow> p) in
      if pem = [] then propose_loop C ah keys verdicts reason lean_sha ts now nonce organs ws pubs
      else
        let verdict = (case map_of verdicts organ of None \<Rightarrow> ''allow'' | Some v \<Rightarrow> v);
            why = (if verdict = ''allow'' then reason
                   else (case map_of verdicts (organ @ '':reason'') of None \<Rightarrow> ''dissent'' | Some r \<Rightarrow> r)) in
        bindE (sign_verdict C organ ah verdict pem why lean_sha ts (now (length ws)) (nonce (length ws))) (\<lambda>rec.
        bindE (load_pem_private C pem) (\<lambda>priv.
        propose_loop C ah keys verdicts reason lean_sha ts now nonce organs (ws @ [rec])
          (put organ (public_pem C (public_key C priv)) pubs))))"

definition propose_action ::
  "('k, 's) crypto \<Rightarrow> action \<Rightarrow> (string, string) dict \<Rightarrow> string list \<Rightarrow> json \<Rightarrow> json \<Rightarrow> (string, string) dict \<Rightarrow>
   string \<Rightarrow> string \<Rightarrow> string \<Rightarrow> (nat \<Rightarrow> string) \<Rightarrow> (nat \<Rightarrow> bytes) \<Rightarrow> exn + quorum_certificate" where
  "propose_action C act keys organs threshold n verdicts reason lean_sha ts now nonce =
     bindE (validate_quorum_policy threshold n) (\<lambda>(t, m).
     bindE (action_hash C act) (\<lambda>ah.
     bindE (propose_loop C ah keys verdicts reason lean_sha ts now nonce organs [] []) (\<lambda>(ws, pubs).
     bindE (tally C (JStr ah) ws (str_keys pubs) t m) (\<lambda>result.
     Inr \<lparr>qc_action_hash = ah, qc_witnesses = ws, qc_threshold = t, qc_n = m,
          qc_canonical = (cr_decision result = ''canonical''), qc_count = cr_count result\<rparr>))))"

section \<open>Verification\<close>

record quorum_verification =
  qv_action_hash :: string
  qv_threshold :: int
  qv_n :: int
  qv_count :: nat
  qv_canonical :: bool
  qv_checks :: "organ_check list"

text \<open>The text of a reason; \<open>txt\<close> gives the text of an exception.\<close>

fun reason_text :: "(exn \<Rightarrow> string) \<Rightarrow> check_reason \<Rightarrow> string" where
  "reason_text txt NoReason = []"
| "reason_text txt MissingPart = ''missing payload/signature''"
| "reason_text txt Mismatch = ''signature mismatch''"
| "reason_text txt (Raised e) = txt e"
| "reason_text txt NoKey = ''no public key''"
| "reason_text txt Abstain = ''abstain/timeout''"

definition verification_dict :: "(exn \<Rightarrow> string) \<Rightarrow> quorum_verification \<Rightarrow> json" where
  "verification_dict txt v = JObj
     [(''action_hash'', JStr (qv_action_hash v)), (''threshold'', JInt (qv_threshold v)), (''n'', JInt (qv_n v)),
      (''consensus_count'', JInt (int (qv_count v))), (''khipu_consensus'', JStr (of_n (qv_count v) (qv_n v))),
      (''canonical'', JBool (qv_canonical v)),
      (''checks'', JList (map (\<lambda>c. JObj
         [(''organ'', oc_organ c), (''keyid'', oc_keyid c), (''valid_sig'', JBool (oc_valid c)),
          (''verdict'', oc_verdict c), (''action_hash_match'', JBool (oc_match c)), (''counts'', JBool (oc_counts c)),
          (''reason'', JStr (reason_text txt (oc_reason c)))]) (qv_checks v))),
      (''safety_model'', JStr (safety_model (qv_threshold v) (qv_n v)))]"

text \<open>What \<open>verify_quorum\<close> is given: a certificate object, or a value from the wire.\<close>

datatype certificate_arg = Certificate quorum_certificate | Wire json

definition rejected :: "int \<Rightarrow> int \<Rightarrow> quorum_verification" where
  "rejected t n = \<lparr>qv_action_hash = [], qv_threshold = t, qv_n = n, qv_count = 0, qv_canonical = False, qv_checks = []\<rparr>"

definition entry_verdict :: "json \<Rightarrow> json" where
  "entry_verdict w = JObj
     [(''organ'', jget_or w ''organ'' JNull), (''keyid'', jget_or w ''keyid'' JNull),
      (''payloadType'', jget_or w ''payloadType'' (JStr ORGAN_VERDICT_PAYLOAD_TYPE)),
      (''payload'', jget_or w ''payload'' JNull),
      (''signature'', jor (jget_or w ''sig'' JNull) (jget_or w ''signature'' JNull)),
      (''verdict'', jget_or w ''verdict'' (JStr ''allow''))]"

definition raw_witnesses :: "json \<Rightarrow> json list" where
  "raw_witnesses qcd = (case jget qcd ''witnesses'' of Some (JList ws) \<Rightarrow> ws | _ \<Rightarrow> [])"

definition verify_entries ::
  "('k, 's) crypto \<Rightarrow> string \<Rightarrow> json list \<Rightarrow> (string, string) dict \<Rightarrow> int \<Rightarrow> int \<Rightarrow> exn + quorum_verification" where
  "verify_entries C ah raw pubkeys t n =
     (let verdicts = map entry_verdict (filter is_obj raw) in
      bindE (tally C (JStr ah) verdicts (str_keys pubkeys) t n) (\<lambda>result.
      let counting_organs = set (map oc_organ (filter (\<lambda>c. oc_counts c \<and> oc_organ c \<noteq> JNull) (cr_checks result)));
          consensus_count = card counting_organs in
      Inr \<lparr>qv_action_hash = ah, qv_threshold = t, qv_n = n, qv_count = consensus_count,
           qv_canonical = (t \<le> int consensus_count), qv_checks = cr_checks result\<rparr>))"

definition verify_dict ::
  "('k, 's) crypto \<Rightarrow> json \<Rightarrow> (string, string) dict \<Rightarrow> int \<Rightarrow> int \<Rightarrow> exn + quorum_verification" where
  "verify_dict C qcd pubkeys t n =
     (if jget_or qcd ''threshold'' (JInt t) \<noteq> JInt t \<or> jget_or qcd ''n'' (JInt n) \<noteq> JInt n then Inr (rejected t n)
      else (case jget qcd ''action_hash'' of
              Some (JStr ah) \<Rightarrow>
                if ah = [] then Inr (rejected t n) else verify_entries C ah (raw_witnesses qcd) pubkeys t n
            | _ \<Rightarrow> Inr (rejected t n)))"

fun verify_quorum ::
  "('k, 's) crypto \<Rightarrow> certificate_arg \<Rightarrow> (string, string) dict \<Rightarrow> json \<Rightarrow> json \<Rightarrow> exn + quorum_verification" where
  "verify_quorum C (Certificate q) pubkeys threshold n =
     bindE (validate_quorum_policy threshold n) (\<lambda>(t, m).
     bindE (certificate_dict q) (\<lambda>qcd. verify_dict C qcd pubkeys t m))"
| "verify_quorum C (Wire v) pubkeys threshold n =
     bindE (validate_quorum_policy threshold n) (\<lambda>(t, m).
     if is_obj v then verify_dict C v pubkeys t m else Inr (rejected t m))"

section \<open>Who approves an action\<close>

text \<open>
  The organs that approve the action hash in a list of witness entries: those with a key in
  the trusted dictionary, under which an entry in the organ's name carries a signature over
  an \<open>allow\<close> statement for this hash.
\<close>

definition approves :: "('k, 's) crypto \<Rightarrow> (string, string) dict \<Rightarrow> string \<Rightarrow> json \<Rightarrow> string \<Rightarrow> bool" where
  "approves C pubkeys ah w organ \<longleftrightarrow>
     jget w ''organ'' = Some (JStr organ) \<and>
     (\<exists>pem body sig. map_of pubkeys organ = Some pem \<and> pem \<noteq> [] \<and> b64_of (jget_or w ''payload'' JNull) body \<and>
        b64_of (jor (jget_or w ''sig'' JNull) (jget_or w ''signature'' JNull)) sig \<and>
        allow_vote C pem (jget_or w ''payloadType'' (JStr ORGAN_VERDICT_PAYLOAD_TYPE)) body sig ah)"

definition approving :: "('k, 's) crypto \<Rightarrow> (string, string) dict \<Rightarrow> string \<Rightarrow> json list \<Rightarrow> string set" where
  "approving C pubkeys ah ws = {organ. \<exists>w \<in> set ws. approves C pubkeys ah w organ}"

lemma approving_keys: "approving C pubkeys ah ws \<subseteq> fst ` set pubkeys"
  by (auto simp: approving_def approves_def dest!: map_of_SomeD intro: rev_image_eqI)

lemma finite_approving: "finite (approving C pubkeys ah ws)"
  using approving_keys by (rule finite_subset) simp

lemma entry_fields:
  "ov_organ (verdict_from_dict (entry_verdict w)) = jget_or w ''organ'' JNull"
  "ov_payload_type (verdict_from_dict (entry_verdict w)) = jget_or w ''payloadType'' (JStr ORGAN_VERDICT_PAYLOAD_TYPE)"
  "ov_payload (verdict_from_dict (entry_verdict w)) = jget_or w ''payload'' JNull"
  "ov_signature (verdict_from_dict (entry_verdict w)) = jor (jget_or w ''sig'' JNull) (jget_or w ''signature'' JNull)"
  "is_obj (entry_verdict w)"
  by (simp_all add: verdict_from_dict_def entry_verdict_def jget_or_def [of "JObj _"])

lemma approves_entry:
  "(\<exists>pem. is_obj (entry_verdict w) \<and> ov_organ (verdict_from_dict (entry_verdict w)) = JStr organ \<and>
      map_of pubkeys organ = Some pem \<and> pem \<noteq> [] \<and> genuine C (verdict_from_dict (entry_verdict w)) pem ah) \<longleftrightarrow>
   approves C pubkeys ah w organ"
  unfolding approves_def genuine_def entry_fields(1-4) jget_or_JStr using entry_fields(5) by blast

lemma counting_approving:
  assumes "check_items C (JStr ah) (str_keys pubkeys) (map entry_verdict (filter is_obj ws)) = Inr cs"
  shows "set (map oc_organ (filter (\<lambda>c. oc_counts c \<and> oc_organ c \<noteq> JNull) cs)) = JStr ` approving C pubkeys ah ws"
proof -
  have obj: "is_obj w" if "approves C pubkeys ah w organ" for w organ
    using that by (cases w) (auto simp: approves_def)
  have bex: "(\<exists>item \<in> set (map f (filter Q ws)). P item) \<longleftrightarrow> (\<exists>w \<in> set ws. Q w \<and> P (f w))"
    for f :: "json \<Rightarrow> json" and Q P by auto
  have "{oc_organ c |c. c \<in> set cs \<and> oc_counts c} =
    {JStr organ |organ. \<exists>w \<in> set ws. is_obj w \<and> approves C pubkeys ah w organ}"
    unfolding counting_organs [OF assms] bex approves_entry ..
  also have "\<dots> = JStr ` approving C pubkeys ah ws"
  proof -
    have eq: "(\<exists>w \<in> set ws. is_obj w \<and> approves C pubkeys ah w organ) \<longleftrightarrow> organ \<in> approving C pubkeys ah ws" for organ
      unfolding approving_def mem_Collect_eq using obj by meson
    show ?thesis unfolding eq image_def by (rule Collect_cong) (simp only: Bex_def conj_commute)
  qed
  finally have *: "{oc_organ c |c. c \<in> set cs \<and> oc_counts c} = JStr ` approving C pubkeys ah ws" .
  have "oc_organ c \<noteq> JNull" if "c \<in> set cs" "oc_counts c" for c
  proof -
    have "oc_organ c \<in> {oc_organ c |c. c \<in> set cs \<and> oc_counts c}" using that by blast
    then show ?thesis unfolding * by auto
  qed
  then have "set (map oc_organ (filter (\<lambda>c. oc_counts c \<and> oc_organ c \<noteq> JNull) cs)) =
    {oc_organ c |c. c \<in> set cs \<and> oc_counts c}" by auto
  with * show ?thesis by simp
qed

lemma card_JStr [simp]: "card (JStr ` S) = card S"
  by (intro card_image inj_onI) simp

section \<open>What verification returns\<close>

definition hashable :: "json \<Rightarrow> bool" where
  "hashable v \<longleftrightarrow> (case v of JList _ \<Rightarrow> False | JObj _ \<Rightarrow> False | _ \<Rightarrow> True)"

lemma pubkey_for_error: "pubkey_for pubkeys v = Inl e \<longleftrightarrow> \<not> hashable v \<and> e = TypeError"
  by (cases v) (auto simp: hashable_def pubkey_for_def)

lemma check_entry_error:
  "check_item C (JStr ah) (str_keys pubkeys) (entry_verdict w) = Inl e \<longleftrightarrow> \<not> hashable (jget_or w ''organ'' JNull) \<and> e = TypeError"
proof -
  have "entry_verdict w \<noteq> JNull" by (simp add: entry_verdict_def)
  then show ?thesis
    unfolding check_item.simps Let_def entry_fields(1) by (simp add: entry_fields(5) bindE_Inl_iff pubkey_for_error)
qed

lemma check_entries_error:
  "check_items C (JStr ah) (str_keys pubkeys) (map entry_verdict ws) = Inl e \<longleftrightarrow>
   (\<exists>w \<in> set ws. \<not> hashable (jget_or w ''organ'' JNull)) \<and> e = TypeError"
proof (induction ws)
  case (Cons w ws)
  have "check_items C (JStr ah) (str_keys pubkeys) (map entry_verdict (w # ws)) = Inl e \<longleftrightarrow>
    check_item C (JStr ah) (str_keys pubkeys) (entry_verdict w) = Inl e \<or>
    (\<exists>c. check_item C (JStr ah) (str_keys pubkeys) (entry_verdict w) = Inr c) \<and> check_items C (JStr ah) (str_keys pubkeys) (map entry_verdict ws) = Inl e"
    by (auto simp: bindE_Inl_iff)
  moreover have "(\<exists>c. check_item C (JStr ah) (str_keys pubkeys) (entry_verdict w) = Inr c) \<longleftrightarrow> hashable (jget_or w ''organ'' JNull)"
    using check_entry_error [of C ah pubkeys w] by (cases "check_item C (JStr ah) (str_keys pubkeys) (entry_verdict w)") auto
  ultimately show ?case unfolding Cons.IH check_entry_error by auto
qed simp

lemma verify_entries_error:
  "verify_entries C ah ws pubkeys t n = Inl e \<longleftrightarrow>
   (\<exists>w \<in> set ws. is_obj w \<and> \<not> hashable (jget_or w ''organ'' JNull)) \<and> e = TypeError"
  unfolding verify_entries_def Let_def tally_def by (auto simp: bindE_Inl_iff check_entries_error)

lemma verify_entries_outcome:
  assumes "verify_entries C ah ws pubkeys t n = Inr r"
  shows "qv_action_hash r = ah" "qv_count r = card (approving C pubkeys ah ws)"
    "qv_canonical r = (t \<le> int (card (approving C pubkeys ah ws)))"
proof -
  from assms obtain cs where cs: "check_items C (JStr ah) (str_keys pubkeys) (map entry_verdict (filter is_obj ws)) = Inr cs" and
    r: "r = \<lparr>qv_action_hash = ah, qv_threshold = t, qv_n = n,
          qv_count = card (set (map oc_organ (filter (\<lambda>c. oc_counts c \<and> oc_organ c \<noteq> JNull) cs))),
          qv_canonical = (t \<le> int (card (set (map oc_organ (filter (\<lambda>c. oc_counts c \<and> oc_organ c \<noteq> JNull) cs))))),
          qv_checks = cs\<rparr>"
    unfolding verify_entries_def Let_def tally_def by (auto simp: bindE_Inr_iff simp del: set_map set_filter)
  show "qv_action_hash r = ah" "qv_count r = card (approving C pubkeys ah ws)"
    "qv_canonical r = (t \<le> int (card (approving C pubkeys ah ws)))"
    unfolding r counting_approving [OF cs] by simp_all
qed

text \<open>
  The certificate's part of the contract: its policy fields, where present, are the caller's,
  and it names the action it is about.
\<close>

definition declares :: "json \<Rightarrow> int \<Rightarrow> int \<Rightarrow> string \<Rightarrow> bool" where
  "declares d t n ah \<longleftrightarrow> jget_or d ''threshold'' (JInt t) = JInt t \<and> jget_or d ''n'' (JInt n) = JInt n \<and>
     jget d ''action_hash'' = Some (JStr ah) \<and> ah \<noteq> []"

lemma declares_obj: "declares d t n ah \<Longrightarrow> is_obj d"
  by (cases d) (simp_all add: declares_def)

lemma verify_dict_cases:
  obtains (checked) ah where "declares d t n ah" "verify_dict C d pubkeys t n = verify_entries C ah (raw_witnesses d) pubkeys t n"
  | (refused) "\<And>ah. \<not> declares d t n ah" "verify_dict C d pubkeys t n = Inr (rejected t n)"
proof (cases "\<exists>ah. declares d t n ah")
  case True
  then obtain ah where "declares d t n ah" ..
  moreover from this have "verify_dict C d pubkeys t n = verify_entries C ah (raw_witnesses d) pubkeys t n"
    by (simp add: verify_dict_def declares_def)
  ultimately show ?thesis by (rule checked)
next
  case False
  then have no: "\<not> declares d t n ah" for ah by blast
  have "verify_dict C d pubkeys t n = Inr (rejected t n)"
    using no by (auto simp: verify_dict_def declares_def split: option.split json.split)
  with no show ?thesis by (rule refused)
qed

lemma verify_wire:
  assumes "1 \<le> t" "t \<le> n"
  shows "verify_quorum C (Wire d) pubkeys (JInt t) (JInt n) = verify_dict C d pubkeys t n"
proof -
  have "verify_dict C d pubkeys t n = Inr (rejected t n)" if "\<not> is_obj d"
    using that declares_obj by (cases rule: verify_dict_cases [of d t n C pubkeys]) auto
  with assms show ?thesis by simp
qed

definition certificate_voters :: "('k, 's) crypto \<Rightarrow> (string, string) dict \<Rightarrow> json \<Rightarrow> string set" where
  "certificate_voters C pubkeys d =
     (case jget d ''action_hash'' of Some (JStr ah) \<Rightarrow> approving C pubkeys ah (raw_witnesses d) | _ \<Rightarrow> {})"

definition certified :: "('k, 's) crypto \<Rightarrow> (string, string) dict \<Rightarrow> int \<Rightarrow> int \<Rightarrow> json \<Rightarrow> bool" where
  "certified C pubkeys t n d \<longleftrightarrow>
     (\<exists>r. verify_quorum C (Wire d) pubkeys (JInt t) (JInt n) = Inr r \<and> qv_canonical r)"

lemma declares_voters:
  "declares d t n ah \<Longrightarrow> certificate_voters C pubkeys d = approving C pubkeys ah (raw_witnesses d)"
  by (simp add: declares_def certificate_voters_def)

lemma verify_wire_outcome:
  assumes "verify_quorum C (Wire d) pubkeys (JInt t) (JInt n) = Inr r"
  shows "(\<exists>ah. declares d t n ah \<and> qv_action_hash r = ah \<and> qv_count r = card (certificate_voters C pubkeys d) \<and>
      qv_canonical r = (t \<le> int (card (certificate_voters C pubkeys d)))) \<or>
    (\<forall>ah. \<not> declares d t n ah) \<and> r = rejected t n"
proof -
  have pol: "1 \<le> t" "t \<le> n" using assms by (auto split: if_splits)
  note v = assms [unfolded verify_wire [OF pol]]
  show ?thesis
  proof (cases rule: verify_dict_cases [of d t n C pubkeys])
    case (checked ah)
    then show ?thesis
      using verify_entries_outcome [OF v [unfolded checked(2)]] declares_voters [OF checked(1)] by metis
  next
    case refused
    with v show ?thesis by auto
  qed
qed

lemma certified_iff:
  assumes "verify_quorum C (Wire d) pubkeys (JInt t) (JInt n) = Inr r"
  shows "qv_canonical r \<longleftrightarrow> (\<exists>ah. declares d t n ah) \<and> t \<le> int (card (certificate_voters C pubkeys d))"
  using verify_wire_outcome [OF assms] by (auto simp: rejected_def)

lemma canonical_voters:
  assumes "verify_quorum C (Wire d) pubkeys (JInt t) (JInt n) = Inr r" "qv_canonical r"
  shows "certificate_voters C pubkeys d = approving C pubkeys (qv_action_hash r) (raw_witnesses d)"
  using verify_wire_outcome [OF assms(1)] assms(2) declares_voters [of d t n "qv_action_hash r" C pubkeys]
  by (auto simp: rejected_def)

interpretation certificates: threshold_votes "certificate_voters C pubkeys" "certified C pubkeys t n" "nat t"
  for C pubkeys t n
proof unfold_locales
  show "finite (certificate_voters C pubkeys d)" for d
    by (auto simp: certificate_voters_def finite_approving split: option.split json.split)
  show "nat t \<le> card (certificate_voters C pubkeys d)" if "certified C pubkeys t n d" for d
    using that certified_iff by (fastforce simp: certified_def)
qed

section \<open>Honest verdicts count\<close>

lemma hex_digits_ascii:
  assumes "\<forall>c \<in> set h. c \<in> set hex_digits"
  shows "is_ascii h"
proof -
  have "\<forall>c \<in> set hex_digits. ord c < 128" by (simp add: hex_digits_def)
  with assms show ?thesis unfolding is_ascii_def by blast
qed

lemma action_hash_ascii:
  assumes "crypto_ok C" "action_hash C act = Inr ah"
  shows "is_ascii ah"
proof (cases act)
  case (ActStr s)
  from assms(2) consider "\<forall>c \<in> set ah. c \<in> set hex_digits" | "ah = sha256_hex C s"
    unfolding ActStr action_hash.simps Let_def by (metis sum.inject(2))
  then show ?thesis using hex_digits_ascii crypto_okD(6) [OF assms(1)] by cases simp_all
qed (use assms crypto_okD(6) [OF assms(1)] in auto)

lemma b64_of_encode: "b \<noteq> [] \<Longrightarrow> b64_of (JStr (b64encode b)) x \<longleftrightarrow> x = b"
  by (auto simp: b64_of_def b64_round)

text \<open>The texts that a witness signs are Unicode.\<close>

abbreviation signable :: "string \<Rightarrow> string \<Rightarrow> string \<Rightarrow> string \<Rightarrow> string \<Rightarrow> string \<Rightarrow> string \<Rightarrow> bool" where
  "signable organ ah verdict reason lean_sha ts now \<equiv>
     utf8_valid organ \<and> utf8_valid ah \<and> utf8_valid verdict \<and> utf8_valid reason \<and> utf8_valid lean_sha \<and>
     utf8_valid ts \<and> utf8_valid now"

definition signed_fields :: "json \<Rightarrow> string \<Rightarrow> string \<Rightarrow> string \<Rightarrow> bool" where
  "signed_fields r organ body sig \<longleftrightarrow>
     jget r ''organ'' = Some (JStr organ) \<and> jget r ''payload'' = Some (JStr (b64encode body)) \<and>
     jget r ''payloadType'' = Some (JStr ORGAN_VERDICT_PAYLOAD_TYPE) \<and>
     jget r ''signature'' = Some (JStr (b64encode sig)) \<and> jget r ''sig'' = None"

lemma sign_verdict_allows:
  assumes C: "crypto_ok C" "1 \<le> json_depth C" and key: "load_pem_private C pem = Inr priv"
    and s: "sign_verdict C organ ah verdict pem reason lean_sha ts now nonce = Inr r"
    and t: "signable organ ah verdict reason lean_sha ts now"
  obtains body sig where "signed_fields r organ body sig" "body \<noteq> []" "sig \<noteq> []"
    "\<And>h. allow_vote C (public_pem C (public_key C priv)) (JStr ORGAN_VERDICT_PAYLOAD_TYPE) body sig h \<longleftrightarrow>
       h = ah \<and> verdict = ''allow''"
proof -
  define st where "st = JObj
    [(''schema'', JStr ''szl.khipu.organ_verdict/v1''), (''organ'', JStr organ), (''keyid'', JStr (organ @ ''-cosign'')),
     (''action_hash'', JStr ah), (''verdict'', JStr verdict), (''reason'', JStr reason),
     (''lean_sha'', JStr lean_sha), (''ts'', JStr (if ts = [] then now else ts))]"
  define body where "body = canonical_json st"
  define sig where "sig = ecdsa_sign C priv nonce (khipu_pae ORGAN_VERDICT_PAYLOAD_TYPE body)"
  have wf: "jwf st" using t by (simp add: st_def utf8_valid_append)
  have depth: "jdepth st \<le> json_depth C"
    using C(2) by (simp add: st_def)
  have loads: "loads_raw (json_depth C) body = Inr (jsort st)"
    unfolding body_def canonical_json_def by (rule loads_raw_dumps [OF wf depth]) (simp add: st_def)
  have get: "jget (jsort st) k = map_option jsort (jget st k)" for k by (rule jget_jsort [OF wf])
  have r: "r = JObj
        [(''organ'', JStr organ), (''keyid'', JStr (organ @ ''-cosign'')), (''payloadType'', JStr ORGAN_VERDICT_PAYLOAD_TYPE),
         (''payload'', JStr (b64encode body)), (''signature'', JStr (b64encode sig)),
         (''verdict'', JStr verdict), (''reason'', JStr reason)]"
    using s unfolding sign_verdict_def Let_def key bindE.simps body_def sig_def st_def by simp
  show ?thesis
  proof (rule that [of body sig])
    show "signed_fields r organ body sig" by (simp add: signed_fields_def r)
    show "body \<noteq> []" by (simp add: body_def canonical_json_def json_dumps_def st_def)
    show "sig \<noteq> []" using crypto_okD(5) [OF C(1)] by (simp add: sig_def)
    have ok: "ecdsa_verify C (public_key C priv) sig (khipu_pae ORGAN_VERDICT_PAYLOAD_TYPE body)"
      unfolding sig_def by (rule crypto_okD(4) [OF C(1)])
    have "jget (jsort st) ''action_hash'' = Some (JStr ah)" "jget (jsort st) ''verdict'' = Some (JStr verdict)"
      unfolding get by (simp_all add: st_def)
    then show "allow_vote C (public_pem C (public_key C priv)) (JStr ORGAN_VERDICT_PAYLOAD_TYPE) body sig h \<longleftrightarrow>
       h = ah \<and> verdict = ''allow''" for h
      unfolding allow_vote_def crypto_okD(2) [OF C(1)] loads using ok by auto
  qed
qed

text \<open>The certificate entry of a signed verdict, and the record that the engine is given.\<close>

lemma signed_entry:
  assumes "signed_fields r organ body sig" "body \<noteq> []" "sig \<noteq> []"
  shows "approves C pubkeys ah (cert_witness r) o' \<longleftrightarrow>
    o' = organ \<and> (\<exists>pem. map_of pubkeys organ = Some pem \<and> pem \<noteq> [] \<and>
      allow_vote C pem (JStr ORGAN_VERDICT_PAYLOAD_TYPE) body sig ah)"
proof -
  have f: "jget (cert_witness r) ''organ'' = Some (JStr organ)"
    "jget_or (cert_witness r) ''payload'' JNull = JStr (b64encode body)"
    "jget_or (cert_witness r) ''payloadType'' (JStr ORGAN_VERDICT_PAYLOAD_TYPE) = JStr ORGAN_VERDICT_PAYLOAD_TYPE"
    "jor (jget_or (cert_witness r) ''sig'' JNull) (jget_or (cert_witness r) ''signature'' JNull) = JStr (b64encode sig)"
    using assms by (simp_all add: signed_fields_def cert_witness_def jget_or_def jor_def)
  show ?thesis unfolding approves_def f b64_of_encode [OF assms(2)] b64_of_encode [OF assms(3)] by auto
qed

lemma signed_genuine:
  assumes "signed_fields r organ body sig" "body \<noteq> []" "sig \<noteq> []"
  shows "genuine C (verdict_from_dict r) pem ah \<longleftrightarrow>
      allow_vote C pem (JStr ORGAN_VERDICT_PAYLOAD_TYPE) body sig ah"
    and "ov_organ (verdict_from_dict r) = JStr organ" and "is_obj r"
proof -
  have f: "ov_organ (verdict_from_dict r) = JStr organ" "ov_payload (verdict_from_dict r) = JStr (b64encode body)"
    "ov_signature (verdict_from_dict r) = JStr (b64encode sig)"
    "ov_payload_type (verdict_from_dict r) = JStr ORGAN_VERDICT_PAYLOAD_TYPE"
    using assms(1) by (simp_all add: signed_fields_def verdict_from_dict_def jget_or_def)
  show "genuine C (verdict_from_dict r) pem ah \<longleftrightarrow> allow_vote C pem (JStr ORGAN_VERDICT_PAYLOAD_TYPE) body sig ah"
    unfolding genuine_def f b64_of_encode [OF assms(2)] b64_of_encode [OF assms(3)] by simp
  show "ov_organ (verdict_from_dict r) = JStr organ" by (rule f)
  show "is_obj r" using assms(1) by (cases r) (simp_all add: signed_fields_def)
qed

lemma signed_check:
  assumes "signed_fields r organ body sig" "body \<noteq> []" "sig \<noteq> []" "map_of pubkeys organ = Some pem" "pem \<noteq> []"
  shows "\<exists>c. check_item C (JStr ah) (str_keys pubkeys) r = Inr c \<and>
    (oc_counts c \<longleftrightarrow> allow_vote C pem (JStr ORGAN_VERDICT_PAYLOAD_TYPE) body sig ah)"
proof -
  note g = signed_genuine [OF assms(1-3)]
  have "check_item C (JStr ah) (str_keys pubkeys) r = Inr (verify_verdict C (verdict_from_dict r) pem (JStr ah))"
    using g(2,3) assms(4,5) by (cases r) (simp_all add: check_item.simps Let_def pubkey_for_def map_of_str_keys)
  then show ?thesis by (simp add: verify_verdict_counts g(1))
qed

section \<open>Proposing and verifying\<close>

definition present :: "(string, string) dict \<Rightarrow> string list \<Rightarrow> string list" where
  "present keys organs = filter (\<lambda>o'. map_of keys o' \<noteq> None \<and> map_of keys o' \<noteq> Some []) organs"

definition verdict_of :: "(string, string) dict \<Rightarrow> string \<Rightarrow> string" where
  "verdict_of verdicts o' = (case map_of verdicts o' of None \<Rightarrow> ''allow'' | Some v \<Rightarrow> v)"

definition texts_ok :: "string list \<Rightarrow> (string, string) dict \<Rightarrow> string \<Rightarrow> string \<Rightarrow> string \<Rightarrow> (nat \<Rightarrow> string) \<Rightarrow> bool" where
  "texts_ok organs verdicts reason lean_sha ts now \<longleftrightarrow>
     (\<forall>o' \<in> set organs. utf8_valid o') \<and> (\<forall>v \<in> snd ` set verdicts. utf8_valid v) \<and>
     utf8_valid reason \<and> utf8_valid lean_sha \<and> utf8_valid ts \<and> (\<forall>i. utf8_valid (now i))"

definition honest_record ::
  "('k, 's) crypto \<Rightarrow> (string, string) dict \<Rightarrow> (string, string) dict \<Rightarrow> string \<Rightarrow> string \<Rightarrow> json \<Rightarrow> bool" where
  "honest_record C keys verdicts ah o' r \<longleftrightarrow>
     (\<exists>priv body sig. load_pem_private C (the (map_of keys o')) = Inr priv \<and> signed_fields r o' body sig \<and>
        body \<noteq> [] \<and> sig \<noteq> [] \<and>
        (\<forall>h. allow_vote C (public_pem C (public_key C priv)) (JStr ORGAN_VERDICT_PAYLOAD_TYPE) body sig h \<longleftrightarrow>
           h = ah \<and> verdict_of verdicts o' = ''allow''))"

text \<open>The trusted dictionary holds the public key of every private key in \<open>keys\<close> that loads.\<close>

definition matching_keys :: "('k, 's) crypto \<Rightarrow> (string, string) dict \<Rightarrow> string set \<Rightarrow> (string, string) dict \<Rightarrow> bool" where
  "matching_keys C keys organs pubkeys \<longleftrightarrow>
     (\<forall>o' \<in> organs. \<forall>priv. load_pem_private C (the (map_of keys o')) = Inr priv \<longrightarrow>
        map_of pubkeys o' = Some (public_pem C (public_key C priv)))"

lemma present_simps [simp]:
  "present keys [] = []"
  "present keys (o' # os) = (if map_of keys o' \<noteq> None \<and> map_of keys o' \<noteq> Some [] then o' # present keys os else present keys os)"
  by (simp_all add: present_def)

lemma texts_ok_Cons: "texts_ok (o' # os) verdicts reason lean_sha ts now \<longleftrightarrow>
    utf8_valid o' \<and> texts_ok os verdicts reason lean_sha ts now"
  by (auto simp: texts_ok_def)

lemma texts_ok_verdict: "texts_ok os verdicts reason lean_sha ts now \<Longrightarrow> map_of verdicts k = Some v \<Longrightarrow> utf8_valid v"
  unfolding texts_ok_def using map_of_SomeD by force

lemma texts_ok_signable:
  assumes "texts_ok (o' # os) verdicts reason lean_sha ts now" "utf8_valid ah"
  shows "signable o' ah (verdict_of verdicts o')
    (if verdict_of verdicts o' = ''allow'' then reason
     else (case map_of verdicts (o' @ '':reason'') of None \<Rightarrow> ''dissent'' | Some r \<Rightarrow> r)) lean_sha ts (now i)"
proof -
  have "utf8_valid ''allow''" "utf8_valid ''dissent''" by (rule ascii_utf8_valid; simp)+
  with assms show ?thesis
    using texts_ok_verdict [OF assms(1)] by (auto simp: verdict_of_def texts_ok_def split: option.split)
qed

lemma propose_loop_signed:
  assumes C: "crypto_ok C" "1 \<le> json_depth C" and ah: "utf8_valid ah"
  shows "texts_ok organs verdicts reason lean_sha ts now \<Longrightarrow>
    propose_loop C ah keys verdicts reason lean_sha ts now nonce organs ws pubs = Inr (ws', pubs') \<Longrightarrow>
    \<exists>rs. ws' = ws @ rs \<and> list_all2 (honest_record C keys verdicts ah) (present keys organs) rs \<and>
      matching_keys C keys (set (present keys organs)) pubs' \<and>
      (\<forall>o'. o' \<notin> set (present keys organs) \<longrightarrow> map_of pubs' o' = map_of pubs o')"
proof (induction organs arbitrary: ws pubs)
  case Nil
  then show ?case by (simp add: matching_keys_def)
next
  case (Cons o' os)
  have ok: "texts_ok os verdicts reason lean_sha ts now" using Cons.prems(1) by (simp add: texts_ok_Cons)
  show ?case
  proof (cases "map_of keys o' \<noteq> None \<and> map_of keys o' \<noteq> Some []")
    case False
    then have "(case map_of keys o' of None \<Rightarrow> [] | Some p \<Rightarrow> p) = []" by auto
    then have "propose_loop C ah keys verdicts reason lean_sha ts now nonce os ws pubs = Inr (ws', pubs')"
      using Cons.prems(2) by (simp add: Let_def)
    from Cons.IH [OF ok this] False show ?thesis by auto
  next
    case True
    then obtain pem where pem: "map_of keys o' = Some pem" "pem \<noteq> []" by auto
    let ?why = "if verdict_of verdicts o' = ''allow'' then reason
       else (case map_of verdicts (o' @ '':reason'') of None \<Rightarrow> ''dissent'' | Some r \<Rightarrow> r)"
    from Cons.prems(2) pem obtain r priv where
      r: "sign_verdict C o' ah (verdict_of verdicts o') pem ?why lean_sha ts (now (length ws)) (nonce (length ws)) = Inr r" and
      priv: "load_pem_private C pem = Inr priv" and
      rest: "propose_loop C ah keys verdicts reason lean_sha ts now nonce os (ws @ [r])
        (put o' (public_pem C (public_key C priv)) pubs) = Inr (ws', pubs')"
      by (auto simp: Let_def bindE_Inr_iff verdict_of_def)
    from Cons.IH [OF ok rest] obtain rs where
      rs: "ws' = (ws @ [r]) @ rs" "list_all2 (honest_record C keys verdicts ah) (present keys os) rs"
      "matching_keys C keys (set (present keys os)) pubs'"
      "\<And>x. x \<notin> set (present keys os) \<Longrightarrow> map_of pubs' x = map_of (put o' (public_pem C (public_key C priv)) pubs) x"
      by blast
    have "honest_record C keys verdicts ah o' r"
      using sign_verdict_allows [OF C priv r texts_ok_signable [OF Cons.prems(1) ah]] priv pem(1)
      unfolding honest_record_def by (metis option.sel)
    moreover have "map_of pubs' o' = Some (public_pem C (public_key C priv))"
    proof (cases "o' \<in> set (present keys os)")
      case True
      then show ?thesis using rs(3) priv pem(1) by (simp add: matching_keys_def)
    next
      case False
      then show ?thesis using rs(4) by simp
    qed
    moreover have "present keys (o' # os) = o' # present keys os" using True by simp
    ultimately show ?thesis
      using rs priv pem(1) by (intro exI [of _ "r # rs"]) (auto simp: matching_keys_def)
  qed
qed

lemma honest_record_counts:
  assumes "crypto_ok C" "honest_record C keys verdicts ah o' r" "matching_keys C keys {o'} pubkeys"
  shows "\<exists>c. check_item C (JStr ah) (str_keys pubkeys) r = Inr c \<and> (oc_counts c \<longleftrightarrow> verdict_of verdicts o' = ''allow'')"
    and "approves C pubkeys ah (cert_witness r) x \<longleftrightarrow> x = o' \<and> verdict_of verdicts o' = ''allow''"
    and "is_obj r"
proof -
  from assms(2) obtain priv body sig where
    r: "load_pem_private C (the (map_of keys o')) = Inr priv" "signed_fields r o' body sig" "body \<noteq> []" "sig \<noteq> []"
    and vote: "\<And>h. allow_vote C (public_pem C (public_key C priv)) (JStr ORGAN_VERDICT_PAYLOAD_TYPE) body sig h \<longleftrightarrow>
       h = ah \<and> verdict_of verdicts o' = ''allow''"
    unfolding honest_record_def by blast
  have pub: "map_of pubkeys o' = Some (public_pem C (public_key C priv))"
    using assms(3) r(1) by (simp add: matching_keys_def)
  note ne = crypto_okD(3) [OF assms(1), of "public_key C priv"]
  show "\<exists>c. check_item C (JStr ah) (str_keys pubkeys) r = Inr c \<and> (oc_counts c \<longleftrightarrow> verdict_of verdicts o' = ''allow'')"
    using signed_check [OF r(2-4) pub ne, of C ah] vote by simp
  show "approves C pubkeys ah (cert_witness r) x \<longleftrightarrow> x = o' \<and> verdict_of verdicts o' = ''allow''"
    unfolding signed_entry [OF r(2-4)] using pub ne vote by simp
  show "is_obj r" using r(2) by (cases r) (simp_all add: signed_fields_def)
qed

lemma matching_keys_subset: "matching_keys C keys A pubkeys \<Longrightarrow> B \<subseteq> A \<Longrightarrow> matching_keys C keys B pubkeys"
  by (auto simp: matching_keys_def)

lemma honest_records_tally:
  assumes "crypto_ok C"
  shows "list_all2 (honest_record C keys verdicts ah) os rs \<Longrightarrow> matching_keys C keys (set os) pubkeys \<Longrightarrow>
    \<exists>cs. check_items C (JStr ah) (str_keys pubkeys) rs = Inr cs \<and>
      length (filter oc_counts cs) = length (filter (\<lambda>o'. verdict_of verdicts o' = ''allow'') os)"
proof (induction rule: list_all2_induct)
  case (Cons o' os r rs)
  have "matching_keys C keys {o'} pubkeys" "matching_keys C keys (set os) pubkeys"
    using Cons.prems by (auto intro: matching_keys_subset)
  with Cons.IH honest_record_counts(1) [OF assms Cons.hyps(1)] show ?case by fastforce
qed simp

lemma honest_records_approving:
  assumes "crypto_ok C"
  shows "list_all2 (honest_record C keys verdicts ah) os rs \<Longrightarrow> matching_keys C keys (set os) pubkeys \<Longrightarrow>
    cert_witnesses rs = Inr (map cert_witness rs) \<and>
    approving C pubkeys ah (map cert_witness rs) = {o' \<in> set os. verdict_of verdicts o' = ''allow''}"
proof (induction rule: list_all2_induct)
  case Nil
  then show ?case by (simp add: approving_def)
next
  case (Cons o' os r rs)
  have m: "matching_keys C keys {o'} pubkeys" "matching_keys C keys (set os) pubkeys"
    using Cons.prems by (auto intro: matching_keys_subset)
  have "approving C pubkeys ah (map cert_witness (r # rs)) =
    {x. approves C pubkeys ah (cert_witness r) x} \<union> approving C pubkeys ah (map cert_witness rs)"
    by (auto simp: approving_def)
  moreover have "r \<noteq> JNull" using honest_record_counts(3) [OF assms Cons.hyps(1) m(1)] by auto
  ultimately show ?case
    using Cons.IH [OF m(2)] honest_record_counts(3) [OF assms Cons.hyps(1) m(1)]
    unfolding honest_record_counts(2) [OF assms Cons.hyps(1) m(1)] by auto
qed

lemma propose_loop_returns:
  assumes "\<forall>o' \<in> set (present keys organs). \<exists>priv. load_pem_private C (the (map_of keys o')) = Inr priv"
  shows "\<exists>x. propose_loop C ah keys verdicts reason lean_sha ts now nonce organs ws pubs = Inr x"
  using assms
proof (induction organs arbitrary: ws pubs)
  case (Cons o' os)
  show ?case
  proof (cases "map_of keys o' \<noteq> None \<and> map_of keys o' \<noteq> Some []")
    case True
    then obtain pem priv where "map_of keys o' = Some pem" "pem \<noteq> []" "load_pem_private C pem = Inr priv"
      using Cons.prems by auto
    then show ?thesis using Cons.IH Cons.prems True by (simp add: Let_def sign_verdict_def)
  next
    case False
    then have "(case map_of keys o' of None \<Rightarrow> [] | Some p \<Rightarrow> p) = []" by auto
    then show ?thesis using Cons.IH Cons.prems False by (simp add: Let_def split: if_splits)
  qed
qed simp

lemma propose_verifies:
  assumes "crypto_ok C" "1 \<le> json_depth C" "distinct organs" "1 \<le> t" "t \<le> n"
    and "texts_ok organs verdicts reason lean_sha ts now" "action_hash C act = Inr ah" "ah \<noteq> []"
    and loads: "\<forall>o' \<in> set (present keys organs). \<exists>priv. load_pem_private C (the (map_of keys o')) = Inr priv"
    and trusted: "matching_keys C keys (set (present keys organs)) pubkeys"
    and k: "k = length (filter (\<lambda>o'. verdict_of verdicts o' = ''allow'') (present keys organs))"
  shows "\<exists>q d r. propose_action C act keys organs (JInt t) (JInt n) verdicts reason lean_sha ts now nonce = Inr q \<and>
    qc_action_hash q = ah \<and> qc_count q = k \<and> qc_canonical q = (t \<le> int k) \<and> certificate_dict q = Inr d \<and>
    verify_quorum C (Certificate q) pubkeys (JInt t) (JInt n) = Inr r \<and>
    verify_quorum C (Wire d) pubkeys (JInt t) (JInt n) = Inr r \<and>
    qv_action_hash r = ah \<and> qv_count r = k \<and> qv_canonical r = (t \<le> int k)"
proof -
  let ?os = "present keys organs"
  from propose_loop_returns [OF loads] obtain ws pubs where
    loop: "propose_loop C ah keys verdicts reason lean_sha ts now nonce organs [] [] = Inr (ws, pubs)" by fastforce
  have "utf8_valid ah" using action_hash_ascii [OF assms(1,7)] by (rule ascii_utf8_valid)
  from propose_loop_signed [OF assms(1,2) this assms(6) loop]
  have ws: "list_all2 (honest_record C keys verdicts ah) ?os ws" and m: "matching_keys C keys (set ?os) pubs" by auto
  from honest_records_tally [OF assms(1) ws m] obtain cs where
    cs: "check_items C (JStr ah) (str_keys pubs) ws = Inr cs" "length (filter oc_counts cs) = k" unfolding k by blast
  define q where "q = \<lparr>qc_action_hash = ah, qc_witnesses = ws, qc_threshold = t, qc_n = n,
          qc_canonical = (t \<le> int k), qc_count = k\<rparr>"
  have q: "propose_action C act keys organs (JInt t) (JInt n) verdicts reason lean_sha ts now nonce = Inr q"
    using assms(4,5,7) loop cs by (simp add: propose_action_def tally_def Let_def q_def)
  note app = honest_records_approving [OF assms(1) ws trusted]
  have "distinct ?os" using assms(3) by (simp add: present_def)
  then have card: "card (approving C pubkeys ah (map cert_witness ws)) = k"
    using app distinct_card [of "filter (\<lambda>o'. verdict_of verdicts o' = ''allow'') ?os"] k by simp
  obtain d where d: "certificate_dict q = Inr d" and dec: "declares d t n ah" and raw: "raw_witnesses d = map cert_witness ws"
    using app assms(8) by (simp add: certificate_dict_def q_def declares_def raw_witnesses_def jget_or_def)
  have v: "verify_dict C d pubkeys t n = verify_entries C ah (map cert_witness ws) pubkeys t n"
    using dec raw by (simp add: verify_dict_def declares_def)
  have "hashable (jget_or (cert_witness w) ''organ'' JNull)" if "w \<in> set ws" for w
  proof -
    from ws that obtain o' where "honest_record C keys verdicts ah o' w"
      by (metis list_all2_conv_all_nth in_set_conv_nth)
    then have "jget w ''organ'' = Some (JStr o')" unfolding honest_record_def signed_fields_def by blast
    then show ?thesis by (simp add: cert_witness_def jget_or_def hashable_def)
  qed
  then have "verify_entries C ah (map cert_witness ws) pubkeys t n \<noteq> Inl e" for e
    unfolding verify_entries_error by auto
  then obtain r where r: "verify_entries C ah (map cert_witness ws) pubkeys t n = Inr r"
    by (cases "verify_entries C ah (map cert_witness ws) pubkeys t n") auto
  have "verify_quorum C (Certificate q) pubkeys (JInt t) (JInt n) = Inr r"
    "verify_quorum C (Wire d) pubkeys (JInt t) (JInt n) = Inr r"
    using assms(4,5) d v r verify_wire [OF assms(4,5), of C d pubkeys] by simp_all
  with q d verify_entries_outcome [OF r] card show ?thesis by (simp add: q_def)
qed

section \<open>Properties\<close>

text \<open>A quorum of the toy cryptography: an organ's key is its name.\<close>

definition sample_keys :: "(string, string) dict" where
  "sample_keys = map (\<lambda>o'. (o', o')) DEFAULT_ORGANS"

definition sample_pubkeys :: "(string, string) dict" where
  "sample_pubkeys = map (\<lambda>o'. (o', public_pem toy_crypto o')) DEFAULT_ORGANS"

lemma sample_present: "present sample_keys DEFAULT_ORGANS = DEFAULT_ORGANS"
  by (simp add: present_def sample_keys_def DEFAULT_ORGANS_def)

lemma sample_matching: "matching_keys toy_crypto sample_keys (set DEFAULT_ORGANS) sample_pubkeys"
  by (simp add: matching_keys_def sample_keys_def sample_pubkeys_def DEFAULT_ORGANS_def toy_crypto_def)

lemma sample_loads:
  "\<forall>o' \<in> set (present sample_keys DEFAULT_ORGANS). \<exists>priv. load_pem_private toy_crypto (the (map_of sample_keys o')) = Inr priv"
  by (simp add: toy_crypto_def)

lemma sample_texts: "texts_ok DEFAULT_ORGANS [] ''ok'' [] [] (\<lambda>_. ''now'')"
  by (auto simp: texts_ok_def DEFAULT_ORGANS_def ascii_utf8_valid)

lemma sample_action: "action_hash toy_crypto (ActBytes ''x'') = Inr (to_hex ''x'')" "to_hex ''x'' \<noteq> []"
  by (simp_all add: toy_crypto_def to_hex_def)

lemma toy_depth: "1 \<le> json_depth toy_crypto"
  by (simp add: toy_crypto_def)

lemma sample_certificate:
  "\<exists>d r. verify_quorum toy_crypto (Wire d) sample_pubkeys (JInt 3) (JInt 4) = Inr r \<and> qv_canonical r \<and>
     qv_action_hash r = to_hex ''x'' \<and> qv_count r = 4"
proof -
  have m: "matching_keys toy_crypto sample_keys (set (present sample_keys DEFAULT_ORGANS)) sample_pubkeys"
    unfolding sample_present by (rule sample_matching)
  have d: "distinct DEFAULT_ORGANS" by (simp add: DEFAULT_ORGANS_def)
  have k: "4 = length (filter (\<lambda>o'. verdict_of [] o' = ''allow'') (present sample_keys DEFAULT_ORGANS))"
    unfolding sample_present by (simp add: verdict_of_def DEFAULT_ORGANS_def)
  have "(1 :: int) \<le> 3" "(3 :: int) \<le> 4" by simp_all
  from propose_verifies [OF toy_crypto_ok toy_depth d this sample_texts sample_action sample_loads m k]
  show ?thesis by fastforce
qed

text \<open>
  C5: \<open>verify_quorum\<close> answers canonical for exactly the certificates whose policy fields agree
  with the caller's policy, that name an action hash, and for which at least \<open>threshold\<close>
  distinct organs of the trusted dictionary have a valid \<open>allow\<close> signature over that hash among
  the entries; the reported count is the number of these organs.
\<close>

theorem quorum_refines_spec:
  assumes "verify_quorum C (Wire d) pubkeys (JInt t) (JInt n) = Inr r"
  shows "(qv_canonical r \<longleftrightarrow>
      (\<exists>ah. declares d t n ah \<and> t \<le> int (card (approving C pubkeys ah (raw_witnesses d))))) \<and>
    (\<forall>ah. declares d t n ah \<longrightarrow> qv_count r = card (approving C pubkeys ah (raw_witnesses d)))"
proof -
  have "qv_canonical r \<longleftrightarrow>
      (\<exists>ah. declares d t n ah \<and> t \<le> int (card (approving C pubkeys ah (raw_witnesses d))))"
    unfolding certified_iff [OF assms] using declares_voters by metis
  moreover have "declares d t n ah \<Longrightarrow> qv_count r = card (approving C pubkeys ah (raw_witnesses d))" for ah
    using verify_wire_outcome [OF assms] declares_voters by metis
  ultimately show ?thesis by blast
qed

theorem quorum_refines_spec_witness:
  "\<exists>d ah. declares d 3 4 ah \<and> 3 \<le> card (approving toy_crypto sample_pubkeys ah (raw_witnesses d))"
proof -
  from sample_certificate obtain d r where
    r: "verify_quorum toy_crypto (Wire d) sample_pubkeys (JInt 3) (JInt 4) = Inr r" "qv_canonical r" by blast
  from quorum_refines_spec [OF r(1)] r(2) show ?thesis by auto
qed



text \<open>
  C20: Accountability. If two certificates are both canonical, whatever their actions, then at
  least \<open>2 * threshold - m\<close> organs have a valid \<open>allow\<close> signature in both, where \<open>m\<close> is the number of
  trusted keys: with 3-of-4 and four trusted keys, two conflicting certificates name at least two
  organs that signed both actions, so with at most one such organ conflicting actions cannot both
  be canonical. (The bound is in terms of the keys: \<open>verify_quorum\<close> never compares their number with
  the \<open>n\<close> of its policy, and from \<open>2 * threshold\<close> keys on nothing is shared.)
\<close>

theorem conflicting_quorums_share_signers:
  assumes "verify_quorum C (Wire d) pubkeys (JInt t) (JInt n) = Inr r" "qv_canonical r"
    and "verify_quorum C (Wire d') pubkeys (JInt t) (JInt n) = Inr r'" "qv_canonical r'"
  shows "2 * t - int (card (fst ` set pubkeys)) \<le> int (card (approving C pubkeys (qv_action_hash r) (raw_witnesses d) \<inter>
    approving C pubkeys (qv_action_hash r') (raw_witnesses d')))"
proof -
  have v: "certificate_voters C pubkeys d = approving C pubkeys (qv_action_hash r) (raw_witnesses d)"
    "certificate_voters C pubkeys d' = approving C pubkeys (qv_action_hash r') (raw_witnesses d')"
    using canonical_voters assms by blast+
  have c: "certified C pubkeys t n d" "certified C pubkeys t n d'"
    using assms by (auto simp: certified_def)
  have "certificate_voters C pubkeys d \<subseteq> fst ` set pubkeys" "certificate_voters C pubkeys d' \<subseteq> fst ` set pubkeys"
    unfolding v by (rule approving_keys)+
  from certificates.common_voters [OF c this]
  have "2 * nat t \<le> card (fst ` set pubkeys) + card (certificate_voters C pubkeys d \<inter> certificate_voters C pubkeys d')"
    by simp
  then show ?thesis unfolding v by linarith
qed

theorem conflicting_quorums_share_signers_witness:
  "\<exists>d. 2 \<le> card (approving toy_crypto sample_pubkeys (to_hex ''x'') (raw_witnesses d))"
proof -
  from sample_certificate obtain d r where
    r: "verify_quorum toy_crypto (Wire d) sample_pubkeys (JInt 3) (JInt 4) = Inr r" "qv_canonical r"
    "qv_action_hash r = to_hex ''x''" by blast
  have "card (fst ` set sample_pubkeys) = 4" by (simp add: sample_pubkeys_def DEFAULT_ORGANS_def)
  with conflicting_quorums_share_signers [OF r(1,2) r(1,2)] r(3) show ?thesis by (intro exI [of _ d]) simp
qed

text \<open>
  C29: Round trip. Witnesses with loadable keys always obtain a certificate from
  \<open>propose_action\<close>, and an independent verifier that trusts the matching public keys reaches the
  same verdict and count, from the certificate object and from its dictionary form alike: the
  count is the number of present organs that said \<open>allow\<close>, canonical if it meets the threshold.
\<close>

theorem propose_verify_round_trip:
  assumes "crypto_ok C" "1 \<le> json_depth C" "distinct organs" "1 \<le> t" "t \<le> n"
    and "texts_ok organs verdicts reason lean_sha ts now" "action_hash C act = Inr ah" "ah \<noteq> []"
    and "\<forall>o' \<in> set (present keys organs). \<exists>priv. load_pem_private C (the (map_of keys o')) = Inr priv"
    and "matching_keys C keys (set (present keys organs)) pubkeys"
  shows "\<exists>q d r. propose_action C act keys organs (JInt t) (JInt n) verdicts reason lean_sha ts now nonce = Inr q \<and>
    certificate_dict q = Inr d \<and>
    verify_quorum C (Certificate q) pubkeys (JInt t) (JInt n) = Inr r \<and>
    verify_quorum C (Wire d) pubkeys (JInt t) (JInt n) = Inr r \<and>
    qc_action_hash q = ah \<and> qv_action_hash r = ah \<and> qv_count r = qc_count q \<and> qv_canonical r = qc_canonical q \<and>
    qc_count q = length (filter (\<lambda>o'. verdict_of verdicts o' = ''allow'') (present keys organs)) \<and>
    qc_canonical q = (t \<le> int (qc_count q))"
  using propose_verifies [OF assms refl] by metis

theorem propose_verify_round_trip_witness:
  "\<exists>q. propose_action toy_crypto (ActBytes ''x'') sample_keys DEFAULT_ORGANS (JInt 3) (JInt 4) [] ''ok'' [] []
      (\<lambda>_. ''now'') (\<lambda>_. []) = Inr q \<and> qc_canonical q"
proof -
  have m: "matching_keys toy_crypto sample_keys (set (present sample_keys DEFAULT_ORGANS)) sample_pubkeys"
    unfolding sample_present by (rule sample_matching)
  have d: "distinct DEFAULT_ORGANS" by (simp add: DEFAULT_ORGANS_def)
  have k: "length (filter (\<lambda>o'. verdict_of [] o' = ''allow'') (present sample_keys DEFAULT_ORGANS)) = 4"
    unfolding sample_present by (simp add: verdict_of_def DEFAULT_ORGANS_def)
  have "(1 :: int) \<le> 3" "(3 :: int) \<le> 4" by simp_all
  from propose_verify_round_trip [OF toy_crypto_ok toy_depth d this sample_texts sample_action sample_loads m, unfolded k]
  show ?thesis by fastforce
qed

text \<open>
  With a valid policy, verification of a value from the wire fails in exactly one way: an
  entry whose \<open>organ\<close> is a list or a dictionary makes it raise \<open>TypeError\<close>, although malformed
  input is documented never to raise.
\<close>

theorem quorum_exceptions:
  assumes "1 \<le> t" "t \<le> n"
  shows "verify_quorum C (Wire d) pubkeys (JInt t) (JInt n) = Inl e \<longleftrightarrow>
    e = TypeError \<and> (\<exists>ah. declares d t n ah) \<and>
    (\<exists>w \<in> set (raw_witnesses d). is_obj w \<and> \<not> hashable (jget_or w ''organ'' JNull))"
proof (cases rule: verify_dict_cases [of d t n C pubkeys])
  case (checked ah)
  then show ?thesis unfolding verify_wire [OF assms] checked(2) verify_entries_error by blast
next
  case refused
  then show ?thesis unfolding verify_wire [OF assms] refused(2) by simp
qed

theorem quorum_exceptions_witness:
  "verify_quorum toy_crypto
     (Wire (JObj [(''action_hash'', JStr ''h''), (''witnesses'', JList [JObj [(''organ'', JList [])]])])) []
     (JInt 3) (JInt 4) = Inl TypeError"
proof -
  let ?d = "JObj [(''action_hash'', JStr ''h''), (''witnesses'', JList [JObj [(''organ'', JList [])]])]"
  have "declares ?d 3 4 ''h''" by (simp add: declares_def jget_or_def)
  moreover have "raw_witnesses ?d = [JObj [(''organ'', JList [])]]" by (simp add: raw_witnesses_def)
  ultimately show ?thesis
    using quorum_exceptions [of 3 4 toy_crypto ?d "[]" TypeError] by (auto simp: jget_or_def hashable_def)
qed

text \<open>
  The engine's own \<open>tally\<close> counts signatures, not organs: one genuine verdict submitted
  \<open>k\<close> times is counted \<open>k\<close> times, and reaches any threshold up to \<open>k\<close>.
\<close>

theorem engine_counts_duplicates:
  assumes "is_obj w" "ov_organ (verdict_from_dict w) = JStr organ" "map_of pubkeys organ = Some pem" "pem \<noteq> []"
    and "genuine C (verdict_from_dict w) pem ah"
  shows "\<exists>res. tally C (JStr ah) (replicate k w) (str_keys pubkeys) t n = Inr res \<and> cr_count res = k \<and>
    cr_decision res = (if t \<le> int k then ''canonical'' else ''rejected'')"
proof -
  have "\<exists>c. check_item C (JStr ah) (str_keys pubkeys) w = Inr c \<and> oc_counts c \<and> oc_organ c = JStr organ"
    unfolding check_item_counts using assms by blast
  then obtain c where c: "check_item C (JStr ah) (str_keys pubkeys) w = Inr c" "oc_counts c" by blast
  have "check_items C (JStr ah) (str_keys pubkeys) (replicate k w) = Inr (replicate k c)"
    using c(1) by (induction k) simp_all
  then show ?thesis using c(2) by (simp add: tally_def Let_def filter_replicate)
qed

theorem engine_counts_duplicates_witness:
  "\<exists>w res. tally toy_crypto (JStr ''h'') (replicate 3 w) (str_keys [(''amaru'', ''-amaru'')]) 3 4 = Inr res \<and>
     cr_decision res = ''canonical''"
proof -
  obtain w0 where sign: "sign_verdict toy_crypto ''amaru'' ''h'' ''allow'' ''amaru'' [] [] [] [] [] = Inr w0"
    unfolding sign_verdict_def Let_def by (simp add: toy_crypto_def del: b64encode.simps)
  have key: "load_pem_private toy_crypto ''amaru'' = Inr ''amaru''" by (simp add: toy_crypto_def)
  have t: "signable ''amaru'' ''h'' ''allow'' [] [] [] []" by (simp add: ascii_utf8_valid)
  from sign_verdict_allows [OF toy_crypto_ok toy_depth key sign t] obtain w body sig where
    w: "signed_fields w ''amaru'' body sig" "body \<noteq> []" "sig \<noteq> []"
    and vote: "allow_vote toy_crypto (public_pem toy_crypto (public_key toy_crypto ''amaru''))
      (JStr ORGAN_VERDICT_PAYLOAD_TYPE) body sig ''h''" by metis
  have pem: "public_pem toy_crypto (public_key toy_crypto ''amaru'') = ''-amaru''" by (simp add: toy_crypto_def)
  note g = signed_genuine [OF w]
  have "genuine toy_crypto (verdict_from_dict w) ''-amaru'' ''h''" unfolding g(1) using vote pem by simp
  from engine_counts_duplicates [OF g(3,2) _ _ this, of "[(''amaru'', ''-amaru'')]" 3 3 4]
  show ?thesis by fastforce
qed

end
