(* ===== verification/Corroboration.thy ===== *)
theory Corroboration
  imports Voting Text
begin

text \<open>
  \<open>src/szl_mesh/quorum.py\<close>, second part: the corroboration ledger that annotates changes with
  the nodes that observed them. A policy has the two integer fields \<open>k\<close> and
  \<open>window_seconds\<close>; \<open>observe\<close> returns the new ledger and the annotation (Python returns a
  shallow copy of it).
\<close>

section \<open>The ledger\<close>

record corr_policy =
  cp_k :: int
  cp_window_seconds :: int

definition DEFAULT_CORROBORATION_POLICIES :: "(string, corr_policy) dict" where
  "DEFAULT_CORROBORATION_POLICIES =
     [(''COMMAND'', \<lparr>cp_k = 2, cp_window_seconds = 30\<rparr>),
      (''PLATFORM_STATUS'', \<lparr>cp_k = 2, cp_window_seconds = 30\<rparr>),
      (''DEPLOYMENT'', \<lparr>cp_k = 1, cp_window_seconds = 60\<rparr>),
      (''PACKAGE'', \<lparr>cp_k = 1, cp_window_seconds = 120\<rparr>),
      (''CELL_FORMATION'', \<lparr>cp_k = 2, cp_window_seconds = 10\<rparr>)]"

record corr_entry =
  ce_status :: string
  ce_nodes :: "string list"
  ce_policy_k :: int
  ce_class :: string
  ce_window_expires_at :: string
  ce_corroborated_at :: "string option"

record corr_ledger =
  cl_policies :: "(string, corr_policy) dict"
  cl_entries :: "(string, corr_entry) dict"
  cl_soft_safety_ap :: bool
  cl_blocks_writes :: bool

definition new_ledger :: corr_ledger where
  "new_ledger = \<lparr>cl_policies = DEFAULT_CORROBORATION_POLICIES, cl_entries = [],
     cl_soft_safety_ap = True, cl_blocks_writes = False\<rparr>"

definition policy_for :: "corr_ledger \<Rightarrow> string \<Rightarrow> corr_policy" where
  "policy_for L cls =
     (case map_of (cl_policies L) cls of None \<Rightarrow> \<lparr>cp_k = 2, cp_window_seconds = 30\<rparr> | Some p \<Rightarrow> p)"

text \<open>Adding a node to an annotation, with the threshold of the class of this observation.\<close>

definition annotate :: "int \<Rightarrow> string \<Rightarrow> corr_entry \<Rightarrow> corr_entry" where
  "annotate k node_id e =
     (let nodes = (if node_id \<in> set (ce_nodes e) then ce_nodes e else ce_nodes e @ [node_id]) in
      e\<lparr>ce_nodes := nodes,
        ce_status := (if ce_status e \<noteq> ''FAILED'' \<and> k \<le> int (card (set nodes)) then ''CORROBORATED''
                      else ce_status e)\<rparr>)"

definition observe :: "corr_ledger \<Rightarrow> string \<Rightarrow> string \<Rightarrow> string \<Rightarrow> string \<Rightarrow> corr_ledger \<times> corr_entry" where
  "observe L change node_id cls window =
     (let k = cp_k (policy_for L cls);
          e = annotate k node_id (case map_of (cl_entries L) change of
                 None \<Rightarrow> \<lparr>ce_status = ''PENDING'', ce_nodes = [], ce_policy_k = k, ce_class = cls,
                          ce_window_expires_at = window, ce_corroborated_at = None\<rparr>
               | Some e \<Rightarrow> e) in
      (L\<lparr>cl_entries := put change e (cl_entries L)\<rparr>, e))"

definition corr_status :: "corr_ledger \<Rightarrow> string \<Rightarrow> string" where
  "corr_status L change =
     (case map_of (cl_entries L) change of None \<Rightarrow> ''PENDING'' | Some e \<Rightarrow> ce_status e)"

definition mark_failed :: "corr_ledger \<Rightarrow> string \<Rightarrow> corr_ledger" where
  "mark_failed L change =
     (case map_of (cl_entries L) change of
        None \<Rightarrow> L
      | Some e \<Rightarrow> L\<lparr>cl_entries := put change (e\<lparr>ce_status := ''FAILED'', ce_corroborated_at := None\<rparr>) (cl_entries L)\<rparr>)"

definition combined_classification :: "string \<Rightarrow> string \<Rightarrow> string" where
  "combined_classification receipt_status corroboration_status =
     (case map_of
        [((''AUTHORIZED'', ''CORROBORATED''), ''Highest confidence '' @ em_dash @ '' command-ready''),
         ((''AUTHORIZED'', ''PENDING''), ''High confidence (single-receipt) '' @ em_dash @ '' usable for command''),
         ((''OBSERVED'', ''CORROBORATED''),
            ''Medium confidence '' @ em_dash @ '' multiple nodes agree, no doctrine proof''),
         ((''OBSERVED'', ''PENDING''), ''Low confidence '' @ em_dash @ '' situational awareness only''),
         ((''AUTHORIZED'', ''FAILED''),
            ''Alert '' @ em_dash @ '' node signed receipt but peers don'' @ [CHR 0x27] @ ''t corroborate the value'')]
        (receipt_status, corroboration_status) of None \<Rightarrow> ''Unknown'' | Some t \<Rightarrow> t)"

section \<open>Histories\<close>

datatype corr_event = Observe string string string string | MarkFailed string

fun corr_step :: "corr_event \<Rightarrow> corr_ledger \<Rightarrow> corr_ledger" where
  "corr_step (Observe change nd cls window) L = fst (observe L change nd cls window)"
| "corr_step (MarkFailed change) L = mark_failed L change"

abbreviation corr_run :: "corr_event list \<Rightarrow> corr_ledger \<Rightarrow> corr_ledger" where
  "corr_run evs L \<equiv> fold corr_step evs L"

text \<open>The nodes that a history reports to have observed a change, and their classes.\<close>

definition observers :: "corr_event list \<Rightarrow> string \<Rightarrow> string set" where
  "observers evs change = {nd. \<exists>cls window. Observe change nd cls window \<in> set evs}"

definition classes_used :: "corr_event list \<Rightarrow> string \<Rightarrow> string set" where
  "classes_used evs change = {cls. \<exists>nd window. Observe change nd cls window \<in> set evs}"

text \<open>What the annotation of a change says after a history, as a specification.\<close>

definition annotation_ok :: "corr_ledger \<Rightarrow> corr_event list \<Rightarrow> string \<Rightarrow> corr_ledger \<Rightarrow> bool" where
  "annotation_ok L0 evs change L \<longleftrightarrow>
     (case map_of (cl_entries L) change of
        None \<Rightarrow> observers evs change = {}
      | Some e \<Rightarrow> set (ce_nodes e) = observers evs change \<and> distinct (ce_nodes e) \<and>
          ce_corroborated_at e = None \<and>
          (ce_status e = ''CORROBORATED'' \<longrightarrow>
             (\<exists>cls \<in> classes_used evs change. cp_k (policy_for L0 cls) \<le> int (card (observers evs change)))) \<and>
          (MarkFailed change \<notin> set evs \<longrightarrow> (ce_status e = ''PENDING'' \<or> ce_status e = ''CORROBORATED'') \<and>
             (\<forall>cls. classes_used evs change \<subseteq> {cls} \<longrightarrow>
                (ce_status e = ''CORROBORATED'' \<longleftrightarrow> cp_k (policy_for L0 cls) \<le> int (card (observers evs change))))))"

lemma policies_kept [simp]:
  "cl_policies (fst (observe L change nd cls window)) = cl_policies L"
  "cl_policies (mark_failed L change) = cl_policies L"
  by (simp_all add: observe_def mark_failed_def Let_def split: option.split)

lemma policy_for_cong: "cl_policies L = cl_policies L' \<Longrightarrow> policy_for L cls = policy_for L' cls"
  by (simp add: policy_for_def)

lemma observers_simps:
  "observers [] change = {}" "classes_used [] change = {}"
  "observers (evs @ [Observe c nd cls w]) change = (if c = change then insert nd (observers evs change) else observers evs change)"
  "observers (evs @ [MarkFailed c]) change = observers evs change"
  "classes_used (evs @ [Observe c nd cls w]) change = (if c = change then insert cls (classes_used evs change) else classes_used evs change)"
  "classes_used (evs @ [MarkFailed c]) change = classes_used evs change"
  by (auto simp: observers_def classes_used_def)

lemma observers_empty: "observers evs change = {} \<longleftrightarrow> classes_used evs change = {}"
  by (auto simp: observers_def classes_used_def)

lemma finite_observers: "finite (observers evs change)"
proof -
  have "observers evs change \<subseteq> (\<lambda>e. case e of Observe _ nd _ _ \<Rightarrow> nd | MarkFailed _ \<Rightarrow> []) ` set evs"
    by (force simp: observers_def)
  then show ?thesis by (rule finite_subset) simp
qed

lemma policies_run: "cl_policies (corr_run evs L) = cl_policies L"
proof (induction evs arbitrary: L)
  case (Cons ev evs)
  then show ?case by (cases ev) simp_all
qed simp

text \<open>One observation of a change that already has an entry.\<close>

lemma observe_entry:
  assumes ok: "annotation_ok L0 evs change L" and pol: "cl_policies L = cl_policies L0"
    and Some: "map_of (cl_entries L) change = Some e"
  shows "annotation_ok L0 (evs @ [Observe change nd cls w]) change (corr_step (Observe change nd cls w) L)"
proof -
  let ?obs = "observers evs change" and ?used = "classes_used evs change"
  let ?k = "\<lambda>x. cp_k (policy_for L0 x)" and ?n = "int (card (insert nd (observers evs change)))"
  have grow: "card ?obs \<le> card (insert nd ?obs)" by (rule card_mono) (auto simp: finite_observers)
  from ok Some have e: "set (ce_nodes e) = ?obs" "distinct (ce_nodes e)" "ce_corroborated_at e = None"
    "ce_status e = ''CORROBORATED'' \<Longrightarrow> \<exists>x \<in> ?used. ?k x \<le> int (card ?obs)"
    "MarkFailed change \<notin> set evs \<Longrightarrow> ce_status e = ''PENDING'' \<or> ce_status e = ''CORROBORATED''"
    "MarkFailed change \<notin> set evs \<Longrightarrow> ?used \<subseteq> {x} \<Longrightarrow> ce_status e = ''CORROBORATED'' \<longleftrightarrow> ?k x \<le> int (card ?obs)" for x
    by (simp_all add: annotation_ok_def)
  let ?e = "annotate (?k cls) nd e"
  have nodes: "set (ce_nodes ?e) = insert nd ?obs" "distinct (ce_nodes ?e)" "ce_corroborated_at ?e = None"
    using e(1-3) by (auto simp: annotate_def Let_def)
  have st: "ce_status ?e = (if ce_status e \<noteq> ''FAILED'' \<and> ?k cls \<le> ?n then ''CORROBORATED'' else ce_status e)"
    using nodes(1) by (simp add: annotate_def Let_def)
  have step: "map_of (cl_entries (corr_step (Observe change nd cls w) L)) change = Some ?e"
    using policy_for_cong [OF pol] by (simp add: observe_def Some Let_def)
  have 1: "\<exists>x \<in> insert cls ?used. ?k x \<le> ?n" if "ce_status ?e = ''CORROBORATED''"
  proof (cases "?k cls \<le> ?n")
    case False
    then have "ce_status e = ''CORROBORATED''" using that unfolding st by simp
    with e(4) obtain x where x: "x \<in> ?used" "?k x \<le> int (card ?obs)" by blast
    with grow have "?k x \<le> ?n" by linarith
    with x(1) show ?thesis by blast
  qed blast
  have 2: "ce_status ?e = ''PENDING'' \<or> ce_status ?e = ''CORROBORATED''" if "MarkFailed change \<notin> set evs"
    using e(5) [OF that] by (auto simp: st)
  have 3: "ce_status ?e = ''CORROBORATED'' \<longleftrightarrow> ?k x \<le> ?n" if "MarkFailed change \<notin> set evs" "insert cls ?used \<subseteq> {x}" for x
  proof -
    have x: "x = cls" "?used \<subseteq> {x}" using that(2) by auto
    show ?thesis using e(5) [OF that(1)] e(6) [OF that(1) x(2)] grow unfolding st x(1) by auto
  qed
  show ?thesis
    unfolding annotation_ok_def step using 1 2 3 nodes by (simp add: observers_simps)
qed

lemma annotation_step:
  assumes "annotation_ok L0 evs change L" "cl_policies L = cl_policies L0"
  shows "annotation_ok L0 (evs @ [ev]) change (corr_step ev L)"
proof (cases "\<exists>c nd cls w. ev = Observe c nd cls w \<and> c = change")
  case True
  then obtain nd cls w where ev: "ev = Observe change nd cls w" by blast
  show ?thesis
  proof (cases "map_of (cl_entries L) change")
    case None
    with assms(1) have "observers evs change = {}" by (simp add: annotation_ok_def)
    then have "observers evs change = {}" "classes_used evs change = {}" using observers_empty by simp_all
    then show ?thesis
      using policy_for_cong [OF assms(2)]
      by (simp add: annotation_ok_def observe_def annotate_def observers_simps Let_def ev None)
  next
    case (Some e)
    then show ?thesis unfolding ev by (rule observe_entry [OF assms])
  qed
next
  case other: False
  show ?thesis
  proof (cases "ev = MarkFailed change")
    case True
    with assms(1) show ?thesis
      by (cases "map_of (cl_entries L) change") (simp_all add: annotation_ok_def mark_failed_def observers_simps)
  next
    case False
    with other have same: "map_of (cl_entries (corr_step ev L)) change = map_of (cl_entries L) change"
      "observers (evs @ [ev]) change = observers evs change" "classes_used (evs @ [ev]) change = classes_used evs change"
      by (cases ev; simp add: observe_def mark_failed_def observers_simps Let_def split: option.split)+
    have keep: "MarkFailed change \<in> set (evs @ [ev]) \<longleftrightarrow> MarkFailed change \<in> set evs" using False by auto
    show ?thesis using assms(1) unfolding annotation_ok_def same keep .
  qed
qed

lemma annotation_run:
  assumes "cl_entries L0 = []"
  shows "annotation_ok L0 evs change (corr_run evs L0)"
proof (induction evs rule: rev_induct)
  case Nil
  with assms show ?case by (simp add: annotation_ok_def observers_simps)
next
  case (snoc ev evs)
  from annotation_step [OF snoc policies_run] show ?case by simp
qed

text \<open>A corroborated change has the votes of its least demanding class.\<close>

definition least_k :: "corr_ledger \<Rightarrow> string set \<Rightarrow> int \<Rightarrow> bool" where
  "least_k L0 classes k \<longleftrightarrow> (\<forall>cls \<in> classes. k \<le> cp_k (policy_for L0 cls))"

definition corroborated_by :: "corr_ledger \<Rightarrow> int \<Rightarrow> corr_event list \<times> string \<Rightarrow> bool" where
  "corroborated_by L0 k = (\<lambda>(evs, change). cl_entries L0 = [] \<and> least_k L0 (classes_used evs change) k \<and>
     corr_status (corr_run evs L0) change = ''CORROBORATED'')"

interpretation corroboration: threshold_votes "\<lambda>(evs, change). observers evs change" "corroborated_by L0 k" "nat k"
  for L0 k
proof (unfold_locales, goal_cases)
  case (1 a)
  show ?case by (cases a) (simp add: finite_observers)
next
  case (2 a)
  obtain evs change where a: "a = (evs, change)" by (cases a)
  from 2 have L0: "cl_entries L0 = []" and k: "least_k L0 (classes_used evs change) k"
    and st: "corr_status (corr_run evs L0) change = ''CORROBORATED''"
    by (simp_all add: a corroborated_by_def)
  obtain e where e: "map_of (cl_entries (corr_run evs L0)) change = Some e" "ce_status e = ''CORROBORATED''"
    using st by (auto simp: corr_status_def split: option.splits)
  with annotation_run [OF L0, of evs change] obtain cls where
    "cls \<in> classes_used evs change" "cp_k (policy_for L0 cls) \<le> int (card (observers evs change))"
    by (auto simp: annotation_ok_def)
  with k have "k \<le> int (card (observers evs change))" by (force simp: least_k_def)
  then show ?case by (simp add: a)
qed

section \<open>Properties\<close>

text \<open>
  C19: Corroboration is convergent. In any history without failures, and whatever the order and
  the repetition of the observations, a change observed under one transition class is
  \<open>CORROBORATED\<close> exactly when at least \<open>k\<close> distinct nodes observed it, for the \<open>k\<close> of that class;
  its annotation lists each of these nodes once.
\<close>

theorem corroboration_converges:
  assumes "cl_entries L0 = []" "MarkFailed change \<notin> set evs" "classes_used evs change = {cls}"
  shows "corr_status (corr_run evs L0) change =
      (if cp_k (policy_for L0 cls) \<le> int (card (observers evs change)) then ''CORROBORATED'' else ''PENDING'') \<and>
    (\<exists>e. map_of (cl_entries (corr_run evs L0)) change = Some e \<and> distinct (ce_nodes e) \<and>
      set (ce_nodes e) = observers evs change)"
proof -
  have "observers evs change \<noteq> {}" using assms(3) observers_empty by simp
  with annotation_run [OF assms(1), of evs change] obtain e where
    e: "map_of (cl_entries (corr_run evs L0)) change = Some e" "distinct (ce_nodes e)"
    "set (ce_nodes e) = observers evs change" "ce_status e = ''PENDING'' \<or> ce_status e = ''CORROBORATED''"
    "ce_status e = ''CORROBORATED'' \<longleftrightarrow> cp_k (policy_for L0 cls) \<le> int (card (observers evs change))"
    using assms(2,3) by (auto simp: annotation_ok_def split: option.splits)
  then show ?thesis by (auto simp: corr_status_def)
qed

theorem corroboration_converges_witness:
  "corr_status (corr_run [Observe ''c'' ''n1'' ''COMMAND'' [], Observe ''c'' ''n2'' ''COMMAND'' []] new_ledger) ''c'' =
     ''CORROBORATED''"
proof -
  let ?evs = "[Observe ''c'' ''n1'' ''COMMAND'' [], Observe ''c'' ''n2'' ''COMMAND'' []]"
  have c: "classes_used ?evs ''c'' = {''COMMAND''}" and o': "observers ?evs ''c'' = {''n1'', ''n2''}"
    by (auto simp: classes_used_def observers_def)
  have k: "cp_k (policy_for new_ledger ''COMMAND'') = 2"
    by (simp add: policy_for_def new_ledger_def DEFAULT_CORROBORATION_POLICIES_def)
  have "cl_entries new_ledger = []" by (simp add: new_ledger_def)
  from corroboration_converges [OF this _ c] show ?thesis unfolding o' k by simp
qed

text \<open>
  C30: Soft safety. If every class under which a change was observed demands more observers than
  there are Byzantine nodes, then a change that ever became \<open>CORROBORATED\<close>, in any history
  including failures, was observed by an honest node.
\<close>

theorem corroboration_soft_safety:
  assumes "cl_entries L0 = []" "corr_status (corr_run evs L0) change = ''CORROBORATED''"
    and "finite byzantine" "\<forall>cls \<in> classes_used evs change. int (card byzantine) < cp_k (policy_for L0 cls)"
  shows "\<exists>nd cls window. Observe change nd cls window \<in> set evs \<and> nd \<notin> byzantine"
proof -
  have "corroborated_by L0 (int (card byzantine) + 1) (evs, change)"
    using assms by (auto simp: corroborated_by_def least_k_def)
  from corroboration.outside_voter [OF this assms(3)] show ?thesis by (auto simp: observers_def)
qed

theorem corroboration_soft_safety_witness:
  "\<exists>nd cls window. Observe ''c'' nd cls window \<in>
     set [Observe ''c'' ''n1'' ''COMMAND'' [], Observe ''c'' ''bad'' ''COMMAND'' []] \<and> nd \<notin> {''bad''}"
proof -
  let ?evs = "[Observe ''c'' ''n1'' ''COMMAND'' [], Observe ''c'' ''bad'' ''COMMAND'' []]"
  have c: "classes_used ?evs ''c'' = {''COMMAND''}" by (auto simp: classes_used_def)
  have k: "cp_k (policy_for new_ledger ''COMMAND'') = 2"
    by (simp add: policy_for_def new_ledger_def DEFAULT_CORROBORATION_POLICIES_def)
  have "corr_status (corr_run ?evs new_ledger) ''c'' = ''CORROBORATED''"
    by (simp add: corr_status_def observe_def annotate_def Let_def k policy_for_cong [of "cl_entries_update f L" L for f L] new_ledger_def
        policy_for_def DEFAULT_CORROBORATION_POLICIES_def)
  from corroboration_soft_safety [OF _ this, of "{''bad''}"] show ?thesis
    unfolding c using k by (simp add: new_ledger_def)
qed

text \<open>
  The class that \<open>observe\<close> is called with is not compared with the class of the entry: one node
  that reports a pending \<open>COMMAND\<close> change again under a class with \<open>k = 1\<close> corroborates it alone,
  although the entry still says that two nodes are required.
\<close>

lemma class_choice_defeats_threshold:
  "let L = corr_run [Observe change nd ''COMMAND'' w, Observe change nd ''PACKAGE'' w'] new_ledger in
   corr_status L change = ''CORROBORATED'' \<and>
   (\<exists>e. map_of (cl_entries L) change = Some e \<and> ce_nodes e = [nd] \<and> ce_policy_k e = 2 \<and> ce_class e = ''COMMAND'')"
  by (simp add: Let_def corr_status_def observe_def annotate_def policy_for_def new_ledger_def DEFAULT_CORROBORATION_POLICIES_def)

end
