(* ===== verification/QuorumDemo.thy ===== *)
theory QuorumDemo
  imports Quorum Corroboration
begin

text \<open>
  \<open>examples/quorum_demo.py\<close>: a quorum of all four organs, one with a witness dropped, one with two
  dissenters, and the annotation of the change by two observers. The generated keys, their PEM
  form, the clock and the nonces are arguments; what is printed is a record.
\<close>

definition gen_keys ::
  "('k, 's) crypto \<Rightarrow> ('s \<Rightarrow> string) \<Rightarrow> (string \<Rightarrow> 's) \<Rightarrow> string list \<Rightarrow> (string, string) dict \<times> (string, string) dict" where
  "gen_keys C pem gen organs =
     foldl (\<lambda>(priv, pub) o'. (put o' (pem (gen o')) priv, put o' (public_pem C (public_key C (gen o'))) pub)) ([], []) organs"

definition demo_action :: action where
  "demo_action = ActDict
     [(''type'', JStr ''szl-mesh/state-transition/v1''), (''crdt_document_id'', JStr ''formation-001/platforms''),
      (''change_hash'', JStr (concat (replicate 8 ''deadbeef''))), (''transition_class'', JStr ''COMMAND''),
      (''node_id'', JStr ''node-alpha'')]"

record quorum_demo =
  qd_consensus :: string
  qd_canonical :: bool
  qd_dropped :: "bool \<times> nat"
  qd_dissent :: "bool \<times> nat"
  qd_statuses :: "string \<times> string"

text \<open>Returning at all is exit code 0. \<open>nonce i\<close> are the nonces of the \<open>i\<close>-th proposal.\<close>

definition quorum_demo_main ::
  "('k, 's) crypto \<Rightarrow> ('s \<Rightarrow> string) \<Rightarrow> (string \<Rightarrow> 's) \<Rightarrow> (nat \<Rightarrow> string) \<Rightarrow> (nat \<Rightarrow> nat \<Rightarrow> bytes) \<Rightarrow> exn + quorum_demo" where
  "quorum_demo_main C pem gen now nonce =
     (let organs = DEFAULT_ORGANS; (priv, pub) = gen_keys C pem gen organs;
          propose = (\<lambda>keys verdicts. propose_action C demo_action keys DEFAULT_ORGANS (JInt DEFAULT_THRESHOLD)
            (JInt DEFAULT_N) verdicts ''ok'' [] [] now);
          dropped = map (\<lambda>o'. (o', case map_of priv o' of None \<Rightarrow> [] | Some p \<Rightarrow> p)) (take 3 organs) in
      bindE (propose priv [] (nonce 0)) (\<lambda>qc.
      bindE (certificate_dict qc) (\<lambda>shown.
      bindE (verify_quorum C (Certificate qc) pub (JInt DEFAULT_THRESHOLD) (JInt DEFAULT_N)) (\<lambda>v.
      bindE (propose dropped [] (nonce 1)) (\<lambda>qc3.
      bindE (propose priv [(organs ! 2, ''block''), (organs ! 3, ''block'')] (nonce 2)) (\<lambda>qc2.
      let ch = concat (replicate 8 ''deadbeef'');
          (L1, a1) = observe new_ledger ch ''node-1'' ''COMMAND'' [];
          (L2, a2) = observe L1 ch ''node-2'' ''COMMAND'' [] in
      Inr \<lparr>qd_consensus = of_n (qv_count v) (qv_n v), qd_canonical = qv_canonical v,
           qd_dropped = (qc_canonical qc3, qc_count qc3), qd_dissent = (qc_canonical qc2, qc_count qc2),
           qd_statuses = (ce_status a1, ce_status a2)\<rparr>))))))"

lemma verified_n: "verify_dict C d pubkeys t n = Inr r \<Longrightarrow> qv_n r = n"
  by (auto simp: verify_dict_def rejected_def verify_entries_def Let_def bindE_Inr_iff split: if_splits option.splits json.splits)

lemma observe_twice:
  "fst (observe new_ledger ch a ''COMMAND'' w) = L \<Longrightarrow> a \<noteq> b \<Longrightarrow>
   ce_status (snd (observe new_ledger ch a ''COMMAND'' w)) = ''PENDING'' \<and>
   ce_status (snd (observe L ch b ''COMMAND'' w)) = ''CORROBORATED''"
  by (auto simp: observe_def annotate_def policy_for_def new_ledger_def DEFAULT_CORROBORATION_POLICIES_def Let_def)

text \<open>One proposal of the demo: with the generated keys of some organs, \<open>k\<close> of which allow the action.\<close>

lemma demo_proposal:
  assumes C: "crypto_ok C" "1 \<le> json_depth C" and now: "\<forall>i. utf8_valid (now i)"
    and ah: "action_hash C demo_action = Inr ah" "ah \<noteq> []"
    and pem: "\<forall>s. load_pem_private C (pem s) = Inr s \<and> pem s \<noteq> []"
    and pub: "\<forall>o' \<in> set DEFAULT_ORGANS. map_of pub o' = Some (public_pem C (public_key C (gen o')))"
    and keys: "\<forall>o' \<in> set (present keys DEFAULT_ORGANS). map_of keys o' = Some (pem (gen o'))"
    and k: "k = length (filter (\<lambda>o'. verdict_of verdicts o' = ''allow'') (present keys DEFAULT_ORGANS))"
    and v: "\<forall>(a, b) \<in> set verdicts. utf8_valid b"
  shows "\<exists>q d r. propose_action C demo_action keys DEFAULT_ORGANS (JInt DEFAULT_THRESHOLD) (JInt DEFAULT_N) verdicts ''ok'' [] [] now nn = Inr q \<and>
      certificate_dict q = Inr d \<and> verify_quorum C (Certificate q) pub (JInt DEFAULT_THRESHOLD) (JInt DEFAULT_N) = Inr r \<and>
      qc_count q = k \<and> qc_canonical q = (3 \<le> int k) \<and> qv_count r = k \<and> qv_canonical r = (3 \<le> int k) \<and> qv_n r = 4"
proof -
  let ?O = "DEFAULT_ORGANS"
  have d: "distinct ?O" by (simp add: DEFAULT_ORGANS_def)
  have "(1 :: int) \<le> 3" "(3 :: int) \<le> 4" by simp_all
  note t = this
  have "texts_ok ?O verdicts ''ok'' [] [] now" using v now by (auto simp: texts_ok_def ascii_utf8_valid DEFAULT_ORGANS_def)
  moreover have "\<forall>o' \<in> set (present keys ?O). \<exists>s. load_pem_private C (the (map_of keys o')) = Inr s" using keys pem by simp
  moreover have "matching_keys C keys (set (present keys ?O)) pub"
    unfolding matching_keys_def
  proof (intro ballI allI impI)
    fix o' s assume o': "o' \<in> set (present keys ?O)" "load_pem_private C (the (map_of keys o')) = Inr s"
    then have "s = gen o'" "o' \<in> set ?O" using keys [rule_format, OF o'(1)] pem by (simp_all add: present_def)
    then show "map_of pub o' = Some (public_pem C (public_key C s))" using pub by simp
  qed
  ultimately obtain q d r where q: "propose_action C demo_action keys ?O (JInt 3) (JInt 4) verdicts ''ok'' [] [] now nn = Inr q"
    "qc_count q = k" "qc_canonical q = (3 \<le> int k)" "certificate_dict q = Inr d"
    "verify_quorum C (Certificate q) pub (JInt 3) (JInt 4) = Inr r" "qv_count r = k" "qv_canonical r = (3 \<le> int k)"
    using propose_verifies [OF C d t _ ah _ _ k] by metis
  have "qv_n r = 4" using q(4,5) by (auto dest: verified_n)
  with q show ?thesis by (simp add: DEFAULT_THRESHOLD_def DEFAULT_N_def)
qed

text \<open>
  The demo shows what it announces, for any generated keys: four of four is canonical, so is three
  with the fourth dropped, two dissenters are not, and two observers corroborate the change.
\<close>

lemma quorum_demo_shows:
  assumes C: "crypto_ok C" "1 \<le> json_depth C" and now: "\<forall>i. utf8_valid (now i)" and dig: "\<forall>b. sha256_hex C b \<noteq> []"
    and pem: "\<forall>s. load_pem_private C (pem s) = Inr s \<and> pem s \<noteq> []"
  shows "quorum_demo_main C pem gen now nonce =
    Inr \<lparr>qd_consensus = ''4-of-4'', qd_canonical = True, qd_dropped = (True, 3), qd_dissent = (False, 2),
         qd_statuses = (''PENDING'', ''CORROBORATED'')\<rparr>"
proof -
  let ?O = "DEFAULT_ORGANS"
  obtain priv pub where keys: "gen_keys C pem gen ?O = (priv, pub)" by fastforce
  have priv: "map_of priv o' = Some (pem (gen o'))" "map_of pub o' = Some (public_pem C (public_key C (gen o')))"
    if "o' \<in> set ?O" for o'
    using keys that by (auto simp: gen_keys_def DEFAULT_ORGANS_def)
  define ks where "ks = map (\<lambda>o'. (o', case map_of priv o' of None \<Rightarrow> [] | Some p \<Rightarrow> p)) (take 3 ?O)"
  have O: "?O = [''sentra'', ''amaru'', ''a11oy'', ''killinchu'']" by (simp add: DEFAULT_ORGANS_def)
  obtain ah where ah: "action_hash C demo_action = Inr ah" "ah \<noteq> []" using dig by (simp add: demo_action_def)
  have pr: "present priv ?O = ?O" "present ks ?O = take 3 ?O"
    using priv pem by (simp_all add: O ks_def)
  note run = demo_proposal [OF C now ah pem, of pub gen]
  have pub: "\<forall>o' \<in> set ?O. map_of pub o' = Some (public_pem C (public_key C (gen o')))" using priv(2) by blast
  have "\<forall>o' \<in> set (present priv ?O). map_of priv o' = Some (pem (gen o'))" using priv pr by simp
  note run4 = run [OF pub this]
  have "\<forall>o' \<in> set (present ks ?O). map_of ks o' = Some (pem (gen o'))" unfolding pr(2) using priv by (auto simp: ks_def O)
  note run3 = run [OF pub this]
  let ?bad = "[(?O ! 2, ''block''), (?O ! 3, ''block'')]"
  have k: "4 = length (filter (\<lambda>o'. verdict_of [] o' = ''allow'') (present priv ?O))"
    "3 = length (filter (\<lambda>o'. verdict_of [] o' = ''allow'') (present ks ?O))"
    "2 = length (filter (\<lambda>o'. verdict_of ?bad o' = ''allow'') (present priv ?O))"
    unfolding pr by (simp_all add: verdict_of_def O)
  have v: "\<forall>(a, b) \<in> set []. utf8_valid b" "\<forall>(a, b) \<in> set ?bad. utf8_valid b" by (simp_all add: ascii_utf8_valid)
  obtain q dd r where a: "propose_action C demo_action priv ?O (JInt DEFAULT_THRESHOLD) (JInt DEFAULT_N) [] ''ok'' [] [] now (nonce 0) = Inr q"
    "certificate_dict q = Inr dd" "verify_quorum C (Certificate q) pub (JInt DEFAULT_THRESHOLD) (JInt DEFAULT_N) = Inr r"
    "qv_count r = 4" "qv_canonical r" "qv_n r = 4"
    using run4 [OF k(1) v(1), of "nonce 0"] by (auto simp del: verify_quorum.simps)
  obtain q3 where b: "propose_action C demo_action ks ?O (JInt DEFAULT_THRESHOLD) (JInt DEFAULT_N) [] ''ok'' [] [] now (nonce 1) = Inr q3"
    "qc_count q3 = 3" "qc_canonical q3"
    using run3 [OF k(2) v(1), of "nonce 1"] by (auto simp del: verify_quorum.simps)
  obtain q2 where c: "propose_action C demo_action priv ?O (JInt DEFAULT_THRESHOLD) (JInt DEFAULT_N) ?bad ''ok'' [] [] now (nonce 2) = Inr q2"
    "qc_count q2 = 2" "\<not> qc_canonical q2"
    using run4 [OF k(3) v(2), of "nonce 2"] by (auto simp del: verify_quorum.simps)
  let ?ch = "concat (replicate 8 ''deadbeef'')"
  obtain L1 a1 L2 a2 where o12: "observe new_ledger ?ch ''node-1'' ''COMMAND'' [] = (L1, a1)"
    "observe L1 ?ch ''node-2'' ''COMMAND'' [] = (L2, a2)" by (metis surj_pair)
  have "ce_status a1 = ''PENDING''" "ce_status a2 = ''CORROBORATED''"
    using observe_twice [of ?ch "''node-1''" "[]" L1 "''node-2''"] o12 by simp_all
  moreover have "of_n 4 4 = ''4-of-4''" by code_simp
  ultimately show ?thesis
    unfolding quorum_demo_main_def Let_def keys prod.case ks_def [symmetric] a(1-3) b(1) c(1) bindE.simps o12
    using a(4-6) b(2,3) c(2,3) by simp
qed

end
