(* ===== verification/KhipuCli.thy ===== *)
theory KhipuCli
  imports Quorum
begin

text \<open>
  \<open>src/szl_mesh/_vendor/khipu_consensus/cli.py\<close>: the command \<open>khipu-verify <receipt.json> <pubkeys-dir>\<close>. The
  environment extends the cryptography by the file system (which paths are regular files, and what
  opening and reading one as text returns or raises) and by \<open>str\<close> on floats, lists and dictionaries.
  The result is the exit code with the dictionary that is printed, if one is.
\<close>

section \<open>The command\<close>

record ('k, 's) cli_env = "('k, 's) crypto" +
  read_text :: "string \<Rightarrow> exn + string"
  is_file :: "string \<Rightarrow> bool"
  str_of :: "json \<Rightarrow> string"

text \<open>\<open>os.path.join(d, name)\<close>: an absolute name replaces the directory.\<close>

definition path_join :: "string \<Rightarrow> string \<Rightarrow> string" where
  "path_join d name =
     (if take 1 name = ''/'' then name
      else if d = [] \<or> last d = CHR ''/'' then d @ name
      else d @ ''/'' @ name)"

text \<open>A value inside an f-string.\<close>

fun organ_text :: "('k, 's) cli_env \<Rightarrow> json \<Rightarrow> string" where
  "organ_text E (JStr s) = s"
| "organ_text E JNull = ''None''"
| "organ_text E (JBool b) = (if b then ''True'' else ''False'')"
| "organ_text E (JInt i) = int_str i"
| "organ_text E v = str_of E v"

text \<open>What \<open>for s in sigs\<close> runs through; the characters of a text only matter as being no objects.\<close>

fun iterate :: "json \<Rightarrow> exn + json list" where
  "iterate (JList xs) = Inr xs"
| "iterate (JStr s) = Inr (map (\<lambda>c. JStr [c]) s)"
| "iterate (JObj kvs) = Inr (map (\<lambda>(k, v). JStr k) kvs)"
| "iterate _ = Inl TypeError"

text \<open>The first of the two candidates that is a file.\<close>

definition key_file :: "('k, 's) cli_env \<Rightarrow> string \<Rightarrow> json \<Rightarrow> string option" where
  "key_file E pkdir organ =
     find (is_file E) (map (\<lambda>ext. path_join pkdir (organ_text E organ @ ext)) [''.pub'', ''.test.pub''])"

fun collect_keys ::
  "('k, 's) cli_env \<Rightarrow> string \<Rightarrow> json list \<Rightarrow> (dkey, string) dict \<Rightarrow> exn + (dkey, string) dict" where
  "collect_keys E pkdir [] pubkeys = Inr pubkeys"
| "collect_keys E pkdir (s # sigs) pubkeys =
     (if \<not> truthy s then collect_keys E pkdir sigs pubkeys
      else if \<not> is_obj s then Inl AttributeError
      else
        let organ = jget_or s ''organ'' JNull in
        case key_file E pkdir organ of
          None \<Rightarrow> collect_keys E pkdir sigs pubkeys
        | Some p \<Rightarrow>
            bindE (read_text E p) (\<lambda>pem.
            bindE (dict_key organ) (\<lambda>k.
            collect_keys E pkdir sigs (put k pem pubkeys))))"

definition receipt_action :: "json \<Rightarrow> json" where
  "receipt_action receipt = jor (jget_or receipt ''action'' JNull) (jget_or receipt ''action_hash'' JNull)"

definition receipt_sigs :: "json \<Rightarrow> json" where
  "receipt_sigs receipt =
     jor (jor (jget_or receipt ''signatures'' JNull) (jget_or receipt ''signatures_received'' JNull)) (JList [])"

definition cli_output :: "consensus_result \<Rightarrow> json" where
  "cli_output r = JObj
     [(''consensus'', JStr (of_n (cr_count r) (cr_n r))), (''decision'', JStr (cr_decision r)),
      (''consensus_count'', JInt (int (cr_count r))), (''threshold'', JInt (cr_threshold r))]"

text \<open>\<open>argv or sys.argv[1:]\<close>: an empty list is replaced like an absent one.\<close>

definition khipu_verify ::
  "('k, 's) cli_env \<Rightarrow> string list option \<Rightarrow> string list \<Rightarrow> exn + int \<times> json option" where
  "khipu_verify E argv sys_argv =
     (let C = crypto.truncate E;
          args = (case argv of None \<Rightarrow> sys_argv | Some [] \<Rightarrow> sys_argv | Some a \<Rightarrow> a) in
      case args of
        path # pkdir # _ \<Rightarrow>
          bindE (read_text E path) (\<lambda>text.
          bindE (json_loads (json_depth C) text) (\<lambda>receipt.
          if \<not> is_obj receipt then Inl AttributeError
          else
            bindE (iterate (receipt_sigs receipt)) (\<lambda>sigs.
            bindE (collect_keys E pkdir sigs []) (\<lambda>pubkeys.
            bindE (py_int (jget_or receipt ''threshold'' (JInt 3))) (\<lambda>threshold.
            bindE (py_int (jget_or receipt ''n'' (JInt 4))) (\<lambda>n.
            bindE (tally C (receipt_action receipt) sigs pubkeys threshold n) (\<lambda>r.
            Inr (if cr_decision r = ''canonical'' then 0 else 1, Some (cli_output r)))))))))
      | _ \<Rightarrow> Inr (2, None))"

section \<open>What the exit code says\<close>

definition names :: "json \<Rightarrow> string \<Rightarrow> bool" where
  "names s organ \<longleftrightarrow> jget s ''organ'' = Some (JStr organ)"

text \<open>An entry that votes for the action: a genuine allow vote under the key file of the organ it names.\<close>

definition cli_vote :: "('k, 's) cli_env \<Rightarrow> string \<Rightarrow> string \<Rightarrow> json \<Rightarrow> bool" where
  "cli_vote E pkdir action s \<longleftrightarrow>
     (\<exists>organ p pem. names s organ \<and> key_file E pkdir (JStr organ) = Some p \<and> read_text E p = Inr pem \<and> pem \<noteq> [] \<and>
        genuine (crypto.truncate E) (verdict_from_dict s) pem action)"

text \<open>The text of the key file of an organ, where it has one.\<close>

definition key_text :: "('k, 's) cli_env \<Rightarrow> string \<Rightarrow> string \<Rightarrow> string option" where
  "key_text E pkdir organ =
     (case key_file E pkdir (JStr organ) of
        None \<Rightarrow> None
      | Some p \<Rightarrow> (case read_text E p of Inl _ \<Rightarrow> None | Inr pem \<Rightarrow> Some pem))"

lemma put_str_keys: "put (KStr k) v (str_keys d) = str_keys (put k v d)"
  by (induction d) (auto simp: str_keys_def)

lemma names_obj: "names s organ \<Longrightarrow> is_obj s \<and> truthy s \<and> jget_or s ''organ'' JNull = JStr organ"
  by (cases s) (auto simp: names_def jget_or_def)

lemma key_file_is_file: "key_file E pkdir organ = Some p \<Longrightarrow> is_file E p"
  unfolding key_file_def find_Some_iff by blast

lemma collect_keys_step:
  assumes "names s organ"
  shows "collect_keys E pkdir (s # sigs) pubkeys =
    (case key_file E pkdir (JStr organ) of
       None \<Rightarrow> collect_keys E pkdir sigs pubkeys
     | Some p \<Rightarrow> bindE (read_text E p) (\<lambda>pem. collect_keys E pkdir sigs (put (KStr organ) pem pubkeys)))"
  using names_obj [OF assms] by (simp add: Let_def split: option.split)

declare collect_keys.simps(2) [simp del]

lemma collect_keys_text:
  assumes "\<forall>p. is_file E p \<longrightarrow> (\<exists>pem. read_text E p = Inr pem)"
  shows "\<forall>s \<in> set sigs. \<exists>organ. names s organ \<Longrightarrow>
    \<exists>d'. collect_keys E pkdir sigs (str_keys d) = Inr (str_keys d') \<and>
      (\<forall>organ. map_of d' organ =
        (if (\<exists>s \<in> set sigs. names s organ) \<and> key_text E pkdir organ \<noteq> None then key_text E pkdir organ else map_of d organ))"
proof (induction sigs arbitrary: d)
  case (Cons s sigs)
  then obtain organ where n: "names s organ" and rest: "\<forall>s \<in> set sigs. \<exists>organ. names s organ" by auto
  have only: "names s x \<longleftrightarrow> x = organ" for x using n by (auto simp: names_def)
  show ?case
  proof (cases "key_file E pkdir (JStr organ)")
    case None
    from Cons.IH [OF rest, of d] obtain d' where
      "collect_keys E pkdir sigs (str_keys d) = Inr (str_keys d')"
      "\<forall>x. map_of d' x = (if (\<exists>s \<in> set sigs. names s x) \<and> key_text E pkdir x \<noteq> None then key_text E pkdir x else map_of d x)"
      by blast
    with None show ?thesis
      by (intro exI [of _ d']) (auto simp: collect_keys_step [OF n] only key_text_def)
  next
    case (Some p)
    then obtain pem where p: "read_text E p = Inr pem" using assms key_file_is_file by blast
    from Cons.IH [OF rest, of "put organ pem d"] obtain d' where
      "collect_keys E pkdir sigs (str_keys (put organ pem d)) = Inr (str_keys d')"
      "\<forall>x. map_of d' x =
        (if (\<exists>s \<in> set sigs. names s x) \<and> key_text E pkdir x \<noteq> None then key_text E pkdir x else map_of (put organ pem d) x)"
      by blast
    with Some p show ?thesis
      by (intro exI [of _ d']) (auto simp: collect_keys_step [OF n] put_str_keys only key_text_def)
  qed
qed (auto simp: str_keys_def)

lemma check_item_votes:
  assumes "names s organ" "\<forall>organ. names s organ \<longrightarrow> map_of d organ = key_text E pkdir organ"
  shows "\<exists>c. check_item (crypto.truncate E) (JStr action) (str_keys d) s = Inr c \<and> (oc_counts c \<longleftrightarrow> cli_vote E pkdir action s)"
proof -
  let ?v = "verdict_from_dict s"
  have s: "is_obj s" "s \<noteq> JNull" "ov_organ ?v = JStr organ"
    using assms(1) names_obj [OF assms(1)] by (auto simp: names_def verdict_from_dict_def jget_or_def)
  have vote: "cli_vote E pkdir action s \<longleftrightarrow>
      (\<exists>pem. map_of d organ = Some pem \<and> pem \<noteq> [] \<and> genuine (crypto.truncate E) ?v pem action)"
    using assms by (auto simp: cli_vote_def names_def key_text_def split: option.splits sum.splits)
  show ?thesis
    using s by (cases "map_of d organ")
      (auto simp: vote check_item.simps Let_def pubkey_for_def map_of_str_keys invalid_check_def verify_verdict_counts)
qed

lemma check_items_votes:
  assumes "\<forall>s \<in> set sigs. \<exists>c. check_item C a pubkeys s = Inr c \<and> (oc_counts c \<longleftrightarrow> P s)"
  shows "\<exists>cs. check_items C a pubkeys sigs = Inr cs \<and> length (filter oc_counts cs) = length (filter P sigs)"
  using assms by (induction sigs) fastforce+

text \<open>
  C40: For a receipt whose action and organs are texts and whose numbers convert, with readable key files:
  the command exits with 0 exactly when at least \<open>threshold\<close> entries vote for the action.
\<close>

theorem khipu_verify_exit:
  assumes "read_text E path = Inr text" "json_loads (json_depth E) text = Inr receipt" "is_obj receipt"
    and "receipt_action receipt = JStr action" "receipt_sigs receipt = JList sigs"
    and "\<forall>s \<in> set sigs. \<exists>organ. names s organ"
    and "py_int (jget_or receipt ''threshold'' (JInt 3)) = Inr t" "py_int (jget_or receipt ''n'' (JInt 4)) = Inr n"
    and "\<forall>p. is_file E p \<longrightarrow> (\<exists>pem. read_text E p = Inr pem)"
  shows "\<exists>out. khipu_verify E (Some [path, pkdir]) sys =
    Inr (if t \<le> int (length (filter (cli_vote E pkdir action) sigs)) then 0 else 1, Some out)"
proof -
  let ?C = "crypto.truncate E"
  from collect_keys_text [OF assms(9,6), of pkdir "[]"] obtain d where
    d: "collect_keys E pkdir sigs [] = Inr (str_keys d)" and
    look: "\<And>organ. map_of d organ =
      (if (\<exists>s \<in> set sigs. names s organ) \<and> key_text E pkdir organ \<noteq> None then key_text E pkdir organ else None)"
    by (auto simp: str_keys_def)
  have "\<forall>s \<in> set sigs. \<exists>c. check_item ?C (JStr action) (str_keys d) s = Inr c \<and> (oc_counts c \<longleftrightarrow> cli_vote E pkdir action s)"
  proof
    fix s assume s: "s \<in> set sigs"
    with assms(6) obtain organ where n: "names s organ" by blast
    have "\<forall>organ. names s organ \<longrightarrow> map_of d organ = key_text E pkdir organ" using s look by auto
    with n show "\<exists>c. check_item ?C (JStr action) (str_keys d) s = Inr c \<and> (oc_counts c \<longleftrightarrow> cli_vote E pkdir action s)"
      by (rule check_item_votes)
  qed
  from check_items_votes [OF this] obtain cs where
    cs: "check_items ?C (JStr action) (str_keys d) sigs = Inr cs"
    "length (filter oc_counts cs) = length (filter (cli_vote E pkdir action) sigs)" by blast
  have "json_depth ?C = json_depth E" by (simp add: crypto.truncate_def)
  then show ?thesis using assms(1-5,7,8) d cs by (simp add: khipu_verify_def tally_def Let_def)
qed

text \<open>A receipt with one signature, of the toy cryptography.\<close>

definition sample_receipt :: "json \<Rightarrow> json" where
  "sample_receipt r = JObj [(''action'', JStr ''act''), (''n'', JInt 1), (''signatures'', JList [r]), (''threshold'', JInt 1)]"

definition sample_env :: "json \<Rightarrow> (string, string) cli_env" where
  "sample_env r = crypto.extend toy_crypto
     \<lparr>read_text = (\<lambda>p. Inr (if p = ''receipt.json'' then json_dumps True (sample_receipt r) else ''-a'')),
      is_file = (\<lambda>p. p = ''keys/a.pub''), str_of = (\<lambda>v. [])\<rparr>"

lemma sample_env_simps:
  "crypto.truncate (sample_env r) = toy_crypto" "json_depth (sample_env r) = 100"
  "read_text (sample_env r) p = Inr (if p = ''receipt.json'' then json_dumps True (sample_receipt r) else ''-a'')"
  "is_file (sample_env r) p \<longleftrightarrow> p = ''keys/a.pub''"
  by (simp_all add: sample_env_def crypto.truncate_def crypto.extend_def toy_crypto_def)

theorem khipu_verify_exit_witness:
  "\<exists>r out. khipu_verify (sample_env r) (Some [''receipt.json'', ''keys'']) [] = Inr (0, Some out)"
proof -
  obtain r where r: "sign_verdict toy_crypto ''a'' ''act'' ''allow'' ''a'' [] [] [] ''now'' [] = Inr r"
    by (simp add: sign_verdict_def Let_def toy_crypto_def)
  have load: "load_pem_private toy_crypto ''a'' = Inr ''a''" by (simp add: toy_crypto_def)
  have sg: "signable ''a'' ''act'' ''allow'' [] [] [] ''now''" by (simp add: ascii_utf8_valid)
  from sign_verdict_allows [OF toy_crypto_ok toy_depth load r sg] obtain body sig where
    b: "signed_fields r ''a'' body sig" "body \<noteq> []" "sig \<noteq> []" and
    allow: "\<And>h. allow_vote toy_crypto (public_pem toy_crypto (public_key toy_crypto ''a''))
       (JStr ORGAN_VERDICT_PAYLOAD_TYPE) body sig h \<longleftrightarrow> h = ''act'' \<and> ''allow'' = ''allow''" by blast
  have pem: "public_pem toy_crypto (public_key toy_crypto ''a'') = ''-a''" by (simp add: toy_crypto_def)
  have wf: "jwf r" "jdepth r = 1" using r
    by (auto simp: sign_verdict_def Let_def load utf8_valid_append ascii_utf8_valid b64encode_ascii ORGAN_VERDICT_PAYLOAD_TYPE_def)
  then have loads: "json_loads (json_depth (sample_env r)) (json_dumps True (sample_receipt r)) = Inr (jsort (sample_receipt r))"
    by (intro loads_dumps) (simp_all add: sample_receipt_def sample_env_simps ascii_utf8_valid)
  have sorted: "jsort (sample_receipt r) = sample_receipt (jsort r)"
    by (simp add: sample_receipt_def)
  have get: "jget (jsort r) k = map_option jsort (jget r k)" for k by (rule jget_jsort [OF wf(1)])
  have v: "verdict_from_dict (jsort r) = verdict_from_dict r"
    using r by (auto simp: verdict_from_dict_def jget_or_def get sign_verdict_def Let_def load)
  have key: "key_file (sample_env r) ''keys'' (JStr ''a'') = Some ''keys/a.pub''"
    by (simp add: key_file_def path_join_def sample_env_simps)
  have name: "names (jsort r) ''a''" using b(1) by (simp add: names_def get signed_fields_def)
  have "genuine toy_crypto (verdict_from_dict (jsort r)) ''-a'' ''act''"
    unfolding v signed_genuine(1) [OF b] using allow unfolding pem by simp
  with key name have vote: "cli_vote (sample_env r) ''keys'' ''act'' (jsort r)"
    unfolding cli_vote_def sample_env_simps
    by (intro exI [of _ "''a''"] exI [of _ "''keys/a.pub''"] exI [of _ "''-a''"]) simp
  show ?thesis
    using khipu_verify_exit [of "sample_env r" "''receipt.json''" _ "sample_receipt (jsort r)" "''act''" "[jsort r]" 1 1 "''keys''" "[]"]
      loads vote name
    by (auto simp: sorted sample_env_simps sample_receipt_def receipt_action_def receipt_sigs_def jget_or_def jor_def)
qed

section \<open>Two gaps\<close>

text \<open>
  The threshold comes from the receipt that is being verified: a receipt that asks for none is
  canonical without any signature, whatever the key directory holds.
\<close>

theorem receipt_chooses_threshold:
  assumes "read_text E path = Inr text" "json_loads (json_depth E) text = Inr (JObj [(''action'', a), (''threshold'', JInt 0)])"
  shows "\<exists>out. khipu_verify E (Some [path, pkdir]) sys = Inr (0, Some out)"
proof -
  have "json_depth (crypto.truncate E) = json_depth E" by (simp add: crypto.truncate_def)
  then show ?thesis using assms by (simp add: khipu_verify_def receipt_sigs_def jget_or_def jor_def tally_def Let_def)
qed

text \<open>The organ's name is joined to the directory as it is: an absolute name leaves it.\<close>

lemma organ_leaves_directory:
  "key_file E pkdir (JStr (CHR ''/'' # name)) = key_file E pkdir' (JStr (CHR ''/'' # name))"
  by (simp add: key_file_def path_join_def)

end
