(* ===== verification/Ledger.thy ===== *)
theory Ledger
  imports Crypto Double
begin

text \<open>
  \<open>src/sovereign/szl_mesh_agent.py\<close>, the hash-chained receipt ledger \<open>JobReceiptLedger\<close>. The
  printing of floats (the shortest literal) is a parameter, a field of the environment \<open>py\<close>.
  A receipt is the dictionary of the code; the job id, the model and the label are whatever the
  request carried; \<open>now 0\<close> and \<open>now 1\<close> are the two readings of the clock that appending makes, for the
  receipt and for its signature. The lock is left out: operations are atomic.
\<close>

section \<open>Chain hashes\<close>

record ('k, 's) py = "('k, 's) crypto" +
  float_repr :: "dbl \<Rightarrow> string"

definition PAYLOAD_TYPE_RECEIPT :: string where [const_defs]:
  "PAYLOAD_TYPE_RECEIPT = ''application/vnd.szl.mesh.receipt+json''"

definition COSIGN_KEYID :: string where [const_defs]:
  "COSIGN_KEYID = ''szlholdings-cosign-d3028f8a''"

definition GENESIS_HASH :: string where
  "GENESIS_HASH = replicate 64 CHR ''0''"

definition khipu_hash :: "('k, 's) py \<Rightarrow> string \<Rightarrow> bytes \<Rightarrow> string" where
  "khipu_hash C prev_hash receipt_body = sha256_hex C (prev_hash @ receipt_body)"

definition agent_json :: "json \<Rightarrow> bytes" where
  "agent_json v = json_dumps False v"

section \<open>The ledger\<close>

type_synonym receipt = "(string \<times> json) list"

record ledger_entry =
  le_receipt :: receipt
  le_dsse :: json
  le_chain_hash :: string
  le_seq :: nat

record ledger =
  jl_node_id :: string
  jl_secret :: bytes
  jl_chain :: "ledger_entry list"
  jl_head_hash :: string

definition new_job_ledger :: "string \<Rightarrow> bytes \<Rightarrow> ledger" where
  "new_job_ledger node_id secret =
     \<lparr>jl_node_id = node_id, jl_secret = secret, jl_chain = [], jl_head_hash = GENESIS_HASH\<rparr>"

definition sign_receipt :: "('k, 's) py \<Rightarrow> bytes \<Rightarrow> receipt \<Rightarrow> datetime \<Rightarrow> json" where
  "sign_receipt C secret receipt now =
     (let body = agent_json (JObj receipt);
          to_sign = agent_pae PAYLOAD_TYPE_RECEIPT body;
          mac = hmac_digest C secret to_sign in
      JObj [(''payloadType'', JStr PAYLOAD_TYPE_RECEIPT),
        (''payload'', JStr (b64encode body)),
        (''_dsse'', JStr ''DSSEv1''),
        (''_pae_sha256'', JStr (sha256_hex C to_sign)),
        (''_signed_at'', JStr (strftime now)),
        (''signatures'', JList [JObj
          [(''sig'', JStr (b64encode mac)), (''keyid'', JStr COSIGN_KEYID), (''alg'', JStr ''HMAC-SHA256''),
           (''note'', JStr (''HMAC variant '' @ em_dash @ '' swap for ECDSA cosign key d3028f8a in production''))]]),
        (''signed'', JBool True),
        (''honesty'', JStr (''REAL HMAC-SHA256 over DSSE PAE; upgrade to ECDSA via cosign ''
           @ ''key d3028f8a (szlholdings-cosign) for production deployment.''))])"

definition receipt_fields ::
  "('k, 's) py \<Rightarrow> string \<Rightarrow> nat \<Rightarrow> json \<Rightarrow> json \<Rightarrow> dbl \<Rightarrow> int \<Rightarrow> int \<Rightarrow> dbl \<Rightarrow> json \<Rightarrow> datetime \<Rightarrow> receipt" where
  "receipt_fields C node_id seq job_id model lambda_score tokens_in tokens_out latency_ms label now =
     [(''node_id'', JStr node_id), (''job_id'', job_id), (''seq'', JInt (int seq)), (''model'', model),
      (''lambda_score'', JFloat (float_repr C lambda_score)), (''lambda_label'', JStr ''advisory-conjecture-1''),
      (''tokens_in'', JInt tokens_in), (''tokens_out'', JInt tokens_out),
      (''latency_ms'', JFloat (float_repr C latency_ms)), (''timestamp_utc'', JStr (strftime now)),
      (''label'', label), (''vram_fusion'', JStr ''ROADMAP'')]"

definition ledger_append ::
  "('k, 's) py \<Rightarrow> ledger \<Rightarrow> json \<Rightarrow> json \<Rightarrow> dbl \<Rightarrow> int \<Rightarrow> int \<Rightarrow> dbl \<Rightarrow> json \<Rightarrow> (nat \<Rightarrow> datetime) \<Rightarrow> ledger \<times> ledger_entry" where
  "ledger_append C L job_id model lambda_score tokens_in tokens_out latency_ms label now =
     (let seq = length (jl_chain L);
          receipt = receipt_fields C (jl_node_id L) seq job_id model lambda_score tokens_in tokens_out latency_ms label (now 0);
          chain_hash = khipu_hash C (jl_head_hash L) (agent_json (JObj receipt));
          receipt = put ''chain_hash'' (JStr chain_hash) (put ''prev_chain_hash'' (JStr (jl_head_hash L)) receipt);
          entry = \<lparr>le_receipt = receipt, le_dsse = sign_receipt C (jl_secret L) receipt (now 1),
                   le_chain_hash = chain_hash, le_seq = seq\<rparr> in
      (L\<lparr>jl_chain := jl_chain L @ [entry], jl_head_hash := chain_hash\<rparr>, entry))"

text \<open>The messages of \<open>verify_chain\<close>; the hashes are shown by their first 16 characters.\<close>

datatype chain_check = ChainIntact nat | ChainBroken nat string string | SeqMismatch nat

definition entry_body :: "ledger_entry \<Rightarrow> bytes" where
  "entry_body e = agent_json (JObj (filter (\<lambda>(k, v). k \<noteq> ''prev_chain_hash'' \<and> k \<noteq> ''chain_hash'') (le_receipt e)))"

fun verify_loop :: "('k, 's) py \<Rightarrow> string \<Rightarrow> nat \<Rightarrow> ledger_entry list \<Rightarrow> chain_check option" where
  "verify_loop C prev i [] = None"
| "verify_loop C prev i (e # es) =
     (let expected = khipu_hash C prev (entry_body e) in
      if le_chain_hash e \<noteq> expected then Some (ChainBroken i (take 16 expected) (take 16 (le_chain_hash e)))
      else if (case map_of (le_receipt e) ''seq'' of None \<Rightarrow> True | Some v \<Rightarrow> \<not> json_is_int v (int i)) then Some (SeqMismatch i)
      else verify_loop C (le_chain_hash e) (Suc i) es)"

definition verify_chain :: "('k, 's) py \<Rightarrow> ledger \<Rightarrow> bool \<times> chain_check" where
  "verify_chain C L =
     (case verify_loop C GENESIS_HASH 0 (jl_chain L) of
        None \<Rightarrow> (True, ChainIntact (length (jl_chain L)))
      | Some bad \<Rightarrow> (False, bad))"

definition head_hash :: "ledger \<Rightarrow> string" where
  "head_hash L = jl_head_hash L"

definition to_list :: "ledger \<Rightarrow> ledger_entry list" where
  "to_list L = jl_chain L"

section \<open>Chains\<close>

definition chain_end :: "string \<Rightarrow> ledger_entry list \<Rightarrow> string" where
  "chain_end prev es = (if es = [] then prev else le_chain_hash (last es))"

lemma chain_end_simps [simp]:
  "chain_end prev [] = prev" "chain_end prev (e # es) = chain_end (le_chain_hash e) es"
  "chain_end prev (es @ [e]) = le_chain_hash e"
  by (simp_all add: chain_end_def)

definition entry_ok :: "('k, 's) py \<Rightarrow> string \<Rightarrow> nat \<Rightarrow> ledger_entry \<Rightarrow> bool" where
  "entry_ok C prev i e \<longleftrightarrow> le_chain_hash e = khipu_hash C prev (entry_body e) \<and>
     (\<exists>v. map_of (le_receipt e) ''seq'' = Some v \<and> json_is_int v (int i))"

lemma verify_loop_Cons:
  "verify_loop C prev i (e # es) = None \<longleftrightarrow> entry_ok C prev i e \<and> verify_loop C (le_chain_hash e) (Suc i) es = None"
  by (auto simp: entry_ok_def Let_def split: option.splits)

declare verify_loop.simps(2) [simp del]

lemma verify_loop_append:
  "verify_loop C prev i (es @ es') = None \<longleftrightarrow>
   verify_loop C prev i es = None \<and> verify_loop C (chain_end prev es) (i + length es) es' = None"
  by (induction es arbitrary: prev i) (auto simp: verify_loop_Cons)

lemma verify_loop_snoc:
  "verify_loop C prev i (es @ [e]) = None \<longleftrightarrow>
   verify_loop C prev i es = None \<and> entry_ok C (chain_end prev es) (i + length es) e"
  by (simp add: verify_loop_append verify_loop_Cons)

lemma verify_chain_iff: "fst (verify_chain C L) \<longleftrightarrow> verify_loop C GENESIS_HASH 0 (jl_chain L) = None"
  by (simp add: verify_chain_def split: option.split)

definition ledger_inv :: "('k, 's) py \<Rightarrow> ledger \<Rightarrow> bool" where
  "ledger_inv C L \<longleftrightarrow> verify_loop C GENESIS_HASH 0 (jl_chain L) = None \<and>
     jl_head_hash L = chain_end GENESIS_HASH (jl_chain L)"

lemma ledger_inv_new [simp]: "ledger_inv C (new_job_ledger n s)"
  by (simp add: ledger_inv_def new_job_ledger_def)

lemma receipt_fields_keys:
  "map_of (receipt_fields C n seq job_id model score ti tk lat label now) ''chain_hash'' = None"
  "map_of (receipt_fields C n seq job_id model score ti tk lat label now) ''prev_chain_hash'' = None"
  "map_of (receipt_fields C n seq job_id model score ti tk lat label now) ''seq'' = Some (JInt (int seq))"
  "map_of (receipt_fields C n seq job_id model score ti tk lat label now) ''job_id'' = Some job_id"
  by (simp_all add: receipt_fields_def)

lemma filter_put_chain:
  assumes "map_of r ''chain_hash'' = None" "map_of r ''prev_chain_hash'' = None"
  shows "filter (\<lambda>(k, v). k \<noteq> ''prev_chain_hash'' \<and> k \<noteq> ''chain_hash'')
    (put ''chain_hash'' h (put ''prev_chain_hash'' p r)) = r"
proof -
  have "filter (\<lambda>(k, v). k \<noteq> ''prev_chain_hash'' \<and> k \<noteq> ''chain_hash'') r = r"
    using assms by (intro filter_True) (auto simp: map_of_eq_None_iff intro: rev_image_eqI)
  then show ?thesis using assms by (simp add: put_fresh)
qed

lemma ledger_append_entry:
  assumes "ledger_append C L job_id model score ti tk lat label now = (L', e)"
    and "r = receipt_fields C (jl_node_id L) (length (jl_chain L)) job_id model score ti tk lat label (now 0)"
    and "h = khipu_hash C (jl_head_hash L) (agent_json (JObj r))"
  shows "L' = L\<lparr>jl_chain := jl_chain L @ [e], jl_head_hash := h\<rparr>"
    "le_receipt e = put ''chain_hash'' (JStr h) (put ''prev_chain_hash'' (JStr (jl_head_hash L)) r)"
    "le_chain_hash e = h" "le_seq e = length (jl_chain L)" "le_dsse e = sign_receipt C (jl_secret L) (le_receipt e) (now 1)"
  using assms(1) unfolding assms(2,3) ledger_append_def Let_def by (auto simp del: AList.update.simps)

lemma content_append:
  assumes "ledger_append C L job_id model score ti tk lat label now = (L', e)"
  shows "JObj (filter (\<lambda>(k, v). k \<noteq> ''prev_chain_hash'' \<and> k \<noteq> ''chain_hash'') (le_receipt e)) =
    JObj (receipt_fields C (jl_node_id L) (length (jl_chain L)) job_id model score ti tk lat label (now 0))"
  unfolding ledger_append_entry(2) [OF assms refl refl] filter_put_chain [OF receipt_fields_keys(1,2)] ..

lemma ledger_append_shape:
  assumes "ledger_append C L job_id model score ti tk lat label now = (L', e)"
  shows "jl_chain L' = jl_chain L @ [e]" "jl_head_hash L' = le_chain_hash e" "jl_node_id L' = jl_node_id L"
    "jl_secret L' = jl_secret L" "le_seq e = length (jl_chain L)" "entry_ok C (jl_head_hash L) (length (jl_chain L)) e"
    "map_of (le_receipt e) ''job_id'' = Some job_id"
    "map_of (le_receipt e) ''prev_chain_hash'' = Some (JStr (jl_head_hash L))"
    "le_dsse e = sign_receipt C (jl_secret L) (le_receipt e) (now 1)"
proof -
  note a = ledger_append_entry [OF assms refl refl]
  have "le_chain_hash e = khipu_hash C (jl_head_hash L) (entry_body e)"
    unfolding entry_body_def content_append [OF assms] by (rule a(3))
  moreover have "map_of (le_receipt e) ''seq'' = Some (JInt (int (length (jl_chain L))))"
    unfolding a(2) by (simp add: receipt_fields_keys)
  ultimately show "entry_ok C (jl_head_hash L) (length (jl_chain L)) e" by (simp add: entry_ok_def)
  show "map_of (le_receipt e) ''job_id'' = Some job_id"
    "map_of (le_receipt e) ''prev_chain_hash'' = Some (JStr (jl_head_hash L))"
    unfolding a(2) by (simp_all add: receipt_fields_keys)
  show "le_dsse e = sign_receipt C (jl_secret L) (le_receipt e) (now 1)" by (rule a(5))
  show "jl_chain L' = jl_chain L @ [e]" "jl_head_hash L' = le_chain_hash e" "jl_node_id L' = jl_node_id L"
    "jl_secret L' = jl_secret L" "le_seq e = length (jl_chain L)"
    using a(3,4) by (simp_all add: a(1))
qed

lemma jwf_receipt_fields:
  assumes "utf8_valid node_id" "jwf job_id" "jwf model" "jwf label" "float_lit (float_repr C score)" "float_lit (float_repr C lat)"
  shows "jwf (JObj (receipt_fields C node_id seq job_id model score ti tk lat label now))"
  using assms by (simp add: receipt_fields_def ascii_utf8_valid)

lemma ledger_inv_append:
  assumes "ledger_inv C L" "ledger_append C L job_id model score ti tk lat label now = (L', e)"
  shows "ledger_inv C L'"
  using assms(1) ledger_append_shape [OF assms(2)] by (simp add: ledger_inv_def verify_loop_snoc)

text \<open>The ledgers that appending reaches from a given one.\<close>

inductive grows :: "('k, 's) py \<Rightarrow> ledger \<Rightarrow> ledger \<Rightarrow> bool" for C where
  same: "grows C L L"
| more: "grows C L L' \<Longrightarrow> ledger_append C L' job_id model score ti tk lat label now = (L'', e) \<Longrightarrow> grows C L L''"

lemma grows_inv: "grows C L L' \<Longrightarrow> ledger_inv C L \<Longrightarrow> ledger_inv C L'"
  by (induction rule: grows.induct) (auto intro: ledger_inv_append)

lemma grows_prefix: "grows C L L' \<Longrightarrow> \<exists>es. jl_chain L' = jl_chain L @ es"
proof (induction rule: grows.induct)
  case (more L L' job_id model score ti tk lat label now L'' e)
  then show ?case using ledger_append_shape(1) [OF more.hyps(2)] by auto
qed simp

definition numbered :: "ledger \<Rightarrow> bool" where
  "numbered L \<longleftrightarrow> map le_seq (jl_chain L) = [0..<length (jl_chain L)]"

lemma grows_numbered: "grows C L L' \<Longrightarrow> numbered L \<Longrightarrow> numbered L'"
proof (induction rule: grows.induct)
  case (more L L' job_id model score ti tk lat label now L'' e)
  then show ?case using ledger_append_shape(1,5) [OF more.hyps(2)] by (simp add: numbered_def)
qed

section \<open>Tamper evidence\<close>

text \<open>The messages that checking a chain hashes.\<close>

fun hashed :: "string \<Rightarrow> ledger_entry list \<Rightarrow> bytes set" where
  "hashed prev [] = {}"
| "hashed prev (e # es) = insert (prev @ entry_body e) (hashed (le_chain_hash e) es)"

lemma hashed_snoc: "hashed prev (es @ [e]) = insert (chain_end prev es @ entry_body e) (hashed prev es)"
  by (induction es arbitrary: prev) (auto simp: insert_commute)

lemma chain_end_length:
  assumes "\<forall>b. length (sha256_hex C b) = length prev" "verify_loop C prev i es = None"
  shows "length (chain_end prev es) = length prev"
  using assms(2)
proof (cases es rule: rev_cases)
  case (snoc es' e)
  then have "entry_ok C (chain_end prev es') (i + length es') e" using assms(2) by (simp add: verify_loop_snoc)
  then show ?thesis using assms(1) snoc by (simp add: entry_ok_def khipu_hash_def)
qed simp

lemma same_end_same_chain:
  assumes width: "\<forall>b. length (sha256_hex C b) = length prev"
    and "length es = length es'" "verify_loop C prev i es = None" "verify_loop C prev i es' = None"
    and "inj_on (sha256_hex C) (hashed prev es \<union> hashed prev es')"
    and "chain_end prev es = chain_end prev es'"
  shows "map entry_body es = map entry_body es' \<and> map le_chain_hash es = map le_chain_hash es'"
  using assms(2-)
proof (induction es arbitrary: es' rule: rev_induct)
  case (snoc e es)
  from snoc.prems(1) obtain fs f where es': "es' = fs @ [f]" by (cases es' rule: rev_cases) simp_all
  from snoc.prems(2,3) have e: "verify_loop C prev i es = None" "entry_ok C (chain_end prev es) (i + length es) e"
    and f: "verify_loop C prev i fs = None" "entry_ok C (chain_end prev fs) (i + length fs) f"
    by (simp_all add: es' verify_loop_snoc)
  have eq: "le_chain_hash e = le_chain_hash f" using snoc.prems(5) by (simp add: es')
  then have "sha256_hex C (chain_end prev es @ entry_body e) = sha256_hex C (chain_end prev fs @ entry_body f)"
    using e(2) f(2) by (simp add: entry_ok_def khipu_hash_def)
  then have "chain_end prev es @ entry_body e = chain_end prev fs @ entry_body f"
    by (rule inj_onD [OF snoc.prems(4)]) (simp_all add: es' hashed_snoc)
  moreover have "length (chain_end prev es) = length (chain_end prev fs)"
    using chain_end_length [OF width] e(1) f(1) by simp
  ultimately have body: "chain_end prev es = chain_end prev fs" "entry_body e = entry_body f" by simp_all
  have "inj_on (sha256_hex C) (hashed prev es \<union> hashed prev fs)"
    using snoc.prems(4) by (auto simp: es' hashed_snoc intro: inj_on_subset)
  with snoc.IH [OF _ e(1) f(1) _ body(1)] snoc.prems(1) body(2) eq show ?case by (simp add: es')
qed simp

text \<open>What a receipt says, apart from its chain hashes.\<close>

definition content :: "ledger_entry \<Rightarrow> json" where
  "content e = JObj (filter (\<lambda>(k, v). k \<noteq> ''prev_chain_hash'' \<and> k \<noteq> ''chain_hash'') (le_receipt e))"

lemma same_body_same_content:
  assumes "entry_body e = entry_body f" "jwf (content e)" "jwf (content f)"
  shows "jsort (content e) = jsort (content f)"
proof -
  have "json_dumps False (content e) = json_dumps False (content f)"
    using assms(1) unfolding entry_body_def agent_json_def content_def .
  then show ?thesis using json_dumps_eq_iff [OF assms(2,3)] by blast
qed

section \<open>Properties\<close>

text \<open>
  C12: Append-only and always verifiable. However many receipts are appended, and whatever they
  carry, \<open>verify_chain\<close> accepts the ledger, its entries are numbered from zero, the head hash is the
  hash of the last entry, and no earlier entry has changed or moved.
\<close>

theorem ledger_append_only:
  assumes "grows C (new_job_ledger node_id secret) L" "grows C L L'"
  shows "verify_chain C L' = (True, ChainIntact (length (jl_chain L'))) \<and>
    jl_head_hash L' = chain_end GENESIS_HASH (jl_chain L') \<and>
    map le_seq (jl_chain L') = [0..<length (jl_chain L')] \<and>
    take (length (jl_chain L)) (jl_chain L') = jl_chain L"
proof -
  have "ledger_inv C L'" using assms grows_inv ledger_inv_new by blast
  moreover have "numbered L'"
    using assms grows_numbered [of C] by (metis (no_types, lifting) list.map(1) list.size(3) new_job_ledger_def ledger.select_convs(3) numbered_def upt_0)
  moreover have "take (length (jl_chain L)) (jl_chain L') = jl_chain L"
    using grows_prefix [OF assms(2)] by auto
  ultimately show ?thesis by (simp add: verify_chain_def ledger_inv_def numbered_def)
qed

text \<open>
  For the witnesses: the toy cryptography with a digest of 64 characters, and a fixed
  literal for floats.
\<close>

definition toy_py :: "(string, string) py" where
  "toy_py =
     \<lparr>sha256_hex = (\<lambda>b. take 64 (b @ replicate 64 CHR ''0'')), hmac_hex = hmac_hex toy_crypto,
      hmac_digest = hmac_digest toy_crypto, load_der = load_der toy_crypto, spki_der = spki_der toy_crypto,
      load_pem_public = load_pem_public toy_crypto, load_pem_private = load_pem_private toy_crypto,
      public_pem = public_pem toy_crypto, public_key = public_key toy_crypto,
      ecdsa_sign = ecdsa_sign toy_crypto, ecdsa_verify = ecdsa_verify toy_crypto, json_depth = 100,
      encodes = encodes toy_crypto, copies = copies toy_crypto,
      float_repr = (\<lambda>_. ''1.0'')\<rparr>"

definition sample_instant :: datetime where
  "sample_instant = \<lparr>year = 2025, month = 6, day = 1, hour = 12, minute = 30, second = 5, micro = 0\<rparr>"

theorem ledger_append_only_witness:
  "\<exists>L. grows toy_py (new_job_ledger ''n'' ''k'') L \<and> verify_chain toy_py L = (True, ChainIntact 1)"
proof -
  obtain L e where a: "ledger_append toy_py (new_job_ledger ''n'' ''k'') (JStr ''j'') (JStr ''m'') (Fin 1) 0 0 (Fin 0)
      (JStr ''LIVE'') (\<lambda>_. sample_instant) = (L, e)" by fastforce
  have g: "grows toy_py (new_job_ledger ''n'' ''k'') L" by (rule grows.more [OF grows.same a])
  have "length (jl_chain L) = 1" using ledger_append_shape(1) [OF a] by (simp add: new_job_ledger_def)
  with ledger_append_only [OF g grows.same] g show ?thesis by auto
qed

text \<open>
  C31: Tamper evidence. If two ledgers of the same length verify and end in the same chain hash,
  and no two of the messages hashed in checking them collide, then they hold the same receipts in
  the same order: changing, inserting, removing or swapping entries behind a known head hash
  makes verification fail.
\<close>

theorem chain_tamper_evident:
  assumes "\<forall>b. length (sha256_hex C b) = 64"
    and "fst (verify_chain C L)" "fst (verify_chain C L')" "length (jl_chain L) = length (jl_chain L')"
    and "chain_end GENESIS_HASH (jl_chain L) = chain_end GENESIS_HASH (jl_chain L')"
    and "inj_on (sha256_hex C) (hashed GENESIS_HASH (jl_chain L) \<union> hashed GENESIS_HASH (jl_chain L'))"
    and "\<forall>e \<in> set (jl_chain L) \<union> set (jl_chain L'). jwf (content e)"
  shows "map (\<lambda>e. jsort (content e)) (jl_chain L) = map (\<lambda>e. jsort (content e)) (jl_chain L') \<and>
    map le_chain_hash (jl_chain L) = map le_chain_hash (jl_chain L')"
proof -
  have width: "\<forall>b. length (sha256_hex C b) = length GENESIS_HASH" using assms(1) by (simp add: GENESIS_HASH_def)
  from assms(2,3) have "verify_loop C GENESIS_HASH 0 (jl_chain L) = None" "verify_loop C GENESIS_HASH 0 (jl_chain L') = None"
    by (simp_all add: verify_chain_iff)
  from same_end_same_chain [OF width assms(4) this assms(6,5)]
  have eq: "map entry_body (jl_chain L) = map entry_body (jl_chain L')"
    "map le_chain_hash (jl_chain L) = map le_chain_hash (jl_chain L')" by simp_all
  have "jsort (content (jl_chain L ! i)) = jsort (content (jl_chain L' ! i))" if "i < length (jl_chain L)" for i
  proof (rule same_body_same_content)
    show "entry_body (jl_chain L ! i) = entry_body (jl_chain L' ! i)"
      using eq(1) that assms(4) by (metis nth_map)
  qed (use that assms(4,7) in auto)
  then have "map (\<lambda>e. jsort (content e)) (jl_chain L) = map (\<lambda>e. jsort (content e)) (jl_chain L')"
    using assms(4) by (intro nth_equalityI) simp_all
  with eq(2) show ?thesis by simp
qed

theorem chain_tamper_evident_witness:
  "\<exists>(L :: ledger) (L' :: ledger). jl_head_hash L \<noteq> jl_head_hash L' \<and> length (jl_chain L) = 1 \<and>
     map (\<lambda>e. jsort (content e)) (jl_chain L) = map (\<lambda>e. jsort (content e)) (jl_chain L') \<and>
     map le_chain_hash (jl_chain L) = map le_chain_hash (jl_chain L')"
proof -
  let ?L0 = "new_job_ledger ''n'' ''k''"
  obtain L e where a: "ledger_append toy_py ?L0 (JStr ''j'') (JStr ''m'') (Fin 1) 0 0 (Fin 0)
      (JStr ''LIVE'') (\<lambda>_. sample_instant) = (L, e)" by fastforce
  have chain: "jl_chain L = [e]" using ledger_append_shape(1) [OF a] by (simp add: new_job_ledger_def)
  have ok: "fst (verify_chain toy_py L)"
    using ledger_inv_append [OF ledger_inv_new a] by (simp add: verify_chain_iff ledger_inv_def)
  have width: "\<forall>b. length (sha256_hex toy_py b) = 64" by (simp add: toy_py_def min_def)
  have "float_lit ''1.0''" by (simp add: float_lit_def scan_number_def num_sign_def num_int_def num_frac_def num_exp_def is_digit_def)
  then have "jwf (content e)"
    unfolding content_def content_append [OF a]
    by (intro jwf_receipt_fields) (simp_all add: toy_py_def new_job_ledger_def ascii_utf8_valid)
  then have wf: "\<forall>x \<in> set (jl_chain L) \<union> set (jl_chain (L\<lparr>jl_head_hash := ''x''\<rparr>)). jwf (content x)" using chain by simp
  have "inj_on (sha256_hex toy_py) (hashed GENESIS_HASH (jl_chain L) \<union> hashed GENESIS_HASH (jl_chain (L\<lparr>jl_head_hash := ''x''\<rparr>)))"
    using chain by simp
  from chain_tamper_evident [OF width ok _ _ _ this wf] ok
  have "map (\<lambda>e. jsort (content e)) (jl_chain L) = map (\<lambda>e. jsort (content e)) (jl_chain (L\<lparr>jl_head_hash := ''x''\<rparr>)) \<and>
     map le_chain_hash (jl_chain L) = map le_chain_hash (jl_chain (L\<lparr>jl_head_hash := ''x''\<rparr>))"
    by (simp only: verify_chain_iff ledger.simps) simp
  moreover have "jl_head_hash L \<noteq> jl_head_hash (L\<lparr>jl_head_hash := ''x''\<rparr>)"
  proof -
    have "length (jl_head_hash L) = 64"
      using ledger_append_shape(2,6) [OF a] width by (simp add: entry_ok_def khipu_hash_def)
    then show ?thesis by auto
  qed
  moreover have "length (jl_chain L) = 1" using chain by simp
  ultimately show ?thesis by blast
qed

text \<open>
  What verification does not see: it accepts every prefix of a ledger (it never compares with the
  stored head hash), and it does not read the signed envelopes, nor the chain hashes inside the receipts.
\<close>

lemma truncation_verifies:
  assumes "fst (verify_chain C L)"
  shows "fst (verify_chain C (L\<lparr>jl_chain := take n (jl_chain L)\<rparr>))"
proof -
  have "jl_chain L = take n (jl_chain L) @ drop n (jl_chain L)" by simp
  with assms verify_loop_append show ?thesis unfolding verify_chain_iff by (metis ledger.select_convs(3) ledger.surjective ledger.update_convs(3))
qed

lemma envelopes_unchecked:
  "verify_chain C (L\<lparr>jl_chain := map (\<lambda>e. e\<lparr>le_dsse := f e\<rparr>) (jl_chain L)\<rparr>) = verify_chain C L"
proof -
  have "verify_loop C prev i (map (\<lambda>e. e\<lparr>le_dsse := f e\<rparr>) es) = verify_loop C prev i es" for prev i es
    by (induction es arbitrary: prev i) (simp_all add: verify_loop.simps entry_body_def Let_def)
  then show ?thesis by (simp add: verify_chain_def split: option.split)
qed

end
