(* ===== verification/JoinToken.thy ===== *)
theory JoinToken
  imports Ledger JsonBytes
begin

text \<open>
  \<open>src/sovereign/szl_mesh_agent.py\<close>: the hardware advertisement of a node, the join tokens with
  their MAC, expiry and revocation, and the advisory gate on requests. \<open>time.time()\<close> is a finite
  float, given as a rational; a revocation store is a set of node ids.
\<close>

section \<open>Hardware\<close>

record hardware =
  hw_node_name :: string
  hw_hostname :: string
  hw_port :: int
  hw_arch :: string
  hw_backend :: string
  hw_vram_gb :: dbl
  hw_cpu_ram_gb :: dbl
  hw_cpu_cores :: int
  hw_gpu_model :: "string option"
  hw_vram_fusion :: string
  hw_throughput_label :: string

definition hw_node_id :: "('k, 's) py \<Rightarrow> hardware \<Rightarrow> string" where
  "hw_node_id C hw = take 16 (sha256_hex C (hw_hostname hw @ '':'' @ int_str (hw_port hw)))"

section \<open>Tokens\<close>

definition JOIN_TOKEN_TTL_S :: int where "JOIN_TOKEN_TTL_S = 3600"

definition token_payload :: "('k, 's) py \<Rightarrow> hardware \<Rightarrow> int \<Rightarrow> int \<Rightarrow> json" where
  "token_payload C hw now ttl = JObj
     [(''node_id'', JStr (hw_node_id C hw)), (''node_name'', JStr (hw_node_name hw)),
      (''hostname'', JStr (hw_hostname hw)), (''port'', JInt (hw_port hw)), (''arch'', JStr (hw_arch hw)),
      (''backend'', JStr (hw_backend hw)), (''vram_gb'', JFloat (float_repr C (hw_vram_gb hw))),
      (''cpu_ram_gb'', JFloat (float_repr C (hw_cpu_ram_gb hw))), (''cpu_cores'', JInt (hw_cpu_cores hw)),
      (''gpu_model'', JStr (case hw_gpu_model hw of None \<Rightarrow> [] | Some g \<Rightarrow> g)),
      (''issued_at'', JInt now), (''expires_at'', JInt (now + ttl)), (''label'', JStr ''LIVE''),
      (''vram_fusion'', JStr ''ROADMAP''), (''throughput_label'', JStr ''MODELED'')]"

definition issue_join_token :: "('k, 's) py \<Rightarrow> hardware \<Rightarrow> bytes \<Rightarrow> int \<Rightarrow> rat \<Rightarrow> string" where
  "issue_join_token C hw secret ttl_seconds time =
     (let body = agent_json (token_payload C hw (trunc time) ttl_seconds);
          mac = hmac_digest C secret body in
      urlsafe_b64encode body @ ''.'' @ urlsafe_b64encode mac)"

text \<open>\<open>token.rsplit(".", 1)\<close> unpacked into two parts: without a dot this is a \<open>ValueError\<close>.\<close>

definition rsplit_dot :: "string \<Rightarrow> exn + string \<times> string" where
  "rsplit_dot s =
     (if CHR ''.'' \<in> set s
      then Inr (rev (tl (dropWhile (\<lambda>c. c \<noteq> CHR ''.'') (rev s))), rev (takeWhile (\<lambda>c. c \<noteq> CHR ''.'') (rev s)))
      else Inl ValueError)"

text \<open>\<open>v in store\<close>: lists and dictionaries are unhashable, other values are never equal to an id.\<close>

fun in_store :: "json \<Rightarrow> string set \<Rightarrow> exn + bool" where
  "in_store (JStr s) store = Inr (s \<in> store)"
| "in_store (JList _) store = Inl TypeError"
| "in_store (JObj _) store = Inl TypeError"
| "in_store _ store = Inr False"

text \<open>Expiry and revocation of an authentic payload.\<close>

definition check_claims :: "json \<Rightarrow> string set \<Rightarrow> rat \<Rightarrow> exn + json option" where
  "check_claims payload revoked time =
     (if \<not> is_obj payload then Inl AttributeError
      else
        bindE (json_lt (jget_or payload ''expires_at'' (JInt 0)) (Fin time)) (\<lambda>expired.
        if expired then Inr None
        else if revoked = {} then Inr (Some payload)
        else
          bindE (in_store (jget_or payload ''node_id'' JNull) revoked) (\<lambda>gone.
          Inr (if gone then None else Some payload))))"

definition verify_token_body ::
  "('k, 's) py \<Rightarrow> string \<Rightarrow> bytes \<Rightarrow> string set \<Rightarrow> rat \<Rightarrow> exn + json option" where
  "verify_token_body C token secret revoked time =
     bindE (rsplit_dot token) (\<lambda>(b64_body, b64_mac).
     bindE (urlsafe_b64decode b64_body) (\<lambda>body.
     bindE (urlsafe_b64decode b64_mac) (\<lambda>actual_mac.
     if hmac_digest C secret body \<noteq> actual_mac then Inr None
     else bindE (loads_raw (json_depth C) body) (\<lambda>payload. check_claims payload revoked time))))"

text \<open>Every exception is caught and answered with \<open>None\<close>.\<close>

definition verify_join_token :: "('k, 's) py \<Rightarrow> string \<Rightarrow> bytes \<Rightarrow> string set \<Rightarrow> rat \<Rightarrow> json option" where
  "verify_join_token C token secret revoked time =
     (case verify_token_body C token secret revoked time of Inl _ \<Rightarrow> None | Inr r \<Rightarrow> r)"

definition revoke_token :: "string \<Rightarrow> string set \<Rightarrow> string set" where
  "revoke_token node_id revoked = insert node_id revoked"

section \<open>The advisory gate\<close>

type_synonym request = "(string, json) dict"

definition rget :: "request \<Rightarrow> string \<Rightarrow> json \<Rightarrow> json" where
  "rget r k dflt = (case map_of r k of None \<Rightarrow> dflt | Some v \<Rightarrow> v)"

text \<open>0.5 and 1.0 are doubles.\<close>

definition LAMBDA_THRESHOLD_ADVISORY :: dbl where "LAMBDA_THRESHOLD_ADVISORY = Fin (1/2)"

definition AYNI_CREDIT_PER_JOB :: dbl where "AYNI_CREDIT_PER_JOB = Fin 1"

definition lambda_gate_check :: "request \<Rightarrow> exn + bool \<times> dbl" where
  "lambda_gate_check request =
     bindE (py_float (rget request ''lambda_score'' (JFloat ''0.0''))) (\<lambda>given.
     let score =
       (if deq given (Fin 0)
        then (if truthy (rget request ''request_id'' JNull) \<and> truthy (rget request ''model'' JNull) then Fin 1 else Fin 0)
        else given) in
     Inr (dle LAMBDA_THRESHOLD_ADVISORY score, score))"

section \<open>What a valid token is\<close>

lemma rsplit_dot_append [simp]:
  "CHR ''.'' \<notin> set b \<Longrightarrow> rsplit_dot (a @ CHR ''.'' # b) = Inr (a, b)"
proof -
  assume b: "CHR ''.'' \<notin> set b"
  have "takeWhile (\<lambda>c. c \<noteq> CHR ''.'') (rev b @ CHR ''.'' # rev a) = rev b"
    "dropWhile (\<lambda>c. c \<noteq> CHR ''.'') (rev b @ CHR ''.'' # rev a) = CHR ''.'' # rev a"
    using b by (subst takeWhile_append2 dropWhile_append2; auto)+
  then show ?thesis by (simp add: rsplit_dot_def)
qed

text \<open>
  The specification: an authentic body under the mesh secret that decodes to an object, has not
  expired, and names no revoked node.
\<close>

definition unexpired :: "json \<Rightarrow> rat \<Rightarrow> bool" where
  "unexpired p time \<longleftrightarrow> json_lt (jget_or p ''expires_at'' (JInt 0)) (Fin time) = Inr False"

definition not_revoked :: "json \<Rightarrow> string set \<Rightarrow> bool" where
  "not_revoked p revoked \<longleftrightarrow> revoked = {} \<or> in_store (jget_or p ''node_id'' JNull) revoked = Inr False"

definition authentic :: "('k, 's) py \<Rightarrow> string \<Rightarrow> bytes \<Rightarrow> bytes \<Rightarrow> bool" where
  "authentic C token secret body \<longleftrightarrow>
     (\<exists>a b. rsplit_dot token = Inr (a, b) \<and> urlsafe_b64decode a = Inr body \<and>
        urlsafe_b64decode b = Inr (hmac_digest C secret body))"

definition token_valid :: "('k, 's) py \<Rightarrow> string \<Rightarrow> bytes \<Rightarrow> string set \<Rightarrow> rat \<Rightarrow> json \<Rightarrow> bool" where
  "token_valid C token secret revoked time p \<longleftrightarrow>
     (\<exists>body. authentic C token secret body \<and> loads_raw (json_depth C) body = Inr p) \<and>
     is_obj p \<and> unexpired p time \<and> not_revoked p revoked"

lemma check_claims_Some:
  "check_claims q revoked time = Inr (Some p) \<longleftrightarrow> q = p \<and> is_obj p \<and> unexpired p time \<and> not_revoked p revoked"
proof -
  have "okE (\<lambda>r. r = Some p) (check_claims q revoked time) \<longleftrightarrow>
    q = p \<and> is_obj q \<and> unexpired q time \<and> not_revoked q revoked"
    unfolding check_claims_def okE_simps unexpired_def not_revoked_def by (auto simp: okE_iff)
  then show ?thesis by (auto simp: okE_iff)
qed

lemma verify_join_token_iff:
  "verify_join_token C token secret revoked time = Some p \<longleftrightarrow> token_valid C token secret revoked time p"
proof -
  have "verify_join_token C token secret revoked time = Some p \<longleftrightarrow>
    okE (\<lambda>r. r = Some p) (verify_token_body C token secret revoked time)"
    by (cases "verify_token_body C token secret revoked time") (simp_all add: verify_join_token_def)
  also have "\<dots> \<longleftrightarrow> (\<exists>a b. rsplit_dot token = Inr (a, b) \<and> (\<exists>body. urlsafe_b64decode a = Inr body \<and>
      (\<exists>mac. urlsafe_b64decode b = Inr mac \<and> hmac_digest C secret body = mac \<and>
      (\<exists>q. loads_raw (json_depth C) body = Inr q \<and> check_claims q revoked time = Inr (Some p)))))"
    unfolding verify_token_body_def okE_bindE prod.case_distrib [of "okE _"] okE_if okE.simps by (auto simp: okE_iff)
  also have "\<dots> \<longleftrightarrow> token_valid C token secret revoked time p"
    unfolding token_valid_def authentic_def check_claims_Some by blast
  finally show ?thesis .
qed

lemma b64_char_not_dot [simp]: "n < 64 \<Longrightarrow> b64_char n \<noteq> CHR ''.''"
  using b64_val_char [of n] by (auto simp: b64_val_def)

lemmas b64_dot_not_char [simp] = b64_char_not_dot [symmetric]

lemma b64encode_not_dot: "c \<in> set (b64encode b) \<Longrightarrow> c \<noteq> CHR ''.''"
  by (induction b rule: b64encode.induct) auto

lemma token_no_dot: "CHR ''.'' \<notin> set (urlsafe_b64encode b)"
  using b64encode_not_dot by (fastforce simp: urlsafe_b64encode_def to_url_def split: if_splits)

lemma authentic_issued:
  "authentic C (urlsafe_b64encode body @ CHR ''.'' # urlsafe_b64encode mac) secret b \<longleftrightarrow>
   b = body \<and> mac = hmac_digest C secret body"
  by (auto simp: authentic_def token_no_dot urlsafe_round)

text \<open>Numbers and names of an advertisement that the encoder can print.\<close>

definition hw_ok :: "('k, 's) py \<Rightarrow> hardware \<Rightarrow> bool" where
  "hw_ok C hw \<longleftrightarrow> is_ascii (hw_node_id C hw) \<and> utf8_valid (hw_node_name hw) \<and> utf8_valid (hw_hostname hw) \<and>
     utf8_valid (hw_arch hw) \<and> utf8_valid (hw_backend hw) \<and> (\<forall>g. hw_gpu_model hw = Some g \<longrightarrow> utf8_valid g) \<and>
     float_lit (float_repr C (hw_vram_gb hw)) \<and> float_lit (float_repr C (hw_cpu_ram_gb hw))"

lemma payload_wf:
  assumes "hw_ok C hw"
  shows "jwf (token_payload C hw now ttl)" "jdepth (token_payload C hw now ttl) = 1"
  using assms by (auto simp: token_payload_def hw_ok_def ascii_utf8_valid split: option.split)

lemma issued_token_valid:
  assumes "hw_ok C hw" "1 \<le> json_depth C"
  shows "token_valid C (issue_join_token C hw secret ttl issued) secret revoked time (jsort (token_payload C hw (trunc issued) ttl)) \<longleftrightarrow>
      time \<le> of_int (trunc issued + ttl) \<and> hw_node_id C hw \<notin> revoked"
    and "jget (jsort (token_payload C hw (trunc issued) ttl)) ''node_id'' = Some (JStr (hw_node_id C hw))"
proof -
  let ?p = "token_payload C hw (trunc issued) ttl"
  have get: "jget (jsort ?p) k = map_option jsort (jget ?p k)" for k by (rule jget_jsort [OF payload_wf(1) [OF assms(1)]])
  have loads: "loads_raw (json_depth C) (agent_json ?p) = Inr (jsort ?p)"
    unfolding agent_json_def by (rule loads_raw_dumps) (use payload_wf [OF assms(1)] assms(2) in \<open>simp_all add: token_payload_def\<close>)
  have f: "jget (jsort ?p) ''node_id'' = Some (JStr (hw_node_id C hw))"
    "jget (jsort ?p) ''expires_at'' = Some (JInt (trunc issued + ttl))"
    unfolding get by (simp_all add: token_payload_def)
  have obj: "is_obj (jsort ?p)" unfolding is_obj_jsort by (simp add: token_payload_def)
  have nr: "not_revoked (jsort ?p) revoked \<longleftrightarrow> hw_node_id C hw \<notin> revoked"
    by (auto simp: not_revoked_def jget_or_def f)
  have ex: "unexpired (jsort ?p) time \<longleftrightarrow> time \<le> of_int (trunc issued + ttl)"
    by (auto simp: unexpired_def jget_or_def f)
  show "token_valid C (issue_join_token C hw secret ttl issued) secret revoked time (jsort ?p) \<longleftrightarrow>
    time \<le> of_int (trunc issued + ttl) \<and> hw_node_id C hw \<notin> revoked"
    unfolding token_valid_def issue_join_token_def Let_def append_Cons append_Nil authentic_issued nr ex
    using loads obj by auto
  show "jget (jsort ?p) ''node_id'' = Some (JStr (hw_node_id C hw))" by (rule f(1))
qed

section \<open>Properties\<close>

definition sample_hw :: hardware where
  "sample_hw = \<lparr>hw_node_name = ''tower'', hw_hostname = ''h'', hw_port = 8000, hw_arch = ''sm_89'', hw_backend = ''CUDA'',
     hw_vram_gb = Fin 16, hw_cpu_ram_gb = Fin 32, hw_cpu_cores = 8, hw_gpu_model = None, hw_vram_fusion = ''ROADMAP'',
     hw_throughput_label = ''MODELED''\<rparr>"

lemma toy_float: "float_lit (float_repr toy_py x)"
  by (simp add: toy_py_def float_lit_def scan_number_def num_sign_def num_int_def num_frac_def num_exp_def is_digit_def)

lemma sample_hw_id: "is_ascii (hw_node_id toy_py sample_hw)"
proof -
  have "is_ascii (''h:'' @ int_str 8000 @ replicate 64 CHR ''0'')" using int_str_ascii [of 8000] by (auto simp: is_ascii_def)
  then show ?thesis
    by (auto simp: hw_node_id_def toy_py_def sample_hw_def is_ascii_def dest!: in_set_takeD)
qed

lemma sample_hw_ok: "hw_ok toy_py sample_hw"
  using toy_float sample_hw_id by (simp add: hw_ok_def sample_hw_def ascii_utf8_valid)

lemma toy_py_depth: "1 \<le> json_depth toy_py"
  by (simp add: toy_py_def)

text \<open>
  \<open>verify_join_token\<close> returns a payload exactly when the token is valid for it: the body
  carries the MAC of the mesh secret, decodes to this object, has not expired at this time, and its
  node is not in the revocation store. In every other case, exceptions included, it returns \<open>None\<close>.
\<close>

theorem join_token_refines_spec:
  "verify_join_token C token secret revoked time = Some p \<longleftrightarrow> token_valid C token secret revoked time p"
  by (rule verify_join_token_iff)

text \<open>
  C14: Round trip. A token that the coordinator issues for printable hardware is accepted under the
  same secret, by anyone, until its time to live is over and unless its node is revoked; it then
  never is again. The accepted payload names the node.
\<close>

theorem join_token_round_trip:
  assumes "hw_ok C hw" "1 \<le> json_depth C"
  shows "(\<exists>p. verify_join_token C (issue_join_token C hw secret ttl issued) secret revoked time = Some p \<and>
      jget p ''node_id'' = Some (JStr (hw_node_id C hw)) \<and> p = jsort (token_payload C hw (trunc issued) ttl)) \<longleftrightarrow>
    time \<le> of_int (trunc issued + ttl) \<and> hw_node_id C hw \<notin> revoked"
  using issued_token_valid [OF assms] unfolding verify_join_token_iff by blast

theorem join_token_round_trip_witness:
  "\<exists>p. verify_join_token toy_py (issue_join_token toy_py sample_hw ''secret'' 3600 1000) ''secret'' {} 4600 = Some p"
  using join_token_round_trip [OF sample_hw_ok toy_py_depth,
      where ttl = 3600 and issued = 1000 and secret = "''secret''" and revoked = "{}" and time = 4600]
  by (auto simp: trunc_def)

text \<open>
  Unforgeability and revocation. If the MACs of the mesh secret were only ever computed for
  bodies in \<open>B\<close>, so that a body outside \<open>B\<close> does not come with its MAC, then every accepted token carries a body
  of \<open>B\<close>; and once a node is revoked no token naming it is accepted, whatever its expiry.
\<close>

theorem join_token_safety:
  assumes "verify_join_token C token secret revoked time = Some p"
    and "\<forall>body. authentic C token secret body \<longrightarrow> body \<in> B"
  shows "(\<exists>body \<in> B. loads_raw (json_depth C) body = Inr p) \<and>
    (\<forall>nd. jget p ''node_id'' = Some (JStr nd) \<longrightarrow> nd \<notin> revoked \<and>
       verify_join_token C token secret (revoke_token nd revoked) time' = None)"
proof -
  from assms(1) have v: "token_valid C token secret revoked time p" by (simp only: verify_join_token_iff)
  then have "\<exists>body \<in> B. loads_raw (json_depth C) body = Inr p" using assms(2) by (auto simp: token_valid_def)
  moreover have "nd \<notin> revoked" if "jget p ''node_id'' = Some (JStr nd)" for nd
    using v that by (auto simp: token_valid_def not_revoked_def jget_or_def)
  moreover have "verify_join_token C token secret (revoke_token nd revoked) time' = None"
    if "jget p ''node_id'' = Some (JStr nd)" for nd
  proof (rule ccontr)
    assume "verify_join_token C token secret (revoke_token nd revoked) time' \<noteq> None"
    then obtain q where q: "token_valid C token secret (revoke_token nd revoked) time' q"
      using verify_join_token_iff by fastforce
    have "q = p" using q v by (auto simp: token_valid_def authentic_def)
    with q that show False by (auto simp: token_valid_def not_revoked_def jget_or_def revoke_token_def)
  qed
  ultimately show ?thesis by blast
qed

theorem join_token_safety_witness:
  "verify_join_token toy_py (issue_join_token toy_py sample_hw ''secret'' 3600 1000) ''secret''
     (revoke_token (hw_node_id toy_py sample_hw) {}) 5 = None"
proof -
  let ?t = "issue_join_token toy_py sample_hw ''secret'' 3600 1000"
  let ?p = "jsort (token_payload toy_py sample_hw (trunc 1000) 3600)"
  have get: "jget ?p k = map_option jsort (jget (token_payload toy_py sample_hw (trunc 1000) 3600) k)" for k
    by (rule jget_jsort [OF payload_wf(1) [OF sample_hw_ok]])
  have nd: "jget ?p ''node_id'' = Some (JStr (hw_node_id toy_py sample_hw))" unfolding get by (simp add: token_payload_def)
  have "loads_raw (json_depth toy_py) (agent_json (token_payload toy_py sample_hw (trunc 1000) 3600)) = Inr ?p"
    unfolding agent_json_def by (rule loads_raw_dumps) (use payload_wf [OF sample_hw_ok] toy_py_depth in \<open>simp_all add: token_payload_def\<close>)
  moreover have "unexpired ?p 1000"
    using get [of "''expires_at''"] by (simp add: unexpired_def jget_or_def token_payload_def trunc_def)
  moreover have "is_obj ?p" unfolding is_obj_jsort by (simp add: token_payload_def)
  moreover have "authentic toy_py ?t ''secret'' b \<longleftrightarrow> b = agent_json (token_payload toy_py sample_hw (trunc 1000) 3600)" for b
    unfolding issue_join_token_def Let_def append_Cons append_Nil authentic_issued by auto
  ultimately have "verify_join_token toy_py ?t ''secret'' {} 1000 = Some ?p"
    and "\<forall>b. authentic toy_py ?t ''secret'' b \<longrightarrow> b \<in> {agent_json (token_payload toy_py sample_hw (trunc 1000) 3600)}"
    by (auto simp: verify_join_token_iff token_valid_def not_revoked_def)
  from join_token_safety [OF this] nd show ?thesis by blast
qed

end
