(* ===== verification/Scheduler.thy ===== *)
theory Scheduler
  imports JoinToken
begin

text \<open>
  \<open>src/sovereign/szl_mesh_coordinator.py\<close>, the pure parts of the scheduler: the loop budget, the
  replay-deterministic pick, the least-connections pick and the assignment of layer ranges.
  Layer numbers and the number of layers are natural numbers. Three functions of the Python
  installation are parameters in the environment \<open>sched\<close>: the index that a generator with a given
  seed chooses below a bound, \<open>sum\<close> on floats (plain or compensated, depending on the version), and
  \<open>str\<close> on containers.
\<close>

record ('k, 's) sched = "('k, 's) py" +
  rng_choice :: "nat \<Rightarrow> nat \<Rightarrow> nat"
  float_sum :: "dbl list \<Rightarrow> dbl"
  py_str :: "json \<Rightarrow> string"

text \<open>Documented of \<open>random.Random(seed).choice\<close>: it chooses an element of a non-empty list.\<close>

definition sched_ok :: "('k, 's) sched \<Rightarrow> bool" where
  "sched_ok C \<longleftrightarrow> (\<forall>seed n. 0 < n \<longrightarrow> rng_choice C seed n < n)"

section \<open>Loop budget\<close>

definition DEFAULT_LOOP_BUDGET :: int where "DEFAULT_LOOP_BUDGET = 8"
definition MAX_LOOP_BUDGET :: int where "MAX_LOOP_BUDGET = 1024"

text \<open>\<open>raw\<close> is the value of \<open>SZL_MESH_LOOP_BUDGET\<close>, empty when unset.\<close>

definition loop_budget :: "string \<Rightarrow> int" where
  "loop_budget raw =
     (case int_text raw of
        Inl _ \<Rightarrow> DEFAULT_LOOP_BUDGET
      | Inr val \<Rightarrow> if val < 1 then DEFAULT_LOOP_BUDGET else min val MAX_LOOP_BUDGET)"

section \<open>Picking a node\<close>

text \<open>\<open>int(s, 16)\<close> for hexadecimal digits.\<close>

definition hex_nat :: "string \<Rightarrow> nat" where
  "hex_nat s = foldl (\<lambda>n c. 16 * n + (case hex_val c of None \<Rightarrow> 0 | Some d \<Rightarrow> d)) 0 s"

definition f1_seeded_pick :: "('k, 's) sched \<Rightarrow> string \<Rightarrow> string list \<Rightarrow> exn + string" where
  "f1_seeded_pick C request_id ids =
     (if ids = [] then Inl ValueError
      else
        let material = request_id @ ''|'' @ join '','' (sort ids);
            seed = hex_nat (take 16 (sha256_hex C material)) in
        Inr (sort ids ! rng_choice C seed (length ids)))"

record candidate =
  cd_node_id :: string
  cd_node_name :: string
  cd_hostname :: string
  cd_port :: int
  cd_vram_gb :: dbl
  cd_layer_start :: nat
  cd_layer_end :: nat
  cd_active :: int
  cd_status :: string

text \<open>Joining a request id that is not a string with the candidates is a \<open>TypeError\<close>.\<close>

fun seeded_pick_json :: "('k, 's) sched \<Rightarrow> json \<Rightarrow> string list \<Rightarrow> exn + string" where
  "seeded_pick_json C (JStr request_id) ids = f1_seeded_pick C request_id ids"
| "seeded_pick_json C _ ids = Inl TypeError"

definition online :: "candidate list \<Rightarrow> candidate list" where
  "online cs = filter (\<lambda>c. cd_status c = ''UP'') cs"

definition tied :: "candidate list \<Rightarrow> candidate list" where
  "tied cs = filter (\<lambda>c. cd_active c = Min (cd_active ` set cs)) cs"

definition f1_least_connections_pick :: "('k, 's) sched \<Rightarrow> json \<Rightarrow> candidate list \<Rightarrow> exn + candidate" where
  "f1_least_connections_pick C request_id candidates =
     (if online candidates = [] then Inl RuntimeError
      else
        let best = tied (online candidates) in
        if length best = 1 then Inr (hd best)
        else
          bindE (seeded_pick_json C request_id (map cd_node_id best)) (\<lambda>picked.
          Inr (hd (filter (\<lambda>c. cd_node_id c = picked) best))))"

section \<open>Layer ranges\<close>

type_synonym layer_node = "dbl \<times> nat \<times> nat"

definition add_coverage :: "nat \<Rightarrow> layer_node \<Rightarrow> dbl list \<Rightarrow> dbl list" where
  "add_coverage layers node cov =
     (case node of (vram, ls, le) \<Rightarrow> fold (\<lambda>i cov. cov[i := dadd (cov ! i) vram]) [ls..<min le layers] cov)"

definition coverage :: "nat \<Rightarrow> layer_node list \<Rightarrow> dbl list" where
  "coverage layers nodes = fold (add_coverage layers) nodes (replicate layers (Fin 0))"

text \<open>One step of the sliding window: the window sum, the best start and the best sum.\<close>

definition window_step :: "dbl list \<Rightarrow> nat \<Rightarrow> nat \<Rightarrow> dbl \<times> nat \<times> dbl \<Rightarrow> dbl \<times> nat \<times> dbl" where
  "window_step cov n i state =
     (case state of (window, best_start, best_sum) \<Rightarrow>
        let window = dadd window (dsub (cov ! (i + n - 1)) (cov ! (i - 1))) in
        if dlt window best_sum then (window, i, window) else (window, best_start, best_sum))"

definition best_window :: "('k, 's) sched \<Rightarrow> dbl list \<Rightarrow> nat \<Rightarrow> nat \<Rightarrow> nat" where
  "best_window C cov n layers =
     (let window = float_sum C (take n cov) in
      fst (snd (fold (window_step cov n) [1..<layers - n + 1] (window, 0, window))))"

definition assign_layers :: "('k, 's) sched \<Rightarrow> nat \<Rightarrow> layer_node list \<Rightarrow> dbl \<Rightarrow> exn + nat \<times> nat" where
  "assign_layers C layers nodes new_vram =
     (let cov = coverage layers nodes;
          total_vram = dadd (float_sum C (map fst nodes)) new_vram in
      if deq total_vram (Fin 0) then Inr (0, layers)
      else
        bindE (dbl_int half_even (ddiv (dmul (Fin (of_nat layers)) new_vram) total_vram)) (\<lambda>share.
        let n = min (nat (max 1 share)) layers in
        if n = layers then Inr (0, layers)
        else
          let best_start = best_window C cov n layers in
          Inr (best_start, best_start + n)))"

section \<open>Facts\<close>

lemma loop_budget_bounds: "1 \<le> loop_budget raw \<and> loop_budget raw \<le> 1024"
  by (auto simp: loop_budget_def DEFAULT_LOOP_BUDGET_def MAX_LOOP_BUDGET_def split: sum.split)

lemma seeded_pick_in:
  "sched_ok C \<Longrightarrow> f1_seeded_pick C r ids = Inr x \<Longrightarrow> x \<in> set ids"
  by (auto simp: f1_seeded_pick_def sched_ok_def Let_def split: if_splits)
     (metis length_greater_0_conv length_sort nth_mem set_sort)

lemma seeded_pick_perm:
  assumes "mset ids = mset ids'"
  shows "f1_seeded_pick C r ids = f1_seeded_pick C r ids'"
  using sort_mset_eq [OF assms] mset_eq_length [OF assms] assms by (auto simp: f1_seeded_pick_def)

lemma online_set: "c \<in> set (online cs) \<longleftrightarrow> c \<in> set cs \<and> cd_status c = ''UP''"
  by (auto simp: online_def)

lemma tied_nonempty: "cs \<noteq> [] \<Longrightarrow> tied cs \<noteq> []"
proof -
  assume "cs \<noteq> []"
  then have "Min (cd_active ` set cs) \<in> cd_active ` set cs" by (intro Min_in) auto
  then show ?thesis by (auto simp: tied_def filter_empty_conv)
qed

lemma tied_set: "c \<in> set (tied cs) \<longleftrightarrow> c \<in> set cs \<and> (\<forall>d \<in> set cs. cd_active c \<le> cd_active d)"
proof
  assume "c \<in> set (tied cs)"
  then show "c \<in> set cs \<and> (\<forall>d \<in> set cs. cd_active c \<le> cd_active d)" by (auto simp: tied_def)
next
  assume c: "c \<in> set cs \<and> (\<forall>d \<in> set cs. cd_active c \<le> cd_active d)"
  then have "Min (cd_active ` set cs) = cd_active c" by (intro Min_eqI) auto
  with c show "c \<in> set (tied cs)" by (simp add: tied_def)
qed

lemma pick_in_tied:
  assumes "sched_ok C" "f1_least_connections_pick C r cs = Inr c"
  shows "c \<in> set (tied (online cs))"
proof -
  let ?best = "tied (online cs)"
  from assms(2) have on: "online cs \<noteq> []" by (auto simp: f1_least_connections_pick_def)
  show ?thesis
  proof (cases "length ?best = 1")
    case True
    then have "c = hd ?best" using assms(2) on by (simp add: f1_least_connections_pick_def Let_def)
    with tied_nonempty [OF on] show ?thesis by simp
  next
    case False
    then obtain x where x: "seeded_pick_json C r (map cd_node_id ?best) = Inr x"
      and c: "c = hd (filter (\<lambda>c. cd_node_id c = x) ?best)"
      using assms(2) on by (auto simp: f1_least_connections_pick_def Let_def bindE_Inr_iff)
    from x obtain s where "f1_seeded_pick C s (map cd_node_id ?best) = Inr x" by (cases r) auto
    then have "x \<in> cd_node_id ` set ?best" using seeded_pick_in [OF assms(1)] by fastforce
    then have "filter (\<lambda>c. cd_node_id c = x) ?best \<noteq> []" by (auto simp: filter_empty_conv)
    then have "c \<in> set (filter (\<lambda>c. cd_node_id c = x) ?best)" unfolding c by (rule hd_in_set)
    then show ?thesis by simp
  qed
qed

lemma mset_online: "mset cs = mset ds \<Longrightarrow> mset (online cs) = mset (online ds)"
  by (simp add: online_def mset_filter)

lemma mset_tied: "mset cs = mset ds \<Longrightarrow> mset (tied cs) = mset (tied ds)"
  using mset_eq_setD [of cs ds] by (simp add: tied_def mset_filter)

lemma hd_filter_distinct:
  assumes "mset cs = mset ds" "distinct (map cd_node_id cs)"
  shows "hd (filter (\<lambda>c. cd_node_id c = x) cs) = hd (filter (\<lambda>c. cd_node_id c = x) ds)"
proof -
  have m: "mset (filter (\<lambda>c. cd_node_id c = x) cs) = mset (filter (\<lambda>c. cd_node_id c = x) ds)"
    using assms(1) by (simp add: mset_filter)
  have "length (filter (\<lambda>c. cd_node_id c = x) cs) \<le> 1"
    using assms(2) by (induction cs) (auto simp: filter_empty_conv image_iff)
  then show ?thesis
  proof (cases "filter (\<lambda>c. cd_node_id c = x) cs")
    case Nil
    with m show ?thesis by (metis mset_zero_iff)
  next
    case (Cons c r)
    with \<open>length (filter (\<lambda>c. cd_node_id c = x) cs) \<le> 1\<close> have "r = []" by simp
    with Cons m show ?thesis by (metis mset_single_iff_right mset.simps list.sel(1))
  qed
qed

lemma window_loop_start:
  "\<forall>i \<in> set is. i \<le> m \<Longrightarrow> fst (snd st) \<le> m \<Longrightarrow> fst (snd (fold (window_step cov n) is st)) \<le> m"
  by (induction "is" arbitrary: st) (auto simp: window_step_def Let_def split: prod.split)

lemma assign_range:
  assumes "assign_layers C layers nodes vram = Inr (s, e)"
  shows "s \<le> e \<and> e \<le> layers \<and> (0 < layers \<longrightarrow> s < e)"
proof (cases "deq (dadd (float_sum C (map fst nodes)) vram) (Fin 0)")
  case True
  then show ?thesis using assms by (simp add: assign_layers_def Let_def)
next
  case False
  let ?cov = "coverage layers nodes"
  from assms False obtain share n where
    n: "n = min (nat (max 1 share)) layers" and
    r: "(if n = layers then Inr (0, layers) else Inr (best_window C ?cov n layers, best_window C ?cov n layers + n)) =
      (Inr (s, e) :: exn + nat \<times> nat)"
    unfolding assign_layers_def Let_def if_not_P [OF False] bindE_Inr_iff by blast
  have "best_window C ?cov n layers \<le> layers - n"
    unfolding best_window_def Let_def by (rule window_loop_start) auto
  moreover have "n \<le> layers" "0 < layers \<longrightarrow> 0 < n" by (auto simp: n)
  ultimately show ?thesis using r by (auto split: if_splits)
qed

section \<open>Properties\<close>

definition toy_sched :: "(string, string) sched" where
  "toy_sched =
     \<lparr>sha256_hex = sha256_hex toy_py, hmac_hex = hmac_hex toy_crypto,
      hmac_digest = hmac_digest toy_crypto, load_der = load_der toy_crypto, spki_der = spki_der toy_crypto,
      load_pem_public = load_pem_public toy_crypto, load_pem_private = load_pem_private toy_crypto,
      public_pem = public_pem toy_crypto, public_key = public_key toy_crypto,
      ecdsa_sign = ecdsa_sign toy_crypto, ecdsa_verify = ecdsa_verify toy_crypto, json_depth = 100,
      encodes = encodes toy_crypto, copies = copies toy_crypto,
      float_repr = (\<lambda>_. ''1.0''), rng_choice = (\<lambda>seed n. 0), float_sum = (\<lambda>xs. fold (\<lambda>x s. dadd s x) xs (Fin 0)),
      py_str = (\<lambda>_. [])\<rparr>"

lemma toy_sched_ok: "sched_ok toy_sched"
  by (simp add: sched_ok_def toy_sched_def)

definition sample_candidate :: "string \<Rightarrow> int \<Rightarrow> string \<Rightarrow> candidate" where
  "sample_candidate nid active status =
     \<lparr>cd_node_id = nid, cd_node_name = nid, cd_hostname = ''h'', cd_port = 1, cd_vram_gb = Fin 8, cd_layer_start = 0,
      cd_layer_end = 4, cd_active = active, cd_status = status\<rparr>"

text \<open>
  The pick is honest and fair. A picked node is one of the candidates, is UP, and no node that
  is UP has fewer active connections; for a request id that is a string the pick fails only when
  no candidate is UP.
\<close>

theorem least_connections_pick:
  assumes "sched_ok C"
  shows "(\<forall>c. f1_least_connections_pick C rid cs = Inr c \<longrightarrow>
      c \<in> set cs \<and> cd_status c = ''UP'' \<and>
      (\<forall>d \<in> set cs. cd_status d = ''UP'' \<longrightarrow> cd_active c \<le> cd_active d)) \<and>
    (is_str rid \<longrightarrow>
      ((\<exists>c. f1_least_connections_pick C rid cs = Inr c) \<longleftrightarrow> (\<exists>c \<in> set cs. cd_status c = ''UP'')))"
proof -
  have "(\<exists>c. f1_least_connections_pick C rid cs = Inr c) \<longleftrightarrow> (\<exists>c \<in> set cs. cd_status c = ''UP'')" if "is_str rid"
  proof -
    from that obtain s where rid: "rid = JStr s" by (cases rid) auto
    have "(\<exists>c. f1_least_connections_pick C rid cs = Inr c) \<longleftrightarrow> online cs \<noteq> []"
      using tied_nonempty [of "online cs"]
      by (auto simp: f1_least_connections_pick_def f1_seeded_pick_def Let_def rid)
    also have "\<dots> \<longleftrightarrow> (\<exists>c \<in> set cs. cd_status c = ''UP'')" by (auto simp: online_def filter_empty_conv)
    finally show ?thesis .
  qed
  then show ?thesis using pick_in_tied [OF assms] by (auto simp: tied_set online_set)
qed

theorem least_connections_pick_witness:
  "\<exists>c. f1_least_connections_pick toy_sched (JStr ''r'') [sample_candidate ''a'' 2 ''UP'', sample_candidate ''b'' 1 ''DOWN''] = Inr c"
  using least_connections_pick [OF toy_sched_ok, of "JStr ''r''" "[sample_candidate ''a'' 2 ''UP'', sample_candidate ''b'' 1 ''DOWN'']"]
  by (simp add: sample_candidate_def)

text \<open>
  Replay determinism. The pick does not depend on the order in which the coordinator holds its
  tiles: any two arrangements of the same candidates, with distinct node ids, give the same pick.
\<close>

theorem pick_replay_deterministic:
  assumes "mset cs = mset ds" "distinct (map cd_node_id cs)"
  shows "f1_least_connections_pick C rid cs = f1_least_connections_pick C rid ds"
proof -
  let ?b = "tied (online cs)" and ?b' = "tied (online ds)"
  have m: "mset ?b = mset ?b'" using mset_tied [OF mset_online [OF assms(1)]] .
  have "distinct (map cd_node_id ?b)"
    using assms(2) by (simp add: tied_def online_def distinct_map_filter)
  then have hd: "hd (filter (\<lambda>c. cd_node_id c = x) ?b) = hd (filter (\<lambda>c. cd_node_id c = x) ?b')" for x
    by (rule hd_filter_distinct [OF m])
  have ids: "mset (map cd_node_id ?b) = mset (map cd_node_id ?b')" using m by (metis mset_map)
  have pick: "seeded_pick_json C rid (map cd_node_id ?b) = seeded_pick_json C rid (map cd_node_id ?b')"
    by (cases rid) (simp_all add: seeded_pick_perm [OF ids])
  have one: "hd ?b = hd ?b'" if "length ?b = 1"
  proof -
    from that obtain c where "?b = [c]" by (auto simp: length_Suc_conv)
    with m show ?thesis by auto
  qed
  have "online cs = [] \<longleftrightarrow> online ds = []" using mset_online [OF assms(1)] by (metis mset_zero_iff)
  then show ?thesis
    using mset_eq_length [OF m] one pick hd by (auto simp: f1_least_connections_pick_def Let_def)
qed

theorem pick_replay_deterministic_witness:
  "f1_least_connections_pick toy_sched (JStr ''r'') [sample_candidate ''a'' 1 ''UP'', sample_candidate ''b'' 1 ''UP''] =
   f1_least_connections_pick toy_sched (JStr ''r'') [sample_candidate ''b'' 1 ''UP'', sample_candidate ''a'' 1 ''UP'']"
  by (rule pick_replay_deterministic) (simp_all add: sample_candidate_def)

text \<open>
  C33: Layer ranges stay within the model: an assigned range is contiguous, lies in
  \<open>[0, total)\<close>, and is empty only for a model without layers.
\<close>

theorem assign_layers_bounds:
  assumes "assign_layers C layers nodes vram = Inr (s, e)"
  shows "s \<le> e \<and> e \<le> layers \<and> (0 < layers \<longrightarrow> s < e)"
  using assms by (rule assign_range)

theorem assign_layers_bounds_witness:
  "\<exists>s e. assign_layers toy_sched 4 [] (Fin 0) = Inr (s, e) \<and> s < e"
proof -
  have a: "assign_layers toy_sched 4 [] (Fin 0) = Inr (0, 4)"
    by (simp add: assign_layers_def Let_def toy_sched_def deq_def dround_def)
  from assign_layers_bounds [OF a] a show ?thesis by simp
qed

end
