(* ===== verification/Agent.thy ===== *)
theory Agent
  imports JoinToken
begin

text \<open>
  \<open>src/sovereign/szl_mesh_agent.py\<close>: the node registry and \<open>MeshNodeAgent\<close>. Objects are records, an
  operation returns the new object with its result; the registry and the revocation store that an
  agent may share with others are fields of its record. The successive clock readings of one call
  are a function of their number. The heartbeat thread is its body, one wake-up at a time; logging
  is left out.
\<close>

section \<open>Node registry\<close>

definition NODE_OFFLINE_TIMEOUT_S :: dbl where "NODE_OFFLINE_TIMEOUT_S = Fin 90"

record reg_entry =
  re_hardware :: hardware
  re_token :: json
  re_last_seen :: rat
  re_status :: string
  re_contribution :: dbl

type_synonym registry = "(string, reg_entry) dict"

definition reg_register :: "('k, 's) py \<Rightarrow> registry \<Rightarrow> hardware \<Rightarrow> json \<Rightarrow> rat \<Rightarrow> registry" where
  "reg_register C reg hw payload time =
     put (hw_node_id C hw)
       \<lparr>re_hardware = hw, re_token = payload, re_last_seen = time, re_status = ''ONLINE'', re_contribution = Fin 0\<rparr> reg"

definition reg_heartbeat :: "registry \<Rightarrow> string \<Rightarrow> rat \<Rightarrow> registry \<times> bool" where
  "reg_heartbeat reg node_id time =
     (case map_of reg node_id of
        None \<Rightarrow> (reg, False)
      | Some e \<Rightarrow> (put node_id (e\<lparr>re_last_seen := time, re_status := ''ONLINE''\<rparr>) reg, True))"

definition reg_stale :: "rat \<Rightarrow> reg_entry \<Rightarrow> bool" where
  "reg_stale now e \<longleftrightarrow> dlt NODE_OFFLINE_TIMEOUT_S (dsub (Fin now) (Fin (re_last_seen e))) \<and> re_status e \<noteq> ''OFFLINE''"

definition reg_evict_stale :: "registry \<Rightarrow> rat \<Rightarrow> registry \<times> string list" where
  "reg_evict_stale reg now =
     (map (\<lambda>(nid, e). (nid, if reg_stale now e then e\<lparr>re_status := ''OFFLINE''\<rparr> else e)) reg,
      map fst (filter (\<lambda>(nid, e). reg_stale now e) reg))"

definition reg_online_nodes :: "registry \<Rightarrow> reg_entry list" where
  "reg_online_nodes reg = filter (\<lambda>e. re_status e = ''ONLINE'') (map snd reg)"

definition reg_get :: "registry \<Rightarrow> string \<Rightarrow> reg_entry option" where
  "reg_get reg node_id = map_of reg node_id"

definition reg_add_contribution :: "registry \<Rightarrow> string \<Rightarrow> dbl \<Rightarrow> registry \<times> dbl" where
  "reg_add_contribution reg node_id delta =
     (case map_of reg node_id of
        None \<Rightarrow> (reg, Fin 0)
      | Some e \<Rightarrow>
          let c = dadd (re_contribution e) delta in (put node_id (e\<lparr>re_contribution := c\<rparr>) reg, c))"

text \<open>A copy of the dictionary; its entries are shared.\<close>

definition reg_to_dict :: "registry \<Rightarrow> (string, reg_entry) dict" where
  "reg_to_dict reg = reg"

section \<open>The agent\<close>

record agent =
  ag_hw :: hardware
  ag_secret :: bytes
  ag_registry :: registry
  ag_revoked :: "string set"
  ag_token :: "string option"
  ag_token_payload :: "json option"
  ag_ledger :: ledger
  ag_contribution :: dbl
  ag_running :: bool

definition new_agent :: "('k, 's) py \<Rightarrow> hardware \<Rightarrow> bytes \<Rightarrow> registry option \<Rightarrow> string set option \<Rightarrow> agent" where
  "new_agent C hw secret registry revoked =
     \<lparr>ag_hw = hw, ag_secret = secret,
      ag_registry = (case registry of None \<Rightarrow> [] | Some r \<Rightarrow> r),
      ag_revoked = (case revoked of None \<Rightarrow> {} | Some r \<Rightarrow> r),
      ag_token = None, ag_token_payload = None, ag_ledger = new_job_ledger (hw_node_id C hw) secret,
      ag_contribution = Fin 0, ag_running = False\<rparr>"

definition issue_self_token :: "('k, 's) py \<Rightarrow> agent \<Rightarrow> (nat \<Rightarrow> rat) \<Rightarrow> agent \<times> string" where
  "issue_self_token C A clock =
     (let token = issue_join_token C (ag_hw A) (ag_secret A) JOIN_TOKEN_TTL_S (clock 0);
          payload = verify_join_token C token (ag_secret A) (ag_revoked A) (clock 1) in
      (A\<lparr>ag_token := Some token, ag_token_payload := payload,
         ag_registry := reg_register C (ag_registry A) (ag_hw A)
           (case payload of None \<Rightarrow> JObj [] | Some p \<Rightarrow> p) (clock 2)\<rparr>, token))"

definition accept_external_token :: "('k, 's) py \<Rightarrow> agent \<Rightarrow> string \<Rightarrow> (nat \<Rightarrow> rat) \<Rightarrow> agent \<times> bool" where
  "accept_external_token C A token clock =
     (case verify_join_token C token (ag_secret A) (ag_revoked A) (clock 0) of
        None \<Rightarrow> (A, False)
      | Some payload \<Rightarrow>
          (A\<lparr>ag_token := Some token, ag_token_payload := Some payload,
             ag_registry := reg_register C (ag_registry A) (ag_hw A) payload (clock 1)\<rparr>, True))"

definition stop_heartbeat :: "agent \<Rightarrow> agent" where
  "stop_heartbeat A = A\<lparr>ag_running := False\<rparr>"

definition start_heartbeat :: "agent \<Rightarrow> agent" where
  "start_heartbeat A = A\<lparr>ag_running := True\<rparr>"

definition revoke_self :: "('k, 's) py \<Rightarrow> agent \<Rightarrow> agent" where
  "revoke_self C A =
     stop_heartbeat (A\<lparr>ag_revoked := revoke_token (hw_node_id C (ag_hw A)) (ag_revoked A),
                       ag_token := None, ag_token_payload := None\<rparr>)"

definition send_heartbeat :: "('k, 's) py \<Rightarrow> agent \<Rightarrow> rat \<Rightarrow> agent" where
  "send_heartbeat C A time =
     (let (reg, updated) = reg_heartbeat (ag_registry A) (hw_node_id C (ag_hw A)) time in A\<lparr>ag_registry := reg\<rparr>)"

text \<open>One round of \<open>_heartbeat_loop\<close> after its sleep.\<close>

definition heartbeat_wake :: "('k, 's) py \<Rightarrow> agent \<Rightarrow> rat \<Rightarrow> agent" where
  "heartbeat_wake C A time = (if ag_running A then send_heartbeat C A time else A)"

text \<open>
  The loop of the heartbeat thread as far as it has come: one pair for each sleep, what the other
  threads did to the agent meanwhile and the reading of the clock after it. An empty list is a
  thread that still sleeps.
\<close>

fun heartbeat_loop :: "('k, 's) py \<Rightarrow> ((agent \<Rightarrow> agent) \<times> rat) list \<Rightarrow> agent \<Rightarrow> agent" where
  "heartbeat_loop C [] A = A"
| "heartbeat_loop C ((others, time) # sleeps) A =
     (if \<not> ag_running A then A
      else
        let A = others A in
        if \<not> ag_running A then A else heartbeat_loop C sleeps (heartbeat_wake C A time))"

text \<open>What the ledger is given for a request: the conversions that may raise, in their order.\<close>

definition job_fields :: "request \<Rightarrow> exn + int \<times> int \<times> dbl" where
  "job_fields request =
     bindE (py_int (rget request ''tokens_in'' (JInt 0))) (\<lambda>tokens_in.
     bindE (py_int (rget request ''tokens_out'' (JInt 0))) (\<lambda>tokens_out.
     bindE (py_float (rget request ''latency_ms'' (JFloat ''0.0''))) (\<lambda>latency.
     Inr (tokens_in, tokens_out, latency))))"

text \<open>\<open>abs((new - credit) - prev) < 1e-9\<close>\<close>

fun dabs :: "dbl \<Rightarrow> dbl" where
  "dabs (Fin x) = Fin \<bar>x\<bar>"
| "dabs (Inf _) = Inf False"
| "dabs NaN = NaN"

definition conserved :: "dbl \<Rightarrow> dbl \<Rightarrow> bool" where
  "conserved prev new = dlt (dabs (dsub (dsub new AYNI_CREDIT_PER_JOB) prev)) (dround (1 / 10 ^ 9))"

text \<open>
  The state is returned in every case: a failed assertion comes after the receipt. \<open>fresh\<close> is the
  random job id of a request without one.
\<close>

definition accept_work ::
  "('k, 's) py \<Rightarrow> agent \<Rightarrow> request \<Rightarrow> rat \<Rightarrow> (nat \<Rightarrow> datetime) \<Rightarrow> string \<Rightarrow> agent \<times> (exn + bool \<times> ledger_entry option)" where
  "accept_work C A request time now fresh =
     (case ag_token A of
        None \<Rightarrow> (A, Inr (False, None))
      | Some token \<Rightarrow>
          if verify_join_token C token (ag_secret A) (ag_revoked A) time = None then (A, Inr (False, None))
          else
            (case lambda_gate_check request of
               Inl e \<Rightarrow> (A, Inl e)
             | Inr (passed, score) \<Rightarrow>
                 if \<not> passed then (A, Inr (False, None))
                 else
                   (case job_fields request of
                      Inl e \<Rightarrow> (A, Inl e)
                    | Inr (tokens_in, tokens_out, latency) \<Rightarrow>
                        let rid = rget request ''request_id'' JNull;
                            job_id = (if truthy rid then rid else JStr fresh);
                            (L, entry) = ledger_append C (ag_ledger A) job_id (rget request ''model'' (JStr ''unknown''))
                              score tokens_in tokens_out latency (rget request ''label'' (JStr ''LIVE'')) now;
                            new = dadd (ag_contribution A) AYNI_CREDIT_PER_JOB;
                            A' = A\<lparr>ag_ledger := L, ag_contribution := new\<rparr> in
                        if \<not> conserved (ag_contribution A) new then (A', Inl AssertionError)
                        else
                          (A'\<lparr>ag_registry := fst (reg_add_contribution (ag_registry A) (hw_node_id C (ag_hw A)) AYNI_CREDIT_PER_JOB)\<rparr>,
                           Inr (True, Some entry)))))"

definition agent_ledger :: "agent \<Rightarrow> ledger" where
  "agent_ledger A = ag_ledger A"

definition agent_contribution :: "agent \<Rightarrow> dbl" where
  "agent_contribution A = ag_contribution A"

definition agent_status :: "('k, 's) py \<Rightarrow> agent \<Rightarrow> json" where
  "agent_status C A = JObj
     [(''node_id'', JStr (hw_node_id C (ag_hw A))), (''node_name'', JStr (hw_node_name (ag_hw A))),
      (''arch'', JStr (hw_arch (ag_hw A))), (''backend'', JStr (hw_backend (ag_hw A))),
      (''vram_gb'', JFloat (float_repr C (hw_vram_gb (ag_hw A)))), (''vram_fusion'', JStr ''ROADMAP''),
      (''token_valid'', JBool (ag_token A \<noteq> None)), (''contribution'', JFloat (float_repr C (ag_contribution A))),
      (''ledger_depth'', JInt (int (length (to_list (ag_ledger A))))),
      (''head_hash'', JStr (head_hash (ag_ledger A))), (''label'', JStr ''LIVE''),
      (''throughput_label'', JStr ''MODELED''), (''lambda_advisory'', JStr ''Conjecture-1-never-theorem'')]"

text \<open>
  The factory. \<open>texts\<close> are the entries of the configuration that are stored as they come (text; an absent
  \<open>gpu_model\<close> is \<open>None\<close>), \<open>cfg\<close> all entries that are converted. The conversions and the missing keys
  raise in the order of the constructor's arguments.
\<close>

definition make_node_agent ::
  "('k, 's) py \<Rightarrow> (string, string) dict \<Rightarrow> (string, json) dict \<Rightarrow> bytes \<Rightarrow> exn + agent" where
  "make_node_agent C texts cfg secret =
     (let required = (\<lambda>k. case map_of texts k of None \<Rightarrow> Inl KeyError | Some s \<Rightarrow> Inr s);
          or_else = (\<lambda>k d. case map_of cfg k of None \<Rightarrow> d | Some v \<Rightarrow> v) in
      bindE (required ''node_name'') (\<lambda>node_name.
      bindE (required ''hostname'') (\<lambda>hostname.
      bindE (case map_of cfg ''port'' of None \<Rightarrow> Inl KeyError | Some v \<Rightarrow> py_int v) (\<lambda>port.
      bindE (required ''arch'') (\<lambda>arch.
      bindE (required ''backend'') (\<lambda>backend.
      bindE (py_float (or_else ''vram_gb'' (JFloat ''0.0''))) (\<lambda>vram_gb.
      bindE (py_float (or_else ''cpu_ram_gb'' (JFloat ''8.0''))) (\<lambda>cpu_ram_gb.
      bindE (py_int (or_else ''cpu_cores'' (JInt 4))) (\<lambda>cpu_cores.
      Inr (new_agent C
        \<lparr>hw_node_name = node_name, hw_hostname = hostname, hw_port = port, hw_arch = arch, hw_backend = backend,
         hw_vram_gb = vram_gb, hw_cpu_ram_gb = cpu_ram_gb, hw_cpu_cores = cpu_cores,
         hw_gpu_model = map_of texts ''gpu_model'', hw_vram_fusion = ''ROADMAP'', hw_throughput_label = ''MODELED''\<rparr>
        secret None None))))))))))"

section \<open>Steps\<close>

inductive agent_step :: "('k, 's) py \<Rightarrow> agent \<Rightarrow> agent \<Rightarrow> bool" for C where
  issue: "agent_step C A (fst (issue_self_token C A clock))"
| accept_token: "agent_step C A (fst (accept_external_token C A token clock))"
| revoke: "agent_step C A (revoke_self C A)"
| start: "agent_step C A (start_heartbeat A)"
| stop: "agent_step C A (stop_heartbeat A)"
| wake: "agent_step C A (heartbeat_wake C A time)"
| work: "agent_step C A (fst (accept_work C A request time now fresh))"
| shared: "agent_step C A (A\<lparr>ag_registry := reg, ag_revoked := revoked\<rparr>)"

abbreviation agent_reaches :: "('k, 's) py \<Rightarrow> agent \<Rightarrow> agent \<Rightarrow> bool" where
  "agent_reaches C \<equiv> (agent_step C)\<^sup>*\<^sup>*"

lemma conserved_exact:
  assumes "n < 2 ^ 53 - 1"
  shows "dadd (Fin (of_nat n)) AYNI_CREDIT_PER_JOB = Fin (of_nat (Suc n))"
    and "conserved (Fin (of_nat n)) (Fin (of_nat (Suc n)))"
proof -
  have r: "dround (of_int i) = Fin (of_int i)" if "\<bar>i\<bar> \<le> int n + 1" for i
    using that assms by (intro dround_int) simp
  show "dadd (Fin (of_nat n)) AYNI_CREDIT_PER_JOB = Fin (of_nat (Suc n))"
    using r [of "int n + 1"] by (simp add: AYNI_CREDIT_PER_JOB_def add.commute)
  have "dsub (Fin (of_nat (Suc n))) AYNI_CREDIT_PER_JOB = Fin (of_nat n)"
    using r [of "int n"] by (simp add: AYNI_CREDIT_PER_JOB_def dsub_def)
  moreover have "dsub (Fin (of_nat n)) (Fin (of_nat n)) = Fin 0" by (simp add: dsub_def dround_def)
  moreover have "dlt (Fin 0) (dround (1 / 10 ^ 9))"
  proof (rule dround_pos)
    have "(10 :: rat) ^ 9 \<le> 2 ^ 30" by simp
    also have "(2 :: rat) ^ 30 \<le> 2 ^ 1074" by (rule power_increasing) simp_all
    finally have "1 / 2 ^ 1074 \<le> (1 :: rat) / 10 ^ 9" by (intro divide_left_mono) simp_all
    then show "2 powi (-1074) \<le> (1 :: rat) / 10 ^ 9"
      using power_int_minus [of "2 :: rat" 1074] power_int_of_nat [of "2 :: rat" 1074] by (simp add: inverse_eq_divide)
  qed
  ultimately show "conserved (Fin (of_nat n)) (Fin (of_nat (Suc n)))" by (simp add: conserved_def)
qed

section \<open>What accepting work does\<close>

definition work_admitted ::
  "('k, 's) py \<Rightarrow> agent \<Rightarrow> request \<Rightarrow> rat \<Rightarrow> bool" where
  "work_admitted C A request time \<longleftrightarrow>
     (\<exists>token p score job. ag_token A = Some token \<and>
        token_valid C token (ag_secret A) (ag_revoked A) time p \<and>
        lambda_gate_check request = Inr (True, score) \<and> job_fields request = Inr job)"

definition job_id_of :: "request \<Rightarrow> string \<Rightarrow> json" where
  "job_id_of request fresh =
     (let rid = rget request ''request_id'' JNull in if truthy rid then rid else JStr fresh)"

lemma accept_work_rejects:
  assumes "\<not> work_admitted C A request time"
  shows "\<exists>res. accept_work C A request time now fresh = (A, res) \<and> (\<forall>e. res \<noteq> Inr (True, Some e))"
  using assms verify_join_token_iff [of C _ "ag_secret A" "ag_revoked A" time]
  unfolding accept_work_def work_admitted_def
  by (fastforce split: option.split sum.split prod.split)

lemma accept_work_accepts:
  assumes "work_admitted C A request time"
  obtains score ti tk lat L e where
    "ledger_append C (ag_ledger A) (job_id_of request fresh) (rget request ''model'' (JStr ''unknown''))
       score ti tk lat (rget request ''label'' (JStr ''LIVE'')) now = (L, e)"
    "accept_work C A request time now fresh =
      (let new = dadd (ag_contribution A) AYNI_CREDIT_PER_JOB; A' = A\<lparr>ag_ledger := L, ag_contribution := new\<rparr> in
       if \<not> conserved (ag_contribution A) new then (A', Inl AssertionError)
       else (A'\<lparr>ag_registry := fst (reg_add_contribution (ag_registry A) (hw_node_id C (ag_hw A)) AYNI_CREDIT_PER_JOB)\<rparr>,
             Inr (True, Some e)))"
proof -
  from assms obtain token p score ti tk lat where a: "ag_token A = Some token"
    "verify_join_token C token (ag_secret A) (ag_revoked A) time = Some p"
    "lambda_gate_check request = Inr (True, score)" "job_fields request = Inr (ti, tk, lat)"
    unfolding work_admitted_def verify_join_token_iff by (metis prod_cases3)
  obtain L e where L: "ledger_append C (ag_ledger A) (job_id_of request fresh) (rget request ''model'' (JStr ''unknown''))
       score ti tk lat (rget request ''label'' (JStr ''LIVE'')) now = (L, e)" by fastforce
  show ?thesis
  proof (rule that [OF L])
    show "accept_work C A request time now fresh =
      (let new = dadd (ag_contribution A) AYNI_CREDIT_PER_JOB; A' = A\<lparr>ag_ledger := L, ag_contribution := new\<rparr> in
       if \<not> conserved (ag_contribution A) new then (A', Inl AssertionError)
       else (A'\<lparr>ag_registry := fst (reg_add_contribution (ag_registry A) (hw_node_id C (ag_hw A)) AYNI_CREDIT_PER_JOB)\<rparr>,
             Inr (True, Some e)))"
      using a L by (simp add: accept_work_def job_id_of_def Let_def)
  qed
qed

lemma accept_work_ledger:
  assumes "work_admitted C A request time"
  obtains score ti tk lat L e where
    "ledger_append C (ag_ledger A) (job_id_of request fresh) (rget request ''model'' (JStr ''unknown''))
       score ti tk lat (rget request ''label'' (JStr ''LIVE'')) now = (L, e)"
    "ag_ledger (fst (accept_work C A request time now fresh)) = L"
    "ag_contribution (fst (accept_work C A request time now fresh)) = dadd (ag_contribution A) AYNI_CREDIT_PER_JOB"
proof (rule accept_work_accepts [OF assms, of fresh now])
  fix score ti tk lat L e
  assume L: "ledger_append C (ag_ledger A) (job_id_of request fresh) (rget request ''model'' (JStr ''unknown''))
       score ti tk lat (rget request ''label'' (JStr ''LIVE'')) now = (L, e)"
    and w: "accept_work C A request time now fresh =
      (let new = dadd (ag_contribution A) AYNI_CREDIT_PER_JOB; A' = A\<lparr>ag_ledger := L, ag_contribution := new\<rparr> in
       if \<not> conserved (ag_contribution A) new then (A', Inl AssertionError)
       else (A'\<lparr>ag_registry := fst (reg_add_contribution (ag_registry A) (hw_node_id C (ag_hw A)) AYNI_CREDIT_PER_JOB)\<rparr>,
             Inr (True, Some e)))"
  show thesis by (rule that [OF L]) (simp_all add: w Let_def)
qed

lemma accept_work_exact:
  assumes "work_admitted C A request time" "ag_contribution A = Fin (of_nat n)" "n < 2 ^ 53 - 1"
  obtains score ti tk lat L e where
    "ledger_append C (ag_ledger A) (job_id_of request fresh) (rget request ''model'' (JStr ''unknown''))
       score ti tk lat (rget request ''label'' (JStr ''LIVE'')) now = (L, e)"
    "accept_work C A request time now fresh =
      (A\<lparr>ag_ledger := L, ag_contribution := Fin (of_nat (Suc n)),
         ag_registry := fst (reg_add_contribution (ag_registry A) (hw_node_id C (ag_hw A)) AYNI_CREDIT_PER_JOB)\<rparr>,
       Inr (True, Some e))"
proof (rule accept_work_accepts [OF assms(1), of fresh now])
  fix score ti tk lat L e
  assume L: "ledger_append C (ag_ledger A) (job_id_of request fresh) (rget request ''model'' (JStr ''unknown''))
       score ti tk lat (rget request ''label'' (JStr ''LIVE'')) now = (L, e)"
    and w: "accept_work C A request time now fresh =
      (let new = dadd (ag_contribution A) AYNI_CREDIT_PER_JOB; A' = A\<lparr>ag_ledger := L, ag_contribution := new\<rparr> in
       if \<not> conserved (ag_contribution A) new then (A', Inl AssertionError)
       else (A'\<lparr>ag_registry := fst (reg_add_contribution (ag_registry A) (hw_node_id C (ag_hw A)) AYNI_CREDIT_PER_JOB)\<rparr>,
             Inr (True, Some e)))"
  show thesis
    by (rule that [OF L]) (simp add: w Let_def assms(2) conserved_exact [OF assms(3)] del: of_nat_Suc)
qed

definition agent_inv :: "('k, 's) py \<Rightarrow> agent \<Rightarrow> bool" where
  "agent_inv C A \<longleftrightarrow> ledger_inv C (ag_ledger A) \<and> numbered (ag_ledger A) \<and>
     (length (jl_chain (ag_ledger A)) < 2 ^ 53 \<longrightarrow>
        ag_contribution A = Fin (of_nat (length (jl_chain (ag_ledger A)))))"

lemma agent_inv_frame:
  "agent_inv C A \<Longrightarrow> ag_ledger A' = ag_ledger A \<Longrightarrow> ag_contribution A' = ag_contribution A \<Longrightarrow> agent_inv C A'"
  by (simp add: agent_inv_def)

lemma agent_inv_work:
  assumes "agent_inv C A"
  shows "agent_inv C (fst (accept_work C A request time now fresh))"
proof (cases "work_admitted C A request time")
  case False
  from accept_work_rejects [OF False, of now fresh] assms show ?thesis by auto
next
  case True
  let ?n = "length (jl_chain (ag_ledger A))"
  from accept_work_ledger [OF True, of fresh now] obtain score ti tk lat L e where
    L: "ledger_append C (ag_ledger A) (job_id_of request fresh) (rget request ''model'' (JStr ''unknown''))
       score ti tk lat (rget request ''label'' (JStr ''LIVE'')) now = (L, e)" and
    w: "ag_ledger (fst (accept_work C A request time now fresh)) = L"
      "ag_contribution (fst (accept_work C A request time now fresh)) = dadd (ag_contribution A) AYNI_CREDIT_PER_JOB" .
  have "ledger_inv C L" using assms L by (auto simp: agent_inv_def intro: ledger_inv_append)
  moreover have "numbered L" using assms ledger_append_shape(1,5) [OF L] by (simp add: agent_inv_def numbered_def)
  moreover have "dadd (ag_contribution A) AYNI_CREDIT_PER_JOB = Fin (of_nat (length (jl_chain L)))"
    if "length (jl_chain L) < 2 ^ 53"
    using assms that conserved_exact(1) [of ?n] ledger_append_shape(1) [OF L]
    by (simp add: agent_inv_def del: of_nat_Suc)
  ultimately show ?thesis by (simp add: agent_inv_def w)
qed

lemma agent_inv_step: "agent_step C A A' \<Longrightarrow> agent_inv C A \<Longrightarrow> agent_inv C A'"
proof (induction rule: agent_step.induct)
  case (issue A clock)
  then show ?case by (rule agent_inv_frame) (simp_all add: issue_self_token_def Let_def)
next
  case (accept_token A token clock)
  then show ?case by (rule agent_inv_frame) (simp_all add: accept_external_token_def split: option.split)
next
  case (revoke A)
  then show ?case by (rule agent_inv_frame) (simp_all add: revoke_self_def stop_heartbeat_def)
next
  case (wake A time)
  then show ?case
    by (rule agent_inv_frame) (simp_all add: heartbeat_wake_def send_heartbeat_def split: prod.split)
next
  case (work A request time now fresh)
  then show ?case by (rule agent_inv_work)
qed (auto simp: agent_inv_def start_heartbeat_def stop_heartbeat_def)

lemma agent_inv_reaches: "agent_reaches C A A' \<Longrightarrow> agent_inv C A \<Longrightarrow> agent_inv C A'"
  by (induction rule: rtranclp_induct) (auto intro: agent_inv_step)

lemma agent_inv_new [simp]: "agent_inv C (new_agent C hw secret reg rvk)"
  by (simp add: agent_inv_def new_agent_def numbered_def new_job_ledger_def ledger_inv_def)

lemma agent_inv_factory: "make_node_agent C texts cfg secret = Inr A \<Longrightarrow> agent_inv C A"
  by (auto simp: make_node_agent_def Let_def bindE_Inr_iff)

text \<open>
  The heartbeat thread is a sequence of steps of the agent when the other threads are, and a
  stopped agent sends no further heartbeat.
\<close>

lemma heartbeat_loop_reaches:
  assumes "\<forall>(others, time) \<in> set sleeps. \<forall>A. agent_reaches C A (others A)"
  shows "agent_reaches C A (heartbeat_loop C sleeps A)"
  using assms
proof (induction sleeps arbitrary: A)
  case (Cons s sleeps)
  obtain others time where s: "s = (others, time)" by (cases s)
  have o: "agent_reaches C A (others A)" using Cons.prems by (simp add: s)
  have "agent_reaches C A (heartbeat_wake C (others A) time)"
    using o agent_step.wake by (rule rtranclp.rtrancl_into_rtrancl)
  also have "agent_reaches C \<dots> (heartbeat_loop C sleeps \<dots>)" using Cons by simp
  finally show ?case using o by (simp add: s Let_def)
qed simp

lemma heartbeat_loop_stopped: "heartbeat_loop C sleeps (stop_heartbeat A) = stop_heartbeat A"
  by (cases sleeps) (auto simp: stop_heartbeat_def)

lemma heartbeat_loop_stops:
  "heartbeat_loop C ((stop_heartbeat, time) # sleeps) A = (if ag_running A then stop_heartbeat A else A)"
  by (simp add: stop_heartbeat_def)

text \<open>The factory raises only what the conversions raise, or \<open>KeyError\<close> for a missing entry.\<close>

lemma number_text_errors:
  "int_text s = Inl e \<Longrightarrow> e = ValueError" "float_text s = Inl e \<Longrightarrow> e = ValueError"
  by (simp_all add: int_text_def float_text_def split: prod.splits if_splits option.splits) (simp add: Let_def)

lemma py_number_errors:
  "py_int v = Inl e \<Longrightarrow> e \<in> {ValueError, TypeError, OverflowError}"
  "py_float v = Inl e \<Longrightarrow> e \<in> {ValueError, TypeError, OverflowError}"
proof -
  have d: "dbl_int trunc x = Inl e \<Longrightarrow> e \<in> {ValueError, OverflowError}" for x by (cases x) auto
  show "py_int v = Inl e \<Longrightarrow> e \<in> {ValueError, TypeError, OverflowError}"
    using d by (cases v) (auto simp: bindE_Inl_iff dest: number_text_errors)
  show "py_float v = Inl e \<Longrightarrow> e \<in> {ValueError, TypeError, OverflowError}"
    by (cases v) (auto simp: int_float_def dest: number_text_errors split: dbl.splits)
qed

lemma make_node_agent_errors:
  assumes "make_node_agent C texts cfg secret = Inl e"
  shows "e \<in> {KeyError, ValueError, TypeError, OverflowError}"
proof -
  have r: "(case m of None \<Rightarrow> Inl KeyError | Some s \<Rightarrow> f s) = Inl e \<Longrightarrow> m = None \<and> e = KeyError \<or> (\<exists>s. m = Some s \<and> f s = Inl e)"
    for m :: "'x option" and f :: "'x \<Rightarrow> exn + 'y"
    by (cases m) auto
  show ?thesis
    using assms unfolding make_node_agent_def Let_def bindE_Inl_iff
    by (elim disjE exE conjE) (auto dest!: r dest: py_number_errors)
qed

section \<open>Properties\<close>

text \<open>
  C32: Governed acceptance. An agent with an exact credit balance accepts a request exactly when it
  holds a token that is valid now, the advisory gate passes and the numbers convert; then it
  appends one receipt with the request's job id, gains one credit, also in the registry, and keeps
  everything else. In every other case, errors included, nothing about the agent changes.
\<close>

theorem accept_work_outcome:
  assumes "accept_work C A request time now fresh = (A', res)"
    and "ag_contribution A = Fin (of_nat n)" "n < 2 ^ 53 - 1"
  shows "if work_admitted C A request time
    then \<exists>e. res = Inr (True, Some e) \<and> jl_chain (ag_ledger A') = jl_chain (ag_ledger A) @ [e] \<and>
      map_of (le_receipt e) ''job_id'' = Some (job_id_of request fresh) \<and>
      ag_contribution A' = Fin (of_nat (Suc n)) \<and>
      (\<forall>r. map_of (ag_registry A) (hw_node_id C (ag_hw A)) = Some r \<longrightarrow>
         map_of (ag_registry A') (hw_node_id C (ag_hw A)) =
           Some (r\<lparr>re_contribution := dadd (re_contribution r) AYNI_CREDIT_PER_JOB\<rparr>)) \<and>
      (ag_hw A', ag_token A', ag_token_payload A', ag_revoked A', ag_running A') =
        (ag_hw A, ag_token A, ag_token_payload A, ag_revoked A, ag_running A)
    else A' = A \<and> (\<forall>e. res \<noteq> Inr (True, Some e))"
proof (cases "work_admitted C A request time")
  case True
  show ?thesis
  proof (rule accept_work_exact [OF True assms(2,3), of fresh now])
    fix score ti tk lat L e
    assume L: "ledger_append C (ag_ledger A) (job_id_of request fresh) (rget request ''model'' (JStr ''unknown''))
         score ti tk lat (rget request ''label'' (JStr ''LIVE'')) now = (L, e)"
      and w: "accept_work C A request time now fresh =
        (A\<lparr>ag_ledger := L, ag_contribution := Fin (of_nat (Suc n)),
           ag_registry := fst (reg_add_contribution (ag_registry A) (hw_node_id C (ag_hw A)) AYNI_CREDIT_PER_JOB)\<rparr>,
         Inr (True, Some e))"
    from w assms(1) have A': "A' = A\<lparr>ag_ledger := L, ag_contribution := Fin (of_nat (Suc n)),
         ag_registry := fst (reg_add_contribution (ag_registry A) (hw_node_id C (ag_hw A)) AYNI_CREDIT_PER_JOB)\<rparr>"
      and res: "res = Inr (True, Some e)" by simp_all
    show ?thesis using True ledger_append_shape(1,7) [OF L]
      by (cases "map_of (ag_registry A) (hw_node_id C (ag_hw A))")
         (simp_all add: A' res reg_add_contribution_def Let_def del: of_nat_Suc)
  qed
next
  case False
  with accept_work_rejects [OF False, of now fresh] assms(1) show ?thesis by auto
qed

theorem accept_work_outcome_witness:
  "let A = fst (issue_self_token toy_py (new_agent toy_py sample_hw ''secret'' None None) (\<lambda>_. 1000));
       res = snd (accept_work toy_py A [(''request_id'', JStr ''r''), (''lambda_score'', JInt 1), (''latency_ms'', JInt 0)] 1000 (\<lambda>_. sample_instant) [])
   in \<exists>e. res = Inr (True, Some e) \<and> map_of (le_receipt e) ''job_id'' = Some (JStr ''r'')"
proof -
  let ?A = "fst (issue_self_token toy_py (new_agent toy_py sample_hw ''secret'' None None) (\<lambda>_. 1000))"
  let ?req = "[(''request_id'', JStr ''r''), (''lambda_score'', JInt 1), (''latency_ms'', JInt 0)]"
  let ?t = "issue_join_token toy_py sample_hw ''secret'' JOIN_TOKEN_TTL_S 1000"
  have A: "ag_token ?A = Some ?t" "ag_secret ?A = ''secret''" "ag_revoked ?A = {}" "ag_contribution ?A = Fin (of_nat 0)"
    by (simp_all add: issue_self_token_def new_agent_def Let_def)
  obtain p where "token_valid toy_py ?t ''secret'' {} 1000 p"
    using issued_token_valid(1) [OF sample_hw_ok toy_py_depth, where secret = "''secret''" and
        ttl = JOIN_TOKEN_TTL_S and issued = 1000 and revoked = "{}" and time = 1000]
    by (auto simp: trunc_def JOIN_TOKEN_TTL_S_def)
  moreover have "int_float 1 = Inr (Fin 1)" "int_float 0 = Inr (Fin 0)"
    using dround_int [of 1] by (simp_all add: int_float_def dround_def)
  then have "lambda_gate_check ?req = Inr (True, Fin 1)" "job_fields ?req = Inr (0, 0, Fin 0)"
    by (simp_all add: lambda_gate_check_def job_fields_def rget_def Let_def deq_def dle_def LAMBDA_THRESHOLD_ADVISORY_def)
  ultimately have adm: "work_admitted toy_py ?A ?req 1000" unfolding work_admitted_def A by blast
  obtain A' res where w: "accept_work toy_py ?A ?req 1000 (\<lambda>_. sample_instant) [] = (A', res)" by fastforce
  from accept_work_outcome [OF w A(4)] adm w show ?thesis by (auto simp: Let_def job_id_of_def rget_def)
qed

text \<open>
  C13: Accounting. After any history of an agent, its credit is exactly the number of receipts in
  its ledger (as long as there are fewer than \<open>2 ^ 53\<close>, where doubles stop counting), the ledger
  verifies, and its entries are numbered without gaps.
\<close>

theorem agent_accounting:
  assumes "agent_reaches C (new_agent C hw secret reg rvk) A" "length (jl_chain (ag_ledger A)) < 2 ^ 53"
  shows "ag_contribution A = Fin (of_nat (length (jl_chain (ag_ledger A)))) \<and>
    verify_chain C (ag_ledger A) = (True, ChainIntact (length (jl_chain (ag_ledger A)))) \<and>
    map le_seq (jl_chain (ag_ledger A)) = [0..<length (jl_chain (ag_ledger A))]"
  using agent_inv_reaches [OF assms(1) agent_inv_new] assms(2)
  by (simp add: agent_inv_def ledger_inv_def numbered_def verify_chain_def)

theorem agent_accounting_witness:
  "\<exists>A. agent_reaches toy_py (new_agent toy_py sample_hw ''secret'' None None) A \<and>
     verify_chain toy_py (ag_ledger A) = (True, ChainIntact 0)"
proof -
  let ?A = "fst (issue_self_token toy_py (new_agent toy_py sample_hw ''secret'' None None) (\<lambda>_. 1000))"
  have r: "agent_reaches toy_py (new_agent toy_py sample_hw ''secret'' None None) ?A"
    by (rule r_into_rtranclp, rule agent_step.issue)
  have "length (jl_chain (ag_ledger ?A)) = 0" by (simp add: issue_self_token_def new_agent_def new_job_ledger_def Let_def)
  with agent_accounting [OF r] r show ?thesis by auto
qed

section \<open>Two gaps\<close>

text \<open>
  An agent adopts any valid token of the mesh as its own: the node id of the payload is not
  compared with the hardware's. Revoking the agent's own id then leaves the adopted token valid.
\<close>

lemma borrowed_token_survives_revocation:
  assumes "token_valid C token (ag_secret A) (ag_revoked A) (clock 0) p" "ag_revoked A = {}"
    and "jget p ''node_id'' = Some (JStr other)" "other \<noteq> hw_node_id C (ag_hw A)"
  shows "accept_external_token C A token clock = (fst (accept_external_token C A token clock), True)"
    and "verify_join_token C token (ag_secret A) (revoke_token (hw_node_id C (ag_hw A)) (ag_revoked A)) (clock 0) = Some p"
proof -
  have "verify_join_token C token (ag_secret A) (ag_revoked A) (clock 0) = Some p"
    using assms(1) by (simp only: verify_join_token_iff)
  then show "accept_external_token C A token clock = (fst (accept_external_token C A token clock), True)"
    by (simp add: accept_external_token_def)
  show "verify_join_token C token (ag_secret A) (revoke_token (hw_node_id C (ag_hw A)) (ag_revoked A)) (clock 0) = Some p"
    using assms unfolding verify_join_token_iff by (auto simp: token_valid_def not_revoked_def jget_or_def revoke_token_def)
qed

text \<open>
  Adopting a token again registers the node afresh: the credit in the registry is back to zero,
  whatever the node has earned, while the agent's own balance stays.
\<close>

lemma reregistration_resets_credit:
  assumes "accept_external_token C A token clock = (A', True)"
  shows "ag_contribution A' = ag_contribution A"
    and "\<exists>r. map_of (ag_registry A') (hw_node_id C (ag_hw A)) = Some r \<and> re_contribution r = Fin 0"
  using assms by (auto simp: accept_external_token_def reg_register_def split: option.splits)

end
