(* ===== verification/Coordinator.thy ===== *)
theory Coordinator
  imports Scheduler Agent Voting
begin

text \<open>
  \<open>src/sovereign/szl_mesh_coordinator.py\<close>: the relay, the witness register, the coordinator's state
  and its operations, and the bounded pipeline loop. An operation returns the new state with its
  result. The clock readings and the readings of the current second in one call are functions of their number.
  \<open>NodeTile\<close> objects are identified by their node id, the key of the tile dictionary. Texts with
  embedded numbers (reasons to be down, trace labels) are constructors that carry the numbers.
\<close>

section \<open>Tiles\<close>

datatype down_reason = HeartbeatTimeout dbl | OperatorRevocation

record tile =
  tl_node_id :: string
  tl_node_name :: string
  tl_hostname :: string
  tl_port :: int
  tl_arch :: string
  tl_backend :: string
  tl_vram_gb :: dbl
  tl_cpu_ram_gb :: dbl
  tl_layer_start :: nat
  tl_layer_end :: nat
  tl_token :: string
  tl_status :: string
  tl_active_connections :: int
  tl_total_jobs :: int
  tl_contribution :: dbl
  tl_last_seen :: rat
  tl_down_reason :: "down_reason option"

section \<open>Relay and witnesses\<close>

record relay =
  ry_seen :: "(dkey, rat) dict"
  ry_ttl :: int

definition new_relay :: relay where
  "new_relay = \<lparr>ry_seen = [], ry_ttl = 300\<rparr>"

definition relay_evict :: "relay \<Rightarrow> rat \<Rightarrow> relay" where
  "relay_evict R now =
     R\<lparr>ry_seen := filter (\<lambda>(k, ts). \<not> dlt (Fin (of_int (ry_ttl R))) (dsub (Fin now) (Fin ts))) (ry_seen R)\<rparr>"

definition is_duplicate :: "relay \<Rightarrow> json \<Rightarrow> (nat \<Rightarrow> rat) \<Rightarrow> relay \<times> (exn + bool)" where
  "is_duplicate R request_id clock =
     (let R = relay_evict R (clock 0) in
      case dict_key request_id of
        Inl e \<Rightarrow> (R, Inl e)
      | Inr k \<Rightarrow>
          if k \<noteq> KFloat NaN \<and> map_of (ry_seen R) k \<noteq> None then (R, Inr True)
          else (R\<lparr>ry_seen := put k (clock 1) (ry_seen R)\<rparr>, Inr False))"

record khipu_bft =
  kb_quorum :: nat
  kb_witnesses :: "(string, string list) dict"

definition BFT_QUORUM :: nat where "BFT_QUORUM = 3"

definition new_bft :: khipu_bft where
  "new_bft = \<lparr>kb_quorum = BFT_QUORUM, kb_witnesses = []\<rparr>"

definition votes_of :: "khipu_bft \<Rightarrow> string \<Rightarrow> string list" where
  "votes_of B job_id = (case map_of (kb_witnesses B) job_id of None \<Rightarrow> [] | Some ws \<Rightarrow> ws)"

definition witness :: "khipu_bft \<Rightarrow> string \<Rightarrow> string \<Rightarrow> khipu_bft \<times> bool \<times> nat" where
  "witness B job_id node_id =
     (let ws = votes_of B job_id;
          ws = (if node_id \<in> set ws then ws else ws @ [node_id]) in
      (B\<lparr>kb_witnesses := put job_id ws (kb_witnesses B)\<rparr>, kb_quorum B \<le> length ws, length ws))"

definition bft_status :: "khipu_bft \<Rightarrow> string \<Rightarrow> json" where
  "bft_status B job_id =
     (let n = length (votes_of B job_id) in
      JObj [(''job_id'', JStr job_id), (''witnesses'', JInt (int n)), (''quorum'', JInt (int (kb_quorum B))),
        (''quorum_reached'', JBool (kb_quorum B \<le> n)), (''label'', JStr ''ROADMAP''),
        (''note'', JStr (''Khipu BFT Conjecture-2 '' @ em_dash @ '' full BFT in khipu-consensus repo''))])"

section \<open>The coordinator\<close>

record coordinator =
  co_secret :: bytes
  co_total_layers :: nat
  co_token_ttl :: int
  co_tiles :: "(string, tile) dict"
  co_revoked :: "string set"
  co_ledger :: ledger
  co_relay :: relay
  co_bft :: khipu_bft
  co_active :: "(string, int) dict"

definition new_coordinator :: "bytes \<Rightarrow> nat \<Rightarrow> int \<Rightarrow> coordinator" where
  "new_coordinator secret layers ttl =
     \<lparr>co_secret = secret, co_total_layers = layers, co_token_ttl = ttl, co_tiles = [], co_revoked = {},
      co_ledger = new_job_ledger ''coordinator'' secret, co_relay = new_relay, co_bft = new_bft, co_active = []\<rparr>"

definition join_node ::
  "('k, 's) sched \<Rightarrow> coordinator \<Rightarrow> hardware \<Rightarrow> (nat \<Rightarrow> rat) \<Rightarrow> coordinator \<times> (exn + string \<times> tile)" where
  "join_node C co hw clock =
     (let existing = map (\<lambda>(_, t). (tl_vram_gb t, tl_layer_start t, tl_layer_end t)) (co_tiles co) in
      case assign_layers C (co_total_layers co) existing (hw_vram_gb hw) of
        Inl e \<Rightarrow> (co, Inl e)
      | Inr (ls, le) \<Rightarrow>
          let token = issue_join_token (py.truncate C) hw (co_secret co) (co_token_ttl co) (clock 0);
              nid = hw_node_id (py.truncate C) hw;
              t = \<lparr>tl_node_id = nid, tl_node_name = hw_node_name hw, tl_hostname = hw_hostname hw, tl_port = hw_port hw,
                   tl_arch = hw_arch hw, tl_backend = hw_backend hw, tl_vram_gb = hw_vram_gb hw,
                   tl_cpu_ram_gb = hw_cpu_ram_gb hw, tl_layer_start = ls, tl_layer_end = le, tl_token = token,
                   tl_status = ''UP'', tl_active_connections = 0, tl_total_jobs = 0, tl_contribution = Fin 0,
                   tl_last_seen = clock 1, tl_down_reason = None\<rparr> in
          (co\<lparr>co_tiles := put nid t (co_tiles co), co_active := put nid 0 (co_active co)\<rparr>, Inr (token, t)))"

definition receive_heartbeat ::
  "('k, 's) sched \<Rightarrow> coordinator \<Rightarrow> string \<Rightarrow> string \<Rightarrow> (nat \<Rightarrow> rat) \<Rightarrow> coordinator \<times> bool" where
  "receive_heartbeat C co node_id token clock =
     (case verify_join_token (py.truncate C) token (co_secret co) (co_revoked co) (clock 0) of
        None \<Rightarrow> (co, False)
      | Some payload \<Rightarrow>
          if jget payload ''node_id'' \<noteq> Some (JStr node_id) then (co, False)
          else
            (case map_of (co_tiles co) node_id of
               None \<Rightarrow> (co, True)
             | Some t \<Rightarrow>
                 (co\<lparr>co_tiles := put node_id (t\<lparr>tl_last_seen := clock 1, tl_status := ''UP''\<rparr>) (co_tiles co)\<rparr>, True)))"

definition tile_stale :: "rat \<Rightarrow> tile \<Rightarrow> bool" where
  "tile_stale now t \<longleftrightarrow> tl_status t = ''UP'' \<and> dlt NODE_OFFLINE_TIMEOUT_S (dsub (Fin now) (Fin (tl_last_seen t)))"

definition evict_stale_tiles :: "coordinator \<Rightarrow> rat \<Rightarrow> coordinator \<times> string list" where
  "evict_stale_tiles co now =
     (co\<lparr>co_tiles := map (\<lambda>(nid, t). (nid, if tile_stale now t
          then t\<lparr>tl_status := ''DOWN'', tl_down_reason := Some (HeartbeatTimeout (dsub (Fin now) (Fin (tl_last_seen t))))\<rparr>
          else t)) (co_tiles co)\<rparr>,
      map fst (filter (\<lambda>(nid, t). tile_stale now t) (co_tiles co)))"

definition revoke_node :: "coordinator \<Rightarrow> string \<Rightarrow> coordinator" where
  "revoke_node co node_id =
     (let co = co\<lparr>co_revoked := revoke_token node_id (co_revoked co)\<rparr> in
      case map_of (co_tiles co) node_id of
        None \<Rightarrow> co
      | Some t \<Rightarrow>
          co\<lparr>co_tiles := put node_id (t\<lparr>tl_status := ''DOWN'', tl_down_reason := Some OperatorRevocation\<rparr>) (co_tiles co)\<rparr>)"

definition is_revoked :: "coordinator \<Rightarrow> string \<Rightarrow> bool" where
  "is_revoked co node_id \<longleftrightarrow> node_id \<in> co_revoked co"

definition active_of :: "coordinator \<Rightarrow> string \<Rightarrow> int" where
  "active_of co nid = (case map_of (co_active co) nid of None \<Rightarrow> 0 | Some n \<Rightarrow> n)"

definition candidates :: "coordinator \<Rightarrow> candidate list" where
  "candidates co =
     map (\<lambda>(_, t). \<lparr>cd_node_id = tl_node_id t, cd_node_name = tl_node_name t, cd_hostname = tl_hostname t,
        cd_port = tl_port t, cd_vram_gb = tl_vram_gb t, cd_layer_start = tl_layer_start t, cd_layer_end = tl_layer_end t,
        cd_active = active_of co (tl_node_id t), cd_status = tl_status t\<rparr>) (co_tiles co)"

text \<open>The four results of \<open>dispatch\<close>.\<close>

datatype dispatch_result =
    DuplicateRequest
  | LambdaRejected dbl
  | Degraded dbl "string list"
  | Dispatched json candidate dbl ledger_entry

fun dispatched :: "dispatch_result \<Rightarrow> bool" where
  "dispatched (Dispatched _ _ _ _) = True"
| "dispatched _ = False"

text \<open>\<open>append_routing\<close> of the coordinator's ledger.\<close>

definition append_routing ::
  "('k, 's) py \<Rightarrow> ledger \<Rightarrow> json \<Rightarrow> string \<Rightarrow> json \<Rightarrow> dbl \<Rightarrow> string \<Rightarrow> json \<Rightarrow> (nat \<Rightarrow> datetime) \<Rightarrow> ledger \<times> ledger_entry" where
  "append_routing C L request_id selected_node_id model lambda_score strategy label now =
     ledger_append C L request_id model lambda_score 0 0 (Fin 0) label now"

text \<open>After the gate: choose a node, count the connection and the job, write the receipt, credit.\<close>

definition route ::
  "('k, 's) sched \<Rightarrow> coordinator \<Rightarrow> request \<Rightarrow> json \<Rightarrow> dbl \<Rightarrow> (nat \<Rightarrow> datetime) \<Rightarrow> coordinator \<times> (exn + dispatch_result)" where
  "route C co request rid score now =
     (if online (candidates co) = []
      then (co, Inr (Degraded score (map cd_node_id (filter (\<lambda>c. cd_status c = ''DOWN'') (candidates co)))))
      else
        (case f1_least_connections_pick C rid (online (candidates co)) of
           Inl e \<Rightarrow> (co, Inl e)
         | Inr c \<Rightarrow>
             let nid = cd_node_id c;
                 co = co\<lparr>co_active := put nid (active_of co nid + 1) (co_active co)\<rparr> in
             (case map_of (co_tiles co) nid of
                None \<Rightarrow> (co, Inl KeyError)
              | Some t \<Rightarrow>
                  let (L, entry) = append_routing (py.truncate C) (co_ledger co) rid nid (rget request ''model'' (JStr ''unknown''))
                        score ''least-connections+F1-seeded'' (rget request ''label'' (JStr ''LIVE'')) now;
                      t = t\<lparr>tl_total_jobs := tl_total_jobs t + 1,
                            tl_contribution := dadd (tl_contribution t) AYNI_CREDIT_PER_JOB\<rparr> in
                  (co\<lparr>co_tiles := put nid t (co_tiles co), co_ledger := L\<rparr>, Inr (Dispatched rid c score entry)))))"

definition dispatch ::
  "('k, 's) sched \<Rightarrow> coordinator \<Rightarrow> request \<Rightarrow> (nat \<Rightarrow> rat) \<Rightarrow> (nat \<Rightarrow> datetime) \<Rightarrow> string \<Rightarrow> coordinator \<times> (exn + dispatch_result)" where
  "dispatch C co request clock now fresh =
     (let rid = job_id_of request fresh in
      case is_duplicate (co_relay co) rid clock of
        (R, Inl e) \<Rightarrow> (co\<lparr>co_relay := R\<rparr>, Inl e)
      | (R, Inr True) \<Rightarrow> (co\<lparr>co_relay := R\<rparr>, Inr DuplicateRequest)
      | (R, Inr False) \<Rightarrow>
          let co = co\<lparr>co_relay := R\<rparr> in
          (case lambda_gate_check request of
             Inl e \<Rightarrow> (co, Inl e)
           | Inr (False, score) \<Rightarrow> (co, Inr (LambdaRejected score))
           | Inr (True, score) \<Rightarrow> route C co request rid score now))"

definition job_complete :: "coordinator \<Rightarrow> string \<Rightarrow> coordinator" where
  "job_complete co node_id =
     (case map_of (co_active co) node_id of
        None \<Rightarrow> co
      | Some n \<Rightarrow> co\<lparr>co_active := put node_id (max 0 (n - 1)) (co_active co)\<rparr>)"

section \<open>Introspection\<close>

text \<open>\<open>round(x, 1)\<close>: the exact value to one decimal place, ties to even, and then to a double.\<close>

fun round1 :: "dbl \<Rightarrow> dbl" where
  "round1 (Fin x) = dround (of_int (half_even (x * 10)) / 10)"
| "round1 d = d"

text \<open>The recorded reasons as texts; an age is printed without decimals.\<close>

fun down_text :: "down_reason \<Rightarrow> string" where
  "down_text (HeartbeatTimeout age) =
     ''heartbeat timeout: '' @ (case age of Fin x \<Rightarrow> int_str (half_even x) | Inf _ \<Rightarrow> ''inf'' | NaN \<Rightarrow> ''nan'') @ ''s since last seen''"
| "down_text OperatorRevocation = ''operator revocation''"

definition tile_row :: "('k, 's) sched \<Rightarrow> coordinator \<Rightarrow> rat \<Rightarrow> tile \<Rightarrow> json" where
  "tile_row C co now t = JObj
     [(''node_id'', JStr (tl_node_id t)), (''node_name'', JStr (tl_node_name t)), (''arch'', JStr (tl_arch t)),
      (''backend'', JStr (tl_backend t)), (''vram_gb'', JFloat (float_repr C (tl_vram_gb t))),
      (''layer_start'', JInt (int (tl_layer_start t))), (''layer_end'', JInt (int (tl_layer_end t))),
      (''status'', JStr (tl_status t)), (''active_connections'', JInt (active_of co (tl_node_id t))),
      (''total_jobs'', JInt (tl_total_jobs t)), (''contribution'', JFloat (float_repr C (tl_contribution t))),
      (''last_seen_age_s'', JFloat (float_repr C (round1 (dsub (Fin now) (Fin (tl_last_seen t)))))),
      (''down_reason'', (case tl_down_reason t of None \<Rightarrow> JNull | Some r \<Rightarrow> JStr (down_text r))),
      (''vram_fusion'', JStr ''ROADMAP''), (''label'', JStr ''LIVE''), (''throughput_label'', JStr ''MODELED'')]"

text \<open>\<open>clock i\<close> is the reading for the \<open>i\<close>-th tile.\<close>

definition tile_status :: "('k, 's) sched \<Rightarrow> coordinator \<Rightarrow> (nat \<Rightarrow> rat) \<Rightarrow> json list" where
  "tile_status C co clock = map (\<lambda>(i, _, t). tile_row C co (clock i) t) (enumerate 0 (co_tiles co))"

definition routing_ledger :: "coordinator \<Rightarrow> ledger" where
  "routing_ledger co = co_ledger co"

definition coordinator_bft :: "coordinator \<Rightarrow> khipu_bft" where
  "coordinator_bft co = co_bft co"

section \<open>The pipeline\<close>

text \<open>The greedy interval cover; the recursion is on the guard of the code.\<close>

fun plan_loop :: "nat \<Rightarrow> nat \<Rightarrow> nat \<Rightarrow> tile list \<Rightarrow> tile list \<Rightarrow> tile list \<times> bool" where
  "plan_loop layers 0 cursor remaining stages = (stages, layers \<le> cursor)"
| "plan_loop layers (Suc guard) cursor remaining stages =
     (if layers \<le> cursor then (stages, True)
      else
        (case filter (\<lambda>t. tl_layer_start t \<le> cursor \<and> cursor < tl_layer_end t) remaining of
           [] \<Rightarrow> (stages, False)
         | r # rs \<Rightarrow>
             let best = max_from tl_layer_end r rs in
             plan_loop layers guard (tl_layer_end best) (filter (\<lambda>t. tl_node_id t \<noteq> tl_node_id best) remaining)
               (stages @ [best])))"

definition pipeline_plan :: "coordinator \<Rightarrow> tile list \<times> bool" where
  "pipeline_plan co =
     (let up = sort_key (\<lambda>t. (tl_layer_start t, tl_layer_end t)) (filter (\<lambda>t. tl_status t = ''UP'') (map snd (co_tiles co))) in
      plan_loop (co_total_layers co) (length up + 1) 0 up [])"

text \<open>\<open>f"{base}"\<close> of a request id.\<close>

fun text_of :: "('k, 's) sched \<Rightarrow> json \<Rightarrow> string" where
  "text_of C (JStr s) = s"
| "text_of C (JInt i) = int_str i"
| "text_of C (JBool b) = (if b then ''True'' else ''False'')"
| "text_of C (JFloat f) = f"
| "text_of C JNull = ''None''"
| "text_of C v = py_str C v"

text \<open>The entries of the trace, and the reasons to leave the loop.\<close>

datatype trace_entry =
    PlanTrace nat bool int
  | BudgetTrace nat int nat nat
  | FailedTrace nat nat dispatch_result
  | StageTrace nat nat tile dispatch_result
  | ErrorTrace nat exn
  | ExitTrace bool string nat

text \<open>One pass over the planned stages: the state, the steps made, the results, the trace, the exit.\<close>

fun stage_loop ::
  "('k, 's) sched \<Rightarrow> request \<Rightarrow> string \<Rightarrow> int \<Rightarrow> nat \<Rightarrow> (nat \<Rightarrow> nat \<Rightarrow> rat) \<Rightarrow> (nat \<Rightarrow> nat \<Rightarrow> datetime) \<Rightarrow> string \<Rightarrow>
   tile list \<Rightarrow> nat \<Rightarrow> coordinator \<Rightarrow> dispatch_result list \<Rightarrow> trace_entry list \<Rightarrow>
   coordinator \<times> nat \<times> dispatch_result list \<times> trace_entry list \<times> string option" where
  "stage_loop C request base budget planned clock now fresh [] step co results trace = (co, step, results, trace, None)"
| "stage_loop C request base budget planned clock now fresh (t # ts) step co results trace =
     (if budget \<le> int step
      then (co, step, results, trace @ [BudgetTrace step budget (planned - length (t # ts)) planned], Some ''budget_exhausted'')
      else
        let step = step + 1;
            stage_request = put ''request_id'' (JStr (base @ ''::stage'' @ nat_str step)) request in
        (case dispatch C co stage_request (clock step) (now step) fresh of
           (co, Inl e) \<Rightarrow> (co, step, results, trace @ [ErrorTrace step e], Some ''error'')
         | (co, Inr res) \<Rightarrow>
             let results = results @ [res] in
             if \<not> dispatched res
             then (co, step, results, trace @ [FailedTrace step planned res], Some ''degraded'')
             else stage_loop C request base budget planned clock now fresh ts step co results
                    (trace @ [StageTrace step planned t res])))"

record pipeline_result =
  pr_converged :: bool
  pr_request_id :: json
  pr_stages :: "dispatch_result list"
  pr_covered :: bool
  pr_steps :: nat
  pr_max_budget :: int
  pr_exit :: string
  pr_trace :: "trace_entry list"

definition resolve_budget :: "int option \<Rightarrow> string \<Rightarrow> int" where
  "resolve_budget max_steps raw =
     min (case max_steps of None \<Rightarrow> loop_budget raw | Some m \<Rightarrow> if 1 \<le> m then m else loop_budget raw) MAX_LOOP_BUDGET"

text \<open>Leaving the loop without a break is the \<open>else\<close> branch.\<close>

definition exit_reason :: "string option \<Rightarrow> bool \<Rightarrow> string" where
  "exit_reason exit full =
     (case exit of Some r \<Rightarrow> r | None \<Rightarrow> if full then ''converged'' else ''degraded'')"

definition run_pipeline ::
  "('k, 's) sched \<Rightarrow> coordinator \<Rightarrow> request \<Rightarrow> int option \<Rightarrow> string \<Rightarrow> (nat \<Rightarrow> nat \<Rightarrow> rat) \<Rightarrow> (nat \<Rightarrow> nat \<Rightarrow> datetime) \<Rightarrow> string \<Rightarrow>
   coordinator \<times> pipeline_result" where
  "run_pipeline C co request max_steps raw clock now fresh =
     (let budget = resolve_budget max_steps raw;
          base = job_id_of request fresh;
          (plan, covered) = pipeline_plan co;
          (co', step, results, trace, exit) =
            stage_loop C request (text_of C base) budget (length plan) clock now fresh plan 0 co []
              [PlanTrace (length plan) covered budget];
          reason = exit_reason exit (plan \<noteq> [] \<and> covered);
          converged = (reason = ''converged'') in
      (co', \<lparr>pr_converged = converged, pr_request_id = base, pr_stages = results, pr_covered = covered, pr_steps = step,
             pr_max_budget = budget, pr_exit = reason, pr_trace = trace @ [ExitTrace converged reason step]\<rparr>))"

section \<open>The invariant of the coordinator\<close>

definition tile_ok :: "nat \<Rightarrow> string \<Rightarrow> tile \<Rightarrow> bool" where
  "tile_ok layers nid t \<longleftrightarrow> tl_node_id t = nid \<and> tl_layer_start t \<le> tl_layer_end t \<and> tl_layer_end t \<le> layers \<and>
     (0 < layers \<longrightarrow> tl_layer_start t < tl_layer_end t) \<and> tl_status t \<in> {''UP'', ''DOWN''} \<and> 0 \<le> tl_total_jobs t"

definition jobs_done :: "(string, tile) dict \<Rightarrow> int" where
  "jobs_done d = sum_list (map (\<lambda>(_, t). tl_total_jobs t) d)"

definition tiles_ok :: "nat \<Rightarrow> (string, tile) dict \<Rightarrow> bool" where
  "tiles_ok layers d \<longleftrightarrow> dict_ok d \<and> (\<forall>(nid, t) \<in> set d. tile_ok layers nid t)"

definition active_ok :: "(string, int) dict \<Rightarrow> bool" where
  "active_ok d \<longleftrightarrow> dict_ok d \<and> (\<forall>(nid, n) \<in> set d. 0 \<le> n)"

definition coord_inv :: "('k, 's) sched \<Rightarrow> coordinator \<Rightarrow> bool" where
  "coord_inv C co \<longleftrightarrow> tiles_ok (co_total_layers co) (co_tiles co) \<and> active_ok (co_active co) \<and>
     fst ` set (co_tiles co) = fst ` set (co_active co) \<and> ledger_inv (py.truncate C) (co_ledger co) \<and>
     jobs_done (co_tiles co) \<le> int (length (jl_chain (co_ledger co)))"

lemma tiles_ok_lookup: "tiles_ok n d \<Longrightarrow> map_of d nid = Some t \<Longrightarrow> tile_ok n nid t"
  unfolding tiles_ok_def by (auto dest: map_of_SomeD)

lemma tiles_ok_put: "tiles_ok n d \<Longrightarrow> tile_ok n nid t \<Longrightarrow> tiles_ok n (put nid t d)"
  by (auto simp: tiles_ok_def set_put)

lemma active_ok_put: "active_ok d \<Longrightarrow> 0 \<le> k \<Longrightarrow> active_ok (put nid k d)"
  by (auto simp: active_ok_def set_put)

lemma active_ok_lookup: "active_ok d \<Longrightarrow> map_of d nid = Some k \<Longrightarrow> 0 \<le> k"
  unfolding active_ok_def by (auto dest: map_of_SomeD)

lemma active_of_nonneg: "active_ok (co_active co) \<Longrightarrow> 0 \<le> active_of co nid"
  by (auto simp: active_of_def active_ok_lookup split: option.split)

lemma jobs_put:
  "dict_ok d \<Longrightarrow> jobs_done (put nid t d) =
     jobs_done d - (case map_of d nid of None \<Rightarrow> 0 | Some u \<Rightarrow> tl_total_jobs u) + tl_total_jobs t"
proof (induction d)
  case (Cons p d)
  obtain k u where p: "p = (k, u)" by (cases p)
  have "map_of d nid = None" if "k = nid" using Cons.prems that by (simp add: p map_of_eq_None_iff)
  then show ?case using Cons by (auto simp: p jobs_done_def split: option.split)
qed (simp add: jobs_done_def)

lemma keys_put_same: "map_of d k = Some v \<Longrightarrow> fst ` set (put k w d) = fst ` set d"
  by (auto simp: keys_put insert_absorb dest!: map_of_SomeD intro: rev_image_eqI)

text \<open>Changing a tile without its identity, range or job count keeps the invariant.\<close>

lemma coord_inv_put:
  assumes "coord_inv C co" "map_of (co_tiles co) nid = Some t" "tile_ok (co_total_layers co) nid t'"
    and "tl_total_jobs t' = tl_total_jobs t"
  shows "coord_inv C (co\<lparr>co_tiles := put nid t' (co_tiles co)\<rparr>)"
proof -
  have ok: "tiles_ok (co_total_layers co) (co_tiles co)" using assms(1) by (simp add: coord_inv_def)
  then have "dict_ok (co_tiles co)" by (simp add: tiles_ok_def)
  from jobs_put [OF this, of nid t'] have "jobs_done (put nid t' (co_tiles co)) = jobs_done (co_tiles co)"
    using assms(2,4) by simp
  then show ?thesis
    using assms(1) tiles_ok_put [OF ok assms(3)] keys_put_same [OF assms(2)] by (simp add: coord_inv_def)
qed

lemma coord_inv_new: "coord_inv C (new_coordinator secret layers ttl)"
  by (simp add: coord_inv_def new_coordinator_def tiles_ok_def active_ok_def jobs_done_def)

lemma coord_inv_frame:
  "coord_inv C (co\<lparr>co_relay := R\<rparr>) = coord_inv C co"
  "coord_inv C (co\<lparr>co_revoked := V\<rparr>) = coord_inv C co"
  "coord_inv C (co\<lparr>co_bft := B\<rparr>) = coord_inv C co"
  by (simp_all add: coord_inv_def)

lemma candidate_tile:
  assumes "coord_inv C co" "c \<in> set (candidates co)"
  obtains t where "map_of (co_tiles co) (cd_node_id c) = Some t" "cd_status c = tl_status t"
    "cd_layer_start c = tl_layer_start t" "cd_layer_end c = tl_layer_end t"
    "cd_active c = active_of co (cd_node_id c)"
proof -
  from assms(2) obtain nid t where t: "(nid, t) \<in> set (co_tiles co)" "cd_node_id c = tl_node_id t"
    "cd_status c = tl_status t" "cd_layer_start c = tl_layer_start t" "cd_layer_end c = tl_layer_end t"
    "cd_active c = active_of co (tl_node_id t)"
    by (auto simp: candidates_def)
  with assms(1) have "tl_node_id t = nid" "dict_ok (co_tiles co)"
    by (auto simp: coord_inv_def tiles_ok_def tile_ok_def)
  with t that show ?thesis by simp
qed

section \<open>What dispatching does\<close>

text \<open>The state after a request went to the node \<open>nid\<close> of tile \<open>t\<close>.\<close>

definition dispatched_to :: "coordinator \<Rightarrow> string \<Rightarrow> tile \<Rightarrow> ledger \<Rightarrow> coordinator" where
  "dispatched_to co nid t L =
     co\<lparr>co_active := put nid (active_of co nid + 1) (co_active co),
        co_tiles := put nid (t\<lparr>tl_total_jobs := tl_total_jobs t + 1,
                              tl_contribution := dadd (tl_contribution t) AYNI_CREDIT_PER_JOB\<rparr>) (co_tiles co),
        co_ledger := L\<rparr>"

definition routed ::
  "('k, 's) sched \<Rightarrow> coordinator \<Rightarrow> request \<Rightarrow> json \<Rightarrow> dbl \<Rightarrow> (nat \<Rightarrow> datetime) \<Rightarrow> coordinator \<Rightarrow> dispatch_result \<Rightarrow> bool" where
  "routed C co request rid score now co' res \<longleftrightarrow>
     (\<exists>c t L e. res = Dispatched rid c score e \<and> f1_least_connections_pick C rid (online (candidates co)) = Inr c \<and>
        map_of (co_tiles co) (cd_node_id c) = Some t \<and>
        ledger_append (py.truncate C) (co_ledger co) rid (rget request ''model'' (JStr ''unknown'')) score 0 0 (Fin 0)
          (rget request ''label'' (JStr ''LIVE'')) now = (L, e) \<and>
        co' = dispatched_to co (cd_node_id c) t L)"

lemma routedE:
  assumes "routed C co request rid score now co' res"
  obtains c t L e where "res = Dispatched rid c score e"
    "f1_least_connections_pick C rid (online (candidates co)) = Inr c"
    "map_of (co_tiles co) (cd_node_id c) = Some t"
    "ledger_append (py.truncate C) (co_ledger co) rid (rget request ''model'' (JStr ''unknown'')) score 0 0 (Fin 0)
      (rget request ''label'' (JStr ''LIVE'')) now = (L, e)"
    "co' = dispatched_to co (cd_node_id c) t L"
  using assms unfolding routed_def by blast

lemma route_cases:
  assumes "coord_inv C co" "sched_ok C" "route C co request rid score now = (co', res)"
  shows "(\<exists>r. res = Inr r \<and> routed C co request rid score now co' r) \<or>
    co' = co \<and> (\<forall>r. res = Inr r \<longrightarrow> \<not> dispatched r) \<and>
      ((\<exists>s. rid = JStr s) \<longrightarrow> online (candidates co) = [] \<and> (\<exists>ds. res = Inr (Degraded score ds)))"
proof (cases "online (candidates co) = []")
  case True
  then show ?thesis using assms(3) by (auto simp: route_def)
next
  case False
  show ?thesis
  proof (cases "f1_least_connections_pick C rid (online (candidates co))")
    case (Inl e)
    have "rid \<noteq> JStr s" for s
    proof
      assume "rid = JStr s"
      then have "\<exists>c. f1_least_connections_pick C rid (online (candidates co)) = Inr c"
        using False tied_nonempty [of "online (candidates co)"]
        by (auto simp: f1_least_connections_pick_def f1_seeded_pick_def Let_def online_def)
      with Inl show False by simp
    qed
    with Inl False show ?thesis using assms(3) by (auto simp: route_def)
  next
    case (Inr c)
    then have "c \<in> set (candidates co)"
      using pick_in_tied [OF assms(2) Inr] unfolding tied_set online_set by blast
    then obtain t where t: "map_of (co_tiles co) (cd_node_id c) = Some t"
      using candidate_tile [OF assms(1)] by metis
    obtain L e where L: "ledger_append (py.truncate C) (co_ledger co) rid (rget request ''model'' (JStr ''unknown''))
        score 0 0 (Fin 0) (rget request ''label'' (JStr ''LIVE'')) now = (L, e)" by fastforce
    have "co' = dispatched_to co (cd_node_id c) t L" "res = Inr (Dispatched rid c score e)"
      using assms(3) False Inr t L by (simp_all add: route_def Let_def append_routing_def dispatched_to_def)
    then show ?thesis using Inr t L unfolding routed_def by blast
  qed
qed

text \<open>What a dispatch may do to the state: use a request id, and then possibly route.\<close>

definition with_relay :: "coordinator \<Rightarrow> relay \<Rightarrow> coordinator" where
  "with_relay co R = co\<lparr>co_relay := R\<rparr>"

lemma dispatch_cases:
  assumes "coord_inv C co" "sched_ok C" "dispatch C co request clock now fresh = (co', res)"
    and "rid = job_id_of request fresh" "R = fst (is_duplicate (co_relay co) rid clock)"
  shows "(\<exists>r score. res = Inr r \<and> snd (is_duplicate (co_relay co) rid clock) = Inr False \<and>
      lambda_gate_check request = Inr (True, score) \<and> routed C (with_relay co R) request rid score now co' r) \<or>
    co' = with_relay co R \<and> (\<forall>r. res = Inr r \<longrightarrow> \<not> dispatched r)"
proof -
  let ?co = "with_relay co R"
  obtain d where d: "is_duplicate (co_relay co) rid clock = (R, d)" using assms(5) by (cases "is_duplicate (co_relay co) rid clock") auto
  show ?thesis
  proof (cases "\<exists>score. d = Inr False \<and> lambda_gate_check request = Inr (True, score)")
    case True
    then obtain score where s: "d = Inr False" "lambda_gate_check request = Inr (True, score)" by blast
    then have "route C ?co request rid score now = (co', res)"
      using assms(3) d by (simp add: dispatch_def with_relay_def assms(4) [symmetric])
    from route_cases [OF _ assms(2) this] assms(1) s d show ?thesis
      by (auto simp: with_relay_def coord_inv_frame)
  next
    case False
    then show ?thesis using assms(3) d
      by (auto simp: dispatch_def with_relay_def Let_def assms(4) [symmetric] split: sum.splits bool.splits prod.splits)
  qed
qed

lemma coord_inv_routed:
  assumes "coord_inv C co" "routed C co request rid score now co' res"
  shows "coord_inv C co'"
proof -
  from assms(2) show ?thesis
  proof (rule routedE)
    fix c t L e
    assume t: "map_of (co_tiles co) (cd_node_id c) = Some t" and co': "co' = dispatched_to co (cd_node_id c) t L"
      and L: "ledger_append (py.truncate C) (co_ledger co) rid (rget request ''model'' (JStr ''unknown'')) score 0 0 (Fin 0)
        (rget request ''label'' (JStr ''LIVE'')) now = (L, e)"
    let ?nid = "cd_node_id c"
    let ?t = "t\<lparr>tl_total_jobs := tl_total_jobs t + 1, tl_contribution := dadd (tl_contribution t) AYNI_CREDIT_PER_JOB\<rparr>"
    have ok: "tiles_ok (co_total_layers co) (co_tiles co)" "active_ok (co_active co)"
      "fst ` set (co_tiles co) = fst ` set (co_active co)" "ledger_inv (py.truncate C) (co_ledger co)"
      "jobs_done (co_tiles co) \<le> int (length (jl_chain (co_ledger co)))"
      using assms(1) by (simp_all add: coord_inv_def)
    have "dict_ok (co_tiles co)" using ok(1) by (simp add: tiles_ok_def)
    from jobs_put [OF this, of ?nid ?t] t have jobs: "jobs_done (put ?nid ?t (co_tiles co)) = jobs_done (co_tiles co) + 1"
      by simp
    have tile: "tile_ok (co_total_layers co) ?nid ?t" using tiles_ok_lookup [OF ok(1) t] by (simp add: tile_ok_def)
    have act: "active_ok (put ?nid (active_of co ?nid + 1) (co_active co))"
      using active_of_nonneg [OF ok(2), of ?nid] by (intro active_ok_put ok(2)) simp
    have keys: "fst ` set (put ?nid ?t (co_tiles co)) = fst ` set (put ?nid (active_of co ?nid + 1) (co_active co))"
      unfolding keys_put ok(3) ..
    show ?thesis
      using tiles_ok_put [OF ok(1) tile] act keys ledger_inv_append [OF ok(4) L] jobs ok(5) ledger_append_shape(1) [OF L]
      by (simp add: coord_inv_def co' dispatched_to_def)
  qed
qed

lemma coord_inv_dispatch:
  assumes "coord_inv C co" "sched_ok C"
  shows "coord_inv C (fst (dispatch C co request clock now fresh))"
proof -
  obtain co' res where d: "dispatch C co request clock now fresh = (co', res)" by fastforce
  have R: "coord_inv C (with_relay co R)" for R using assms(1) by (simp add: with_relay_def coord_inv_frame)
  from dispatch_cases [OF assms d refl refl] show ?thesis
    using coord_inv_routed [OF R] R unfolding d fst_conv by blast
qed

lemma coord_inv_join:
  assumes "coord_inv C co"
  shows "coord_inv C (fst (join_node C co hw clock))"
proof (cases "snd (join_node C co hw clock)")
  case (Inl e)
  then show ?thesis using assms by (auto simp: join_node_def Let_def split: sum.splits prod.splits)
next
  case (Inr r)
  then obtain ls le where a: "assign_layers C (co_total_layers co)
      (map (\<lambda>(_, t). (tl_vram_gb t, tl_layer_start t, tl_layer_end t)) (co_tiles co)) (hw_vram_gb hw) = Inr (ls, le)"
    by (auto simp: join_node_def Let_def split: sum.splits)
  let ?nid = "hw_node_id (py.truncate C) hw"
  let ?t = "\<lparr>tl_node_id = ?nid, tl_node_name = hw_node_name hw, tl_hostname = hw_hostname hw, tl_port = hw_port hw,
     tl_arch = hw_arch hw, tl_backend = hw_backend hw, tl_vram_gb = hw_vram_gb hw, tl_cpu_ram_gb = hw_cpu_ram_gb hw,
     tl_layer_start = ls, tl_layer_end = le,
     tl_token = issue_join_token (py.truncate C) hw (co_secret co) (co_token_ttl co) (clock 0), tl_status = ''UP'',
     tl_active_connections = 0, tl_total_jobs = 0, tl_contribution = Fin 0, tl_last_seen = clock 1, tl_down_reason = None\<rparr>"
  have co': "fst (join_node C co hw clock) =
      co\<lparr>co_tiles := put ?nid ?t (co_tiles co), co_active := put ?nid 0 (co_active co)\<rparr>"
    using a by (simp add: join_node_def Let_def)
  have ok: "tiles_ok (co_total_layers co) (co_tiles co)" "active_ok (co_active co)"
    "fst ` set (co_tiles co) = fst ` set (co_active co)" "ledger_inv (py.truncate C) (co_ledger co)"
    "jobs_done (co_tiles co) \<le> int (length (jl_chain (co_ledger co)))"
    using assms by (simp_all add: coord_inv_def)
  have d: "dict_ok (co_tiles co)" using ok(1) by (simp add: tiles_ok_def)
  have "0 \<le> (case map_of (co_tiles co) ?nid of None \<Rightarrow> 0 | Some u \<Rightarrow> tl_total_jobs u)"
    using tiles_ok_lookup [OF ok(1), of ?nid] by (auto simp: tile_ok_def split: option.split)
  with jobs_put [OF d, of ?nid ?t] have jobs: "jobs_done (put ?nid ?t (co_tiles co)) \<le> jobs_done (co_tiles co)" by simp
  have tile: "tile_ok (co_total_layers co) ?nid ?t"
    using assign_range [OF a] by (simp add: tile_ok_def)
  show ?thesis
    using tiles_ok_put [OF ok(1) tile] active_ok_put [OF ok(2), of 0] ok(3-5) jobs
    by (simp add: coord_inv_def co' keys_put)
qed

lemma stage_loop_induct:
  assumes step: "\<And>co request clock now fresh. P co \<Longrightarrow> P (fst (dispatch C co request clock now fresh))"
    and "P co"
  shows "P (fst (stage_loop C request base budget planned clock now fresh ts step co results trace))"
  using assms(2)
proof (induction ts arbitrary: step co results trace)
  case (Cons t ts)
  let ?req = "put ''request_id'' (JStr (base @ ''::stage'' @ nat_str (step + 1))) request"
  obtain co' res where d: "dispatch C co ?req (clock (step + 1)) (now (step + 1)) fresh = (co', res)" by fastforce
  with step [OF Cons.prems, of ?req "clock (step + 1)" "now (step + 1)" fresh] have "P co'" by simp
  with Cons.IH Cons.prems d show ?case by (cases res) (auto simp: Let_def)
qed simp

lemma fst_run_pipeline:
  "fst (run_pipeline C co request max_steps raw clock now fresh) =
   fst (stage_loop C request (text_of C (job_id_of request fresh)) (resolve_budget max_steps raw)
     (length (fst (pipeline_plan co))) clock now fresh (fst (pipeline_plan co)) 0 co []
     [PlanTrace (length (fst (pipeline_plan co))) (snd (pipeline_plan co)) (resolve_budget max_steps raw)])"
  by (simp add: run_pipeline_def Let_def case_prod_beta)

text \<open>One operation of the coordinator, called with any arguments at any time.\<close>

inductive coord_step :: "('k, 's) sched \<Rightarrow> coordinator \<Rightarrow> coordinator \<Rightarrow> bool" for C where
  join: "coord_step C co (fst (join_node C co hw clock))"
| beat: "coord_step C co (fst (receive_heartbeat C co nid token clock))"
| evict: "coord_step C co (fst (evict_stale_tiles co time))"
| revoke: "coord_step C co (revoke_node co nid)"
| work: "coord_step C co (fst (dispatch C co request clock now fresh))"
| pipeline: "coord_step C co (fst (run_pipeline C co request max_steps raw clocks now fresh))"
| complete: "coord_step C co (job_complete co nid)"
| vote: "coord_step C co (co\<lparr>co_bft := fst (witness (co_bft co) job nid)\<rparr>)"

inductive coord_reaches :: "('k, 's) sched \<Rightarrow> coordinator \<Rightarrow> coordinator \<Rightarrow> bool" for C where
  start: "coord_reaches C co co"
| more: "coord_reaches C co co' \<Longrightarrow> coord_step C co' co'' \<Longrightarrow> coord_reaches C co co''"

lemma jobs_done_map:
  "(\<And>nid t. (nid, t) \<in> set d \<Longrightarrow> tl_total_jobs (f nid t) = tl_total_jobs t) \<Longrightarrow>
   jobs_done (map (\<lambda>(nid, t). (nid, f nid t)) d) = jobs_done d"
  by (induction d) (auto simp: jobs_done_def)

lemma coord_inv_map_tiles:
  assumes "coord_inv C co"
    and same: "\<And>nid t. tl_total_jobs (f nid t) = tl_total_jobs t"
    and ok: "\<And>nid t. tile_ok (co_total_layers co) nid t \<Longrightarrow> tile_ok (co_total_layers co) nid (f nid t)"
  shows "coord_inv C (co\<lparr>co_tiles := map (\<lambda>(nid, t). (nid, f nid t)) (co_tiles co)\<rparr>)"
proof -
  have keys: "map fst (map (\<lambda>(nid, t). (nid, f nid t)) d) = map fst d" for d by (induction d) auto
  then have keyset: "fst ` set (map (\<lambda>(nid, t). (nid, f nid t)) d) = fst ` set d" for d by (metis list.set_map)
  have "tiles_ok (co_total_layers co) (map (\<lambda>(nid, t). (nid, f nid t)) (co_tiles co))"
    using assms(1) unfolding coord_inv_def tiles_ok_def keys by (auto intro: ok)
  moreover have "jobs_done (map (\<lambda>(nid, t). (nid, f nid t)) (co_tiles co)) = jobs_done (co_tiles co)"
    by (rule jobs_done_map) (rule same)
  ultimately show ?thesis using assms(1) keyset [of "co_tiles co"] by (simp add: coord_inv_def)
qed

lemma coord_inv_evict: "coord_inv C co \<Longrightarrow> coord_inv C (fst (evict_stale_tiles co now))"
  unfolding evict_stale_tiles_def fst_conv by (rule coord_inv_map_tiles) (simp_all add: tile_ok_def)

lemma coord_inv_beat:
  assumes "coord_inv C co"
  shows "coord_inv C (fst (receive_heartbeat C co nid token clock))"
proof (cases "map_of (co_tiles co) nid")
  case (Some t)
  have "tiles_ok (co_total_layers co) (co_tiles co)" using assms by (simp add: coord_inv_def)
  from tiles_ok_lookup [OF this Some]
  have "coord_inv C (co\<lparr>co_tiles := put nid (t\<lparr>tl_last_seen := clock 1, tl_status := ''UP''\<rparr>) (co_tiles co)\<rparr>)"
    by (intro coord_inv_put [OF assms Some]) (simp_all add: tile_ok_def)
  with assms Some show ?thesis by (simp add: receive_heartbeat_def split: option.split)
qed (simp add: receive_heartbeat_def assms split: option.split)

lemma coord_inv_revoke:
  assumes "coord_inv C co"
  shows "coord_inv C (revoke_node co nid)"
proof (cases "map_of (co_tiles co) nid")
  case (Some t)
  have "tiles_ok (co_total_layers co) (co_tiles co)" using assms by (simp add: coord_inv_def)
  from tiles_ok_lookup [OF this Some]
  have "coord_inv C (co\<lparr>co_tiles := put nid (t\<lparr>tl_status := ''DOWN'', tl_down_reason := Some OperatorRevocation\<rparr>) (co_tiles co)\<rparr>)"
    by (intro coord_inv_put [OF assms Some]) (simp_all add: tile_ok_def)
  with Some show ?thesis by (simp add: revoke_node_def Let_def coord_inv_def)
qed (simp add: revoke_node_def Let_def coord_inv_frame assms)

lemma coord_inv_complete: "coord_inv C co \<Longrightarrow> coord_inv C (job_complete co nid)"
  by (auto simp: job_complete_def coord_inv_def active_ok_put keys_put_same split: option.split)

lemma coord_inv_step: "coord_step C co co' \<Longrightarrow> sched_ok C \<Longrightarrow> coord_inv C co \<Longrightarrow> coord_inv C co'"
  by (induction rule: coord_step.induct)
    (auto simp: coord_inv_frame fst_run_pipeline coord_inv_join coord_inv_beat coord_inv_evict coord_inv_revoke
      coord_inv_dispatch coord_inv_complete intro: stage_loop_induct [where P = "coord_inv C"])

lemma coord_inv_reaches: "coord_reaches C co co' \<Longrightarrow> sched_ok C \<Longrightarrow> coord_inv C co \<Longrightarrow> coord_inv C co'"
  by (induction rule: coord_reaches.induct) (auto intro: coord_inv_step)

lemma dispatch_frame:
  "co_total_layers (fst (dispatch C co request clock now fresh)) = co_total_layers co"
proof -
  have "co_total_layers (fst (route C co request rid score now)) = co_total_layers co" for co rid score
    by (auto simp: route_def Let_def split: sum.split prod.split option.split)
  then show ?thesis by (auto simp: dispatch_def Let_def split: sum.split bool.split prod.split)
qed

lemma layers_step: "coord_step C co co' \<Longrightarrow> co_total_layers co' = co_total_layers co"
proof (induction rule: coord_step.induct)
  case (join co hw clock)
  then show ?case by (auto simp: join_node_def Let_def split: sum.split prod.split)
next
  case (pipeline co request max_steps raw clocks now fresh)
  show ?case unfolding fst_run_pipeline
    by (rule stage_loop_induct [where P = "\<lambda>x. co_total_layers x = co_total_layers co"]) (simp_all add: dispatch_frame)
qed (auto simp: receive_heartbeat_def evict_stale_tiles_def revoke_node_def job_complete_def dispatch_frame Let_def
  split: option.split)

lemma layers_reaches: "coord_reaches C co co' \<Longrightarrow> co_total_layers co' = co_total_layers co"
  by (induction rule: coord_reaches.induct) (auto dest: layers_step)

lemma online_online: "online (online cs) = online cs"
  by (simp add: online_def)

lemma online_candidate:
  assumes "coord_inv C co"
  shows "c \<in> set (online (candidates co)) \<longleftrightarrow>
    (\<exists>t. map_of (co_tiles co) (cd_node_id c) = Some t \<and> tl_status t = ''UP'' \<and> c \<in> set (candidates co))"
proof (cases "c \<in> set (candidates co)")
  case True
  from assms True show ?thesis
  proof (rule candidate_tile)
    fix t
    assume "map_of (co_tiles co) (cd_node_id c) = Some t" "cd_status c = tl_status t"
    with True show ?thesis by (simp add: online_set)
  qed
qed (simp add: online_set)

lemma up_candidate:
  assumes "coord_inv C co" "map_of (co_tiles co) nid = Some t" "tl_status t = ''UP''"
  obtains c where "c \<in> set (online (candidates co))" "cd_node_id c = nid" "cd_active c = active_of co nid"
proof -
  let ?c = "\<lparr>cd_node_id = tl_node_id t, cd_node_name = tl_node_name t, cd_hostname = tl_hostname t,
     cd_port = tl_port t, cd_vram_gb = tl_vram_gb t, cd_layer_start = tl_layer_start t, cd_layer_end = tl_layer_end t,
     cd_active = active_of co (tl_node_id t), cd_status = tl_status t\<rparr>"
  have "tl_node_id t = nid"
    using assms(1,2) tiles_ok_lookup by (auto simp: coord_inv_def tile_ok_def)
  moreover have "?c \<in> set (candidates co)"
    using map_of_SomeD [OF assms(2)] by (force simp: candidates_def)
  ultimately show ?thesis using that [of ?c] assms(3) by (simp add: online_set)
qed

lemma online_empty:
  assumes "coord_inv C co"
  shows "online (candidates co) = [] \<longleftrightarrow> (\<forall>nid t. map_of (co_tiles co) nid = Some t \<longrightarrow> tl_status t \<noteq> ''UP'')"
proof
  assume "online (candidates co) = []"
  then show "\<forall>nid t. map_of (co_tiles co) nid = Some t \<longrightarrow> tl_status t \<noteq> ''UP''"
    using up_candidate [OF assms] by (metis empty_iff list.set(1))
next
  assume "\<forall>nid t. map_of (co_tiles co) nid = Some t \<longrightarrow> tl_status t \<noteq> ''UP''"
  then show "online (candidates co) = []"
    using online_candidate [OF assms] by (metis list.set_intros(1) neq_Nil_conv)
qed

lemma is_duplicate_str: "\<exists>b. snd (is_duplicate R (JStr s) clock) = Inr b"
  by (simp add: is_duplicate_def Let_def) blast

text \<open>With a request id that is a string, dispatching succeeds exactly when it should.\<close>

lemma dispatch_succeeds:
  assumes "coord_inv C co" "sched_ok C" "job_id_of request fresh = JStr rid"
    and "snd (is_duplicate (co_relay co) (JStr rid) clock) = Inr False"
    and "lambda_gate_check request = Inr (True, score)" "online (candidates co) \<noteq> []"
  shows "\<exists>r. snd (dispatch C co request clock now fresh) = Inr r \<and> dispatched r"
proof -
  obtain R where d: "is_duplicate (co_relay co) (JStr rid) clock = (R, Inr False)"
    using assms(4) by (cases "is_duplicate (co_relay co) (JStr rid) clock") simp
  obtain co' res where r: "route C (with_relay co R) request (JStr rid) score now = (co', res)" by fastforce
  have disp: "dispatch C co request clock now fresh = (co', res)"
    using d r assms(3,5) by (simp add: dispatch_def with_relay_def)
  have "online (candidates (with_relay co R)) \<noteq> []"
    using assms(6) by (simp add: with_relay_def candidates_def active_of_def)
  moreover have "coord_inv C (with_relay co R)" using assms(1) by (simp add: with_relay_def coord_inv_frame)
  ultimately show ?thesis
    using route_cases [OF _ assms(2) r] unfolding disp snd_conv routed_def by (metis dispatched.simps(1))
qed

section \<open>The pipeline plan\<close>

definition serves :: "tile \<Rightarrow> nat \<Rightarrow> bool" where
  "serves t l \<longleftrightarrow> tl_layer_start t \<le> l \<and> l < tl_layer_end t"

lemma plan_loop_correct:
  assumes "length remaining < guard" "inj_on tl_node_id U" "set remaining \<subseteq> U" "set stages \<subseteq> U"
    and "\<And>t. t \<in> U \<Longrightarrow> t \<in> set remaining \<or> tl_layer_end t \<le> cursor"
    and "\<And>l. l < cursor \<Longrightarrow> \<exists>t \<in> set stages. serves t l"
    and "sorted_wrt (\<lambda>s t. tl_layer_end s < tl_layer_end t) stages" "\<And>t. t \<in> set stages \<Longrightarrow> tl_layer_end t \<le> cursor"
    and "plan_loop layers guard cursor remaining stages = (ss, covered)"
  shows "set ss \<subseteq> U \<and> length ss \<le> length stages + length remaining \<and>
    sorted_wrt (\<lambda>s t. tl_layer_end s < tl_layer_end t) ss \<and>
    (covered \<longrightarrow> (\<forall>l < layers. \<exists>t \<in> set ss. serves t l)) \<and>
    (\<not> covered \<longrightarrow> (\<exists>l < layers. \<forall>t \<in> U. \<not> serves t l))"
  using assms
proof (induction layers guard cursor remaining stages rule: plan_loop.induct)
  case (1 layers cursor remaining stages)
  then show ?case by simp
next
  case (2 layers guard cursor remaining stages)
  show ?case
  proof (cases "layers \<le> cursor")
    case True
    then show ?thesis using 2 by auto
  next
    case False
    let ?reach = "filter (\<lambda>t. tl_layer_start t \<le> cursor \<and> cursor < tl_layer_end t) remaining"
    show ?thesis
    proof (cases ?reach)
      case Nil
      have "\<not> serves t cursor" if "t \<in> U" for t
        using "2.prems"(5) [OF that] Nil by (auto simp: serves_def filter_empty_conv)
      moreover have "ss = stages" "\<not> covered" using "2.prems"(9) False Nil by auto
      moreover have "cursor < layers" using False by simp
      ultimately show ?thesis using "2.prems"(4,7) by auto
    next
      case (Cons r rs)
      let ?best = "max_from tl_layer_end r rs"
      let ?rem = "filter (\<lambda>t. tl_node_id t \<noteq> tl_node_id ?best) remaining"
      have "?best \<in> set ?reach" using max_from_in [of tl_layer_end r rs] by (simp add: Cons)
      then have best: "?best \<in> set remaining" "serves ?best cursor" by (auto simp: serves_def)
      have shorter: "length ?rem < length remaining" using best(1) by (intro length_filter_less) auto
      have rest: "t \<in> set ?rem \<or> tl_layer_end t \<le> tl_layer_end ?best" if "t \<in> U" for t
      proof (cases "t \<in> set remaining")
        case True
        then show ?thesis using "2.prems"(2,3) best(1) that by (auto dest: inj_onD)
      next
        case False
        with "2.prems"(5) [OF that] best(2) show ?thesis by (auto simp: serves_def)
      qed
      have served: "\<exists>t \<in> set (stages @ [?best]). serves t l" if "l < tl_layer_end ?best" for l
        using "2.prems"(6) [of l] best(2) that by (cases "l < cursor") (auto simp: serves_def)
      have mono: "sorted_wrt (\<lambda>s t. tl_layer_end s < tl_layer_end t) (stages @ [?best])"
        using "2.prems"(7,8) best(2) by (force simp: sorted_wrt_append serves_def)
      have ends: "tl_layer_end t \<le> tl_layer_end ?best" if "t \<in> set (stages @ [?best])" for t
        using "2.prems"(8) [of t] best(2) that by (auto simp: serves_def)
      have loop: "plan_loop layers guard (tl_layer_end ?best) ?rem (stages @ [?best]) = (ss, covered)"
        using "2.prems"(9) False Cons by (simp add: Let_def)
      have "set ss \<subseteq> U \<and> length ss \<le> length (stages @ [?best]) + length ?rem \<and>
          sorted_wrt (\<lambda>s t. tl_layer_end s < tl_layer_end t) ss \<and>
          (covered \<longrightarrow> (\<forall>l < layers. \<exists>t \<in> set ss. serves t l)) \<and>
          (\<not> covered \<longrightarrow> (\<exists>l < layers. \<forall>t \<in> U. \<not> serves t l))"
        by (rule "2.IH" [OF False Cons refl _ "2.prems"(2) _ _ rest served mono ends loop])
          (use "2.prems"(1,3,4) shorter best(1) in auto)
      with shorter show ?thesis by auto
    qed
  qed
qed

lemma plan_loop_start:
  assumes "inj_on tl_node_id U" "set up = U" "plan_loop layers (length up + 1) 0 up [] = (ss, covered)"
  shows "set ss \<subseteq> U \<and> length ss \<le> length up \<and> sorted_wrt (\<lambda>s t. tl_layer_end s < tl_layer_end t) ss \<and>
    (covered \<longrightarrow> (\<forall>l < layers. \<exists>t \<in> set ss. serves t l)) \<and>
    (\<not> covered \<longrightarrow> (\<exists>l < layers. \<forall>t \<in> U. \<not> serves t l))"
proof -
  have "set ss \<subseteq> U \<and> length ss \<le> length ([] :: tile list) + length up \<and>
      sorted_wrt (\<lambda>s t. tl_layer_end s < tl_layer_end t) ss \<and>
      (covered \<longrightarrow> (\<forall>l < layers. \<exists>t \<in> set ss. serves t l)) \<and>
      (\<not> covered \<longrightarrow> (\<exists>l < layers. \<forall>t \<in> U. \<not> serves t l))"
    by (rule plan_loop_correct [OF _ assms(1) _ _ _ _ _ _ assms(3)]) (use assms(2) in auto)
  then show ?thesis by simp
qed

section \<open>Properties of dispatching\<close>

lemma sample_join:
  "assign_layers toy_sched 4 [] (hw_vram_gb sample_hw) = Inr (0, 4)"
proof -
  have r: "dround (of_int i) = Fin (of_int i)" if "\<bar>i\<bar> \<le> 64" for i using that by (intro dround_int) simp
  have 16: "dadd (float_sum toy_sched (map fst [])) (Fin 16) = Fin 16"
    using r [of 16] by (simp add: toy_sched_def)
  have 64: "dmul (Fin (of_nat 4)) (Fin 16) = Fin 64" using r [of 64] by simp
  have 4: "ddiv (Fin 64) (Fin 16) = Fin 4" using r [of 4] by simp
  have share: "dbl_int half_even (Fin 4) = Inr 4" using half_even_int [of 4] by simp
  show ?thesis
    unfolding assign_layers_def Let_def sample_hw_def hardware.select_convs 16 64 4 share
    by (simp add: deq_def)
qed

text \<open>A coordinator of four layers that one node has joined.\<close>

definition sample_coordinator :: coordinator where
  "sample_coordinator = fst (join_node toy_sched (new_coordinator ''secret'' 4 3600) sample_hw (\<lambda>_. 0))"

lemma sample_reached: "coord_reaches toy_sched (new_coordinator ''secret'' 4 3600) sample_coordinator"
  unfolding sample_coordinator_def by (rule coord_reaches.more [OF coord_reaches.start coord_step.join])

lemma sample_inv: "coord_inv toy_sched sample_coordinator"
  using coord_inv_reaches [OF sample_reached toy_sched_ok coord_inv_new] .

lemma sample_tile:
  "\<exists>t. map_of (co_tiles sample_coordinator) (hw_node_id (py.truncate toy_sched) sample_hw) = Some t \<and>
     tl_status t = ''UP'' \<and> tl_layer_start t = 0 \<and> tl_layer_end t = 4"
  using sample_join by (simp add: sample_coordinator_def join_node_def Let_def new_coordinator_def)

lemma sample_relay: "ry_seen (co_relay sample_coordinator) = []"
  using sample_join by (simp add: sample_coordinator_def join_node_def Let_def new_coordinator_def new_relay_def)

definition sample_work :: request where
  "sample_work = [(''request_id'', JStr ''r''), (''lambda_score'', JInt 1)]"

lemma sample_gate: "lambda_gate_check (put ''request_id'' (JStr x) sample_work) = Inr (True, Fin 1)"
proof -
  have "dround (of_int 1) = Fin (of_int 1)" by (rule dround_int) simp
  then have "int_float 1 = Inr (Fin 1)" by (simp add: int_float_def)
  then show ?thesis by (simp add: sample_work_def lambda_gate_check_def rget_def deq_def LAMBDA_THRESHOLD_ADVISORY_def dle_def)
qed

text \<open>
  C8: Every state the coordinator can reach is consistent. Tiles are filed under their own id with
  a range of layers within the model, tiles and connection counters belong to the same nodes, no
  counter is negative, the routing ledger verifies, and it has at least one receipt for each job
  that the tiles count.
\<close>

theorem coordinator_invariant:
  assumes "sched_ok C" "coord_reaches C (new_coordinator secret layers ttl) co"
  shows "(\<forall>nid t. map_of (co_tiles co) nid = Some t \<longrightarrow>
      tl_node_id t = nid \<and> tl_layer_start t \<le> tl_layer_end t \<and> tl_layer_end t \<le> layers \<and>
      (0 < layers \<longrightarrow> tl_layer_start t < tl_layer_end t)) \<and>
    dom (map_of (co_tiles co)) = dom (map_of (co_active co)) \<and>
    (\<forall>nid. 0 \<le> active_of co nid) \<and>
    fst (verify_chain (py.truncate C) (co_ledger co)) \<and>
    jobs_done (co_tiles co) \<le> int (length (jl_chain (co_ledger co)))"
proof -
  have inv: "coord_inv C co" using coord_inv_reaches [OF assms(2,1) coord_inv_new] .
  have layers: "co_total_layers co = layers" using layers_reaches [OF assms(2)] by (simp add: new_coordinator_def)
  have "tile_ok layers nid t" if "map_of (co_tiles co) nid = Some t" for nid t
    using inv that tiles_ok_lookup [of layers "co_tiles co"] by (simp add: coord_inv_def layers)
  then have "\<forall>nid t. map_of (co_tiles co) nid = Some t \<longrightarrow>
      tl_node_id t = nid \<and> tl_layer_start t \<le> tl_layer_end t \<and> tl_layer_end t \<le> layers \<and>
      (0 < layers \<longrightarrow> tl_layer_start t < tl_layer_end t)" by (simp add: tile_ok_def)
  moreover have "dom (map_of (co_tiles co)) = dom (map_of (co_active co))"
    using inv by (simp add: coord_inv_def dom_map_of_conv_image_fst)
  moreover have "\<forall>nid. 0 \<le> active_of co nid" using inv active_of_nonneg by (simp add: coord_inv_def)
  moreover have "fst (verify_chain (py.truncate C) (co_ledger co))"
    using inv by (simp add: coord_inv_def verify_chain_iff ledger_inv_def)
  ultimately show ?thesis using inv by (simp add: coord_inv_def)
qed

theorem coordinator_invariant_witness:
  "fst (verify_chain (py.truncate toy_sched) (co_ledger (fst (dispatch toy_sched sample_coordinator sample_work (\<lambda>_. 0) (\<lambda>_. sample_instant) ''x''))))"
  using coordinator_invariant [OF toy_sched_ok coord_reaches.more [OF sample_reached coord_step.work]] by blast

text \<open>A routed request goes to a least-loaded node that is UP and leaves one receipt.\<close>

lemma routed_least_loaded:
  assumes inv: "coord_inv C co" and C: "sched_ok C"
    and "routed C (with_relay co R) request (JStr rid) score now co' r"
  shows "dispatched r \<and> (\<exists>nid t e L. map_of (co_tiles co) nid = Some t \<and> tl_status t = ''UP'' \<and>
    (\<forall>n u. map_of (co_tiles co) n = Some u \<and> tl_status u = ''UP'' \<longrightarrow> active_of co nid \<le> active_of co n) \<and>
    jl_chain L = jl_chain (co_ledger co) @ [e] \<and> map_of (le_receipt e) ''job_id'' = Some (JStr rid) \<and>
    co' = (dispatched_to co nid t L)\<lparr>co_relay := co_relay co'\<rparr>)"
  using assms(3)
proof (rule routedE)
  let ?co = "with_relay co R"
  have co: "candidates ?co = candidates co" "co_tiles ?co = co_tiles co" "co_ledger ?co = co_ledger co"
    by (auto simp: with_relay_def candidates_def active_of_def fun_eq_iff)
  fix c t L e
  assume e: "r = Dispatched (JStr rid) c score e"
    and pick: "f1_least_connections_pick C (JStr rid) (online (candidates ?co)) = Inr c"
    and t: "map_of (co_tiles ?co) (cd_node_id c) = Some t"
    and L: "ledger_append (py.truncate C) (co_ledger ?co) (JStr rid) (rget request ''model'' (JStr ''unknown'')) score
      0 0 (Fin 0) (rget request ''label'' (JStr ''LIVE'')) now = (L, e)"
    and co': "co' = dispatched_to ?co (cd_node_id c) t L"
  have "c \<in> set (tied (online (candidates co)))" using pick_in_tied [OF C pick] by (simp add: co online_online)
  then have c: "c \<in> set (online (candidates co))"
    and least: "\<And>d. d \<in> set (online (candidates co)) \<Longrightarrow> cd_active c \<le> cd_active d"
    by (simp_all add: tied_set)
  have up: "tl_status t = ''UP''" using c t online_candidate [OF inv, of c] by (simp add: co)
  have "cd_active c = active_of co (cd_node_id c)" using c by (auto simp: online_set candidates_def)
  then have "active_of co (cd_node_id c) \<le> active_of co n" if "map_of (co_tiles co) n = Some u" "tl_status u = ''UP''" for n u
    using up_candidate [OF inv that] least by metis
  moreover have "co' = (dispatched_to co (cd_node_id c) t L)\<lparr>co_relay := co_relay co'\<rparr>"
    by (simp add: co' dispatched_to_def with_relay_def active_of_def)
  moreover have "jl_chain L = jl_chain (co_ledger co) @ [e]" "map_of (le_receipt e) ''job_id'' = Some (JStr rid)"
    using ledger_append_shape(1,7) [OF L] by (simp_all add: co)
  ultimately show ?thesis using e up t unfolding co by fastforce
qed

text \<open>A fresh request that passes the gate is dispatched when some node is UP.\<close>

lemma dispatch_goes:
  assumes "coord_inv C co" "sched_ok C" "job_id_of request fresh = JStr rid"
    and "snd (is_duplicate (co_relay co) (JStr rid) clock) = Inr False" "lambda_gate_check request = Inr (True, score)"
    and "map_of (co_tiles co) nid = Some t" "tl_status t = ''UP''"
  shows "\<exists>r. snd (dispatch C co request clock now fresh) = Inr r \<and> dispatched r"
proof -
  have "online (candidates co) \<noteq> []" using online_empty [OF assms(1)] assms(6,7) by blast
  from dispatch_succeeds [OF assms(1-5) this] show ?thesis by blast
qed

text \<open>
  C9: What a dispatch does. With a request id that is a string, the request is dispatched exactly
  when its id was not seen recently, the gate passes it, and some node is UP. It then goes to a
  node that is UP and has the fewest connections; that node's connections and jobs go up by one,
  exactly one receipt for the request is appended, and nothing else changes but the ids seen. When
  it is not dispatched, only the ids seen change.
\<close>

theorem dispatch_outcome:
  assumes "sched_ok C" "coord_reaches C (new_coordinator secret layers ttl) co"
    and "dispatch C co request clock now fresh = (co', res)" "job_id_of request fresh = JStr rid"
  shows "((\<exists>r. res = Inr r \<and> dispatched r) \<longleftrightarrow>
      snd (is_duplicate (co_relay co) (JStr rid) clock) = Inr False \<and>
      (\<exists>score. lambda_gate_check request = Inr (True, score)) \<and>
      (\<exists>nid t. map_of (co_tiles co) nid = Some t \<and> tl_status t = ''UP'')) \<and>
    (\<forall>r. res = Inr r \<and> dispatched r \<longrightarrow>
      (\<exists>nid t e L. map_of (co_tiles co) nid = Some t \<and> tl_status t = ''UP'' \<and>
        (\<forall>n u. map_of (co_tiles co) n = Some u \<and> tl_status u = ''UP'' \<longrightarrow> active_of co nid \<le> active_of co n) \<and>
        jl_chain L = jl_chain (co_ledger co) @ [e] \<and> map_of (le_receipt e) ''job_id'' = Some (JStr rid) \<and>
        co' = (dispatched_to co nid t L)\<lparr>co_relay := co_relay co'\<rparr>)) \<and>
    ((\<forall>r. res = Inr r \<longrightarrow> \<not> dispatched r) \<longrightarrow> co' = co\<lparr>co_relay := co_relay co'\<rparr>)"
proof -
  have inv: "coord_inv C co" using coord_inv_reaches [OF assms(2,1) coord_inv_new] .
  let ?R = "fst (is_duplicate (co_relay co) (JStr rid) clock)"
  have goes: "\<exists>r. res = Inr r \<and> dispatched r"
    if "snd (is_duplicate (co_relay co) (JStr rid) clock) = Inr False" "lambda_gate_check request = Inr (True, score)"
      "map_of (co_tiles co) nid = Some t" "tl_status t = ''UP''" for score nid t
    using dispatch_goes [OF inv assms(1,4) that, of now] by (simp add: assms(3))
  from dispatch_cases [OF inv assms(1,3) refl refl, unfolded assms(4)] show ?thesis
  proof
    assume "\<exists>r score. res = Inr r \<and> snd (is_duplicate (co_relay co) (JStr rid) clock) = Inr False \<and>
      lambda_gate_check request = Inr (True, score) \<and> routed C (with_relay co ?R) request (JStr rid) score now co' r"
    then show ?thesis using routed_least_loaded [OF inv assms(1)] by fastforce
  next
    assume "co' = with_relay co ?R \<and> (\<forall>r. res = Inr r \<longrightarrow> \<not> dispatched r)"
    then show ?thesis using goes by (auto simp: with_relay_def)
  qed
qed

theorem dispatch_outcome_witness:
  "\<exists>r. snd (dispatch toy_sched sample_coordinator sample_work (\<lambda>_. 0) (\<lambda>_. sample_instant) ''x'') = Inr r \<and> dispatched r"
proof -
  obtain co' res where d: "dispatch toy_sched sample_coordinator sample_work (\<lambda>_. 0) (\<lambda>_. sample_instant) ''x'' = (co', res)" by fastforce
  have id: "job_id_of sample_work ''x'' = JStr ''r''" by (simp add: job_id_of_def sample_work_def rget_def Let_def)
  have new: "snd (is_duplicate (co_relay sample_coordinator) (JStr ''r'') (\<lambda>_. 0)) = Inr False"
    by (simp add: is_duplicate_def relay_evict_def sample_relay Let_def)
  have req: "put ''request_id'' (JStr ''r'') sample_work = sample_work" by (simp add: sample_work_def)
  from dispatch_outcome [OF toy_sched_ok sample_reached d id] new sample_gate [of "''r''", unfolded req] sample_tile d
  show ?thesis by auto
qed

section \<open>Idempotence\<close>

lemma evict_keeps:
  assumes "map_of (ry_seen R) k = Some ts" "\<not> dlt (Fin (of_int (ry_ttl R))) (dsub (Fin now) (Fin ts))"
  shows "map_of (ry_seen (relay_evict R now)) k = Some ts"
proof -
  have "map_of (filter (\<lambda>(k, ts). \<not> dlt (Fin (of_int (ry_ttl R))) (dsub (Fin now) (Fin ts))) d) k = Some ts"
    if "map_of d k = Some ts" for d
    using that assms(2) by (induction d) (auto split: if_splits)
  from this [OF assms(1)] show ?thesis by (simp add: relay_evict_def)
qed

lemma relay_ttl [simp]: "ry_ttl (fst (is_duplicate R rid clock)) = ry_ttl R"
  by (simp add: is_duplicate_def relay_evict_def Let_def split: sum.split)

lemma seen_is_duplicate:
  assumes "dict_key rid = Inr k" "k \<noteq> KFloat NaN" "map_of (ry_seen R) k = Some ts"
    and "\<not> dlt (Fin (of_int (ry_ttl R))) (dsub (Fin (clock 0)) (Fin ts))"
  shows "snd (is_duplicate R rid clock) = Inr True"
  using assms(1,2) evict_keeps [OF assms(3,4)] by (simp add: is_duplicate_def Let_def)

lemma fresh_becomes_seen:
  assumes "dict_key rid = Inr k" "snd (is_duplicate R rid clock) = Inr False"
  shows "map_of (ry_seen (fst (is_duplicate R rid clock))) k = Some (clock 1)"
  using assms by (auto simp: is_duplicate_def Let_def split: if_splits)

lemma seen_stays:
  assumes "map_of (ry_seen R) k = Some ts" "\<not> dlt (Fin (of_int (ry_ttl R))) (dsub (Fin (clock 0)) (Fin ts))" "k \<noteq> KFloat NaN"
  shows "map_of (ry_seen (fst (is_duplicate R rid clock))) k = Some ts"
  using evict_keeps [where now = "clock 0", OF assms(1,2)] assms(3)
  by (auto simp: is_duplicate_def Let_def split: sum.split)

lemma dispatch_relay:
  "co_relay (fst (dispatch C co request clock now fresh)) =
   fst (is_duplicate (co_relay co) (job_id_of request fresh) clock)"
proof -
  have r: "co_relay (fst (route C co request rid score now)) = co_relay co" for co rid score
    by (auto simp: route_def Let_def split: sum.split prod.split option.split)
  show ?thesis by (auto simp: dispatch_def Let_def r split: sum.split bool.split prod.split)
qed

lemma dispatched_fresh:
  assumes "coord_inv C co" "sched_ok C" "snd (dispatch C co request clock now fresh) = Inr r" "dispatched r"
  shows "snd (is_duplicate (co_relay co) (job_id_of request fresh) clock) = Inr False"
proof -
  obtain co' res where d: "dispatch C co request clock now fresh = (co', res)" by fastforce
  from dispatch_cases [OF assms(1,2) d refl refl] assms(3,4) show ?thesis unfolding d snd_conv by blast
qed

text \<open>A sequence of calls of \<open>dispatch\<close>, with their clock readings, and their results.\<close>

record call =
  cl_request :: request
  cl_clock :: "nat \<Rightarrow> rat"
  cl_now :: "nat \<Rightarrow> datetime"
  cl_fresh :: string

definition run_call :: "('k, 's) sched \<Rightarrow> coordinator \<Rightarrow> call \<Rightarrow> coordinator \<times> (exn + dispatch_result)" where
  "run_call C co a = dispatch C co (cl_request a) (cl_clock a) (cl_now a) (cl_fresh a)"

definition call_key :: "call \<Rightarrow> exn + dkey" where
  "call_key a = dict_key (job_id_of (cl_request a) (cl_fresh a))"

text \<open>The calls for the key \<open>k\<close> that were dispatched.\<close>

fun dispatches :: "('k, 's) sched \<Rightarrow> dkey \<Rightarrow> coordinator \<Rightarrow> call list \<Rightarrow> call list" where
  "dispatches C k co [] = []"
| "dispatches C k co (a # as) =
     (if call_key a = Inr k \<and> (\<exists>r. snd (run_call C co a) = Inr r \<and> dispatched r) then [a] else []) @
     dispatches C k (fst (run_call C co a)) as"

definition within_ttl :: "int \<Rightarrow> call list \<Rightarrow> bool" where
  "within_ttl ttl as \<longleftrightarrow>
     (\<forall>a \<in> set as. \<forall>b \<in> set as. \<not> dlt (Fin (of_int ttl)) (dsub (Fin (cl_clock b 0)) (Fin (cl_clock a 1))))"

lemma no_dispatch_when_seen:
  assumes "coord_inv C co" "sched_ok C" "k \<noteq> KFloat NaN" "map_of (ry_seen (co_relay co)) k = Some ts"
    and "\<forall>b \<in> set as. \<not> dlt (Fin (of_int (ry_ttl (co_relay co)))) (dsub (Fin (cl_clock b 0)) (Fin ts))"
  shows "dispatches C k co as = []"
  using assms(1,4,5)
proof (induction as arbitrary: co)
  case (Cons a as)
  have now: "\<not> dlt (Fin (of_int (ry_ttl (co_relay co)))) (dsub (Fin (cl_clock a 0)) (Fin ts))" using Cons.prems(3) by simp
  have no: "\<not> dispatched r" if "call_key a = Inr k" "snd (run_call C co a) = Inr r" for r
  proof
    assume "dispatched r"
    with that(2) have "snd (is_duplicate (co_relay co) (job_id_of (cl_request a) (cl_fresh a)) (cl_clock a)) = Inr False"
      unfolding run_call_def by (rule dispatched_fresh [OF Cons.prems(1) assms(2)])
    with seen_is_duplicate [where clock = "cl_clock a", OF that(1) [unfolded call_key_def] assms(3) Cons.prems(2) now] show False by simp
  qed
  let ?co = "fst (run_call C co a)"
  have "dispatches C k ?co as = []"
  proof (rule Cons.IH)
    show "coord_inv C ?co" unfolding run_call_def by (rule coord_inv_dispatch [OF Cons.prems(1) assms(2)])
    show "map_of (ry_seen (co_relay ?co)) k = Some ts"
      unfolding run_call_def dispatch_relay by (rule seen_stays [where clock = "cl_clock a", OF Cons.prems(2) now assms(3)])
    show "\<forall>b \<in> set as. \<not> dlt (Fin (of_int (ry_ttl (co_relay ?co)))) (dsub (Fin (cl_clock b 0)) (Fin ts))"
      using Cons.prems(3) by (simp add: run_call_def dispatch_relay)
  qed
  with no show ?case by auto
qed simp

text \<open>
  C21: At most one dispatch for each request id. In any sequence of requests that arrive within the
  relay's time to live, whatever they ask and whether they are retries or replays, at most one of
  those with the same id is dispatched.
\<close>

theorem at_most_once:
  assumes "sched_ok C" "coord_reaches C (new_coordinator secret layers ttl) co"
    and "within_ttl (ry_ttl (co_relay co)) calls" "k \<noteq> KFloat NaN"
  shows "length (dispatches C k co calls) \<le> 1"
proof -
  have "coord_inv C co" using coord_inv_reaches [OF assms(2,1) coord_inv_new] .
  then show ?thesis using assms(3)
  proof (induction calls arbitrary: co)
    case (Cons a as)
    let ?co = "fst (run_call C co a)"
    let ?rid = "job_id_of (cl_request a) (cl_fresh a)"
    have inv: "coord_inv C ?co" unfolding run_call_def by (rule coord_inv_dispatch [OF Cons.prems(1) assms(1)])
    have ttl: "ry_ttl (co_relay ?co) = ry_ttl (co_relay co)" by (simp add: run_call_def dispatch_relay)
    show ?case
    proof (cases "call_key a = Inr k \<and> (\<exists>r. snd (run_call C co a) = Inr r \<and> dispatched r)")
      case True
      then obtain r where "snd (run_call C co a) = Inr r" "dispatched r" by blast
      then have "snd (is_duplicate (co_relay co) ?rid (cl_clock a)) = Inr False"
        unfolding run_call_def by (rule dispatched_fresh [OF Cons.prems(1) assms(1)])
      with True have "map_of (ry_seen (co_relay ?co)) k = Some (cl_clock a 1)"
        unfolding run_call_def dispatch_relay call_key_def by (intro fresh_becomes_seen) simp_all
      moreover have "\<forall>b \<in> set as. \<not> dlt (Fin (of_int (ry_ttl (co_relay ?co)))) (dsub (Fin (cl_clock b 0)) (Fin (cl_clock a 1)))"
        using Cons.prems(2) by (simp add: within_ttl_def ttl)
      ultimately have "dispatches C k ?co as = []" by (rule no_dispatch_when_seen [OF inv assms(1,4)])
      then show ?thesis by simp
    next
      case False
      have "within_ttl (ry_ttl (co_relay ?co)) as" using Cons.prems(2) by (simp add: within_ttl_def ttl)
      from Cons.IH [OF inv this] False show ?thesis by auto
    qed
  qed simp
qed

theorem at_most_once_witness:
  "length (dispatches toy_sched (KStr ''r'') sample_coordinator
     (replicate 3 \<lparr>cl_request = sample_work, cl_clock = (\<lambda>_. 0), cl_now = (\<lambda>_. sample_instant), cl_fresh = ''x''\<rparr>)) \<le> 1"
proof (rule at_most_once [OF toy_sched_ok sample_reached])
  have "dsub (Fin 0) (Fin 0) = Fin 0" by (simp add: dsub_def dround_def)
  moreover have "ry_ttl (co_relay sample_coordinator) = 300"
    using sample_join by (simp add: sample_coordinator_def join_node_def Let_def new_coordinator_def new_relay_def)
  ultimately show "within_ttl (ry_ttl (co_relay sample_coordinator))
      (replicate 3 \<lparr>cl_request = sample_work, cl_clock = (\<lambda>_. 0), cl_now = (\<lambda>_. sample_instant), cl_fresh = ''x''\<rparr>)"
    by (simp add: within_ttl_def)
qed simp

text \<open>A request that is refused or degraded still uses its id: asking again is a duplicate.\<close>

lemma refused_request_is_spent:
  assumes "dict_key (job_id_of request fresh) = Inr k" "k \<noteq> KFloat NaN"
    and "snd (is_duplicate (co_relay co) (job_id_of request fresh) clock) = Inr False"
    and "\<not> dlt (Fin (of_int (ry_ttl (co_relay co)))) (dsub (Fin (clock' 0)) (Fin (clock 1)))"
    and "job_id_of request fresh = job_id_of request' fresh'"
  shows "snd (dispatch C (fst (dispatch C co request clock now fresh)) request' clock' now' fresh') = Inr DuplicateRequest"
proof -
  let ?R = "fst (is_duplicate (co_relay co) (job_id_of request fresh) clock)"
  have "snd (is_duplicate ?R (job_id_of request fresh) clock') = Inr True"
    by (rule seen_is_duplicate [OF assms(1,2) fresh_becomes_seen [OF assms(1,3)]]) (use assms(4) in simp)
  then show ?thesis
    by (auto simp: dispatch_def [of C _ request'] dispatch_relay assms(5) [symmetric] Let_def split: prod.split sum.split bool.split)
qed

section \<open>Properties of the pipeline\<close>

lemma plan_covers:
  assumes inv: "coord_inv C co" and plan: "pipeline_plan co = (stages, covered)"
  shows "(\<forall>t \<in> set stages. map_of (co_tiles co) (tl_node_id t) = Some t \<and> tl_status t = ''UP'') \<and>
    sorted_wrt (\<lambda>s t. tl_layer_end s < tl_layer_end t) stages \<and> length stages \<le> length (co_tiles co) \<and>
    (covered \<longleftrightarrow> (\<forall>l < co_total_layers co. \<exists>nid t. map_of (co_tiles co) nid = Some t \<and> tl_status t = ''UP'' \<and> serves t l)) \<and>
    (covered \<longrightarrow> (\<forall>l < co_total_layers co. \<exists>t \<in> set stages. serves t l))"
proof -
  let ?layers = "co_total_layers co"
  define U where "U = {t \<in> set (map snd (co_tiles co)). tl_status t = ''UP''}"
  have d: "dict_ok (co_tiles co)" and ids: "\<And>nid t. (nid, t) \<in> set (co_tiles co) \<Longrightarrow> tl_node_id t = nid"
    using inv by (auto simp: coord_inv_def tiles_ok_def tile_ok_def)
  have U: "t \<in> U \<longleftrightarrow> map_of (co_tiles co) (tl_node_id t) = Some t \<and> tl_status t = ''UP''" for t
  proof
    assume "t \<in> U"
    then obtain nid where "(nid, t) \<in> set (co_tiles co)" "tl_status t = ''UP''" by (auto simp: U_def)
    with d show "map_of (co_tiles co) (tl_node_id t) = Some t \<and> tl_status t = ''UP''" using ids [of nid t] by simp
  next
    assume "map_of (co_tiles co) (tl_node_id t) = Some t \<and> tl_status t = ''UP''"
    then show "t \<in> U" using map_of_SomeD [of "co_tiles co" "tl_node_id t" t] by (force simp: U_def)
  qed
  have inj: "inj_on tl_node_id U" by (rule inj_onI) (simp add: U)
  let ?up = "sort_key (\<lambda>t. (tl_layer_start t, tl_layer_end t)) (filter (\<lambda>t. tl_status t = ''UP'') (map snd (co_tiles co)))"
  have up: "set ?up = U" by (simp add: U_def)
  have len: "length ?up \<le> length (co_tiles co)"
    using length_filter_le [of "\<lambda>t. tl_status t = ''UP''" "map snd (co_tiles co)"] by simp
  have "plan_loop ?layers (length ?up + 1) 0 ?up [] = (stages, covered)"
    using assms(2) unfolding pipeline_plan_def Let_def .
  note walk = plan_loop_start [OF inj up this]
  have tile: "t \<in> U" if "map_of (co_tiles co) nid = Some t" "tl_status t = ''UP''" for nid t
    using map_of_SomeD [OF that(1)] that(2) by (force simp: U_def)
  have "covered \<longleftrightarrow> (\<forall>l < ?layers. \<exists>nid t. map_of (co_tiles co) nid = Some t \<and> tl_status t = ''UP'' \<and> serves t l)"
  proof (cases covered)
    case True
    have "\<exists>nid t. map_of (co_tiles co) nid = Some t \<and> tl_status t = ''UP'' \<and> serves t l" if "l < ?layers" for l
    proof -
      from walk True that obtain t where "t \<in> U" "serves t l" by blast
      with U show ?thesis by blast
    qed
    with True show ?thesis by blast
  next
    case False
    with walk obtain l where l: "l < ?layers" "\<forall>t \<in> U. \<not> serves t l" by blast
    with tile False show ?thesis by blast
  qed
  moreover have "\<forall>t \<in> set stages. map_of (co_tiles co) (tl_node_id t) = Some t \<and> tl_status t = ''UP''"
    using walk U by blast
  moreover have "length stages \<le> length (co_tiles co)" using walk len by linarith
  ultimately show ?thesis using walk by blast
qed

text \<open>
  The plan is right. The stages are distinct UP tiles in the order of their last layer, no more than
  there are; \<open>covered\<close> is reported exactly when the UP tiles serve every layer of the model, and then
  the stages alone serve every layer.
\<close>

theorem pipeline_plan_correct:
  assumes "sched_ok C" "coord_reaches C (new_coordinator secret layers ttl) co" "pipeline_plan co = (stages, covered)"
  shows "(\<forall>t \<in> set stages. map_of (co_tiles co) (tl_node_id t) = Some t \<and> tl_status t = ''UP'') \<and>
    sorted_wrt (\<lambda>s t. tl_layer_end s < tl_layer_end t) stages \<and> length stages \<le> length (co_tiles co) \<and>
    (covered \<longleftrightarrow> (\<forall>l < layers. \<exists>nid t. map_of (co_tiles co) nid = Some t \<and> tl_status t = ''UP'' \<and> serves t l)) \<and>
    (covered \<longrightarrow> (\<forall>l < layers. \<exists>t \<in> set stages. serves t l))"
  using plan_covers [OF coord_inv_reaches [OF assms(2,1) coord_inv_new] assms(3)] layers_reaches [OF assms(2)]
  by (simp add: new_coordinator_def)

lemma sample_plan: "fst (pipeline_plan sample_coordinator) \<noteq> [] \<and> snd (pipeline_plan sample_coordinator)"
  using sample_join
  by (simp add: sample_coordinator_def join_node_def Let_def new_coordinator_def pipeline_plan_def)

theorem pipeline_plan_correct_witness:
  "\<exists>t \<in> set (fst (pipeline_plan sample_coordinator)). serves t 3"
  using pipeline_plan_correct [OF toy_sched_ok sample_reached surjective_pairing] sample_plan by simp

text \<open>How far the walk over the stages gets.\<close>

lemma stage_loop_bounds:
  assumes "stage_loop C request base budget planned clock now fresh ts step co results trace = (co', step', results', trace', exit)"
    and "int step \<le> budget"
  shows "step \<le> step' \<and> int step' \<le> budget \<and> step' \<le> step + length ts \<and>
    length trace' \<le> length trace + (step' - step) + 1 \<and>
    (exit = None \<longrightarrow> step' = step + length ts \<and> (\<exists>rs. results' = results @ rs \<and> length rs = length ts \<and> list_all dispatched rs)) \<and>
    (exit \<noteq> None \<longrightarrow> the exit \<in> {''budget_exhausted'', ''degraded'', ''error''}) \<and>
    (exit = Some ''budget_exhausted'' \<longrightarrow> int step' = budget)"
  using assms
proof (induction ts arbitrary: step co results trace)
  case (Cons t ts)
  show ?case
  proof (cases "budget \<le> int step")
    case True
    with Cons.prems show ?thesis by auto
  next
    case False
    let ?req = "put ''request_id'' (JStr (base @ ''::stage'' @ nat_str (step + 1))) request"
    obtain co1 res where d: "dispatch C co ?req (clock (step + 1)) (now (step + 1)) fresh = (co1, res)" by fastforce
    show ?thesis
    proof (cases "\<exists>r. res = Inr r \<and> dispatched r")
      case True
      then obtain r where r: "res = Inr r" "dispatched r" by blast
      let ?trace = "trace @ [StageTrace (step + 1) planned t r]"
      have loop: "stage_loop C request base budget planned clock now fresh ts (step + 1) co1 (results @ [r]) ?trace =
          (co', step', results', trace', exit)"
        using Cons.prems(1) False d r by (simp add: Let_def)
      from Cons.IH [OF this] False r(2) show ?thesis by auto
    next
      case no: False
      then show ?thesis using Cons.prems False d by (cases res) (auto simp: Let_def)
    qed
  qed
qed auto

text \<open>Each stage that was dispatched has its receipt.\<close>

lemma dispatch_receipts:
  assumes "coord_inv C co" "sched_ok C" "dispatch C co request clock now fresh = (co', res)"
  shows "length (jl_chain (co_ledger co')) =
    length (jl_chain (co_ledger co)) + (if \<exists>r. res = Inr r \<and> dispatched r then 1 else 0)"
proof -
  from dispatch_cases [OF assms refl refl] show ?thesis
  proof
    assume "\<exists>r score. res = Inr r \<and> snd (is_duplicate (co_relay co) (job_id_of request fresh) clock) = Inr False \<and>
      lambda_gate_check request = Inr (True, score) \<and>
      routed C (with_relay co (fst (is_duplicate (co_relay co) (job_id_of request fresh) clock))) request (job_id_of request fresh) score now co' r"
    then obtain r score where r: "res = Inr r" and
      "routed C (with_relay co (fst (is_duplicate (co_relay co) (job_id_of request fresh) clock))) request (job_id_of request fresh) score now co' r"
      by blast
    from this(2) show ?thesis
    proof (rule routedE)
      fix c t L e
      assume "r = Dispatched (job_id_of request fresh) c score e" and co': "co' = dispatched_to (with_relay co (fst (is_duplicate (co_relay co) (job_id_of request fresh) clock))) (cd_node_id c) t L"
        and L: "ledger_append (py.truncate C) (co_ledger (with_relay co (fst (is_duplicate (co_relay co) (job_id_of request fresh) clock))))
          (job_id_of request fresh) (rget request ''model'' (JStr ''unknown'')) score 0 0 (Fin 0) (rget request ''label'' (JStr ''LIVE'')) now = (L, e)"
      then show ?thesis
        using r ledger_append_shape(1) [OF L] by (simp add: dispatched_to_def with_relay_def)
    qed
  next
    assume "co' = with_relay co (fst (is_duplicate (co_relay co) (job_id_of request fresh) clock)) \<and>
      (\<forall>r. res = Inr r \<longrightarrow> \<not> dispatched r)"
    then show ?thesis by (auto simp: with_relay_def)
  qed
qed

lemma stage_loop_receipts:
  assumes "stage_loop C request base budget planned clock now fresh ts step co results trace = (co', step', results', trace', exit)"
    and "coord_inv C co" "sched_ok C"
  shows "length (jl_chain (co_ledger co')) + length (filter dispatched results) =
    length (jl_chain (co_ledger co)) + length (filter dispatched results')"
  using assms(1,2)
proof (induction ts arbitrary: step co results trace)
  case (Cons t ts)
  show ?case
  proof (cases "budget \<le> int step")
    case True
    with Cons.prems show ?thesis by auto
  next
    case False
    let ?req = "put ''request_id'' (JStr (base @ ''::stage'' @ nat_str (step + 1))) request"
    obtain co1 res where d: "dispatch C co ?req (clock (step + 1)) (now (step + 1)) fresh = (co1, res)" by fastforce
    have inv: "coord_inv C co1"
      using coord_inv_dispatch [OF Cons.prems(2) assms(3), of ?req "clock (step + 1)" "now (step + 1)" fresh]
      unfolding d by simp
    note one = dispatch_receipts [OF Cons.prems(2) assms(3) d]
    show ?thesis
    proof (cases "\<exists>r. res = Inr r \<and> dispatched r")
      case True
      then obtain r where r: "res = Inr r" "dispatched r" by blast
      have "stage_loop C request base budget planned clock now fresh ts (step + 1) co1 (results @ [r])
          (trace @ [StageTrace (step + 1) planned t r]) = (co', step', results', trace', exit)"
        using Cons.prems(1) False d r by (simp add: Let_def)
      from Cons.IH [OF this inv] one r show ?thesis by simp
    next
      case no: False
      then show ?thesis using Cons.prems(1) one False d by (cases res) (auto simp: Let_def)
    qed
  qed
qed auto

lemma resolve_budget_bounds: "1 \<le> resolve_budget max_steps raw \<and> resolve_budget max_steps raw \<le> 1024"
  using loop_budget_bounds [of raw] by (auto simp: resolve_budget_def MAX_LOOP_BUDGET_def split: option.split)

text \<open>
  C18: The orchestration loop is bounded and closed by receipts. Whatever is asked, the budget is between
  1 and 1024, the steps stay within the budget and the planned stages, the trace within three entries
  more, the exit is one of the four documented ones, the routing ledger grows by exactly one receipt for
  each stage that was dispatched, and \<open>converged\<close> is only reported when the plan covers the model, is
  not empty and each of its stages was dispatched.
\<close>

theorem run_pipeline_bounded:
  assumes "sched_ok C" "coord_reaches C (new_coordinator secret layers ttl) co"
    and "run_pipeline C co request max_steps raw clock now fresh = (co', P)"
  shows "1 \<le> pr_max_budget P \<and> pr_max_budget P \<le> 1024 \<and> int (pr_steps P) \<le> pr_max_budget P \<and>
    pr_steps P \<le> length (fst (pipeline_plan co)) \<and> length (pr_trace P) \<le> pr_steps P + 3 \<and>
    pr_exit P \<in> {''converged'', ''budget_exhausted'', ''degraded'', ''error''} \<and>
    length (jl_chain (co_ledger co')) = length (jl_chain (co_ledger co)) + length (filter dispatched (pr_stages P)) \<and>
    (pr_converged P \<longleftrightarrow> pr_exit P = ''converged'') \<and>
    (pr_converged P \<longrightarrow> snd (pipeline_plan co) \<and> pr_steps P = length (fst (pipeline_plan co)) \<and> 0 < pr_steps P \<and>
      length (pr_stages P) = pr_steps P \<and> list_all dispatched (pr_stages P))"
proof -
  have inv: "coord_inv C co" using coord_inv_reaches [OF assms(2,1) coord_inv_new] .
  obtain plan covered where plan: "pipeline_plan co = (plan, covered)" by fastforce
  let ?budget = "resolve_budget max_steps raw"
  let ?base = "job_id_of request fresh"
  obtain co1 step results trace exit where loop:
    "stage_loop C request (text_of C ?base) ?budget (length plan) clock now fresh plan 0 co []
       [PlanTrace (length plan) covered ?budget] = (co1, step, results, trace, exit)"
    by (metis prod_cases5)
  let ?reason = "exit_reason exit (plan \<noteq> [] \<and> covered)"
  have P: "co' = co1" "pr_max_budget P = ?budget" "pr_steps P = step" "pr_stages P = results" "pr_exit P = ?reason"
    "pr_converged P \<longleftrightarrow> ?reason = ''converged''" "pr_trace P = trace @ [ExitTrace (?reason = ''converged'') ?reason step]"
    using assms(3) unfolding run_pipeline_def Let_def plan prod.case loop by auto
  note b = resolve_budget_bounds [of max_steps raw]
  from b have "int 0 \<le> ?budget" by simp
  note bounds = stage_loop_bounds [OF loop this]
  have receipts: "length (jl_chain (co_ledger co1)) = length (jl_chain (co_ledger co)) + length (filter dispatched results)"
    using stage_loop_receipts [OF loop inv assms(1)] by simp
  have converged: "exit = None \<and> plan \<noteq> [] \<and> covered" if "?reason = ''converged''"
    using that bounds by (cases exit) (auto simp: exit_reason_def split: if_splits)
  have reason: "?reason \<in> {''converged'', ''budget_exhausted'', ''degraded'', ''error''}"
    using bounds by (cases exit) (auto simp: exit_reason_def)
  have complete: "snd (plan, covered) \<and> step = length plan \<and> 0 < step \<and> length results = step \<and> list_all dispatched results"
    if "?reason = ''converged''"
    using converged [OF that] bounds by auto
  have "length trace \<le> step + 2" using bounds by simp
  then show ?thesis
    using b bounds receipts reason complete unfolding P plan fst_conv by auto
qed

theorem run_pipeline_bounded_witness:
  "pr_steps (snd (run_pipeline toy_sched sample_coordinator sample_work (Some 2000) [] (\<lambda>_ _. 0) (\<lambda>_ _. sample_instant) ''x'')) \<le> 1024"
  using run_pipeline_bounded [OF toy_sched_ok sample_reached surjective_pairing,
      of sample_work "Some 2000" "[]" "\<lambda>_ _. 0" "\<lambda>_ _. sample_instant" "''x''"]
  by linarith

text \<open>The request of stage \<open>i\<close>.\<close>

abbreviation stage_id :: "string \<Rightarrow> nat \<Rightarrow> string" where
  "stage_id base i \<equiv> base @ ''::stage'' @ nat_str i"

lemma job_id_stage: "job_id_of (put ''request_id'' (JStr (stage_id base i)) request) fresh = JStr (stage_id base i)"
  by (simp add: job_id_of_def rget_def)

lemma unseen_after:
  assumes "map_of (ry_seen R) (KStr y) = None" "x \<noteq> y"
  shows "map_of (ry_seen (fst (is_duplicate R (JStr x) clock))) (KStr y) = None"
proof -
  have "map_of (filter Q d) (KStr y) = None" if "map_of d (KStr y) = None" for Q and d :: "(dkey, rat) dict"
    using that by (induction d) (auto split: if_splits)
  then have "map_of (ry_seen (relay_evict R (clock 0))) (KStr y) = None"
    using assms(1) by (simp add: relay_evict_def)
  then show ?thesis using assms(2) by (auto simp: is_duplicate_def Let_def)
qed

lemma unseen_is_fresh:
  assumes "map_of (ry_seen R) (KStr y) = None"
  shows "snd (is_duplicate R (JStr y) clock) = Inr False"
proof -
  have "map_of (filter Q d) (KStr y) = None" if "map_of d (KStr y) = None" for Q and d :: "(dkey, rat) dict"
    using that by (induction d) (auto split: if_splits)
  then show ?thesis using assms by (simp add: is_duplicate_def relay_evict_def Let_def)
qed

definition some_up :: "coordinator \<Rightarrow> bool" where
  "some_up co \<longleftrightarrow> (\<exists>nid t. map_of (co_tiles co) nid = Some t \<and> tl_status t = ''UP'')"

lemma dispatch_keeps_up:
  assumes "coord_inv C co" "sched_ok C" "some_up co"
  shows "some_up (fst (dispatch C co request clock now fresh))"
proof -
  obtain co' res where d: "dispatch C co request clock now fresh = (co', res)" by fastforce
  have R: "some_up (with_relay co R)" for R using assms(3) by (simp add: some_up_def with_relay_def)
  have "some_up co'" if "routed C (with_relay co R) request rid score now co' r" for R rid score r
    using that
  proof (rule routedE)
    fix c t L e
    assume t: "map_of (co_tiles (with_relay co R)) (cd_node_id c) = Some t"
      and co': "co' = dispatched_to (with_relay co R) (cd_node_id c) t L"
    from R [of R] obtain nid u where "map_of (co_tiles (with_relay co R)) nid = Some u" "tl_status u = ''UP''"
      unfolding some_up_def by blast
    then show ?thesis
      using t by (cases "nid = cd_node_id c") (auto simp: some_up_def co' dispatched_to_def)
  qed
  with dispatch_cases [OF assms(1,2) d refl refl] R show ?thesis unfolding d fst_conv by blast
qed

lemma stage_loop_converges:
  assumes "sched_ok C" "\<And>i. \<exists>score. lambda_gate_check (put ''request_id'' (JStr (stage_id base i)) request) = Inr (True, score)"
    and "coord_inv C co" "some_up co" "\<And>i. step < i \<Longrightarrow> map_of (ry_seen (co_relay co)) (KStr (stage_id base i)) = None"
    and "int (step + length ts) \<le> budget"
  shows "\<exists>co' results' trace'. stage_loop C request base budget planned clock now fresh ts step co results trace =
    (co', step + length ts, results', trace', None)"
  using assms(3-)
proof (induction ts arbitrary: step co results trace)
  case (Cons t ts)
  let ?req = "put ''request_id'' (JStr (stage_id base (step + 1))) request"
  obtain score where gate: "lambda_gate_check ?req = Inr (True, score)" using assms(2) by blast
  have "online (candidates co) \<noteq> []" using Cons.prems(2) online_empty [OF Cons.prems(1)] by (auto simp: some_up_def)
  from dispatch_succeeds [OF Cons.prems(1) assms(1) job_id_stage unseen_is_fresh [OF Cons.prems(3)] gate this,
      of "clock (step + 1)" "now (step + 1)" fresh]
  obtain co1 r where d: "dispatch C co ?req (clock (step + 1)) (now (step + 1)) fresh = (co1, Inr r)" and r: "dispatched r"
    by (cases "dispatch C co ?req (clock (step + 1)) (now (step + 1)) fresh") auto
  have inv: "coord_inv C co1"
    using coord_inv_dispatch [OF Cons.prems(1) assms(1), of ?req "clock (step + 1)" "now (step + 1)" fresh] unfolding d by simp
  have up: "some_up co1"
    using dispatch_keeps_up [OF Cons.prems(1) assms(1) Cons.prems(2), of ?req "clock (step + 1)" "now (step + 1)" fresh]
    unfolding d by simp
  have relay: "co_relay co1 = fst (is_duplicate (co_relay co) (JStr (stage_id base (step + 1))) (clock (step + 1)))"
    using dispatch_relay [of C co ?req "clock (step + 1)" "now (step + 1)" fresh] unfolding d job_id_stage by simp
  have unseen: "map_of (ry_seen (co_relay co1)) (KStr (stage_id base i)) = None" if "step + 1 < i" for i
    unfolding relay by (rule unseen_after [OF Cons.prems(3)]) (use that in auto)
  have loop: "stage_loop C request base budget planned clock now fresh (t # ts) step co results trace =
      stage_loop C request base budget planned clock now fresh ts (step + 1) co1 (results @ [r])
        (trace @ [StageTrace (step + 1) planned t r])"
    using d r Cons.prems(4) by (simp add: Let_def)
  have len: "int (step + 1 + length ts) \<le> budget" using Cons.prems(4) by simp
  have count: "step + length (t # ts) = step + 1 + length ts" by simp
  show ?case unfolding loop count by (rule Cons.IH [OF inv up unseen len])
qed simp

text \<open>
  C17: The loop gets there. When the UP tiles serve every layer of a model that has layers, the gate passes the
  request under every id of a stage, no such id was seen, and the budget is at least the number of planned
  stages, then the pipeline converges and has dispatched every planned stage.
\<close>

theorem run_pipeline_converges:
  assumes "sched_ok C" "coord_reaches C (new_coordinator secret layers ttl) co" "0 < layers"
    and "\<forall>l < layers. \<exists>nid t. map_of (co_tiles co) nid = Some t \<and> tl_status t = ''UP'' \<and> serves t l"
    and "\<forall>i. \<exists>score. lambda_gate_check
      (put ''request_id'' (JStr (stage_id (text_of C (job_id_of request fresh)) i)) request) = Inr (True, score)"
    and "\<forall>i. map_of (ry_seen (co_relay co)) (KStr (stage_id (text_of C (job_id_of request fresh)) i)) = None"
    and "int (length (fst (pipeline_plan co))) \<le> resolve_budget max_steps raw"
    and "run_pipeline C co request max_steps raw clock now fresh = (co', P)"
  shows "pr_converged P \<and> pr_exit P = ''converged'' \<and> pr_steps P = length (fst (pipeline_plan co))"
proof -
  have inv: "coord_inv C co" using coord_inv_reaches [OF assms(2,1) coord_inv_new] .
  obtain plan covered where plan: "pipeline_plan co = (plan, covered)" by fastforce
  note cover = plan_covers [OF inv plan, unfolded layers_reaches [OF assms(2)], simplified new_coordinator_def, simplified]
  have covered using cover assms(4) by blast
  then have "plan \<noteq> []" using cover assms(3) by fastforce
  have up: "some_up co" using assms(3,4) unfolding some_up_def by blast
  have len: "int (0 + length plan) \<le> resolve_budget max_steps raw" using assms(7) by (simp add: plan)
  obtain co1 results trace where loop: "stage_loop C request (text_of C (job_id_of request fresh)) (resolve_budget max_steps raw)
      (length plan) clock now fresh plan 0 co [] [PlanTrace (length plan) covered (resolve_budget max_steps raw)] =
      (co1, 0 + length plan, results, trace, None)"
    using stage_loop_converges [OF assms(1) assms(5) [rule_format] inv up assms(6) [rule_format] len] by blast
  show ?thesis
    using assms(8) \<open>covered\<close> \<open>plan \<noteq> []\<close> unfolding run_pipeline_def Let_def plan prod.case loop
    by (auto simp: exit_reason_def)
qed

theorem run_pipeline_converges_witness:
  "pr_converged (snd (run_pipeline toy_sched sample_coordinator sample_work None [] (\<lambda>_ _. 0) (\<lambda>_ _. sample_instant) ''x''))"
proof -
  obtain t where t: "map_of (co_tiles sample_coordinator) (hw_node_id (py.truncate toy_sched) sample_hw) = Some t"
    "tl_status t = ''UP''" "tl_layer_start t = 0" "tl_layer_end t = 4" using sample_tile by blast
  have served: "\<forall>l < 4. \<exists>nid t. map_of (co_tiles sample_coordinator) nid = Some t \<and> tl_status t = ''UP'' \<and> serves t l"
    using t unfolding serves_def by (intro allI impI exI [of _ "hw_node_id (py.truncate toy_sched) sample_hw"] exI [of _ t]) simp
  have one: "length (fst (pipeline_plan sample_coordinator)) \<le> 1"
    using plan_covers [OF sample_inv surjective_pairing] sample_join
    by (simp add: sample_coordinator_def join_node_def Let_def new_coordinator_def)
  have "1 \<le> resolve_budget None []" using resolve_budget_bounds by blast
  with one have budget: "int (length (fst (pipeline_plan sample_coordinator))) \<le> resolve_budget None []" by linarith
  show ?thesis
    using run_pipeline_converges [OF toy_sched_ok sample_reached _ served _ _ budget surjective_pairing]
      sample_gate sample_relay by simp
qed

section \<open>Witnessed jobs\<close>

text \<open>The witness register instantiates the contract of threshold voting: the subjects are pairs of a register and a job.\<close>

definition bft_final :: "khipu_bft \<times> string \<Rightarrow> bool" where
  "bft_final s \<longleftrightarrow> kb_quorum (fst s) = 3 \<and> distinct (votes_of (fst s) (snd s)) \<and>
     jget (bft_status (fst s) (snd s)) ''quorum_reached'' = Some (JBool True)"

lemma status_reached:
  "jget (bft_status B job) ''quorum_reached'' = Some (JBool True) \<longleftrightarrow> kb_quorum B \<le> length (votes_of B job)"
  by (simp add: bft_status_def Let_def)

interpretation bft: threshold_votes "\<lambda>s. set (votes_of (fst s) (snd s))" bft_final 3
  by unfold_locales (auto simp: bft_final_def status_reached distinct_card)

definition votes_for :: "string \<Rightarrow> (string \<times> string) list \<Rightarrow> string set" where
  "votes_for job votes = {n. (job, n) \<in> set votes}"

definition witness_all :: "khipu_bft \<Rightarrow> (string \<times> string) list \<Rightarrow> khipu_bft" where
  "witness_all B votes = foldl (\<lambda>B (job, n). fst (witness B job n)) B votes"

lemma witness_step:
  "kb_quorum (fst (witness B job n)) = kb_quorum B"
  "votes_of (fst (witness B job n)) j =
     (if j = job \<and> n \<notin> set (votes_of B job) then votes_of B job @ [n] else votes_of B j)"
  by (simp_all add: witness_def Let_def votes_of_def)

lemma witness_all_inv:
  "kb_quorum (witness_all new_bft votes) = 3 \<and> distinct (votes_of (witness_all new_bft votes) j) \<and>
   set (votes_of (witness_all new_bft votes) j) = votes_for j votes"
proof (induction votes rule: rev_induct)
  case Nil
  then show ?case by (simp add: witness_all_def new_bft_def BFT_QUORUM_def votes_of_def votes_for_def)
next
  case (snoc v votes)
  obtain job n where v: "v = (job, n)" by fastforce
  let ?B = "witness_all new_bft votes"
  have B: "witness_all new_bft (votes @ [v]) = fst (witness ?B job n)" by (simp add: witness_all_def v)
  have "votes_for j (votes @ [v]) = (if j = job then insert n (votes_for j votes) else votes_for j votes)"
    by (auto simp: votes_for_def v)
  with snoc.IH show ?case unfolding B witness_step by auto
qed

lemma bft_final_iff: "bft_final (witness_all new_bft votes, job) \<longleftrightarrow> 3 \<le> card (votes_for job votes)"
proof -
  have "card (votes_for job votes) = length (votes_of (witness_all new_bft votes) job)"
    using witness_all_inv [of votes job] by (metis distinct_card)
  then show ?thesis using witness_all_inv [of votes job] by (simp add: bft_final_def status_reached)
qed

text \<open>
  A job is reported as finalized exactly when three different nodes have witnessed it, however often and in
  whatever order the votes arrive, and then some node outside any two given ones has witnessed it.
\<close>

theorem witnessed_job_final:
  "(jget (bft_status (witness_all new_bft votes) job) ''quorum_reached'' = Some (JBool True) \<longleftrightarrow>
      3 \<le> card (votes_for job votes)) \<and>
   (jget (bft_status (witness_all new_bft votes) job) ''quorum_reached'' = Some (JBool True) \<longrightarrow>
      (\<forall>a b. \<exists>n. (job, n) \<in> set votes \<and> n \<noteq> a \<and> n \<noteq> b))"
proof -
  let ?s = "(witness_all new_bft votes, job)"
  have final: "jget (bft_status (witness_all new_bft votes) job) ''quorum_reached'' = Some (JBool True) \<longleftrightarrow> bft_final ?s"
    using witness_all_inv [of votes job] by (simp add: bft_final_def)
  have "\<exists>n. (job, n) \<in> set votes \<and> n \<noteq> a \<and> n \<noteq> b" if "bft_final ?s" for a b
  proof -
    have "card {a, b} < 3" by (simp add: card_insert_if)
    from bft.outside_voter [OF that _ this] show ?thesis
      using witness_all_inv [of votes job] by (auto simp: votes_for_def)
  qed
  then show ?thesis using final bft_final_iff by blast
qed

theorem witnessed_job_final_witness:
  "\<exists>n. (''j'', n) \<in> set [(''j'', ''a''), (''j'', ''b''), (''j'', ''a''), (''j'', ''c'')] \<and> n \<noteq> ''a'' \<and> n \<noteq> ''b''"
proof -
  have "votes_for ''j'' [(''j'', ''a''), (''j'', ''b''), (''j'', ''a''), (''j'', ''c'')] = {''a'', ''b'', ''c''}"
    by (auto simp: votes_for_def)
  then show ?thesis
    using witnessed_job_final [of "[(''j'', ''a''), (''j'', ''b''), (''j'', ''a''), (''j'', ''c'')]" "''j''"] by auto
qed

section \<open>What the coordinator does not prevent\<close>

text \<open>A revoked node joins again and is UP, although it is still recorded as revoked.\<close>

lemma revoked_node_rejoins:
  assumes "assign_layers C (co_total_layers co) (map (\<lambda>(_, t). (tl_vram_gb t, tl_layer_start t, tl_layer_end t))
      (co_tiles (revoke_node co nid))) (hw_vram_gb hw) = Inr (ls, le)" "nid = hw_node_id (py.truncate C) hw"
  shows "is_revoked (fst (join_node C (revoke_node co nid) hw clock)) nid \<and>
    some_up (fst (join_node C (revoke_node co nid) hw clock))"
proof -
  have "co_total_layers (revoke_node co nid) = co_total_layers co" "nid \<in> co_revoked (revoke_node co nid)"
    by (auto simp: revoke_node_def Let_def revoke_token_def split: option.split)
  with assms show ?thesis
    by (auto simp: join_node_def Let_def is_revoked_def some_up_def)
qed

text \<open>The routing receipt does not say which node was selected, nor by which strategy.\<close>

lemma routing_receipt_omits_node:
  "append_routing C L rid node model score strategy label now = append_routing C L rid node' model score strategy' label now"
  by (simp add: append_routing_def)

text \<open>What the loop dispatches does not depend on the tiles of the plan, only on their number.\<close>

lemma stage_loop_ignores_plan:
  assumes "length ts = length us"
  shows "fst (stage_loop C request base budget planned clock now fresh ts step co results trace) =
      fst (stage_loop C request base budget planned clock now fresh us step co results trace') \<and>
    fst (snd (snd (stage_loop C request base budget planned clock now fresh ts step co results trace))) =
      fst (snd (snd (stage_loop C request base budget planned clock now fresh us step co results trace')))"
  using assms
proof (induction ts us arbitrary: step co results trace trace' rule: list_induct2)
  case (Cons t ts u us)
  let ?req = "put ''request_id'' (JStr (stage_id base (step + 1))) request"
  obtain co' res where d: "dispatch C co ?req (clock (step + 1)) (now (step + 1)) fresh = (co', res)" by fastforce
  show ?case using Cons.IH d by (cases res) (auto simp: Let_def)
qed simp

end
