(* ===== verification/SelfTest.thy ===== *)
theory SelfTest
  imports Coordinator
begin

text \<open>
  The self tests that \<open>src/sovereign/szl_mesh_agent.py\<close> and \<open>szl_mesh_coordinator.py\<close> run as scripts:
  the real operations on fixed hardware and requests, for every secret, clock and hash function.
  Compiling the files first and the printing itself are left out. The theorems say what is printed.
\<close>

section \<open>The agent\<close>

text \<open>
  An agent from the factory issues its own token, accepts one
  job and verifies its ledger. The result is what is printed.
\<close>

definition smoke_texts :: "(string, string) dict" where
  "smoke_texts = [(''node_name'', ''tower-4060ti''), (''hostname'', ''127.0.0.1''), (''arch'', ''sm_89''),
     (''backend'', ''CUDA''), (''gpu_model'', ''RTX 4060 Ti'')]"

definition smoke_cfg :: "(string, json) dict" where
  "smoke_cfg = [(''port'', JInt 8000), (''vram_gb'', JFloat ''16.0''), (''cpu_ram_gb'', JFloat ''32.0''), (''cpu_cores'', JInt 8)]"

definition smoke_request :: request where
  "smoke_request = [(''request_id'', JStr ''smoke-001''), (''model'', JStr ''llama-3-8b''), (''tokens_in'', JInt 128),
     (''tokens_out'', JInt 64), (''latency_ms'', JFloat ''210.5''), (''label'', JStr ''LIVE'')]"

definition agent_main ::
  "('k, 's) py \<Rightarrow> bytes \<Rightarrow> (nat \<Rightarrow> rat) \<Rightarrow> (nat \<Rightarrow> datetime) \<Rightarrow> string \<Rightarrow>
   exn + string \<times> bool \<times> (bool \<times> chain_check) \<times> dbl" where
  "agent_main C secret clock now fresh =
     bindE (make_node_agent C smoke_texts smoke_cfg secret) (\<lambda>A.
     let (A, token) = issue_self_token C A clock;
         (A, res) = accept_work C A smoke_request (clock 3) now fresh in
     bindE res (\<lambda>(ok, entry).
     Inr (take 40 token, ok, verify_chain C (agent_ledger A), agent_contribution A)))"

definition smoke_hw :: hardware where
  "smoke_hw = \<lparr>hw_node_name = ''tower-4060ti'', hw_hostname = ''127.0.0.1'', hw_port = 8000, hw_arch = ''sm_89'',
     hw_backend = ''CUDA'', hw_vram_gb = Fin 16, hw_cpu_ram_gb = Fin 32, hw_cpu_cores = 8,
     hw_gpu_model = Some ''RTX 4060 Ti'', hw_vram_fusion = ''ROADMAP'', hw_throughput_label = ''MODELED''\<rparr>"

lemma smoke_floats:
  "float_text ''0.0'' = Inr (Fin 0)" "float_text ''16.0'' = Inr (Fin 16)" "float_text ''32.0'' = Inr (Fin 32)"
  "float_text ''210.5'' = Inr (dround (421 / 2))"
proof -
  have s: "strip ''0.0'' = ''0.0''" "strip ''16.0'' = ''16.0''" "strip ''32.0'' = ''32.0''" "strip ''210.5'' = ''210.5''"
    by (simp_all add: strip_printable printable_def)
  show "float_text ''0.0'' = Inr (Fin 0)" "float_text ''16.0'' = Inr (Fin 16)" "float_text ''32.0'' = Inr (Fin 32)"
    "float_text ''210.5'' = Inr (dround (421 / 2))"
    using dround_int [of 0] dround_int [of 16] dround_int [of 32]
    by (simp_all add: float_text_def s take_sign_def lower_def lower_char_def exponent_text_def str_nat_def is_digit_def digit_val_def)
qed

lemma smoke_agent: "make_node_agent C smoke_texts smoke_cfg secret = Inr (new_agent C smoke_hw secret None None)"
  by (simp add: make_node_agent_def smoke_texts_def smoke_cfg_def Let_def smoke_floats smoke_hw_def)

lemma smoke_gate: "lambda_gate_check smoke_request = Inr (True, Fin 1)"
  by (simp add: lambda_gate_check_def smoke_request_def rget_def smoke_floats Let_def deq_def dle_def LAMBDA_THRESHOLD_ADVISORY_def)

lemma smoke_job: "job_fields smoke_request = Inr (128, 64, dround (421 / 2))"
  by (simp add: job_fields_def smoke_request_def rget_def smoke_floats)

lemma agent_main_passes:
  assumes hw: "hw_ok C smoke_hw" "1 \<le> json_depth C" and ttl: "clock 3 \<le> of_int (trunc (clock 0) + JOIN_TOKEN_TTL_S)"
  shows "agent_main C secret clock now fresh =
    Inr (take 40 (issue_join_token C smoke_hw secret JOIN_TOKEN_TTL_S (clock 0)), True, (True, ChainIntact 1), Fin 1)"
proof -
  let ?t = "issue_join_token C smoke_hw secret JOIN_TOKEN_TTL_S (clock 0)"
  obtain A where A: "issue_self_token C (new_agent C smoke_hw secret None None) clock = (A, ?t)"
    "ag_token A = Some ?t" "ag_secret A = secret" "ag_revoked A = {}" "ag_contribution A = Fin (of_nat 0)"
    "jl_chain (ag_ledger A) = []"
    by (simp add: issue_self_token_def new_agent_def new_job_ledger_def Let_def)
  have inv: "agent_inv C A" using agent_inv_step [OF agent_step.issue agent_inv_new] A(1) by (metis fst_conv)
  have "token_valid C ?t secret {} (clock 3) (jsort (token_payload C smoke_hw (trunc (clock 0)) JOIN_TOKEN_TTL_S))"
    using issued_token_valid(1) [OF hw] ttl by simp
  then have "work_admitted C A smoke_request (clock 3)"
    unfolding work_admitted_def A(2-4) using smoke_gate smoke_job by blast
  moreover have "(0 :: nat) < 2 ^ 53 - 1" by simp
  ultimately obtain score ti tk lat L e where
    L: "ledger_append C (ag_ledger A) (job_id_of smoke_request fresh) (rget smoke_request ''model'' (JStr ''unknown''))
       score ti tk lat (rget smoke_request ''label'' (JStr ''LIVE'')) now = (L, e)" and
    w: "accept_work C A smoke_request (clock 3) now fresh =
      (A\<lparr>ag_ledger := L, ag_contribution := Fin (of_nat (Suc 0)),
         ag_registry := fst (reg_add_contribution (ag_registry A) (hw_node_id C (ag_hw A)) AYNI_CREDIT_PER_JOB)\<rparr>,
       Inr (True, Some e))" by (rule accept_work_exact [OF _ A(5), where fresh = fresh and now = now])
  have "ledger_inv C L" using inv L by (auto simp: agent_inv_def intro: ledger_inv_append)
  then have "verify_chain C L = (True, ChainIntact 1)"
    using ledger_append_shape(1) [OF L] A(6) by (simp add: ledger_inv_def verify_chain_def)
  then show ?thesis by (simp add: agent_main_def smoke_agent A(1) w agent_ledger_def agent_contribution_def)
qed

section \<open>The coordinator\<close>

definition tower :: hardware where
  "tower = \<lparr>hw_node_name = ''tower-4060ti'', hw_hostname = ''192.168.1.10'', hw_port = 8000, hw_arch = ''sm_89'',
     hw_backend = ''CUDA'', hw_vram_gb = Fin 16, hw_cpu_ram_gb = Fin 32, hw_cpu_cores = 8,
     hw_gpu_model = Some ''RTX 4060 Ti'', hw_vram_fusion = ''ROADMAP'', hw_throughput_label = ''MODELED''\<rparr>"

definition laptop :: hardware where
  "laptop = \<lparr>hw_node_name = ''laptop-5050'', hw_hostname = ''192.168.1.20'', hw_port = 8000, hw_arch = ''blackwell'',
     hw_backend = ''CUDA'', hw_vram_gb = Fin 8, hw_cpu_ram_gb = Fin 16, hw_cpu_cores = 4,
     hw_gpu_model = Some ''RTX 5050'', hw_vram_fusion = ''ROADMAP'', hw_throughput_label = ''MODELED''\<rparr>"

definition smoke_work :: request where
  "smoke_work = [(''request_id'', JStr ''coord-smoke-001''), (''model'', JStr ''llama-3-8b''), (''label'', JStr ''LIVE'')]"

record smoke_output =
  so_tower_token :: string
  so_tower_id :: string
  so_layers :: "nat \<times> nat"
  so_dispatched :: bool
  so_node_name :: "string option"
  so_chain :: "bool \<times> chain_check"

fun result_node_name :: "dispatch_result \<Rightarrow> string option" where
  "result_node_name (Dispatched rid c score e) = Some (cd_node_name c)"
| "result_node_name _ = None"

definition coordinator_main ::
  "('k, 's) sched \<Rightarrow> bytes \<Rightarrow> (nat \<Rightarrow> nat \<Rightarrow> rat) \<Rightarrow> (nat \<Rightarrow> datetime) \<Rightarrow> string \<Rightarrow> exn + smoke_output" where
  "coordinator_main C secret clock now fresh =
     (let co = new_coordinator secret 32 JOIN_TOKEN_TTL_S;
          (co, joined_t) = join_node C co tower (clock 0) in
      bindE joined_t (\<lambda>(token_t, tile_t).
      let (co, joined_l) = join_node C co laptop (clock 1) in
      bindE joined_l (\<lambda>(token_l, tile_l).
      let (co, dispatched_work) = dispatch C co smoke_work (clock 2) now fresh in
      bindE dispatched_work (\<lambda>result.
      Inr \<lparr>so_tower_token = take 30 token_t, so_tower_id = tl_node_id tile_t,
           so_layers = (tl_layer_start tile_l, tl_layer_end tile_l), so_dispatched = dispatched result,
           so_node_name = result_node_name result, so_chain = verify_chain (py.truncate C) (routing_ledger co)\<rparr>))))"

text \<open>What the two joins compute: the tower serves the whole model, the laptop a third of it, from the start.\<close>

lemma fill_window:
  "k \<le> n \<Longrightarrow> fold (\<lambda>i cov. cov[i := dadd (cov ! i) v]) [0..<k] (replicate n x) = replicate k (dadd x v) @ replicate (n - k) x"
proof (induction k)
  case (Suc k)
  then have "replicate (n - k) x = x # replicate (n - Suc k) x" by (metis Suc_diff_Suc Suc_le_lessD replicate_Suc)
  with Suc show ?case by (simp add: nth_append list_update_append replicate_append_same flip: append_assoc)
qed simp

lemma flat_window:
  assumes "dadd w (dsub v v) = w" "\<forall>i \<in> set is. 0 < i \<and> i + n \<le> m"
  shows "fold (window_step (replicate m v) n) is (w, 0, w) = (w, 0, w)"
  using assms(2)
proof (induction "is")
  case (Cons i "is")
  have "\<not> dlt w w" by (cases w) auto
  moreover have "i + n - 1 < m" "i - 1 < m" using Cons.prems by auto
  ultimately have "window_step (replicate m v) n i (w, 0, w) = (w, 0, w)"
    using assms(1) by (simp add: window_step_def Let_def del: One_nat_def)
  then show ?case using Cons by simp
qed simp

lemma floor_third:
  "floor (18014398509481984 / 3 :: rat) = 6004799503160661" "floor (6004799503160661 / 562949953421312 :: rat) = 10"
  by (simp_all add: floor_eq_iff)

lemma third:
  "dround (32 / 3) = Fin (6004799503160661 / 562949953421312)" "half_even (6004799503160661 / 562949953421312) = 11"
proof -
  have e: "ilog2 (32 / 3) = 3" by code_simp
  have u: "(2 :: rat) powi (max (3 - 52) (-1074)) = 1 / 562949953421312"
    by (simp add: power_int_def power_one_over)
  have h: "half_even (18014398509481984 / 3) = 6004799503160661" by (simp add: half_even_def Let_def floor_third)
  show "dround (32 / 3) = Fin (6004799503160661 / 562949953421312)" by (simp add: dround_def Let_def e u h)
  show "half_even (6004799503160661 / 562949953421312) = 11" by (simp add: half_even_def Let_def floor_third)
qed

text \<open>What is needed of \<open>sum\<close> on floats: it is exact on these few small integers.\<close>

definition sum_exact :: "('k, 's) sched \<Rightarrow> bool" where
  "sum_exact C \<longleftrightarrow> float_sum C [] = Fin 0 \<and> float_sum C [Fin 16] = Fin 16 \<and> float_sum C (replicate 11 (Fin 16)) = Fin 176"

lemma tower_layers:
  assumes "sum_exact C"
  shows "assign_layers C 32 [] (Fin 16) = Inr (0, 32)"
proof -
  have d: "dround 16 = Fin 16" "dround 512 = Fin 512" "dround 32 = Fin 32"
    using dround_int [of 16] dround_int [of 512] dround_int [of 32] by simp_all
  have "half_even 32 = 32" using half_even_int [of 32] by simp
  then show ?thesis using assms by (simp add: assign_layers_def Let_def sum_exact_def deq_def d)
qed

lemma laptop_layers:
  assumes "sum_exact C"
  shows "assign_layers C 32 [(Fin 16, 0, 32)] (Fin 8) = Inr (0, 11)"
proof -
  have d: "dround 16 = Fin 16" "dround 24 = Fin 24" "dround 256 = Fin 256" "dround 176 = Fin 176" "dround 0 = Fin 0"
    using dround_int [of 16] dround_int [of 24] dround_int [of 256] dround_int [of 176] dround_int [of 0] by simp_all
  have cov: "coverage 32 [(Fin 16, 0, 32)] = replicate 32 (Fin 16)"
    using fill_window [of 32 32 "Fin 16" "Fin 0"] by (simp add: coverage_def add_coverage_def d del: upt_rec_numeral)
  have w: "fold (window_step (replicate 32 (Fin 16)) 11) [1..<32 - 11 + 1] (Fin 176, 0, Fin 176) = (Fin 176, 0, Fin 176)"
    by (rule flat_window) (simp_all add: dsub_def d)
  have t: "take 11 (replicate 32 (Fin 16)) = replicate 11 (Fin 16)" by simp
  have best: "best_window C (coverage 32 [(Fin 16, 0, 32)]) 11 32 = 0"
    using assms w unfolding best_window_def cov t sum_exact_def Let_def by simp
  show ?thesis
    using assms best third by (simp add: assign_layers_def Let_def sum_exact_def deq_def d)
qed

lemma join_node_ok:
  assumes "assign_layers C (co_total_layers co)
      (map (\<lambda>(_, t). (tl_vram_gb t, tl_layer_start t, tl_layer_end t)) (co_tiles co)) (hw_vram_gb hw) = Inr (ls, le)"
  obtains t where
    "join_node C co hw clock =
      (co\<lparr>co_tiles := put (hw_node_id (py.truncate C) hw) t (co_tiles co), co_active := put (hw_node_id (py.truncate C) hw) 0 (co_active co)\<rparr>,
       Inr (issue_join_token (py.truncate C) hw (co_secret co) (co_token_ttl co) (clock 0), t))"
    "tl_node_id t = hw_node_id (py.truncate C) hw" "tl_node_name t = hw_node_name hw" "tl_vram_gb t = hw_vram_gb hw"
    "(tl_layer_start t, tl_layer_end t) = (ls, le)" "tl_status t = ''UP''"
  using that by (simp add: join_node_def Let_def assms)

lemma work_gate: "lambda_gate_check smoke_work = Inr (True, Fin 1)"
  by (simp add: lambda_gate_check_def smoke_work_def rget_def smoke_floats Let_def deq_def dle_def LAMBDA_THRESHOLD_ADVISORY_def)

text \<open>The first dispatch of a coordinator with a node that is UP.\<close>

lemma first_dispatch:
  assumes "coord_inv C co" "sched_ok C" "co_ledger co = new_job_ledger n s" "co_relay co = new_relay"
    and "online (candidates co) \<noteq> []"
  obtains co' r c where "dispatch C co smoke_work clock now fresh = (co', Inr r)" "dispatched r"
    "result_node_name r = Some (cd_node_name c)" "c \<in> set (candidates co)"
    "verify_chain (py.truncate C) (co_ledger co') = (True, ChainIntact 1)"
proof -
  have rid: "job_id_of smoke_work fresh = JStr ''coord-smoke-001''" by (simp add: job_id_of_def smoke_work_def rget_def)
  have "snd (is_duplicate (co_relay co) (JStr ''coord-smoke-001'') clock) = Inr False"
    by (simp add: assms(4) is_duplicate_def new_relay_def relay_evict_def)
  from dispatch_succeeds [OF assms(1,2) rid this work_gate assms(5)] obtain r co' where
    d: "dispatch C co smoke_work clock now fresh = (co', Inr r)" "dispatched r"
    by (metis prod.collapse)
  have R: "candidates (with_relay co R) = candidates co" "co_ledger (with_relay co R) = co_ledger co" for R
    by (simp_all add: with_relay_def candidates_def active_of_def)
  from dispatch_cases [OF assms(1,2) d(1) refl refl] d(2) obtain rid score R where
    "routed C (with_relay co R) smoke_work rid score now co' r" by auto
  then obtain c t L e where r: "r = Dispatched rid c score e"
    and pick: "f1_least_connections_pick C rid (online (candidates co)) = Inr c"
    and L: "ledger_append (py.truncate C) (co_ledger co) rid (rget smoke_work ''model'' (JStr ''unknown'')) score 0 0 (Fin 0)
      (rget smoke_work ''label'' (JStr ''LIVE'')) now = (L, e)"
    and co': "co' = dispatched_to (with_relay co R) (cd_node_id c) t L"
    by (rule routedE) (simp add: R)
  have "ledger_inv (py.truncate C) L" using ledger_inv_append [OF _ L] by (simp add: assms(3))
  then have "verify_chain (py.truncate C) (co_ledger co') = (True, ChainIntact 1)"
    using ledger_append_shape(1) [OF L]
    by (simp add: co' dispatched_to_def ledger_inv_def verify_chain_def assms(3) new_job_ledger_def)
  moreover have "c \<in> set (candidates co)" using pick_in_tied [OF assms(2) pick] by (auto simp: tied_set online_set)
  ultimately show thesis using that d r by simp
qed

text \<open>Both nodes join: the tower for the whole model, the laptop for the first eleven layers.\<close>

lemma smoke_joins:
  assumes "sum_exact C"
  obtains co1 co2 tok1 tok2 t l where
    "join_node C (new_coordinator secret 32 JOIN_TOKEN_TTL_S) tower clock1 = (co1, Inr (tok1, t))"
    "join_node C co1 laptop clock2 = (co2, Inr (tok2, l))"
    "(tl_node_name t, tl_layer_start t, tl_layer_end t) = (''tower-4060ti'', 0, 32)"
    "(tl_node_name l, tl_layer_start l, tl_layer_end l, tl_status l) = (''laptop-5050'', 0, 11, ''UP'')"
    "snd ` set (co_tiles co2) \<subseteq> {t, l}" "l \<in> snd ` set (co_tiles co2)"
    "coord_inv C co2" "co_ledger co2 = new_job_ledger ''coordinator'' secret" "co_relay co2 = new_relay"
proof -
  let ?co0 = "new_coordinator secret 32 JOIN_TOKEN_TTL_S"
  let ?idt = "hw_node_id (py.truncate C) tower" and ?idl = "hw_node_id (py.truncate C) laptop"
  have "assign_layers C (co_total_layers ?co0)
      (map (\<lambda>(_, t). (tl_vram_gb t, tl_layer_start t, tl_layer_end t)) (co_tiles ?co0)) (hw_vram_gb tower) = Inr (0, 32)"
    using tower_layers [OF assms] by (simp add: new_coordinator_def tower_def)
  from join_node_ok [OF this, where clock = clock1] obtain t where
    jt: "join_node C ?co0 tower clock1 = (?co0\<lparr>co_tiles := put ?idt t (co_tiles ?co0), co_active := put ?idt 0 (co_active ?co0)\<rparr>,
        Inr (issue_join_token (py.truncate C) tower (co_secret ?co0) (co_token_ttl ?co0) (clock1 0), t))"
    and t: "tl_node_id t = ?idt" "tl_node_name t = hw_node_name tower" "tl_vram_gb t = hw_vram_gb tower"
      "(tl_layer_start t, tl_layer_end t) = (0, 32)" "tl_status t = ''UP''" .
  define co1 where "co1 = fst (join_node C ?co0 tower clock1)"
  have jt': "join_node C ?co0 tower clock1 =
    (co1, Inr (issue_join_token (py.truncate C) tower (co_secret ?co0) (co_token_ttl ?co0) (clock1 0), t))"
    by (simp only: co1_def jt fst_conv)
  have co1: "co_tiles co1 = [(?idt, t)]" "co_total_layers co1 = 32" "co_ledger co1 = new_job_ledger ''coordinator'' secret"
    "co_relay co1 = new_relay" unfolding co1_def jt by (simp_all add: new_coordinator_def)
  have "assign_layers C (co_total_layers co1)
      (map (\<lambda>(_, t). (tl_vram_gb t, tl_layer_start t, tl_layer_end t)) (co_tiles co1)) (hw_vram_gb laptop) = Inr (0, 11)"
    using laptop_layers [OF assms] t by (simp add: co1 tower_def laptop_def)
  from join_node_ok [OF this, where clock = clock2] obtain l where
    jl: "join_node C co1 laptop clock2 = (co1\<lparr>co_tiles := put ?idl l (co_tiles co1), co_active := put ?idl 0 (co_active co1)\<rparr>,
        Inr (issue_join_token (py.truncate C) laptop (co_secret co1) (co_token_ttl co1) (clock2 0), l))"
    and l: "tl_node_id l = ?idl" "tl_node_name l = hw_node_name laptop" "tl_vram_gb l = hw_vram_gb laptop"
      "(tl_layer_start l, tl_layer_end l) = (0, 11)" "tl_status l = ''UP''" .
  define co2 where "co2 = fst (join_node C co1 laptop clock2)"
  have jl': "join_node C co1 laptop clock2 =
    (co2, Inr (issue_join_token (py.truncate C) laptop (co_secret co1) (co_token_ttl co1) (clock2 0), l))"
    by (simp only: co2_def jl fst_conv)
  have co2: "co_tiles co2 = put ?idl l [(?idt, t)]" "co_ledger co2 = new_job_ledger ''coordinator'' secret"
    "co_relay co2 = new_relay" unfolding co2_def jl by (simp_all add: co1)
  have inv: "coord_inv C co2" unfolding co2_def co1_def by (intro coord_inv_join coord_inv_new)
  have tiles: "set (co_tiles co2) \<subseteq> {(?idt, t), (?idl, l)}" "(?idl, l) \<in> set (co_tiles co2)"
    using set_put [of "[(?idt, t)]" ?idl l] by (auto simp: co2(1))
  have "l \<in> snd ` set (co_tiles co2)" using tiles(2) by (metis image_eqI snd_conv)
  moreover have "hw_node_name tower = ''tower-4060ti''" "hw_node_name laptop = ''laptop-5050''"
    by (simp_all add: tower_def laptop_def)
  moreover have "snd ` set (co_tiles co2) \<subseteq> {t, l}" using image_mono [OF tiles(1), of snd] by simp
  ultimately show thesis using t l by (intro that [OF jt' jl' _ _ _ _ inv co2(2,3)]) simp_all
qed

text \<open>
  Whatever the hash function, the secret and the clock: both nodes join, the laptop for the first
  eleven layers, the request is dispatched to one of them, and the ledger with its one receipt verifies.
\<close>

theorem coordinator_main_passes:
  assumes "sched_ok C" "sum_exact C"
  shows "\<exists>out. coordinator_main C secret clock now fresh = Inr out \<and> so_layers out = (0, 11) \<and> so_dispatched out \<and>
    so_node_name out \<in> {Some ''tower-4060ti'', Some ''laptop-5050''} \<and> so_chain out = (True, ChainIntact 1)"
proof -
  from smoke_joins [OF assms(2), of secret "clock 0" "clock 1"] obtain co1 co2 tok1 tok2 t l where
    j: "join_node C (new_coordinator secret 32 JOIN_TOKEN_TTL_S) tower (clock 0) = (co1, Inr (tok1, t))"
      "join_node C co1 laptop (clock 1) = (co2, Inr (tok2, l))"
    and t: "(tl_node_name t, tl_layer_start t, tl_layer_end t) = (''tower-4060ti'', 0, 32)"
    and l: "(tl_node_name l, tl_layer_start l, tl_layer_end l, tl_status l) = (''laptop-5050'', 0, 11, ''UP'')"
    and tiles: "snd ` set (co_tiles co2) \<subseteq> {t, l}" "l \<in> snd ` set (co_tiles co2)"
    and co2: "coord_inv C co2" "co_ledger co2 = new_job_ledger ''coordinator'' secret" "co_relay co2 = new_relay" .
  have "online (candidates co2) \<noteq> []"
    using tiles(2) l by (force simp: online_def candidates_def filter_empty_conv)
  from first_dispatch [OF co2(1) assms(1) co2(2,3) this, where clock = "clock 2" and now = now and fresh = fresh] obtain co3 r c where
    d: "dispatch C co2 smoke_work (clock 2) now fresh = (co3, Inr r)" "dispatched r" "result_node_name r = Some (cd_node_name c)"
    and c: "c \<in> set (candidates co2)" and v: "verify_chain (py.truncate C) (co_ledger co3) = (True, ChainIntact 1)" .
  obtain u where "u \<in> snd ` set (co_tiles co2)" "cd_node_name c = tl_node_name u" using c by (force simp: candidates_def)
  then have "cd_node_name c \<in> {''tower-4060ti'', ''laptop-5050''}" using tiles(1) t l by auto
  moreover have "coordinator_main C secret clock now fresh = Inr
    \<lparr>so_tower_token = take 30 tok1, so_tower_id = tl_node_id t, so_layers = (0, 11), so_dispatched = True,
     so_node_name = Some (cd_node_name c), so_chain = (True, ChainIntact 1)\<rparr>"
    using d v l by (simp add: coordinator_main_def Let_def j routing_ledger_def del: One_nat_def)
  ultimately show ?thesis by auto
qed

end
