(* ===== verification/Api.thy ===== *)
theory Api
  imports Coordinator Enrollment
begin

text \<open>
  \<open>src/sovereign/api.py\<close>: the HTTP handlers over the coordinator. The module's globals are a record;
  a handler returns its reply, an \<open>HTTPException\<close> or the exception that the framework turns into a
  500. Requests are the values that the request models have validated. The calls that the handlers
  make on the coordinator are checked against the signatures of \<open>szl_mesh_coordinator.py\<close> and
  \<open>szl_mesh_agent.py\<close>, as the interpreter does.
\<close>

section \<open>Calls\<close>

text \<open>
  The parameters of a callable in their order, and whether each is required. A call passes a number
  of positional arguments and some keywords.
\<close>

type_synonym signature = "(string \<times> bool) list"

definition call_ok :: "signature \<Rightarrow> nat \<Rightarrow> string list \<Rightarrow> bool" where
  "call_ok sig npos kws \<longleftrightarrow>
     npos \<le> length sig \<and> distinct kws \<and> set kws \<subseteq> set (map fst (drop npos sig)) \<and>
     (\<forall>(p, required) \<in> set (drop npos sig). required \<longrightarrow> p \<in> set kws)"

definition COORDINATOR_INIT :: signature where
  "COORDINATOR_INIT = [(''mesh_secret'', True), (''total_model_layers'', False), (''token_ttl_seconds'', False)]"

definition HARDWARE_INIT :: signature where
  "HARDWARE_INIT =
     [(''node_name'', True), (''hostname'', True), (''port'', True), (''arch'', True), (''backend'', True),
      (''vram_gb'', True), (''cpu_ram_gb'', True), (''cpu_cores'', True), (''gpu_model'', False),
      (''vram_fusion'', False), (''throughput_label'', False)]"

text \<open>The public methods of \<open>MeshCoordinator\<close>; its data attributes \<open>total_layers\<close> and \<open>token_ttl\<close>.\<close>

definition COORDINATOR_METHODS :: "(string \<times> signature) list" where
  "COORDINATOR_METHODS =
     [(''join_node'', [(''hw'', True)]),
      (''receive_heartbeat'', [(''node_id'', True), (''token'', True)]),
      (''evict_stale_tiles'', []),
      (''revoke_node'', [(''node_id'', True)]),
      (''is_revoked'', [(''node_id'', True)]),
      (''dispatch'', [(''request'', True)]),
      (''run_pipeline'', [(''request'', True), (''max_steps'', False)]),
      (''job_complete'', [(''node_id'', True)]),
      (''tile_status'', []), (''routing_ledger'', []), (''bft'', [])]"

fun coordinator_attr :: "coordinator \<Rightarrow> string \<Rightarrow> exn + json" where
  "coordinator_attr co name =
     (if name = ''total_layers'' then Inr (JInt (int (co_total_layers co)))
      else if name = ''token_ttl'' then Inr (JInt (co_token_ttl co))
      else Inl AttributeError)"

text \<open>
  What the module finds in its environment: \<open>SZL_FORMATION_KEY\<close> (empty when unset), the texts of
  exceptions, and what a call that a method's signature admits returns (the handlers make none,
  \<open>no_call_reaches\<close>).
\<close>

record api_env =
  ae_formation_key :: string
  ae_text :: "exn \<Rightarrow> string"
  ae_run :: "coordinator \<Rightarrow> string \<Rightarrow> exn + json"

definition coordinator_call :: "api_env \<Rightarrow> coordinator \<Rightarrow> string \<Rightarrow> nat \<Rightarrow> string list \<Rightarrow> exn + json" where
  "coordinator_call E co name npos kws =
     (case map_of COORDINATOR_METHODS name of
        None \<Rightarrow> Inl AttributeError
      | Some sig \<Rightarrow> if call_ok sig npos kws then ae_run E co name else Inl TypeError)"

text \<open>\<open>MeshCoordinator(**kwargs)\<close> for keywords with bytes, and \<open>NodeHardware(**kwargs)\<close>, of which only
  whether it raises is used.\<close>

definition make_coordinator :: "(string \<times> bytes) list \<Rightarrow> exn + coordinator" where
  "make_coordinator kwargs =
     (if call_ok COORDINATOR_INIT 0 (map fst kwargs)
      then (case map_of kwargs ''mesh_secret'' of
              None \<Rightarrow> Inl TypeError | Some secret \<Rightarrow> Inr (new_coordinator secret 32 JOIN_TOKEN_TTL_S))
      else Inl TypeError)"

definition make_hardware :: "string list \<Rightarrow> exn + unit" where
  "make_hardware kws = (if call_ok HARDWARE_INIT 0 kws then Inr () else Inl TypeError)"

section \<open>State\<close>

record api_state =
  as_coordinator :: "coordinator option"
  as_formation_key :: bytes

definition api_start :: api_state where
  "api_start = \<lparr>as_coordinator = None, as_formation_key = []\<rparr>"

text \<open>\<open>bytes.fromhex\<close>: pairs of hexadecimal digits, white space between them.\<close>

fun fromhex :: "string \<Rightarrow> exn + bytes" where
  "fromhex [] = Inr []"
| "fromhex [c] = (if c = CHR '' '' \<or> 9 \<le> ord c \<and> ord c \<le> 13 then Inr [] else Inl ValueError)"
| "fromhex (c # d # s) =
     (if c = CHR '' '' \<or> 9 \<le> ord c \<and> ord c \<le> 13 then fromhex (d # s)
      else
        (case (hex_val c, hex_val d) of
           (Some a, Some b) \<Rightarrow> bindE (fromhex s) (\<lambda>bs. Inr (chr (16 * a + b) # bs))
         | _ \<Rightarrow> Inl ValueError))"

definition get_coordinator :: "api_env \<Rightarrow> api_state \<Rightarrow> api_state \<times> coordinator option" where
  "get_coordinator E st =
     (let st' =
        (if as_coordinator st = None \<and> ae_formation_key E \<noteq> [] then
           (case fromhex (ae_formation_key E) of
              Inl _ \<Rightarrow> st
            | Inr key \<Rightarrow>
                let st = st\<lparr>as_formation_key := key\<rparr> in
                (case make_coordinator [(''formation_key'', key)] of
                   Inl _ \<Rightarrow> st | Inr co \<Rightarrow> st\<lparr>as_coordinator := Some co\<rparr>))
         else st) in
      (st', as_coordinator st'))"

section \<open>Requests and replies\<close>

record join_request =
  jq_node_id :: string
  jq_hardware :: "(string \<times> json) list"
  jq_formation_key_proof :: string
  jq_timestamp_utc :: string

text \<open>\<open>lambda_score\<close> is validated to lie between 0 and 1.\<close>

record dispatch_request =
  dq_request_id :: string
  dq_payload :: "(string \<times> json) list"
  dq_lambda_score :: rat

datatype api_request = Join join_request | Nodes | Dispatch dispatch_request | Healthz

datatype api_reply = Reply json | HttpError nat json | Crash exn

section \<open>Handlers\<close>

text \<open>A capital lambda, in UTF-8.\<close>

definition lambda_sign :: string where
  "lambda_sign = [CHR 0xCE, CHR 0x9B]"

definition HONEST_MESH_LABELS :: json where
  "HONEST_MESH_LABELS = JObj
     [(''mesh_type'', JStr (''scheduler '' @ em_dash @ '' software load-balancer, not hardware interconnect'')),
      (''vram_fusion'', JStr (''ROADMAP '' @ em_dash @ '' NVLink-only (consumer Ada/Blackwell have no NVLink)'')),
      (''lambda_label'', JStr (''advisory Conjecture 1 '' @ em_dash @ '' NEVER a theorem'')),
      (''throughput'', JStr ''MODELED until founder reports MEASURED benchmark''),
      (''join_token_signing'', JStr (''HMAC-SHA256 classical '' @ em_dash @ '' ML-DSA (FIPS 204) upgrade = ROADMAP'')),
      (''doctrine'', JStr ''749/14/163''),
      (''kernel_commit'', JStr ''c7c0ba17'')]"

definition honest :: "(string \<times> json) list \<Rightarrow> json" where
  "honest kvs = JObj (kvs @ [(''honest_labels'', HONEST_MESH_LABELS)])"

text \<open>A computation of a handler whose exceptions are not caught.\<close>

fun uncaught :: "exn + 'a \<Rightarrow> ('a \<Rightarrow> api_reply) \<Rightarrow> api_reply" where
  "uncaught (Inl e) f = Crash e"
| "uncaught (Inr x) f = f x"

definition proof_material :: "join_request \<Rightarrow> bytes" where
  "proof_material req = jq_node_id req @ jq_timestamp_utc req @ ''749/14/163'' @ ''c7c0ba17''"

definition join_with ::
  "('k, 's) py \<Rightarrow> api_env \<Rightarrow> bytes \<Rightarrow> coordinator \<Rightarrow> join_request \<Rightarrow> api_reply" where
  "join_with C E formation_key co req =
     uncaught (compare_digest (hmac_hex C formation_key (proof_material req)) (lower (jq_formation_key_proof req))) (\<lambda>same.
     if \<not> same then
       HttpError 403 (honest
         [(''error'', JStr ''formation_key_proof invalid''),
          (''hint'', JStr (''HMAC-SHA256(node_id + timestamp_utc + '' @ [CHR 0x27] @ ''749/14/163'' @ [CHR 0x27] @
             '' + '' @ [CHR 0x27] @ ''c7c0ba17'' @ [CHR 0x27] @ '')''))])
     else
       uncaught (py_float (jget_or (JObj (jq_hardware req)) ''vram_gb'' (JFloat ''0.0''))) (\<lambda>vram_gb.
       uncaught (make_hardware [''name'', ''vram_gb'', ''backend'', ''arch'']) (\<lambda>hw.
       case coordinator_call E co ''enroll_node'' 0 [''node_id'', ''hardware'', ''formation_key_proof'', ''timestamp_utc''] of
         Inl e \<Rightarrow> HttpError 422 (honest [(''error'', JStr (ae_text E e))])
       | Inr result \<Rightarrow>
           uncaught (coordinator_attr co ''formation_id'') (\<lambda>formation_id.
           Reply (honest
             [(''status'', JStr ''ENROLLED''), (''node_id'', JStr (jq_node_id req)),
              (''formation_id'', formation_id), (''result'', result)])))))"

definition join_handler ::
  "('k, 's) py \<Rightarrow> api_env \<Rightarrow> api_state \<Rightarrow> join_request \<Rightarrow> api_state \<times> api_reply" where
  "join_handler C E st req =
     (let (st', coordinator) = get_coordinator E st in
      (st',
       case coordinator of
         None \<Rightarrow> Reply (honest
           [(''status'', JStr ''DEGRADED''),
            (''reason'', JStr (''SZL_FORMATION_KEY not set '' @ em_dash @ '' coordinator not initialised''))])
       | Some co \<Rightarrow> join_with C E (as_formation_key st') co req))"

fun json_length :: "json \<Rightarrow> exn + int" where
  "json_length (JList xs) = Inr (int (length xs))"
| "json_length (JObj kvs) = Inr (int (length kvs))"
| "json_length (JStr s) = Inr (int (length (filter (\<lambda>c. \<not> cont c) s)))"
| "json_length _ = Inl TypeError"

definition nodes_handler :: "api_env \<Rightarrow> api_state \<Rightarrow> api_state \<times> api_reply" where
  "nodes_handler E st =
     (let (st', coordinator) = get_coordinator E st in
      (st',
       case coordinator of
         None \<Rightarrow> Reply (honest
           [(''status'', JStr ''DEGRADED''), (''nodes'', JList []),
            (''reason'', JStr (''SZL_FORMATION_KEY not set '' @ em_dash @ '' no active formation''))])
       | Some co \<Rightarrow>
           uncaught (coordinator_call E co ''list_nodes'' 0 []) (\<lambda>nodes.
           uncaught (coordinator_attr co ''formation_id'') (\<lambda>formation_id.
           uncaught (json_length nodes) (\<lambda>n.
           Reply (honest
             [(''status'', JStr ''LIVE''), (''formation_id'', formation_id), (''nodes'', nodes),
              (''node_count'', JInt n)]))))))"

definition lambda_rejection :: "('k, 's) py \<Rightarrow> rat \<Rightarrow> json" where
  "lambda_rejection C score = honest
     [(''error'', JStr (lambda_sign @ '' advisory gate: lambda_score below threshold'')),
      (''lambda_score'', JFloat (float_repr C (Fin score))),
      (''threshold'', JFloat ''0.5''),
      (''lambda_label'', JStr (''Conjecture 1 advisory '' @ em_dash @ '' gate threshold = 0.5. '' @
         ''This is an advisory gate, never a proven safety guarantee.''))]"

definition dispatch_handler ::
  "('k, 's) py \<Rightarrow> api_env \<Rightarrow> api_state \<Rightarrow> dispatch_request \<Rightarrow> api_state \<times> api_reply" where
  "dispatch_handler C E st req =
     (if dlt (Fin (dq_lambda_score req)) LAMBDA_THRESHOLD_ADVISORY
      then (st, HttpError 422 (lambda_rejection C (dq_lambda_score req)))
      else
        let (st', coordinator) = get_coordinator E st in
        (st',
         case coordinator of
           None \<Rightarrow> Reply (honest
             [(''status'', JStr ''DEGRADED''),
              (''reason'', JStr (''SZL_FORMATION_KEY not set '' @ em_dash @ '' no active formation'')),
              (''request_id'', JStr (dq_request_id req))])
         | Some co \<Rightarrow>
             (case coordinator_call E co ''dispatch'' 2 [] of
                Inl e \<Rightarrow> HttpError 503 (honest
                  [(''error'', JStr (ae_text E e)), (''request_id'', JStr (dq_request_id req))])
              | Inr result \<Rightarrow> Reply (honest
                  [(''status'', JStr ''DISPATCHED''), (''request_id'', JStr (dq_request_id req)),
                   (''lambda_score'', JFloat (float_repr C (Fin (dq_lambda_score req)))),
                   (''lambda_label'', JStr (''Conjecture 1 advisory '' @ em_dash @ '' NOT a proven safety guarantee'')),
                   (''result'', result)]))))"

definition healthz :: "api_env \<Rightarrow> api_state \<Rightarrow> api_state \<times> api_reply" where
  "healthz E st =
     (let (st', coordinator) = get_coordinator E st in
      (st',
       uncaught (case coordinator of None \<Rightarrow> Inr JNull | Some co \<Rightarrow> coordinator_attr co ''formation_id'') (\<lambda>formation_id.
       uncaught (case coordinator of None \<Rightarrow> Inr 0
                 | Some co \<Rightarrow> bindE (coordinator_call E co ''list_nodes'' 0 []) json_length) (\<lambda>n.
       Reply (JObj
         [(''status'', JStr ''ok''), (''formation_active'', JBool (coordinator \<noteq> None)),
          (''formation_id'', formation_id), (''node_count'', JInt n),
          (''honest_labels'', HONEST_MESH_LABELS),
          (''doctrine'', JStr ''749/14/163''), (''kernel_commit'', JStr ''c7c0ba17'')])))))"

text \<open>The registered routes.\<close>

fun serve :: "('k, 's) py \<Rightarrow> api_env \<Rightarrow> api_state \<Rightarrow> api_request \<Rightarrow> api_state \<times> api_reply" where
  "serve C E st (Join req) = join_handler C E st req"
| "serve C E st Nodes = nodes_handler E st"
| "serve C E st (Dispatch req) = dispatch_handler C E st req"
| "serve C E st Healthz = healthz E st"

text \<open>A run of the service: the environment may change between requests.\<close>

fun serve_all :: "('k, 's) py \<Rightarrow> api_state \<Rightarrow> (api_env \<times> api_request) list \<Rightarrow> api_state \<times> api_reply list" where
  "serve_all C st [] = (st, [])"
| "serve_all C st ((E, q) # qs) =
     (let (st', r) = serve C E st q; (st'', rs) = serve_all C st' qs in (st'', r # rs))"


section \<open>No call of the handlers reaches the coordinator\<close>

lemma no_coordinator: "make_coordinator [(''formation_key'', key)] = Inl TypeError"
  by (simp add: make_coordinator_def call_ok_def COORDINATOR_INIT_def)

lemma no_call_reaches:
  "coordinator_call E co ''enroll_node'' n kws = Inl AttributeError"
  "coordinator_call E co ''list_nodes'' n kws = Inl AttributeError"
  "coordinator_call E co ''dispatch'' 2 [] = Inl TypeError"
  "coordinator_attr co ''formation_id'' = Inl AttributeError"
  "make_hardware [''name'', ''vram_gb'', ''backend'', ''arch''] = Inl TypeError"
  by (simp_all add: coordinator_call_def COORDINATOR_METHODS_def call_ok_def make_hardware_def HARDWARE_INIT_def)

lemma get_coordinator_same:
  "as_coordinator (fst (get_coordinator E st)) = as_coordinator st"
  "snd (get_coordinator E st) = as_coordinator st"
  by (simp_all add: get_coordinator_def Let_def no_coordinator split: sum.split)

lemma get_coordinator_pair: "get_coordinator E st = (st', co) \<Longrightarrow> as_coordinator st' = as_coordinator st \<and> co = as_coordinator st"
  using get_coordinator_same [of E st] by simp

lemma serve_keeps: "serve C E st q = (st', r) \<Longrightarrow> as_coordinator st' = as_coordinator st"
  by (cases q) (auto simp: join_handler_def nodes_handler_def dispatch_handler_def healthz_def Let_def
      split: prod.splits if_splits dest: get_coordinator_pair)

section \<open>Properties\<close>

text \<open>What a service without a coordinator answers.\<close>

fun degraded :: "api_request \<Rightarrow> api_reply \<Rightarrow> bool" where
  "degraded (Join j) r \<longleftrightarrow> (\<exists>body. r = Reply body \<and> jget body ''status'' = Some (JStr ''DEGRADED''))"
| "degraded Nodes r \<longleftrightarrow>
     (\<exists>body. r = Reply body \<and> jget body ''status'' = Some (JStr ''DEGRADED'') \<and> jget body ''nodes'' = Some (JList []))"
| "degraded (Dispatch d) r \<longleftrightarrow>
     (if dq_lambda_score d < 1 / 2
      then \<exists>body. r = HttpError 422 body \<and> jget body ''threshold'' = Some (JFloat ''0.5'')
      else \<exists>body. r = Reply body \<and> jget body ''status'' = Some (JStr ''DEGRADED'') \<and>
             jget body ''request_id'' = Some (JStr (dq_request_id d)))"
| "degraded Healthz r \<longleftrightarrow>
     (\<exists>body. r = Reply body \<and> jget body ''status'' = Some (JStr ''ok'') \<and>
        jget body ''formation_active'' = Some (JBool False) \<and> jget body ''formation_id'' = Some JNull \<and>
        jget body ''node_count'' = Some (JInt 0))"

lemma honest_get:
  "jget (honest kvs) k = (case map_of kvs k of Some v \<Rightarrow> Some v
     | None \<Rightarrow> if k = ''honest_labels'' then Some HONEST_MESH_LABELS else None)"
  by (simp add: honest_def map_add_def split: option.split)

lemma rejection_threshold: "jget (lambda_rejection C score) ''threshold'' = Some (JFloat ''0.5'')"
  by (simp add: lambda_rejection_def honest_get)

lemma serve_degraded:
  assumes "as_coordinator st = None" "serve C E st q = (st', r)"
  shows "degraded q r"
proof (cases q)
  case (Join j)
  with assms show ?thesis
    by (auto simp: join_handler_def Let_def honest_get split: prod.splits dest!: get_coordinator_pair)
next
  case Nodes
  with assms show ?thesis
    by (auto simp: nodes_handler_def Let_def honest_get split: prod.splits dest!: get_coordinator_pair)
next
  case (Dispatch d)
  with assms show ?thesis
    by (auto simp: dispatch_handler_def Let_def honest_get rejection_threshold LAMBDA_THRESHOLD_ADVISORY_def
        split: prod.splits if_splits dest!: get_coordinator_pair)
next
  case Healthz
  with assms show ?thesis
    by (auto simp: healthz_def Let_def split: prod.splits dest!: get_coordinator_pair)
qed

lemma serve_all_degraded:
  assumes "as_coordinator st = None"
  shows "as_coordinator (fst (serve_all C st qs)) = None \<and>
    list_all2 degraded (map snd qs) (snd (serve_all C st qs))"
  using assms
proof (induction qs arbitrary: st)
  case (Cons p qs)
  obtain E q where p: "p = (E, q)" by fastforce
  obtain st' r where s: "serve C E st q = (st', r)" by fastforce
  have "as_coordinator st' = None" using serve_keeps [OF s] Cons.prems by simp
  from Cons.IH [OF this] serve_degraded [OF Cons.prems s] show ?case
    by (simp add: p s case_prod_beta)
qed simp

text \<open>Requests and environments with valid text.\<close>

fun request_ok :: "api_request \<Rightarrow> bool" where
  "request_ok (Join j) = utf8_valid (jq_node_id j)"
| "request_ok (Dispatch d) = utf8_valid (dq_request_id d)"
| "request_ok _ = True"

definition api_env_ok :: "('k, 's) py \<Rightarrow> api_env \<Rightarrow> bool" where
  "api_env_ok C E \<longleftrightarrow> (\<forall>e. utf8_valid (ae_text E e)) \<and> (\<forall>x. float_lit (float_repr C (Fin x)))"

text \<open>The dash and the lambda are complete characters.\<close>

lemma utf8_signs [simp]:
  "utf8_valid (em_dash @ s) = utf8_valid s" "utf8_valid (lambda_sign @ s) = utf8_valid s"
proof -
  have "utf8_next (em_dash @ s) = Some (8212, s)" "utf8_next (lambda_sign @ s) = Some (923, s)"
    by (simp_all add: em_dash_def lambda_sign_def utf8_next_def cont_def)
  then show "utf8_valid (em_dash @ s) = utf8_valid s" "utf8_valid (lambda_sign @ s) = utf8_valid s"
    by (simp_all only: utf8_valid_step)
qed

lemma labels_wf: "jwf HONEST_MESH_LABELS"
  by (simp add: HONEST_MESH_LABELS_def ascii_utf8_valid)

lemma float_lit_half: "float_lit ''0.5''"
  by (simp add: float_lit_def scan_number_def num_sign_def num_int_def num_frac_def num_exp_def is_digit_def)

text \<open>A reply is typed: a well-formed JSON object that carries the labels. A crash is none.\<close>

definition typed_body :: "json \<Rightarrow> bool" where
  "typed_body body \<longleftrightarrow> is_obj body \<and> jwf body \<and> jget body ''honest_labels'' = Some HONEST_MESH_LABELS"

fun typed_reply :: "api_reply \<Rightarrow> bool" where
  "typed_reply (Reply body) = typed_body body"
| "typed_reply (HttpError n body) = typed_body body"
| "typed_reply (Crash e) = False"

lemma typed_honest:
  assumes "jwf (JObj kvs)" "''honest_labels'' \<notin> fst ` set kvs"
  shows "typed_body (honest kvs)"
proof -
  have "map_of kvs ''honest_labels'' = None" using assms(2) by (simp add: map_of_eq_None_iff)
  moreover have "jwf (honest kvs)" using assms labels_wf by (auto simp: honest_def)
  ultimately show ?thesis
    by (simp add: typed_body_def honest_get) (simp add: honest_def)
qed

lemma rejection_typed: "api_env_ok C E \<Longrightarrow> typed_body (lambda_rejection C score)"
  unfolding lambda_rejection_def
  by (intro typed_honest) (simp_all add: api_env_ok_def ascii_utf8_valid float_lit_half)

lemma serve_typed:
  assumes "as_coordinator st = None" "api_env_ok C E" "request_ok q" "serve C E st q = (st', r)"
  shows "typed_reply r"
proof (cases q)
  case (Join j)
  with assms show ?thesis
    by (auto simp: join_handler_def Let_def ascii_utf8_valid split: prod.splits dest!: get_coordinator_pair intro!: typed_honest)
next
  case Nodes
  with assms show ?thesis
    by (auto simp: nodes_handler_def Let_def ascii_utf8_valid split: prod.splits dest!: get_coordinator_pair intro!: typed_honest)
next
  case (Dispatch d)
  with assms rejection_typed [OF assms(2)] show ?thesis
    by (auto simp: dispatch_handler_def Let_def ascii_utf8_valid
        split: prod.splits if_splits dest!: get_coordinator_pair intro!: typed_honest)
next
  case Healthz
  with assms labels_wf show ?thesis
    by (auto simp: healthz_def Let_def typed_body_def ascii_utf8_valid split: prod.splits dest!: get_coordinator_pair)
qed

lemma serve_all_typed:
  assumes "as_coordinator st = None" "\<forall>(E, q) \<in> set qs. api_env_ok C E \<and> request_ok q"
  shows "list_all2 (\<lambda>q r. typed_reply r) qs (snd (serve_all C st qs))"
  using assms
proof (induction qs arbitrary: st)
  case (Cons p qs)
  obtain E q where p: "p = (E, q)" by fastforce
  obtain st' r where s: "serve C E st q = (st', r)" by fastforce
  have "as_coordinator st' = None" using serve_keeps [OF s] Cons.prems(1) by simp
  with Cons.IH serve_typed [OF Cons.prems(1) _ _ s] Cons.prems(2) show ?case
    by (simp add: p s case_prod_beta)
qed simp

text \<open>
  With a coordinator that was installed by other means, no route works: exactly these are the
  outcomes. The handlers call methods and constructors of the coordinator by other names and
  signatures than the ones it has.
\<close>

fun unserved :: "('k, 's) py \<Rightarrow> bytes \<Rightarrow> api_request \<Rightarrow> api_reply \<Rightarrow> bool" where
  "unserved C key (Join j) r \<longleftrightarrow>
     (case compare_digest (hmac_hex C key (proof_material j)) (lower (jq_formation_key_proof j)) of
        Inl e \<Rightarrow> r = Crash e
      | Inr False \<Rightarrow> \<exists>body. r = HttpError 403 body \<and> typed_body body
      | Inr True \<Rightarrow> \<exists>e. r = Crash e)"
| "unserved C key Nodes r \<longleftrightarrow> r = Crash AttributeError"
| "unserved C key (Dispatch d) r \<longleftrightarrow>
     (\<exists>body. r = HttpError (if dq_lambda_score d < 1 / 2 then 422 else 503) body \<and> typed_body body)"
| "unserved C key Healthz r \<longleftrightarrow> r = Crash AttributeError"

lemma uncaught_crash: "\<exists>e. uncaught m (\<lambda>x. Crash e') = Crash e"
  by (cases m) auto

theorem api_with_coordinator:
  assumes "as_coordinator st = Some co" "api_env_ok C E" "request_ok q" "serve C E st q = (st', r)"
  shows "as_coordinator st' = Some co \<and> unserved C (as_formation_key st') q r"
proof
  show "as_coordinator st' = Some co" using serve_keeps [OF assms(4)] assms(1) by simp
  show "unserved C (as_formation_key st') q r"
  proof (cases q)
    case (Join j)
    with assms show ?thesis
      by (cases "compare_digest (hmac_hex C (as_formation_key st') (proof_material j)) (lower (jq_formation_key_proof j))")
        (auto simp: join_handler_def join_with_def Let_def no_call_reaches uncaught_crash ascii_utf8_valid
          split: prod.splits bool.splits dest!: get_coordinator_pair intro!: typed_honest)
  next
    case Nodes
    with assms show ?thesis
      by (auto simp: nodes_handler_def Let_def no_call_reaches split: prod.splits dest!: get_coordinator_pair)
  next
    case (Dispatch d)
    with assms rejection_typed [OF assms(2)] show ?thesis
      by (auto simp: dispatch_handler_def Let_def no_call_reaches LAMBDA_THRESHOLD_ADVISORY_def api_env_ok_def ascii_utf8_valid
          split: prod.splits if_splits dest!: get_coordinator_pair intro!: typed_honest)
  next
    case Healthz
    with assms show ?thesis
      by (auto simp: healthz_def Let_def no_call_reaches split: prod.splits dest!: get_coordinator_pair)
  qed
qed

text \<open>
  C37: The service always answers, and always as degraded. In every history of requests since its
  start, whatever formation key the environment provides, no request crashes: every reply is a
  well-formed JSON object that carries the honest labels unchanged. Joins, node listings and
  dispatches are answered with \<open>DEGRADED\<close>, except that a dispatch below the advisory threshold is
  refused with 422; the health check reports \<open>ok\<close> with no active formation and no node. The
  coordinator is never created (the lazy initialisation passes a keyword that the constructor does not
  have, and swallows the error), so no reply ever reports a node as enrolled, a formation as live or
  a request as dispatched, which is what the routes are documented to do.
\<close>

theorem api_replies_typed:
  assumes "\<forall>(E, q) \<in> set qs. api_env_ok C E \<and> request_ok q"
  shows "as_coordinator (fst (serve_all C api_start qs)) = None \<and>
    list_all2 (\<lambda>(E, q) r. typed_reply r \<and> degraded q r) qs (snd (serve_all C api_start qs))"
proof -
  have start: "as_coordinator api_start = None" by (simp add: api_start_def)
  from serve_all_typed [OF start assms] serve_all_degraded [OF start, of C qs] show ?thesis
    by (simp add: list_all2_conv_all_nth case_prod_beta)
qed

definition sample_api :: api_env where
  "sample_api = \<lparr>ae_formation_key = ''0a 0B'', ae_text = (\<lambda>e. ''error''), ae_run = (\<lambda>co name. Inr JNull)\<rparr>"

definition sample_dispatch :: api_request where
  "sample_dispatch = Dispatch \<lparr>dq_request_id = ''r'', dq_payload = [], dq_lambda_score = 1\<rparr>"

theorem api_replies_typed_witness:
  "\<exists>r1 r2. snd (serve_all toy_py api_start [(sample_api, sample_dispatch), (sample_api, Healthz)]) = [r1, r2] \<and>
    typed_reply r1 \<and> degraded sample_dispatch r1 \<and> typed_reply r2 \<and> degraded Healthz r2"
proof -
  have ok: "api_env_ok toy_py sample_api" "request_ok sample_dispatch"
    by (simp_all add: api_env_ok_def sample_api_def sample_dispatch_def toy_float ascii_utf8_valid)
  let ?qs = "[(sample_api, sample_dispatch), (sample_api, Healthz)]"
  have "\<forall>(E, q) \<in> set ?qs. api_env_ok toy_py E \<and> request_ok q" using ok by simp
  from api_replies_typed [OF this, THEN conjunct2]
  obtain r1 r2 where "snd (serve_all toy_py api_start ?qs) = [r1, r2]" "typed_reply r1 \<and> degraded sample_dispatch r1"
    "typed_reply r2 \<and> degraded Healthz r2"
    by (auto simp: list_all2_Cons1)
  then show ?thesis by blast
qed

text \<open>A dispatch to a coordinator that was installed by other means.\<close>

theorem api_with_coordinator_witness:
  "\<exists>body. snd (serve toy_py sample_api \<lparr>as_coordinator = Some (new_coordinator ''k'' 32 60), as_formation_key = []\<rparr> sample_dispatch) =
      HttpError 503 body \<and> typed_body body"
proof -
  let ?st = "\<lparr>as_coordinator = Some (new_coordinator ''k'' 32 60), as_formation_key = []\<rparr>"
  have ok: "api_env_ok toy_py sample_api" "request_ok sample_dispatch"
    by (simp_all add: api_env_ok_def sample_api_def sample_dispatch_def toy_float ascii_utf8_valid)
  have "as_coordinator ?st = Some (new_coordinator ''k'' 32 60)" by simp
  from api_with_coordinator [OF this ok prod.collapse [symmetric]] show ?thesis by (simp add: sample_dispatch_def)
qed

end
