(* ===== verification/Spine.thy ===== *)
theory Spine
  imports Receipts
begin

text \<open>
  \<open>src/szl_mesh/spine.py\<close>: the binding of a state transition to a receipt of the shared
  \<open>szl_receipt\<close> library. The library is not part of the repository: it is a record of functions
  that may be absent, and \<open>shared_digests\<close> and \<open>shared_envelopes\<close> state the behaviour the
  module documents for it.
\<close>

section \<open>The shared library\<close>

text \<open>
  \<open>Receipt(kind, body).digest()\<close>, \<open>sign_receipt\<close> (receipt, key, organ, keyid) and
  \<open>verify_receipt\<close> (envelope, key).
\<close>

record shared_lib =
  sl_digest :: "string \<Rightarrow> json \<Rightarrow> exn + string"
  sl_sign :: "string \<Rightarrow> json \<Rightarrow> string option \<Rightarrow> string \<Rightarrow> string \<Rightarrow> exn + json"
  sl_verify :: "json \<Rightarrow> string option \<Rightarrow> exn + bool \<times> string"

text \<open>
  What the module finds at run time: the library, if it can be imported; the text of an exception;
  the nesting limit of the interpreter.
\<close>

record spine_env =
  se_lib :: "shared_lib option"
  se_text :: "exn \<Rightarrow> string"
  se_depth :: nat

definition PCGI_RECEIPT_SCHEMA :: string where [const_defs]:
  "PCGI_RECEIPT_SCHEMA = ''szl.pcgi.receipt/szl-mesh-state-transition/v1''"
definition RECEIPT_KIND :: string where [const_defs]: "RECEIPT_KIND = ''szl-mesh-state-transition''"
definition DEFAULT_POLICY_ID :: string where [const_defs]:
  "DEFAULT_POLICY_ID = ''szl.pcgi.policy/szl-mesh-doctrine-gate/v1''"
definition DEFAULT_ORGAN :: string where [const_defs]: "DEFAULT_ORGAN = ''szl-mesh''"
definition ENERGY_UNAVAILABLE :: string where [const_defs]: "ENERGY_UNAVAILABLE = ''UNAVAILABLE''"

text \<open>\<open>SpineUnavailable\<close> is a \<open>RuntimeError\<close>.\<close>

definition require_szl_receipt :: "spine_env \<Rightarrow> exn + shared_lib" where
  "require_szl_receipt E = (case se_lib E of None \<Rightarrow> Inl RuntimeError | Some L \<Rightarrow> Inr L)"

definition spine_digest :: "spine_env \<Rightarrow> json \<Rightarrow> exn + string" where
  "spine_digest E body = bindE (require_szl_receipt E) (\<lambda>L. sl_digest L ''_digest'' body)"

section \<open>Bodies\<close>

text \<open>\<open>list(v)\<close>: the items of a list, the characters of a string, the keys of a dictionary.\<close>

fun py_list :: "json \<Rightarrow> exn + json list" where
  "py_list (JList xs) = Inr xs"
| "py_list (JStr s) = Inr (map JStr (chars_of s))"
| "py_list (JObj kvs) = Inr (map (JStr \<circ> fst) kvs)"
| "py_list _ = Inl TypeError"

text \<open>A statement that is not a dictionary has no \<open>get\<close>.\<close>

definition transition_input :: "json \<Rightarrow> exn + json" where
  "transition_input stmt =
     (if \<not> is_obj stmt then Inl AttributeError
      else
        bindE (py_list (jget_or stmt ''from_state_head'' (JList []))) (\<lambda>heads.
        Inr (JObj
          [(''crdt_document_id'', jget_or stmt ''crdt_document_id'' JNull),
           (''from_state_head'', JList heads),
           (''change_hash'', jget_or stmt ''change_hash'' JNull),
           (''transition_class'', jget_or stmt ''transition_class'' JNull)])))"

definition transition_output :: "json \<Rightarrow> exn + json" where
  "transition_output stmt =
     (if \<not> is_obj stmt then Inl AttributeError
      else
        bindE (py_list (jget_or stmt ''to_state_head'' (JList []))) (\<lambda>heads.
        Inr (JObj
          [(''crdt_document_id'', jget_or stmt ''crdt_document_id'' JNull),
           (''to_state_head'', JList heads)])))"

definition transition_input_digest :: "spine_env \<Rightarrow> json \<Rightarrow> exn + string" where
  "transition_input_digest E stmt = bindE (transition_input stmt) (spine_digest E)"

definition transition_output_digest :: "spine_env \<Rightarrow> json \<Rightarrow> exn + string" where
  "transition_output_digest E stmt = bindE (transition_output stmt) (spine_digest E)"

text \<open>The governance context of a receipt: policy, quorum and witnesses.\<close>

record context_args =
  cx_policy_id :: string
  cx_quorum_id :: "string option"
  cx_witnesses :: "json list option"

definition default_context :: context_args where
  "default_context = \<lparr>cx_policy_id = DEFAULT_POLICY_ID, cx_quorum_id = None, cx_witnesses = None\<rparr>"

fun str_or_null :: "string option \<Rightarrow> json" where
  "str_or_null None = JNull"
| "str_or_null (Some s) = JStr s"

definition witness_list :: "context_args \<Rightarrow> json list" where
  "witness_list cx = (case cx_witnesses cx of None \<Rightarrow> [] | Some ws \<Rightarrow> ws)"

text \<open>The entries with fixed text.\<close>

definition energy_entry :: json where
  "energy_entry = JObj
     [(''measured'', JBool False), (''joules'', JStr ENERGY_UNAVAILABLE),
      (''reason'', JStr ''szl-mesh measures no joules; energy reported UNAVAILABLE, never fabricated.'')]"

definition honesty_entry :: json where
  "honesty_entry = JObj
     [(''asserts'', JStr ''integrity/reproducibility, NOT correctness''),
      (''receipt_is'', JStr (''evidence trail binding this decision (subject+input+output+'' @
         ''policy+energy), NOT a proof the transition is correct'')),
      (''bft'', JStr ''no unconditional BFT is claimed here (Conjecture 2)'')]"

text \<open>The returned dictionary, given the two digests.\<close>

definition mesh_body :: "json \<Rightarrow> context_args \<Rightarrow> string \<Rightarrow> string \<Rightarrow> json" where
  "mesh_body stmt cx input_digest output_digest = JObj
     [(''schema'', JStr PCGI_RECEIPT_SCHEMA),
      (''kind'', JStr RECEIPT_KIND),
      (''subject'', JObj
        [(''node_id'', jget_or stmt ''node_id'' JNull), (''quorum_id'', str_or_null (cx_quorum_id cx))]),
      (''doctrine_version'', JStr DOCTRINE_VERSION),
      (''kernel_commit'', JStr KERNEL_COMMIT),
      (''slsa_level'', JStr SLSA_LEVEL),
      (''input_digest'', JStr input_digest),
      (''output_digest'', JStr output_digest),
      (''policy_id'', JStr (cx_policy_id cx)),
      (''energy'', energy_entry),
      (''witnesses'', JList (witness_list cx)),
      (''transition'', JObj
        [(''crdt_document_id'', jget_or stmt ''crdt_document_id'' JNull),
         (''transition_class'', jget_or stmt ''transition_class'' JNull),
         (''change_hash'', jget_or stmt ''change_hash'' JNull)]),
      (''honesty'', honesty_entry)]"

definition build_mesh_receipt_body :: "spine_env \<Rightarrow> json \<Rightarrow> context_args \<Rightarrow> exn + json" where
  "build_mesh_receipt_body E stmt cx =
     (if \<not> is_obj stmt then Inl AttributeError
      else
        bindE (transition_input_digest E stmt) (\<lambda>input_digest.
        bindE (transition_output_digest E stmt) (\<lambda>output_digest.
        Inr (mesh_body stmt cx input_digest output_digest))))"

definition mesh_receipt_body_digest :: "spine_env \<Rightarrow> json \<Rightarrow> context_args \<Rightarrow> exn + string" where
  "mesh_receipt_body_digest E stmt cx = bindE (build_mesh_receipt_body E stmt cx) (spine_digest E)"

section \<open>Emission and verification\<close>

text \<open>Who signs: the private key, if any, the organ and the key identifier.\<close>

record signer_args =
  sg_private_key :: "string option"
  sg_organ :: string
  sg_keyid :: string

definition emit_mesh_receipt :: "spine_env \<Rightarrow> json \<Rightarrow> context_args \<Rightarrow> signer_args \<Rightarrow> exn + json" where
  "emit_mesh_receipt E stmt cx sg =
     bindE (require_szl_receipt E) (\<lambda>L.
     bindE (build_mesh_receipt_body E stmt cx) (\<lambda>body.
     sl_sign L RECEIPT_KIND body (sg_private_key sg) (sg_organ sg) (sg_keyid sg)))"

definition emit_mesh_receipt_from_dsse ::
  "('k, 's) crypto \<Rightarrow> spine_env \<Rightarrow> json \<Rightarrow> context_args \<Rightarrow> signer_args \<Rightarrow> exn + json" where
  "emit_mesh_receipt_from_dsse C E dsse_receipt cx sg =
     bindE (decode_statement C dsse_receipt) (\<lambda>stmt. emit_mesh_receipt E stmt cx sg)"

text \<open>\<open>json.loads(base64.b64decode(envelope["payload"]).decode("utf-8"))\<close>\<close>

definition envelope_body :: "spine_env \<Rightarrow> json \<Rightarrow> exn + json" where
  "envelope_body E envelope =
     bindE (jkey envelope ''payload'') (\<lambda>p.
     bindE (case p of JStr s \<Rightarrow> b64decode s | _ \<Rightarrow> Inl TypeError) (\<lambda>b.
     bindE (utf8_decode b) (json_loads (se_depth E))))"

definition rebind_mesh_receipt :: "spine_env \<Rightarrow> json \<Rightarrow> json \<Rightarrow> context_args \<Rightarrow> exn + bool \<times> string" where
  "rebind_mesh_receipt E body stmt cx =
     (if \<not> is_obj body then Inr (False, ''mesh-body-not-object'')
      else
        bindE (transition_input_digest E stmt) (\<lambda>input_digest.
        if jget body ''input_digest'' \<noteq> Some (JStr input_digest)
        then Inr (False, ''input-digest-rebind-mismatch'')
        else
          bindE (transition_output_digest E stmt) (\<lambda>output_digest.
          if jget body ''output_digest'' \<noteq> Some (JStr output_digest)
          then Inr (False, ''output-digest-rebind-mismatch'')
          else
            bindE (spine_digest E body) (\<lambda>found.
            bindE (mesh_receipt_body_digest E stmt cx) (\<lambda>expected.
            if found \<noteq> expected then Inr (False, ''mesh-body-rebind-mismatch'')
            else Inr (True, ''ok''))))))"

definition verify_mesh_receipt ::
  "spine_env \<Rightarrow> json \<Rightarrow> string option \<Rightarrow> json option \<Rightarrow> context_args \<Rightarrow> exn + bool \<times> string" where
  "verify_mesh_receipt E envelope public_key_pem stmt cx =
     bindE (require_szl_receipt E) (\<lambda>L.
     bindE (sl_verify L envelope public_key_pem) (\<lambda>(ok, detail).
     if \<not> ok then Inr (ok, detail)
     else
       (case stmt of
          None \<Rightarrow> Inr (True, ''ok'')
        | Some s \<Rightarrow>
            (case envelope_body E envelope of
               Inl e \<Rightarrow> Inr (False, ''payload decode error: '' @ se_text E e)
             | Inr body \<Rightarrow> rebind_mesh_receipt E body s cx))))"


section \<open>What an accepted receipt binds\<close>

text \<open>
  Documented behaviour of the digest: it is SHA-256 over a canonical JSON text, which exists for
  the values that can be encoded and determines the value up to the order of its keys.
\<close>

definition shared_digests :: "('k, 's) crypto \<Rightarrow> shared_lib \<Rightarrow> (json \<Rightarrow> bytes option) \<Rightarrow> bool" where
  "shared_digests C L canon \<longleftrightarrow>
     (\<forall>kind v h. sl_digest L kind v = Inr h \<longleftrightarrow> (\<exists>b. canon v = Some b \<and> h = sha256_hex C b)) \<and>
     (\<forall>v w b. canon v = Some b \<and> canon w = Some b \<longrightarrow> jsort v = jsort w)"

text \<open>The canonical texts that are hashed for a statement.\<close>

definition hashed :: "spine_env \<Rightarrow> (json \<Rightarrow> bytes option) \<Rightarrow> json \<Rightarrow> context_args \<Rightarrow> bytes set" where
  "hashed E canon stmt cx =
     {b. \<exists>v. canon v = Some b \<and>
        Inr v \<in> {transition_input stmt, transition_output stmt, build_mesh_receipt_body E stmt cx}}"

definition head_items :: "json \<Rightarrow> string \<Rightarrow> json list" where
  "head_items stmt k =
     (case py_list (jget_or stmt k (JList [])) of Inl _ \<Rightarrow> [] | Inr xs \<Rightarrow> map jsort xs)"

definition bound_fields :: "json \<Rightarrow> context_args \<Rightarrow> json list" where
  "bound_fields stmt cx =
     map jsort
       [jget_or stmt ''node_id'' JNull, str_or_null (cx_quorum_id cx), JStr (cx_policy_id cx),
        JList (witness_list cx),
        jget_or stmt ''crdt_document_id'' JNull, jget_or stmt ''transition_class'' JNull,
        jget_or stmt ''change_hash'' JNull]"

text \<open>Values with the same sorted form agree on every key.\<close>

fun keyed :: "json \<Rightarrow> bool" where
  "keyed (JObj kvs) = dict_ok kvs"
| "keyed _ = True"

lemma jget_jsort_keyed: "keyed v \<Longrightarrow> jget (jsort v) k = map_option jsort (jget v k)"
  by (cases v) (simp_all add: dict_sorted(2) map_of_map)

lemma jsort_field:
  assumes "jsort v = jsort w" "keyed v" "keyed w" "jget v k = Some a" "jget w k = Some b"
  shows "jsort a = jsort b"
  using assms jget_jsort_keyed [of v k] jget_jsort_keyed [of w k] by simp

lemma transition_input_Inr:
  "transition_input stmt = Inr v \<longleftrightarrow>
     is_obj stmt \<and> (\<exists>heads. py_list (jget_or stmt ''from_state_head'' (JList [])) = Inr heads \<and>
       v = JObj [(''crdt_document_id'', jget_or stmt ''crdt_document_id'' JNull),
           (''from_state_head'', JList heads),
           (''change_hash'', jget_or stmt ''change_hash'' JNull),
           (''transition_class'', jget_or stmt ''transition_class'' JNull)])"
  by (auto simp: transition_input_def bindE_Inr_iff)

lemma transition_output_Inr:
  "transition_output stmt = Inr v \<longleftrightarrow>
     is_obj stmt \<and> (\<exists>heads. py_list (jget_or stmt ''to_state_head'' (JList [])) = Inr heads \<and>
       v = JObj [(''crdt_document_id'', jget_or stmt ''crdt_document_id'' JNull),
           (''to_state_head'', JList heads)])"
  by (auto simp: transition_output_def bindE_Inr_iff)

lemma input_binds:
  assumes "transition_input s = Inr v" "transition_input s' = Inr v'" "jsort v = jsort v'"
  shows "head_items s ''from_state_head'' = head_items s' ''from_state_head''"
proof -
  from assms(1) obtain hs where hs: "py_list (jget_or s ''from_state_head'' (JList [])) = Inr hs"
    and v: "v = JObj [(''crdt_document_id'', jget_or s ''crdt_document_id'' JNull),
       (''from_state_head'', JList hs), (''change_hash'', jget_or s ''change_hash'' JNull),
       (''transition_class'', jget_or s ''transition_class'' JNull)]"
    unfolding transition_input_Inr by blast
  from assms(2) obtain hs' where hs': "py_list (jget_or s' ''from_state_head'' (JList [])) = Inr hs'"
    and v': "v' = JObj [(''crdt_document_id'', jget_or s' ''crdt_document_id'' JNull),
       (''from_state_head'', JList hs'), (''change_hash'', jget_or s' ''change_hash'' JNull),
       (''transition_class'', jget_or s' ''transition_class'' JNull)]"
    unfolding transition_input_Inr by blast
  have "jsort (JList hs) = jsort (JList hs')"
    by (rule jsort_field [OF assms(3) [unfolded v v'], where k = "''from_state_head''"]) simp_all
  then show ?thesis by (simp add: head_items_def hs hs')
qed

lemma output_binds:
  assumes "transition_output s = Inr v" "transition_output s' = Inr v'" "jsort v = jsort v'"
  shows "head_items s ''to_state_head'' = head_items s' ''to_state_head''"
proof -
  from assms(1) obtain hs where hs: "py_list (jget_or s ''to_state_head'' (JList [])) = Inr hs"
    and v: "v = JObj [(''crdt_document_id'', jget_or s ''crdt_document_id'' JNull), (''to_state_head'', JList hs)]"
    unfolding transition_output_Inr by blast
  from assms(2) obtain hs' where hs': "py_list (jget_or s' ''to_state_head'' (JList [])) = Inr hs'"
    and v': "v' = JObj [(''crdt_document_id'', jget_or s' ''crdt_document_id'' JNull), (''to_state_head'', JList hs')]"
    unfolding transition_output_Inr by blast
  have "jsort (JList hs) = jsort (JList hs')"
    by (rule jsort_field [OF assms(3) [unfolded v v'], where k = "''to_state_head''"]) simp_all
  then show ?thesis by (simp add: head_items_def hs hs')
qed

lemma mesh_body_get [simp]:
  "keyed (mesh_body s cx i out)"
  "jget (mesh_body s cx i out) ''input_digest'' = Some (JStr i)"
  "jget (mesh_body s cx i out) ''output_digest'' = Some (JStr out)"
  "jget (mesh_body s cx i out) ''policy_id'' = Some (JStr (cx_policy_id cx))"
  "jget (mesh_body s cx i out) ''witnesses'' = Some (JList (witness_list cx))"
  "jget (mesh_body s cx i out) ''subject'' = Some (JObj
     [(''node_id'', jget_or s ''node_id'' JNull), (''quorum_id'', str_or_null (cx_quorum_id cx))])"
  "jget (mesh_body s cx i out) ''transition'' = Some (JObj
     [(''crdt_document_id'', jget_or s ''crdt_document_id'' JNull),
      (''transition_class'', jget_or s ''transition_class'' JNull),
      (''change_hash'', jget_or s ''change_hash'' JNull)])"
  by (simp_all add: mesh_body_def)

lemma build_Inr:
  "build_mesh_receipt_body E s cx = Inr B \<longleftrightarrow>
     is_obj s \<and> (\<exists>i out. transition_input_digest E s = Inr i \<and> transition_output_digest E s = Inr out \<and>
       B = mesh_body s cx i out)"
  by (auto simp: build_mesh_receipt_body_def bindE_Inr_iff)

lemma body_binds:
  assumes eq: "jsort (mesh_body s cx i out) = jsort (mesh_body s' cx' i' out')"
  shows "bound_fields s cx = bound_fields s' cx'" "i = i'" "out = out'"
proof -
  note field = jsort_field [OF eq mesh_body_get(1) mesh_body_get(1)]
  from field [OF mesh_body_get(2) mesh_body_get(2)] show "i = i'" by simp
  from field [OF mesh_body_get(3) mesh_body_get(3)] show "out = out'" by simp
  note subject = jsort_field [OF field [OF mesh_body_get(6) mesh_body_get(6)]]
  note change = jsort_field [OF field [OF mesh_body_get(7) mesh_body_get(7)]]
  have "jsort (jget_or s ''node_id'' JNull) = jsort (jget_or s' ''node_id'' JNull)"
    by (rule subject [where k = "''node_id''"]) simp_all
  moreover have "jsort (str_or_null (cx_quorum_id cx)) = jsort (str_or_null (cx_quorum_id cx'))"
    by (rule subject [where k = "''quorum_id''"]) simp_all
  moreover have "jsort (jget_or s ''crdt_document_id'' JNull) = jsort (jget_or s' ''crdt_document_id'' JNull)"
    by (rule change [where k = "''crdt_document_id''"]) simp_all
  moreover have "jsort (jget_or s ''transition_class'' JNull) = jsort (jget_or s' ''transition_class'' JNull)"
    by (rule change [where k = "''transition_class''"]) simp_all
  moreover have "jsort (jget_or s ''change_hash'' JNull) = jsort (jget_or s' ''change_hash'' JNull)"
    by (rule change [where k = "''change_hash''"]) simp_all
  ultimately show "bound_fields s cx = bound_fields s' cx'"
    using field [OF mesh_body_get(4) mesh_body_get(4)] field [OF mesh_body_get(5) mesh_body_get(5)]
    by (simp only: bound_fields_def list.map)
qed

text \<open>What acceptance against a statement amounts to.\<close>

definition accepted_as :: "spine_env \<Rightarrow> shared_lib \<Rightarrow> json \<Rightarrow> string option \<Rightarrow> json \<Rightarrow> context_args \<Rightarrow> bool" where
  "accepted_as E L env pub s cx \<longleftrightarrow>
     se_lib E = Some L \<and> (\<exists>detail. sl_verify L env pub = Inr (True, detail)) \<and>
     (\<exists>body B h. envelope_body E env = Inr body \<and> sl_digest L ''_digest'' body = Inr h \<and>
        build_mesh_receipt_body E s cx = Inr B \<and> sl_digest L ''_digest'' B = Inr h)"

lemma rebind_accepts:
  assumes "rebind_mesh_receipt E body s cx = Inr (True, d)" "se_lib E = Some L"
  shows "\<exists>B h. sl_digest L ''_digest'' body = Inr h \<and> build_mesh_receipt_body E s cx = Inr B \<and>
    sl_digest L ''_digest'' B = Inr h"
  using assms
  by (auto simp: rebind_mesh_receipt_def bindE_Inr_iff spine_digest_def require_szl_receipt_def
      mesh_receipt_body_digest_def split: if_splits)

lemma verify_accepts:
  assumes "verify_mesh_receipt E env pub (Some s) cx = Inr (True, d)"
  shows "\<exists>L. accepted_as E L env pub s cx"
proof -
  from assms obtain L where L: "se_lib E = Some L"
    by (auto simp: verify_mesh_receipt_def require_szl_receipt_def split: option.splits)
  with assms obtain detail body where "sl_verify L env pub = Inr (True, detail)"
    and body: "envelope_body E env = Inr body" "rebind_mesh_receipt E body s cx = Inr (True, d)"
    by (auto simp: verify_mesh_receipt_def require_szl_receipt_def bindE_Inr_iff
        split: if_splits sum.splits)
  with L rebind_accepts [OF body(2) L] show ?thesis unfolding accepted_as_def by blast
qed


text \<open>Values of equal digest, when the hashed texts do not collide.\<close>

lemma same_digest:
  assumes "shared_digests C L canon" "inj_on (sha256_hex C) S"
    and "sl_digest L kind v = Inr h" "sl_digest L kind' w = Inr h"
    and "\<And>b. canon v = Some b \<Longrightarrow> b \<in> S" "\<And>b. canon w = Some b \<Longrightarrow> b \<in> S"
  shows "jsort v = jsort w"
proof -
  from assms(1,3) obtain b where b: "canon v = Some b" "h = sha256_hex C b"
    unfolding shared_digests_def by blast
  from assms(1,4) obtain c where c: "canon w = Some c" "h = sha256_hex C c"
    unfolding shared_digests_def by blast
  have "b = c"
    using assms(2) b c assms(5) [OF b(1)] assms(6) [OF c(1)] by (metis inj_onD)
  with b(1) c(1) assms(1) show ?thesis unfolding shared_digests_def by blast
qed

lemma digest_of: "se_lib E = Some L \<Longrightarrow> spine_digest E v = sl_digest L ''_digest'' v"
  by (simp add: spine_digest_def require_szl_receipt_def)

lemma accepted_binds:
  assumes "shared_digests C L canon"
    and "accepted_as E L env pub s cx" "accepted_as E L env pub' s' cx'"
    and "inj_on (sha256_hex C) (hashed E canon s cx \<union> hashed E canon s' cx')" (is "inj_on _ ?S")
  shows "bound_fields s cx = bound_fields s' cx'"
    and "head_items s ''from_state_head'' = head_items s' ''from_state_head''"
    and "head_items s ''to_state_head'' = head_items s' ''to_state_head''"
proof -
  from assms(2) obtain body B h where L: "se_lib E = Some L" and B: "envelope_body E env = Inr body"
    "sl_digest L ''_digest'' body = Inr h" "build_mesh_receipt_body E s cx = Inr B" "sl_digest L ''_digest'' B = Inr h"
    unfolding accepted_as_def by blast
  from assms(3) B(1,2) obtain B' where B': "build_mesh_receipt_body E s' cx' = Inr B'" "sl_digest L ''_digest'' B' = Inr h"
    unfolding accepted_as_def by fastforce
  note same = same_digest [OF assms(1,4)]
  have "jsort B = jsort B'"
    by (rule same [OF B(4) B'(2)]) (use B(3) B'(1) in \<open>auto simp: hashed_def\<close>)
  from B(3) B'(1) obtain i out i' out' where d: "transition_input_digest E s = Inr i"
    "transition_output_digest E s = Inr out" "transition_input_digest E s' = Inr i'"
    "transition_output_digest E s' = Inr out'"
    and bodies: "B = mesh_body s cx i out" "B' = mesh_body s' cx' i' out'"
    unfolding build_Inr by blast
  note binds = body_binds [OF \<open>jsort B = jsort B'\<close> [unfolded bodies]]
  show "bound_fields s cx = bound_fields s' cx'" by (rule binds(1))
  from d(1,3) binds(2) obtain v v' where v: "transition_input s = Inr v" "sl_digest L ''_digest'' v = Inr i"
    "transition_input s' = Inr v'" "sl_digest L ''_digest'' v' = Inr i"
    by (auto simp: transition_input_digest_def bindE_Inr_iff digest_of [OF L])
  have "jsort v = jsort v'"
    by (rule same [OF v(2,4)]) (use v(1,3) in \<open>auto simp: hashed_def\<close>)
  then show "head_items s ''from_state_head'' = head_items s' ''from_state_head''"
    by (rule input_binds [OF v(1,3)])
  from d(2,4) binds(3) obtain w w' where w: "transition_output s = Inr w" "sl_digest L ''_digest'' w = Inr out"
    "transition_output s' = Inr w'" "sl_digest L ''_digest'' w' = Inr out"
    by (auto simp: transition_output_digest_def bindE_Inr_iff digest_of [OF L])
  have "jsort w = jsort w'"
    by (rule same [OF w(2,4)]) (use w(1,3) in \<open>auto simp: hashed_def\<close>)
  then show "head_items s ''to_state_head'' = head_items s' ''to_state_head''"
    by (rule output_binds [OF w(1,3)])
qed

section \<open>Round trip\<close>

text \<open>
  Documented behaviour of the envelopes: values that nest within the limit can be encoded, and
  their canonical text parses back; it does not depend on the order of keys; the payload is the
  base64 of that text; a signature verifies under the matching key, and an envelope made without
  a key says so and is refused as \<open>unsigned-honest\<close>.
\<close>

definition signed_envelope :: "shared_lib \<Rightarrow> string \<Rightarrow> bytes \<Rightarrow> json \<Rightarrow> bool" where
  "signed_envelope L pub b env \<longleftrightarrow>
     jget env ''payload'' = Some (JStr (b64encode b)) \<and> jget env ''signed'' = Some (JBool True) \<and>
     (\<exists>detail. sl_verify L env (Some pub) = Inr (True, detail))"

definition unsigned_envelope :: "shared_lib \<Rightarrow> bytes \<Rightarrow> json \<Rightarrow> bool" where
  "unsigned_envelope L b env \<longleftrightarrow>
     jget env ''payload'' = Some (JStr (b64encode b)) \<and> jget env ''signed'' = Some (JBool False) \<and>
     (\<forall>key. sl_verify L env key = Inr (False, ''unsigned-honest''))"

definition shared_envelopes :: "shared_lib \<Rightarrow> (json \<Rightarrow> bytes option) \<Rightarrow> nat \<Rightarrow> string \<Rightarrow> string \<Rightarrow> bool" where
  "shared_envelopes L canon depth priv pub \<longleftrightarrow>
     (\<forall>v. jwf v \<and> jdepth v \<le> depth \<longrightarrow>
        (\<exists>b w. canon v = Some b \<and> loads_bytes depth b = Inr w \<and> jwf w \<and> jsort w = jsort v)) \<and>
     (\<forall>v w. jsort v = jsort w \<longrightarrow> canon v = canon w) \<and>
     (\<forall>kind v b organ keyid. canon v = Some b \<longrightarrow>
        (\<exists>env. sl_sign L kind v (Some priv) organ keyid = Inr env \<and> signed_envelope L pub b env) \<and>
        (\<exists>env. sl_sign L kind v None organ keyid = Inr env \<and> unsigned_envelope L b env))"

lemma jsort_JStr: "jsort v = JStr s \<longleftrightarrow> v = JStr s"
  by (cases v) auto

lemma jwf_keyed: "jwf v \<Longrightarrow> keyed v"
  by (cases v) auto

text \<open>A statement as the mesh builds it, and its decoded form with sorted keys, have the same transition.\<close>

abbreviation context_ok :: "nat \<Rightarrow> context_args \<Rightarrow> bool" where
  "context_ok depth cx \<equiv>
     utf8_valid (cx_policy_id cx) \<and> jwf (str_or_null (cx_quorum_id cx)) \<and>
     (\<forall>w \<in> set (witness_list cx). jwf w \<and> jdepth w + 2 \<le> depth)"

lemma statement_sorted:
  fixes d c fh th n cls ts
  defines "stmt \<equiv> statement_of d c fh th n cls ts"
  assumes "jwf stmt"
  shows "transition_input (jsort stmt) = transition_input stmt"
    "transition_output (jsort stmt) = transition_output stmt"
    "mesh_body (jsort stmt) cx i out = mesh_body stmt cx i out"
proof -
  have "jget_or (jsort stmt) k dflt = jget_or stmt k dflt"
    if "k \<in> {''crdt_document_id'', ''change_hash'', ''transition_class'', ''node_id'', ''from_state_head'', ''to_state_head''}"
    for k dflt
    using that unfolding jget_or_def jget_jsort [OF assms(2)] by (auto simp: stmt_def comp_def)
  then show "transition_input (jsort stmt) = transition_input stmt"
    "transition_output (jsort stmt) = transition_output stmt"
    "mesh_body (jsort stmt) cx i out = mesh_body stmt cx i out"
    by (simp_all add: transition_input_def transition_output_def mesh_body_def)
qed


lemma transition_wf:
  fixes d c fh th n cls ts
  defines "stmt \<equiv> statement_of d c fh th n cls ts"
  assumes "jwf stmt" "2 \<le> depth"
  shows "\<exists>v. transition_input stmt = Inr v \<and> jwf v \<and> jdepth v \<le> depth"
    and "\<exists>v. transition_output stmt = Inr v \<and> jwf v \<and> jdepth v \<le> depth"
  using assms
  by (auto simp: transition_input_def transition_output_def stmt_def jget_or_def ascii_utf8_valid
      jdepth_strings simp del: jdepth.simps(1))

lemma jdepth_list: "(\<forall>x \<in> set xs. jdepth x \<le> n) \<Longrightarrow> jdepth (JList xs) \<le> Suc n"
  by simp

lemma body_wf:
  fixes d c fh th n cls ts
  defines "stmt \<equiv> statement_of d c fh th n cls ts"
  assumes "jwf stmt" "3 \<le> depth" "context_ok depth cx" "is_ascii i" "is_ascii out"
  shows "jwf (mesh_body stmt cx i out)" "jdepth (mesh_body stmt cx i out) \<le> depth"
proof -
  have "\<forall>w \<in> set (witness_list cx). jdepth w \<le> depth - 2" using assms(4) by fastforce
  from jdepth_list [OF this] assms(3) have ws: "jdepth (JList (witness_list cx)) + 1 \<le> depth" by linarith
  have q: "jdepth (str_or_null (cx_quorum_id cx)) = 0" by (cases "cx_quorum_id cx") simp_all
  show "jwf (mesh_body stmt cx i out)"
    using assms by (auto simp: mesh_body_def jget_or_def stmt_def energy_entry_def honesty_entry_def
        const_defs ascii_utf8_valid)
  show "jdepth (mesh_body stmt cx i out) \<le> depth"
    using assms(3) ws q
    by (simp add: mesh_body_def jget_or_def stmt_def energy_entry_def honesty_entry_def del: jdepth.simps(1))
qed

text \<open>A body that the library signed rebinds to its statement.\<close>

lemma signed_body_rebinds:
  assumes "shared_digests C L canon" "shared_envelopes L canon (se_depth E) priv pub" "se_lib E = Some L"
    and "build_mesh_receipt_body E stmt cx = Inr B" "jwf B" "jdepth B \<le> se_depth E"
    and "canon B = Some b" "jget env ''payload'' = Some (JStr (b64encode b))"
  shows "\<exists>w. envelope_body E env = Inr w \<and> rebind_mesh_receipt E w stmt cx = Inr (True, ''ok'')"
proof -
  from assms(2,5,6) obtain b' w where w: "canon B = Some b'" "loads_bytes (se_depth E) b' = Inr w" "jwf w"
    "jsort w = jsort B"
    unfolding shared_envelopes_def by blast
  with assms(7) have b: "loads_bytes (se_depth E) b = Inr w" by simp
  then have "bindE (utf8_decode b) (json_loads (se_depth E)) = Inr w" by (simp add: loads_bytes_def)
  then have env: "envelope_body E env = Inr w"
    using assms(8) by (simp add: envelope_body_def jkey_def b64_round)
  from assms(4) obtain i out where t: "is_obj stmt" "transition_input_digest E stmt = Inr i"
    "transition_output_digest E stmt = Inr out" and B: "B = mesh_body stmt cx i out"
    unfolding build_Inr by blast
  have field: "jget w k = Some (JStr s)" if "jget B k = Some (JStr s)" for k s
  proof -
    have "map_option jsort (jget w k) = map_option jsort (jget B k)"
      using jget_jsort [OF w(3), of k] jget_jsort [OF assms(5), of k] w(4) by simp
    with that show ?thesis by (auto simp: jsort_JStr)
  qed
  have "jget w ''input_digest'' = Some (JStr i)" "jget w ''output_digest'' = Some (JStr out)"
    by (simp_all add: field B)
  moreover have "is_obj w"
    using w(4) is_obj_jsort [of w] is_obj_jsort [of B] by (simp add: B mesh_body_def)
  moreover have "sl_digest L ''_digest'' w = Inr (sha256_hex C b)" "sl_digest L ''_digest'' B = Inr (sha256_hex C b)"
  proof -
    from assms(2) w(4) have "canon w = canon B" unfolding shared_envelopes_def by blast
    with assms(1,7) show "sl_digest L ''_digest'' w = Inr (sha256_hex C b)"
      "sl_digest L ''_digest'' B = Inr (sha256_hex C b)"
      unfolding shared_digests_def by auto
  qed
  ultimately have "rebind_mesh_receipt E w stmt cx = Inr (True, ''ok'')"
    using t assms(4)
    by (simp add: rebind_mesh_receipt_def digest_of [OF assms(3)] mesh_receipt_body_digest_def)
  with env show ?thesis by blast
qed


lemma jsort_idem: "jsort (jsort v) = jsort v"
proof (induction v rule: jsort.induct)
  case (2 kvs)
  have "map (\<lambda>(k, v). (k, jsort v)) (sort_key fst (map (\<lambda>(k, v). (k, jsort v)) kvs)) =
    sort_key fst (map (\<lambda>(k, v). (k, jsort v)) kvs)"
    using 2 by (intro map_idI) auto
  then show ?case by (simp add: sort_key_id_if_sorted)
qed simp_all


lemma envelopes_made:
  assumes "shared_envelopes L canon depth priv pub" "canon v = Some b"
  shows "(\<exists>env. sl_sign L kind v (Some priv) organ keyid = Inr env \<and> signed_envelope L pub b env) \<and>
    (\<exists>env. sl_sign L kind v None organ keyid = Inr env \<and> unsigned_envelope L b env)"
proof -
  from assms(1) [unfolded shared_envelopes_def, THEN conjunct2, THEN conjunct2]
  have "canon v = Some b \<longrightarrow>
    (\<exists>env. sl_sign L kind v (Some priv) organ keyid = Inr env \<and> signed_envelope L pub b env) \<and>
    (\<exists>env. sl_sign L kind v None organ keyid = Inr env \<and> unsigned_envelope L b env)"
    by (elim allE)
  with assms(2) show ?thesis by (rule rev_mp)
qed

lemma honest_body:
  fixes C :: "('k, 's) crypto" and doc_id raw fh th n cls now
  defines "stmt \<equiv> statement_of doc_id (sha256_hex C raw) fh th n cls (strftime now)"
  assumes "crypto_ok C" "shared_digests C L canon" "shared_envelopes L canon (se_depth E) priv_pem pub_pem"
    and "se_lib E = Some L" "3 \<le> se_depth E" "jwf stmt" "context_ok (se_depth E) cx"
  obtains B b where "build_mesh_receipt_body E stmt cx = Inr B" "build_mesh_receipt_body E (jsort stmt) cx = Inr B"
    "jwf B" "jdepth B \<le> se_depth E" "canon B = Some b"
proof -
  have encodable: "\<exists>b. canon v = Some b \<and> sl_digest L ''_digest'' v = Inr (sha256_hex C b)"
    if "jwf v" "jdepth v \<le> se_depth E" for v
  proof -
    from assms(4) that obtain b where "canon v = Some b" unfolding shared_envelopes_def by blast
    moreover with assms(3) have "sl_digest L ''_digest'' v = Inr (sha256_hex C b)"
      unfolding shared_digests_def by blast
    ultimately show ?thesis by blast
  qed
  have two: "2 \<le> se_depth E" using assms(6) by simp
  from transition_wf(1) [OF assms(7) [unfolded stmt_def] two] obtain v where
    v: "transition_input stmt = Inr v" "jwf v" "jdepth v \<le> se_depth E" unfolding stmt_def by blast
  from transition_wf(2) [OF assms(7) [unfolded stmt_def] two] obtain w where
    w: "transition_output stmt = Inr w" "jwf w" "jdepth w \<le> se_depth E" unfolding stmt_def by blast
  from encodable [OF v(2,3)] obtain bv where i: "transition_input_digest E stmt = Inr (sha256_hex C bv)"
    using v(1) digest_of [OF assms(5)] by (auto simp: transition_input_digest_def)
  from encodable [OF w(2,3)] obtain bw where out: "transition_output_digest E stmt = Inr (sha256_hex C bw)"
    using w(1) digest_of [OF assms(5)] by (auto simp: transition_output_digest_def)
  let ?B = "mesh_body stmt cx (sha256_hex C bv) (sha256_hex C bw)"
  have build: "build_mesh_receipt_body E stmt cx = Inr ?B"
    unfolding build_Inr using i out by (auto simp: stmt_def)
  have B: "jwf ?B" "jdepth ?B \<le> se_depth E"
    using body_wf [OF assms(7) [unfolded stmt_def] assms(6,8), of "sha256_hex C bv" "sha256_hex C bw"]
      crypto_okD(6) [OF assms(2)] unfolding stmt_def by blast+
  from encodable [OF B] obtain b where b: "canon ?B = Some b" by blast
  note sorted = statement_sorted [OF assms(7) [unfolded stmt_def], folded stmt_def]
  have "is_obj stmt" by (simp add: stmt_def)
  have "build_mesh_receipt_body E (jsort stmt) cx = Inr ?B"
    using build sorted \<open>is_obj stmt\<close>
    by (simp add: build_mesh_receipt_body_def transition_input_digest_def transition_output_digest_def)
  with build B b show thesis by (intro that)
qed

lemma honest_emission:
  fixes C :: "('k, 's) crypto" and doc_id raw fh th n cls now
  defines "stmt \<equiv> statement_of doc_id (sha256_hex C raw) fh th n cls (strftime now)"
  assumes "crypto_ok C" "shared_digests C L canon" "shared_envelopes L canon (se_depth E) priv_pem pub_pem"
    and "se_lib E = Some L" "3 \<le> se_depth E" "jwf stmt" "context_ok (se_depth E) cx"
    and "decode_statement C r = Inr (jsort stmt)"
  shows "\<exists>env. emit_mesh_receipt_from_dsse C E r cx \<lparr>sg_private_key = Some priv_pem, sg_organ = organ, sg_keyid = keyid\<rparr> = Inr env \<and>
      jget env ''signed'' = Some (JBool True) \<and>
      verify_mesh_receipt E env (Some pub_pem) (Some stmt) cx = Inr (True, ''ok'')"
    and "\<exists>env. emit_mesh_receipt_from_dsse C E r cx \<lparr>sg_private_key = None, sg_organ = organ, sg_keyid = keyid\<rparr> = Inr env \<and>
      jget env ''signed'' = Some (JBool False) \<and>
      (\<forall>key s cx'. verify_mesh_receipt E env key s cx' = Inr (False, ''unsigned-honest''))"
proof -
  from honest_body [OF assms(2-8) [unfolded stmt_def], folded stmt_def] obtain B b where
    build: "build_mesh_receipt_body E stmt cx = Inr B" "build_mesh_receipt_body E (jsort stmt) cx = Inr B" and
    B: "jwf B" "jdepth B \<le> se_depth E" and b: "canon B = Some b" .
  have emit: "emit_mesh_receipt_from_dsse C E r cx sg =
      sl_sign L RECEIPT_KIND B (sg_private_key sg) (sg_organ sg) (sg_keyid sg)" for sg
    using assms(5,9) build(2) by (simp add: emit_mesh_receipt_from_dsse_def emit_mesh_receipt_def require_szl_receipt_def)
  have signs: "(\<exists>env. sl_sign L kind B (Some priv_pem) organ keyid = Inr env \<and> signed_envelope L pub_pem b env) \<and>
      (\<exists>env. sl_sign L kind B None organ keyid = Inr env \<and> unsigned_envelope L b env)" for kind
    by (rule envelopes_made [OF assms(4) b])
  then obtain env where env: "sl_sign L RECEIPT_KIND B (Some priv_pem) organ keyid = Inr env"
    "signed_envelope L pub_pem b env"
    by blast
  then have payload: "jget env ''payload'' = Some (JStr (b64encode b))" by (simp add: signed_envelope_def)
  obtain x where "envelope_body E env = Inr x" "rebind_mesh_receipt E x stmt cx = Inr (True, ''ok'')"
    using signed_body_rebinds [OF assms(3,4,5) build(1) B b payload] by blast
  with env assms(5) have "verify_mesh_receipt E env (Some pub_pem) (Some stmt) cx = Inr (True, ''ok'')"
    by (auto simp: verify_mesh_receipt_def require_szl_receipt_def signed_envelope_def)
  with env show "\<exists>env. emit_mesh_receipt_from_dsse C E r cx \<lparr>sg_private_key = Some priv_pem, sg_organ = organ, sg_keyid = keyid\<rparr> = Inr env \<and>
      jget env ''signed'' = Some (JBool True) \<and>
      verify_mesh_receipt E env (Some pub_pem) (Some stmt) cx = Inr (True, ''ok'')"
    by (simp add: emit signed_envelope_def)
  from signs obtain env' where env': "sl_sign L RECEIPT_KIND B None organ keyid = Inr env'"
    "unsigned_envelope L b env'"
    by blast
  with assms(5) env'(2) have "\<forall>key s cx'. verify_mesh_receipt E env' key s cx' = Inr (False, ''unsigned-honest'')"
    by (simp add: verify_mesh_receipt_def require_szl_receipt_def unsigned_envelope_def)
  with env' show "\<exists>env. emit_mesh_receipt_from_dsse C E r cx \<lparr>sg_private_key = None, sg_organ = organ, sg_keyid = keyid\<rparr> = Inr env \<and>
      jget env ''signed'' = Some (JBool False) \<and>
      (\<forall>key s cx'. verify_mesh_receipt E env key s cx' = Inr (False, ''unsigned-honest''))"
    by (simp add: emit unsigned_envelope_def)
qed

text \<open>An instance of the library for the witnesses: the signature is the key itself.\<close>

definition toy_canon :: "json \<Rightarrow> bytes option" where
  "toy_canon v = (if jwf (jsort v) \<and> jdepth (jsort v) \<le> 9 then Some (json_dumps False v) else None)"

definition toy_lib :: shared_lib where
  "toy_lib =
     \<lparr>sl_digest = (\<lambda>kind v. case toy_canon v of None \<Rightarrow> Inl ValueError | Some b \<Rightarrow> Inr (to_hex b)),
      sl_sign = (\<lambda>kind v key organ keyid.
        case toy_canon v of None \<Rightarrow> Inl ValueError
        | Some b \<Rightarrow> Inr (JObj [(''payload'', JStr (b64encode b)), (''signed'', JBool (key \<noteq> None)),
            (''sig'', str_or_null key)])),
      sl_verify = (\<lambda>env key.
        if jget env ''signed'' \<noteq> Some (JBool True) then Inr (False, ''unsigned-honest'')
        else if jget env ''sig'' = Some (str_or_null key) then Inr (True, ''ok'') else Inr (False, ''bad-signature''))\<rparr>"

definition toy_spine :: spine_env where
  "toy_spine = \<lparr>se_lib = Some toy_lib, se_text = (\<lambda>e. []), se_depth = 9\<rparr>"

lemma toy_canon_inj:
  assumes "toy_canon v = Some b" "toy_canon w = Some b"
  shows "jsort v = jsort w"
proof -
  from assms have eq: "jdump False (jsort v) = jdump False (jsort w)"
    and wf: "jwf (jsort v)" "jdepth (jsort v) \<le> 9" "jwf (jsort w)" "jdepth (jsort w) \<le> 9"
    by (auto simp: toy_canon_def json_dumps_def split: if_splits)
  from scan_jdump [OF wf(1,2), of "[]" False] scan_jdump [OF wf(3,4), of "[]" False] eq show ?thesis by simp
qed

lemma toy_shared:
  "shared_digests toy_crypto toy_lib toy_canon" "shared_envelopes toy_lib toy_canon 9 ''k'' ''k''"
proof -
  show "shared_digests toy_crypto toy_lib toy_canon"
    unfolding shared_digests_def
    by (auto simp: toy_lib_def toy_crypto_def split: option.splits dest: toy_canon_inj)
  have "\<exists>w. loads_bytes 9 (json_dumps False v) = Inr w \<and> jwf w \<and> jsort w = jsort v" if "jwf v" "jdepth v \<le> 9" for v
  proof -
    have "json_dumps False (jsort v) = json_dumps False v"
      using loads_bytes_dumps that by (simp add: json_dumps_def jsort_idem)
    with that show ?thesis by (auto simp: loads_bytes_dumps jwf_jsort jsort_idem)
  qed
  then show "shared_envelopes toy_lib toy_canon 9 ''k'' ''k''"
    unfolding shared_envelopes_def
    by (auto simp: toy_lib_def toy_canon_def json_dumps_def signed_envelope_def unsigned_envelope_def jwf_jsort jdepth_jsort split: option.splits if_splits)
qed


section \<open>Properties\<close>

text \<open>
  C15: An accepted mesh receipt binds its transition. If one envelope is accepted against two
  statements and governance contexts (under whatever keys), and the canonical texts hashed for
  them do not collide, then both have the same node, quorum, policy, witnesses, document,
  transition class, change hash and the same state heads before and after.
\<close>

theorem spine_receipt_binds:
  assumes "se_lib E = Some L" "shared_digests C L canon"
    and "verify_mesh_receipt E env pub (Some s) cx = Inr (True, d)"
    and "verify_mesh_receipt E env pub' (Some s') cx' = Inr (True, d')"
    and "inj_on (sha256_hex C) (hashed E canon s cx \<union> hashed E canon s' cx')"
  shows "bound_fields s cx = bound_fields s' cx' \<and>
    head_items s ''from_state_head'' = head_items s' ''from_state_head'' \<and>
    head_items s ''to_state_head'' = head_items s' ''to_state_head'' \<and>
    (\<exists>detail. sl_verify L env pub = Inr (True, detail))"
proof -
  from verify_accepts [OF assms(3)] assms(1) have a: "accepted_as E L env pub s cx"
    by (auto simp: accepted_as_def)
  from verify_accepts [OF assms(4)] assms(1) have a': "accepted_as E L env pub' s' cx'"
    by (auto simp: accepted_as_def)
  from a have "\<exists>detail. sl_verify L env pub = Inr (True, detail)" by (simp add: accepted_as_def)
  with accepted_binds [OF assms(2) a a' assms(5)] show ?thesis by blast
qed

text \<open>
  C36: Round trip of the spine. The DSSE receipt that a node builds for a statement folds onto the
  shared receipt: signed with a key the result is marked as signed and verifies against the
  original statement and context under the matching key; without a key it is marked as unsigned
  and no verification ever accepts it.
\<close>

theorem spine_round_trip:
  fixes C :: "('k, 's) crypto"
  assumes "crypto_ok C" "shared_digests C L canon" "shared_envelopes L canon (se_depth E) priv_pem pub_pem"
    and "se_lib E = Some L" "3 \<le> se_depth E" "3 \<le> json_depth C" "context_ok (se_depth E) cx"
    and "utf8_valid doc_id" "\<forall>h \<in> set (fh @ th). is_ascii h" "cls \<in> set TRANSITION_CLASSES" "valid_datetime now"
    and "n = node_id_from_pubkey C (public_key C priv)"
  shows "\<exists>stmt r signed unsigned.
    build_state_transition_statement doc_id (sha256_hex C raw) fh th n cls None now = Inr stmt \<and>
    build_dsse_receipt C stmt priv nonce = Inr r \<and>
    emit_mesh_receipt_from_dsse C E r cx \<lparr>sg_private_key = Some priv_pem, sg_organ = organ, sg_keyid = keyid\<rparr> = Inr signed \<and>
    jget signed ''signed'' = Some (JBool True) \<and>
    verify_mesh_receipt E signed (Some pub_pem) (Some stmt) cx = Inr (True, ''ok'') \<and>
    emit_mesh_receipt_from_dsse C E r cx \<lparr>sg_private_key = None, sg_organ = organ, sg_keyid = keyid\<rparr> = Inr unsigned \<and>
    jget unsigned ''signed'' = Some (JBool False) \<and>
    (\<forall>key s cx'. verify_mesh_receipt E unsigned key s cx' = Inr (False, ''unsigned-honest''))"
proof -
  let ?stmt = "statement_of doc_id (sha256_hex C raw) fh th n cls (strftime now)"
  have "is_ascii n" "is_ascii (sha256_hex C raw)"
    using crypto_okD(6) [OF assms(1)] assms(12) by (simp_all add: node_id_from_pubkey_def)
  then have wf: "jwf ?stmt" by (intro statement_wf) (use assms in simp_all)
  have depth: "jdepth ?stmt \<le> json_depth C" using statement_depth assms(6) by (rule order_trans)
  have node: "jget ?stmt ''node_id'' = Some (JStr (node_id_from_pubkey C (public_key C priv)))"
    using assms(12) by simp
  from build_dsse_signed [OF _ _ wf depth node] crypto_okD(1,4) [OF assms(1)] obtain r where
    r: "build_dsse_receipt C ?stmt priv nonce = Inr r" and
    "signed_by C PAYLOAD_TYPE r (json_dumps True ?stmt) (jsort ?stmt) (spki_der C (public_key C priv)) (public_key C priv)"
    by blast
  then have "b64_field r ''payload'' (json_dumps True ?stmt)" by (simp add: signed_by_def)
  then have "decode_statement C r = Inr (jsort ?stmt)"
    unfolding decode_statement_def b64_field_def jkey_def
    by (auto simp: loads_bytes_dumps [OF wf depth] simp del: jsort.simps)
  note emission = honest_emission [OF assms(1-5) wf assms(7) this]
  have "build_state_transition_statement doc_id (sha256_hex C raw) fh th n cls None now = Inr ?stmt"
    using assms(10) by (simp add: build_state_transition_statement_def utc_now_iso_def)
  with r emission show ?thesis by blast
qed

definition sample_context :: context_args where
  "sample_context =
     \<lparr>cx_policy_id = ''policy-a'', cx_quorum_id = Some ''quorum-a'', cx_witnesses = Some [JBool True]\<rparr>"

lemma sample_context_ok: "context_ok 9 sample_context"
  by (simp add: sample_context_def witness_list_def ascii_utf8_valid)

theorem spine_round_trip_witness:
  "\<exists>stmt r signed unsigned.
    build_state_transition_statement ''doc'' (to_hex ''x'') [] [''ab''] (to_hex ''k'') ''COMMAND'' None sample_time = Inr stmt \<and>
    build_dsse_receipt toy_crypto stmt ''k'' [] = Inr r \<and>
    emit_mesh_receipt_from_dsse toy_crypto toy_spine r sample_context
      \<lparr>sg_private_key = Some ''k'', sg_organ = DEFAULT_ORGAN, sg_keyid = []\<rparr> = Inr signed \<and>
    jget signed ''signed'' = Some (JBool True) \<and>
    verify_mesh_receipt toy_spine signed (Some ''k'') (Some stmt) sample_context = Inr (True, ''ok'') \<and>
    emit_mesh_receipt_from_dsse toy_crypto toy_spine r sample_context
      \<lparr>sg_private_key = None, sg_organ = DEFAULT_ORGAN, sg_keyid = []\<rparr> = Inr unsigned \<and>
    jget unsigned ''signed'' = Some (JBool False) \<and>
    (\<forall>key s cx'. verify_mesh_receipt toy_spine unsigned key s cx' = Inr (False, ''unsigned-honest''))"
proof -
  have env: "se_lib toy_spine = Some toy_lib" "se_depth toy_spine = 9" by (simp_all add: toy_spine_def)
  have C: "sha256_hex toy_crypto = to_hex" "3 \<le> json_depth toy_crypto"
    "to_hex ''k'' = node_id_from_pubkey toy_crypto (public_key toy_crypto ''k'')"
    by (simp_all add: toy_crypto_def node_id_from_pubkey_def)
  have cls: "''COMMAND'' \<in> set TRANSITION_CLASSES" by (simp add: TRANSITION_CLASSES_def)
  show ?thesis
    unfolding C(1) [symmetric]
    by (rule spine_round_trip [OF toy_crypto_ok toy_shared(1) toy_shared(2) [folded env(2)] env(1) _ C(2)
          sample_context_ok [folded env(2)] _ _ cls sample_time_valid C(3) [folded C(1)]])
      (simp_all add: env ascii_utf8_valid)
qed

lemma verify_rebinds:
  assumes "\<And>w. rebind_mesh_receipt E w s' cx = rebind_mesh_receipt E w s cx"
  shows "verify_mesh_receipt E env key (Some s') cx = verify_mesh_receipt E env key (Some s) cx"
  unfolding verify_mesh_receipt_def option.case assms ..

text \<open>The statement as the node built it and as the receipt carries it, with sorted keys.\<close>

theorem spine_receipt_binds_witness:
  "\<exists>env s. s \<noteq> jsort s \<and>
    verify_mesh_receipt toy_spine env (Some ''k'') (Some s) sample_context = Inr (True, ''ok'') \<and>
    verify_mesh_receipt toy_spine env (Some ''k'') (Some (jsort s)) sample_context = Inr (True, ''ok'') \<and>
    bound_fields s sample_context = bound_fields (jsort s) sample_context"
proof -
  let ?s = "statement_of ''doc'' (sha256_hex toy_crypto ''x'') [] [''ab''] (to_hex ''k'') ''COMMAND'' (strftime sample_time)"
  let ?r = "JObj [(''payload'', JStr (b64url_encode (json_dumps True ?s)))]"
  have env: "se_lib toy_spine = Some toy_lib" "se_depth toy_spine = 9" by (simp_all add: toy_spine_def)
  have C: "sha256_hex toy_crypto = to_hex" "json_depth toy_crypto = 100" by (simp_all add: toy_crypto_def)
  have wf: "jwf ?s" by (rule statement_wf) (simp_all add: ascii_utf8_valid TRANSITION_CLASSES_def C to_hex_ascii)
  have "jdepth ?s \<le> json_depth toy_crypto" using statement_depth by (rule order_trans) (simp add: C)
  from loads_bytes_dumps [OF wf this] have dec: "decode_statement toy_crypto ?r = Inr (jsort ?s)"
    by (simp add: decode_statement_def jkey_def del: jsort.simps)
  from honest_emission(1) [OF toy_crypto_ok toy_shared(1) toy_shared(2) [folded env(2)] env(1) _ wf
      sample_context_ok [folded env(2)] dec] env(2)
  obtain e where e: "verify_mesh_receipt toy_spine e (Some ''k'') (Some ?s) sample_context = Inr (True, ''ok'')"
    by auto
  have "is_obj ?s" "is_obj (jsort ?s)" by simp_all
  with statement_sorted [OF wf] have "rebind_mesh_receipt toy_spine w (jsort ?s) sample_context =
      rebind_mesh_receipt toy_spine w ?s sample_context" for w
    by (simp only: rebind_mesh_receipt_def mesh_receipt_body_digest_def build_mesh_receipt_body_def
        transition_input_digest_def transition_output_digest_def)
  from verify_rebinds [OF this, of e "Some ''k''"] e
  have e': "verify_mesh_receipt toy_spine e (Some ''k'') (Some (jsort ?s)) sample_context = Inr (True, ''ok'')"
    by (rule trans)
  have "inj_on (sha256_hex toy_crypto) S" for S by (simp add: C inj_on_def)
  from spine_receipt_binds [OF env(1) toy_shared(1) e e' this]
  have "bound_fields ?s sample_context = bound_fields (jsort ?s) sample_context" by blast
  moreover have "?s \<noteq> jsort ?s" by simp
  ultimately show ?thesis using e e' by blast
qed

end
