(* ===== verification/Release.thy ===== *)
theory Release
  imports Strict Crypto JsonBytes
begin

text \<open>
  \<open>.github/scripts/szl_pypi_release_gate.py\<close>: the gate before a publication to PyPI. The build
  tools, the file system, the network and the parsers of archives and mail headers are a record of
  functions. \<open>sys.exit\<close> is the exception \<open>SystemExit\<close>; printing is left out.
\<close>

section \<open>Names and package lists\<close>

definition FORBIDDEN_TOP_LEVEL :: "string list" where
  "FORBIDDEN_TOP_LEVEL =
     [''tests'', ''test'', ''docs'', ''examples'', ''example'', ''scripts'', ''benchmarks'', ''build'', ''dist'',
      ''out'', ''data'', ''payload'', ''fixtures'']"

definition PRIVATE_CLASSIFIER :: string where "PRIVATE_CLASSIFIER = ''Private :: Do Not Upload''"

text \<open>\<open>re.sub(r"[-_.]+", "-", name)\<close>; the flag tells that a separator has just been replaced.\<close>

definition separator :: "char \<Rightarrow> bool" where
  "separator c \<longleftrightarrow> c = CHR ''-'' \<or> c = CHR ''_'' \<or> c = CHR ''.''"

fun squash :: "bool \<Rightarrow> string \<Rightarrow> string" where
  "squash prev [] = []"
| "squash prev (c # s) =
     (if separator c then (if prev then squash True s else CHR ''-'' # squash True s) else c # squash False s)"

definition norm :: "string \<Rightarrow> string" where
  "norm name = lower (squash False name)"

fun norm_json :: "json \<Rightarrow> exn + string" where
  "norm_json (JStr s) = Inr (norm s)"
| "norm_json _ = Inl TypeError"

fun split_on :: "char \<Rightarrow> string \<Rightarrow> string list" where
  "split_on c [] = [[]]"
| "split_on c (d # s) =
     (if d = c then [] # split_on c s
      else (case split_on c s of [] \<Rightarrow> [[d]] | w # ws \<Rightarrow> (d # w) # ws))"

definition partition_at :: "char \<Rightarrow> string \<Rightarrow> string \<times> string" where
  "partition_at c s = (takeWhile (\<lambda>d. d \<noteq> c) s, drop 1 (dropWhile (\<lambda>d. d \<noteq> c) s))"

record package =
  pk_name :: string
  pk_dir :: string
  pk_environment :: string

definition parse_package :: "string \<Rightarrow> package" where
  "parse_package item =
     (let (name, rest) = partition_at CHR ''='' item; (directory, env) = partition_at CHR '':'' rest in
      \<lparr>pk_name = strip name,
       pk_dir = strip (if directory = [] then ''.'' else directory),
       pk_environment = strip (if env = [] then ''pypi'' else env)\<rparr>)"

definition parse_packages :: "string \<Rightarrow> exn + package list" where
  "parse_packages spec =
     (let pkgs = map parse_package (filter (\<lambda>s. s \<noteq> []) (map strip (split_on CHR '';'' spec))) in
      if pkgs = [] then Inl SystemExit else Inr pkgs)"

section \<open>The tools\<close>

text \<open>What a request to PyPI gives: a body, an HTTP error, another failure.\<close>

datatype fetched = Body bytes | HttpStatus nat | NetworkError

text \<open>
  The parsed \<open>pyproject.toml\<close> of a directory, if there is one; the files that \<open>python -m build\<close>
  leaves in an empty staging directory; \<open>twine check\<close>; the members of a wheel; the headers of its
  metadata; PyPI's answer for a normalised name; the installation of the wheel in a fresh virtual
  environment with the version and import checks, given the package's name, the wheel, its version
  and the declared names; the environment.
\<close>

record tools =
  tl_pyproject :: "string \<Rightarrow> exn + json option"
  tl_build :: "string \<Rightarrow> exn + (string \<times> bytes) list"
  tl_twine :: "(string \<times> bytes) list \<Rightarrow> exn + unit"
  tl_unzip :: "bytes \<Rightarrow> exn + (string \<times> bytes) list"
  tl_headers :: "bytes \<Rightarrow> (string \<times> string) list"
  tl_pypi :: "string \<Rightarrow> fetched"
  tl_smoke :: "string \<Rightarrow> bytes \<Rightarrow> string option \<Rightarrow> json \<Rightarrow> exn + unit"
  tl_getenv :: "string \<Rightarrow> string option"
  tl_sha256 :: "bytes \<Rightarrow> string"
  tl_depth :: nat

text \<open>\<open>None\<close>: the list of releases could not be read.\<close>

definition pypi_versions :: "tools \<Rightarrow> string \<Rightarrow> string list option" where
  "pypi_versions T name =
     (case tl_pypi T (norm name) of
        Body b \<Rightarrow>
          (case loads_raw (tl_depth T) b of
             Inr v \<Rightarrow> (case jget v ''releases'' of Some (JObj kvs) \<Rightarrow> Some (map fst kvs) | _ \<Rightarrow> None)
           | Inl _ \<Rightarrow> None)
      | HttpStatus n \<Rightarrow> if n = 404 then Some [] else None
      | NetworkError \<Rightarrow> None)"

definition ends_with :: "string \<Rightarrow> string \<Rightarrow> bool" where
  "ends_with s suf \<longleftrightarrow> length suf \<le> length s \<and> drop (length s - length suf) s = suf"

definition top_of :: "string \<Rightarrow> string" where
  "top_of n = fst (partition_at CHR ''/'' n)"

record metadata =
  md_headers :: "(string \<times> string) list"
  md_top_level :: "string list"
  md_py_count :: nat

definition read_metadata :: "tools \<Rightarrow> bytes \<Rightarrow> exn + metadata" where
  "read_metadata T wheel =
     bindE (tl_unzip T wheel) (\<lambda>z.
     case filter (\<lambda>(n, b). ends_with n ''.dist-info/METADATA'') z of
       [] \<Rightarrow> Inl StopIteration
     | (n, _) # _ \<Rightarrow> Inr
         \<lparr>md_headers = tl_headers T (case map_of (rev z) n of None \<Rightarrow> [] | Some b \<Rightarrow> b),
          md_top_level = sort (remdups (filter (\<lambda>t. \<not> ends_with t ''.dist-info'') (map (top_of \<circ> fst) z))),
          md_py_count = length (filter (\<lambda>(n, b). ends_with n ''.py'') z)\<rparr>)"

text \<open>\<open>msg[name]\<close> and \<open>msg.get_all(name)\<close>: names of headers are compared without case.\<close>

definition header_all :: "(string \<times> string) list \<Rightarrow> string \<Rightarrow> string list" where
  "header_all hs name = map snd (filter (\<lambda>(n, v). lower n = lower name) hs)"

definition header :: "(string \<times> string) list \<Rightarrow> string \<Rightarrow> string option" where
  "header hs name = (case header_all hs name of [] \<Rightarrow> None | v # _ \<Rightarrow> Some v)"

section \<open>The gate of one package\<close>

record gate_args =
  ga_repo :: string
  ga_event :: string
  ga_ref_type :: string
  ga_ref_name :: string

record release_receipt =
  rr_package :: string
  rr_version :: "string option"
  rr_environment :: string
  rr_event :: string
  rr_ref :: string
  rr_repository :: string
  rr_source_sha :: "string option"
  rr_run_id :: "string option"
  rr_files :: "(string, string) dict"
  rr_top_level :: "string list"

definition fail_if :: "bool \<Rightarrow> exn + unit" where
  "fail_if b = (if b then Inl SystemExit else Inr ())"

text \<open>\<open>v or {}\<close>, and \<open>v.get(k)\<close> on a value that may not be a dictionary.\<close>

definition or_empty :: "json \<Rightarrow> json" where
  "or_empty v = (if truthy v then v else JObj [])"

definition attr_get :: "json \<Rightarrow> string \<Rightarrow> exn + json" where
  "attr_get v k = (if is_obj v then Inr (jget_or v k JNull) else Inl AttributeError)"

text \<open>\<open>x in v\<close> for a string.\<close>

fun py_in :: "string \<Rightarrow> json \<Rightarrow> exn + bool" where
  "py_in x (JList xs) = Inr (JStr x \<in> set xs)"
| "py_in x (JStr s) = Inr (str_in x s)"
| "py_in x (JObj kvs) = Inr (x \<in> fst ` set kvs)"
| "py_in x _ = Inl TypeError"

definition rstrip_slash :: "string \<Rightarrow> string" where
  "rstrip_slash s = rev (dropWhile (\<lambda>c. c = CHR ''/'') (rev s))"

fun first_truthy :: "json list \<Rightarrow> json" where
  "first_truthy [] = JNull"
| "first_truthy [v] = v"
| "first_truthy (v # w # vs) = (if truthy v then v else first_truthy (w # vs))"

definition source_url_ok :: "json \<Rightarrow> string \<Rightarrow> bool" where
  "source_url_ok url repo =
     (case url of JStr s \<Rightarrow> lower (rstrip_slash s) = lower (''https://github.com/'' @ repo) | _ \<Rightarrow> False)"

text \<open>The checks of \<open>pyproject.toml\<close>; the result is \<open>[tool.szl.release]\<close>.\<close>

definition check_pyproject :: "json \<Rightarrow> package \<Rightarrow> string \<Rightarrow> exn + json" where
  "check_pyproject pp pkg repo =
     (let project = or_empty (jget_or pp ''project'' JNull) in
      bindE (attr_get (or_empty (jget_or pp ''tool'' JNull)) ''szl'') (\<lambda>szl.
      bindE (attr_get (or_empty szl) ''release'') (\<lambda>release.
      bindE (if is_obj project then norm_json (jget_or project ''name'' (JStr [])) else Inl AttributeError) (\<lambda>name.
      bindE (fail_if (name \<noteq> norm (pk_name pkg))) (\<lambda>_.
      bindE (py_in PRIVATE_CLASSIFIER (let v = jget_or project ''classifiers'' JNull in if truthy v then v else JList [])) (\<lambda>private.
      bindE (fail_if private) (\<lambda>_.
      bindE (attr_get (or_empty (jget_or pp ''build-system'' JNull)) ''build-backend'') (\<lambda>backend.
      bindE (fail_if (\<not> truthy backend)) (\<lambda>_.
      bindE (fail_if (\<exists>k \<in> set [''description'', ''readme'', ''requires-python'']. \<not> truthy (jget_or project k JNull))) (\<lambda>_.
      bindE (fail_if (\<not> (truthy (jget_or project ''license'' JNull) \<or> truthy (jget_or project ''license-files'' JNull)))) (\<lambda>_.
      let urls = or_empty (jget_or project ''urls'' JNull) in
      bindE (attr_get urls ''Source'') (\<lambda>_.
      bindE (fail_if (\<not> source_url_ok
        (first_truthy (map (\<lambda>k. jget_or urls k JNull) [''Source'', ''Repository'', ''Source Code''])) repo)) (\<lambda>_.
      Inr (or_empty release))))))))))))))"

text \<open>\<open>f.suffix == ".whl"\<close>: the last dot of the name is not its first character.\<close>

definition is_wheel :: "string \<Rightarrow> bool" where
  "is_wheel n \<longleftrightarrow> ends_with n ''.whl'' \<and> 4 < length n"

definition is_sdist :: "string \<Rightarrow> bool" where
  "is_sdist n \<longleftrightarrow> ends_with n ''.tar.gz''"

definition version_text :: "string option \<Rightarrow> string" where
  "version_text v = (case v of None \<Rightarrow> ''None'' | Some s \<Rightarrow> s)"

text \<open>\<open>set(declared)\<close> and, for the message of a mismatch, \<open>sorted(declared)\<close>.\<close>

fun hash_ok :: "json \<Rightarrow> bool" where
  "hash_ok (JList _) = False"
| "hash_ok (JObj _) = False"
| "hash_ok _ = True"

fun declared_items :: "json \<Rightarrow> exn + json list" where
  "declared_items (JList xs) = (if \<forall>x \<in> set xs. hash_ok x then Inr xs else Inl TypeError)"
| "declared_items (JStr s) = Inr (map JStr (chars_of s))"
| "declared_items (JObj kvs) = Inr (map (JStr \<circ> fst) kvs)"
| "declared_items _ = Inl TypeError"

definition sortable :: "json list \<Rightarrow> bool" where
  "sortable xs \<longleftrightarrow> length xs \<le> 1 \<or> (\<forall>x \<in> set xs. is_str x) \<or> (\<forall>x \<in> set xs. json_num x \<noteq> None)"

definition module_of :: "string \<Rightarrow> string" where
  "module_of t = (if ends_with t ''.py'' then take (length t - 3) t else t)"

definition check_declared :: "json \<Rightarrow> string list \<Rightarrow> exn + unit" where
  "check_declared declared names =
     (if \<not> truthy declared then Inr ()
      else
        bindE (declared_items declared) (\<lambda>items.
        if set items = JStr ` module_of ` set names then Inr ()
        else if sortable items then Inl SystemExit else Inl TypeError))"

text \<open>The checks of the built wheel; the result is its version.\<close>

definition check_wheel :: "metadata \<Rightarrow> package \<Rightarrow> json \<Rightarrow> exn + string option \<times> json" where
  "check_wheel m pkg release_cfg =
     bindE (case header (md_headers m) ''Name'' of None \<Rightarrow> Inl TypeError | Some n \<Rightarrow> Inr (norm n)) (\<lambda>name.
     bindE (fail_if (name \<noteq> norm (pk_name pkg))) (\<lambda>_.
     bindE (fail_if (md_py_count m = 0)) (\<lambda>_.
     bindE (fail_if (set (md_top_level m) \<inter> set FORBIDDEN_TOP_LEVEL \<noteq> {})) (\<lambda>_.
     bindE (attr_get release_cfg ''import_names'') (\<lambda>declared.
     bindE (check_declared declared (md_top_level m)) (\<lambda>_.
     bindE (fail_if (header_all (md_headers m) ''Project-URL'' = [])) (\<lambda>_.
     Inr (header (md_headers m) ''Version'', declared))))))))"

definition expected_tags :: "package \<Rightarrow> string option \<Rightarrow> string list" where
  "expected_tags pkg version =
     [''v'' @ version_text version, norm (pk_name pkg) @ ''-v'' @ version_text version]"

text \<open>Tag binding and collision with PyPI.\<close>

definition check_release :: "tools \<Rightarrow> gate_args \<Rightarrow> package \<Rightarrow> string option \<Rightarrow> exn + unit" where
  "check_release T a pkg version =
     bindE (fail_if (ga_event a = ''release'' \<and> ga_ref_type a \<noteq> ''tag'')) (\<lambda>_.
     bindE (fail_if (ga_event a = ''release'' \<and> ga_ref_name a \<notin> set (expected_tags pkg version))) (\<lambda>_.
     (let existing = pypi_versions T (pk_name pkg) in
      bindE (fail_if (existing = None \<and> ga_event a = ''release'')) (\<lambda>_.
      fail_if ((case (existing, version) of (Some vs, Some v) \<Rightarrow> v \<in> set vs | _ \<Rightarrow> False) \<and> ga_event a = ''release'')))))"

definition gate_package :: "tools \<Rightarrow> gate_args \<Rightarrow> package \<Rightarrow> exn + release_receipt \<times> (string \<times> bytes) list" where
  "gate_package T a pkg =
     bindE (tl_pyproject T (pk_dir pkg)) (\<lambda>found.
     case found of
       None \<Rightarrow> Inl SystemExit
     | Some pp \<Rightarrow>
     bindE (check_pyproject pp pkg (ga_repo a)) (\<lambda>release_cfg.
     bindE (tl_build T (pk_dir pkg)) (\<lambda>built.
     let files = sort_key fst built; wheels = filter (is_wheel \<circ> fst) files; sdists = filter (is_sdist \<circ> fst) files in
     case (wheels, sdists) of
       ([(wheel, content)], [_]) \<Rightarrow>
         bindE (tl_twine T files) (\<lambda>_.
         bindE (read_metadata T content) (\<lambda>m.
         bindE (check_wheel m pkg release_cfg) (\<lambda>(version, declared).
         bindE (check_release T a pkg version) (\<lambda>_.
         bindE (tl_smoke T (pk_name pkg) content version declared) (\<lambda>_.
         Inr (\<lparr>rr_package = pk_name pkg, rr_version = version, rr_environment = pk_environment pkg,
                rr_event = ga_event a, rr_ref = ga_ref_type a @ '':'' @ ga_ref_name a, rr_repository = ga_repo a,
                rr_source_sha = tl_getenv T ''GITHUB_SHA'', rr_run_id = tl_getenv T ''GITHUB_RUN_ID'',
                rr_files = map (\<lambda>(n, b). (n, tl_sha256 T b)) files, rr_top_level = md_top_level m\<rparr>,
              files))))))
     | _ \<Rightarrow> Inl SystemExit)))"

section \<open>The script\<close>

text \<open>
  \<open>re.match(r"^(?P<name>.+?)-v(?P<ver>\d.*)$", ref)\<close>: the shortest non-empty name before a \<open>-v\<close>
  and a digit, no line break except one at the end.
\<close>

definition version_part :: "string \<Rightarrow> bool" where
  "version_part s \<longleftrightarrow>
     (case s of a # b # c # r \<Rightarrow> a = CHR ''-'' \<and> b = CHR ''v'' \<and> is_digit c \<and> CHR 0x0A \<notin> set (butlast r)
      | _ \<Rightarrow> False)"

fun tag_name :: "string \<Rightarrow> string \<Rightarrow> string option" where
  "tag_name pre [] = None"
| "tag_name pre (c # s) =
     (if pre \<noteq> [] \<and> version_part (c # s) then Some (rev pre)
      else if c = CHR 0x0A then None else tag_name (c # pre) s)"

definition select_packages :: "gate_args \<Rightarrow> package list \<Rightarrow> exn + package list" where
  "select_packages a pkgs =
     (if ga_event a \<noteq> ''release'' \<or> length pkgs = 1 then Inr pkgs
      else
        (case tag_name [] (ga_ref_name a) of
           None \<Rightarrow> Inl SystemExit
         | Some name \<Rightarrow>
             let selected = filter (\<lambda>p. norm (pk_name p) = norm name) pkgs in
             if length selected \<noteq> 1 then Inl SystemExit else Inr selected))"

text \<open>
  What a run leaves behind: the files of the output directory by subdirectory and name, the
  contents of \<open>release-gate.json\<close>, the outputs for the publish job, and how the script ends.
\<close>

record gate_run =
  go_dist :: "(string \<times> string, bytes) dict"
  go_receipts :: "release_receipt list option"
  go_output :: "(string \<times> string \<times> string) option"
  go_result :: "exn + unit"

definition copy_files :: "string \<Rightarrow> (string \<times> bytes) list \<Rightarrow> (string \<times> string, bytes) dict \<Rightarrow> (string \<times> string, bytes) dict" where
  "copy_files dir files out = fold (\<lambda>(n, b). put (dir, n) b) files out"

fun gate_all ::
  "tools \<Rightarrow> gate_args \<Rightarrow> package list \<Rightarrow> (string \<times> string, bytes) dict
    \<Rightarrow> (string \<times> string, bytes) dict \<times> (exn + release_receipt list)" where
  "gate_all T a [] out = (out, Inr [])"
| "gate_all T a (p # ps) out =
     (case gate_package T a p of
        Inl e \<Rightarrow> (out, Inl e)
      | Inr (r, files) \<Rightarrow>
          let dir = (if ga_event a = ''release'' then [] else norm (pk_name p));
              (out', res) = gate_all T a ps (copy_files dir files out) in
          (out', bindE res (\<lambda>rs. Inr (r # rs))))"

text \<open>\<open>GITHUB_OUTPUT\<close> may be unset; the last message adds strings to the versions.\<close>

definition gate_main :: "tools \<Rightarrow> gate_args \<Rightarrow> string \<Rightarrow> gate_run" where
  "gate_main T a spec =
     (case bindE (parse_packages spec) (select_packages a) of
        Inl e \<Rightarrow> \<lparr>go_dist = [], go_receipts = None, go_output = None, go_result = Inl e\<rparr>
      | Inr selected \<Rightarrow>
          (case gate_all T a selected [] of
             (out, Inl e) \<Rightarrow> \<lparr>go_dist = out, go_receipts = None, go_output = None, go_result = Inl e\<rparr>
           | (out, Inr rs) \<Rightarrow>
               \<lparr>go_dist = out, go_receipts = Some rs,
                go_output =
                  (if ga_event a = ''release'' \<and> tl_getenv T ''GITHUB_OUTPUT'' \<notin> {None, Some []}
                   then (case rs of [] \<Rightarrow> None
                         | r # _ \<Rightarrow> Some (rr_package r, version_text (rr_version r), rr_environment r))
                   else None),
                go_result = (if \<exists>r \<in> set rs. rr_version r = None then Inl TypeError else Inr ())\<rparr>))"


section \<open>What a release publishes\<close>

lemma fail_if_Inr [simp]: "fail_if b = Inr u \<longleftrightarrow> \<not> b"
  by (simp add: fail_if_def)

text \<open>The specification of a package that may be published: its project file, its files, its wheel.\<close>

definition publishable_project :: "json \<Rightarrow> package \<Rightarrow> string \<Rightarrow> bool" where
  "publishable_project pp pkg repo \<longleftrightarrow>
     (\<exists>project name. jget pp ''project'' = Some project \<and> jget_or project ''name'' (JStr []) = JStr name \<and>
        norm name = norm (pk_name pkg) \<and>
        (\<forall>k \<in> {''description'', ''readme'', ''requires-python''}. truthy (jget_or project k JNull)) \<and>
        (\<forall>xs. jget project ''classifiers'' = Some (JList xs) \<longrightarrow> JStr PRIVATE_CLASSIFIER \<notin> set xs) \<and>
        (\<exists>urls k url. jget project ''urls'' = Some urls \<and> k \<in> {''Source'', ''Repository'', ''Source Code''} \<and>
           jget urls k = Some (JStr url) \<and>
           lower (rstrip_slash url) = lower (''https://github.com/'' @ repo)))"

definition publishable_wheel :: "tools \<Rightarrow> package \<Rightarrow> bytes \<Rightarrow> string option \<Rightarrow> bool" where
  "publishable_wheel T pkg wheel version \<longleftrightarrow>
     (\<exists>m name. read_metadata T wheel = Inr m \<and> header (md_headers m) ''Name'' = Some name \<and>
        norm name = norm (pk_name pkg) \<and> 0 < md_py_count m \<and>
        set (md_top_level m) \<inter> set FORBIDDEN_TOP_LEVEL = {} \<and> version = header (md_headers m) ''Version'')"

definition publishable ::
  "tools \<Rightarrow> gate_args \<Rightarrow> package \<Rightarrow> string option \<Rightarrow> (string \<times> bytes) list \<Rightarrow> bool" where
  "publishable T a pkg version files \<longleftrightarrow>
     (\<exists>pp wheel content sdist built existing.
        tl_pyproject T (pk_dir pkg) = Inr (Some pp) \<and> publishable_project pp pkg (ga_repo a) \<and>
        tl_build T (pk_dir pkg) = Inr built \<and> mset files = mset built \<and>
        filter (is_wheel \<circ> fst) files = [(wheel, content)] \<and> filter (is_sdist \<circ> fst) files = [sdist] \<and>
        publishable_wheel T pkg content version \<and>
        ga_ref_type a = ''tag'' \<and> ga_ref_name a \<in> set (expected_tags pkg version) \<and>
        pypi_versions T (pk_name pkg) = Some existing \<and> version \<notin> Some ` set existing)"

lemma norm_json_Inr: "norm_json v = Inr n \<longleftrightarrow> (\<exists>s. v = JStr s \<and> n = norm s)"
  by (cases v) auto

lemma first_truthy_in: "first_truthy (v # vs) \<in> set (v # vs)"
  by (induction vs arbitrary: v) auto

lemma source_url_found:
  assumes "source_url_ok (first_truthy (map (\<lambda>k. jget_or urls k JNull) (k # ks))) repo"
  shows "\<exists>j url. j \<in> set (k # ks) \<and> jget urls j = Some (JStr url) \<and>
    lower (rstrip_slash url) = lower (''https://github.com/'' @ repo)"
proof -
  from assms obtain url where url: "first_truthy (map (\<lambda>k. jget_or urls k JNull) (k # ks)) = JStr url"
    and eq: "lower (rstrip_slash url) = lower (''https://github.com/'' @ repo)"
    by (auto simp only: source_url_ok_def split: json.splits)
  have "first_truthy (map (\<lambda>k. jget_or urls k JNull) (k # ks)) \<in> set (map (\<lambda>k. jget_or urls k JNull) (k # ks))"
    unfolding list.map by (rule first_truthy_in)
  then have "JStr url \<in> (\<lambda>k. jget_or urls k JNull) ` set (k # ks)" by (simp only: url set_map)
  then obtain j where "j \<in> set (k # ks)" "jget_or urls j JNull = JStr url" by (metis imageE)
  with eq show ?thesis by (auto simp: jget_or_def split: option.splits)
qed

lemma check_pyproject_sound:
  assumes "check_pyproject pp pkg repo = Inr cfg"
  shows "publishable_project pp pkg repo"
proof -
  define project where "project = or_empty (jget_or pp ''project'' JNull)"
  from assms have p: "\<exists>s. jget_or project ''name'' (JStr []) = JStr s \<and> norm s = norm (pk_name pkg)"
      "\<forall>k \<in> {''description'', ''readme'', ''requires-python''}. truthy (jget_or project k JNull)"
    and c: "py_in PRIVATE_CLASSIFIER (let v = jget_or project ''classifiers'' JNull in if truthy v then v else JList []) = Inr False"
    and u: "source_url_ok (first_truthy (map (\<lambda>k. jget_or (or_empty (jget_or project ''urls'' JNull)) k JNull)
        [''Source'', ''Repository'', ''Source Code''])) repo"
    by (auto simp: check_pyproject_def bindE_Inr_iff Let_def norm_json_Inr project_def [symmetric] split: if_splits)
  have "truthy (jget_or pp ''project'' JNull)"
    using p(2) by (auto simp: project_def or_empty_def jget_or_def split: if_splits)
  then have project: "jget pp ''project'' = Some project"
    by (simp add: project_def or_empty_def jget_or_def split: option.splits)
  have "JStr PRIVATE_CLASSIFIER \<notin> set xs" if "jget project ''classifiers'' = Some (JList xs)" for xs
    using c that by (cases "xs = []") (simp_all add: jget_or_def)
  moreover obtain k url where k: "k \<in> set [''Source'', ''Repository'', ''Source Code'']"
    "jget (or_empty (jget_or project ''urls'' JNull)) k = Some (JStr url)"
    "lower (rstrip_slash url) = lower (''https://github.com/'' @ repo)"
    using source_url_found [OF u] by blast
  moreover from k(2) obtain urls where "jget project ''urls'' = Some urls" "jget urls k = Some (JStr url)"
    by (auto simp: or_empty_def jget_or_def split: if_splits option.splits)
  ultimately show ?thesis
    using p project unfolding publishable_project_def by auto
qed

lemma check_wheel_sound:
  assumes "check_wheel m pkg cfg = Inr (version, declared)" "read_metadata T wheel = Inr m"
  shows "publishable_wheel T pkg wheel version"
  using assms by (auto simp: check_wheel_def publishable_wheel_def bindE_Inr_iff split: option.splits)

lemma check_release_sound:
  assumes "check_release T a pkg version = Inr ()" "ga_event a = ''release''"
  shows "ga_ref_type a = ''tag'' \<and> ga_ref_name a \<in> set (expected_tags pkg version) \<and>
    (\<exists>existing. pypi_versions T (pk_name pkg) = Some existing \<and> version \<notin> Some ` set existing)"
  using assms by (auto simp: check_release_def bindE_Inr_iff Let_def split: option.splits)

lemma gate_package_sound:
  assumes "gate_package T a pkg = Inr (r, files)" "ga_event a = ''release''"
  shows "publishable T a pkg (rr_version r) files \<and> rr_package r = pk_name pkg \<and>
    rr_environment r = pk_environment pkg \<and> rr_files r = map (\<lambda>(n, b). (n, tl_sha256 T b)) files"
proof -
  from assms(1) obtain pp cfg built where pp: "tl_pyproject T (pk_dir pkg) = Inr (Some pp)"
      "check_pyproject pp pkg (ga_repo a) = Inr cfg" "tl_build T (pk_dir pkg) = Inr built"
    by (auto simp: gate_package_def bindE_Inr_iff split: option.splits)
  define fs where "fs = sort_key fst built"
  from assms(1) pp obtain wheel content sdist where w: "filter (is_wheel \<circ> fst) fs = [(wheel, content)]"
      "filter (is_sdist \<circ> fst) fs = [sdist]"
    by (auto simp: gate_package_def Let_def fs_def [symmetric] split: list.splits)
  from assms(1) pp w obtain m version declared where
    m: "read_metadata T content = Inr m" "check_wheel m pkg cfg = Inr (version, declared)"
      "check_release T a pkg version = Inr ()" and r: "rr_version r = version" "rr_package r = pk_name pkg"
      "rr_environment r = pk_environment pkg" "rr_files r = map (\<lambda>(n, b). (n, tl_sha256 T b)) fs" "files = fs"
    by (auto simp: gate_package_def Let_def fs_def [symmetric] bindE_Inr_iff)
  from check_release_sound [OF m(3) assms(2)] obtain existing where
    "ga_ref_type a = ''tag''" "ga_ref_name a \<in> set (expected_tags pkg version)"
    "pypi_versions T (pk_name pkg) = Some existing" "version \<notin> Some ` set existing" by blast
  moreover have "mset fs = mset built" by (simp add: fs_def)
  ultimately have "publishable T a pkg version fs"
    unfolding publishable_def using pp(1,3) check_pyproject_sound [OF pp(2)] check_wheel_sound [OF m(2,1)] w
    by blast
  with r show ?thesis by simp
qed

section \<open>Properties\<close>

lemma select_release:
  assumes "select_packages a pkgs = Inr selected" "ga_event a = ''release''"
  obtains p where "selected = [p]" "p \<in> set pkgs"
    "length pkgs = 1 \<or> (\<exists>name. tag_name [] (ga_ref_name a) = Some name \<and> norm name = norm (pk_name p))"
proof (cases "length pkgs = 1")
  case True
  with assms that show thesis by (auto simp: select_packages_def length_Suc_conv)
next
  case False
  with assms obtain name where name: "tag_name [] (ga_ref_name a) = Some name"
    "selected = filter (\<lambda>p. norm (pk_name p) = norm name) pkgs" "length selected = 1"
    by (auto simp: select_packages_def Let_def split: option.splits if_splits)
  then obtain p where p: "selected = [p]" by (auto simp: length_Suc_conv)
  then have "p \<in> set pkgs" "norm (pk_name p) = norm name"
    using name(2) by (metis (mono_tags, lifting) filter_eq_Cons_iff in_set_conv_decomp)+
  with p name(1) that show thesis by auto
qed

text \<open>
  C16: Nothing is published that the gate did not admit. If a run for a release leaves a file in the
  output directory, or an output for the publish job, then it selected exactly one declared package,
  in a repository of several packages the one that the tag names; the ref is a tag and is the
  version of the built wheel; PyPI's releases could be read and do not contain this version; the
  project file and the wheel carry the package's name and no forbidden directory; and the directory
  holds the files of that build, with one wheel and one source distribution.
\<close>

theorem release_gate_sound:
  assumes "ga_event a = ''release''"
    and "go_dist (gate_main T a spec) \<noteq> [] \<or> go_output (gate_main T a spec) \<noteq> None"
  shows "\<exists>pkgs pkg version files. parse_packages spec = Inr pkgs \<and> pkg \<in> set pkgs \<and>
    publishable T a pkg version files \<and>
    (length pkgs = 1 \<or> (\<exists>name. tag_name [] (ga_ref_name a) = Some name \<and> norm name = norm (pk_name pkg))) \<and>
    go_dist (gate_main T a spec) = copy_files [] files [] \<and>
    go_output (gate_main T a spec) \<in> {None, Some (pk_name pkg, version_text version, pk_environment pkg)}"
proof -
  obtain selected where sel: "bindE (parse_packages spec) (select_packages a) = Inr selected"
    using assms(2) by (cases "bindE (parse_packages spec) (select_packages a)") (simp_all add: gate_main_def)
  then obtain pkgs where pkgs: "parse_packages spec = Inr pkgs" "select_packages a pkgs = Inr selected"
    by (auto simp: bindE_Inr_iff)
  obtain p where p: "selected = [p]" "p \<in> set pkgs"
    "length pkgs = 1 \<or> (\<exists>name. tag_name [] (ga_ref_name a) = Some name \<and> norm name = norm (pk_name p))"
    by (rule select_release [OF pkgs(2) assms(1)])
  obtain r files where g: "gate_package T a p = Inr (r, files)"
    using assms(2) sel p(1) by (cases "gate_package T a p") (auto simp: gate_main_def)
  note sound = gate_package_sound [OF g assms(1)]
  have "go_dist (gate_main T a spec) = copy_files [] files []"
    "go_output (gate_main T a spec) \<in> {None, Some (pk_name p, version_text (rr_version r), pk_environment p)}"
    using sel p(1) g assms(1) sound by (simp_all add: gate_main_def)
  with pkgs(1) p(2,3) sound show ?thesis by blast
qed

definition sample_project :: json where
  "sample_project = JObj
     [(''project'', JObj
        [(''name'', JStr ''a_b''), (''description'', JStr ''d''), (''readme'', JStr ''r''), (''requires-python'', JStr ''3''),
         (''license'', JStr ''l''), (''urls'', JObj [(''Source'', JStr ''https://github.com/o/r/'')])]),
      (''build-system'', JObj [(''build-backend'', JStr ''b'')])]"

definition sample_tools :: tools where
  "sample_tools =
     \<lparr>tl_pyproject = (\<lambda>dir. Inr (Some sample_project)),
      tl_build = (\<lambda>dir. Inr [(''a_b.tar.gz'', ''s''), (''a_b.whl'', ''w'')]),
      tl_twine = (\<lambda>files. Inr ()),
      tl_unzip = (\<lambda>b. Inr [(''a_b/m.py'', ''c''), (''a_b.dist-info/METADATA'', ''h'')]),
      tl_headers = (\<lambda>b. [(''Name'', ''a_b''), (''Version'', ''1.0''), (''Project-URL'', ''u'')]),
      tl_pypi = (\<lambda>name. HttpStatus 404),
      tl_smoke = (\<lambda>name wheel version declared. Inr ()),
      tl_getenv = (\<lambda>k. if k = ''GITHUB_OUTPUT'' then Some ''o'' else None),
      tl_sha256 = to_hex, tl_depth = 9\<rparr>"

definition sample_gate :: gate_args where
  "sample_gate = \<lparr>ga_repo = ''o/r'', ga_event = ''release'', ga_ref_type = ''tag'', ga_ref_name = ''a-b-v1.0''\<rparr>"

lemma sample_packages:
  "parse_packages ''A.B=.'' = Inr [\<lparr>pk_name = ''A.B'', pk_dir = ''.'', pk_environment = ''pypi''\<rparr>]"
  by (simp add: parse_packages_def parse_package_def partition_at_def Let_def strip_printable printable_def)

lemma sample_gated:
  "(case gate_package sample_tools sample_gate \<lparr>pk_name = ''A.B'', pk_dir = ''.'', pk_environment = ''pypi''\<rparr> of
      Inl e \<Rightarrow> False | Inr (r, files) \<Rightarrow> rr_version r = Some ''1.0'' \<and> length files = 2)"
  by code_simp

theorem release_gate_sound_witness:
  "go_output (gate_main sample_tools sample_gate ''A.B=.'') = Some (''A.B'', ''1.0'', ''pypi'') \<and>
   (\<exists>pkg version files. publishable sample_tools sample_gate pkg version files)"
proof -
  obtain r files where g: "gate_package sample_tools sample_gate \<lparr>pk_name = ''A.B'', pk_dir = ''.'', pk_environment = ''pypi''\<rparr>
      = Inr (r, files)" "rr_version r = Some ''1.0''"
    using sample_gated by (simp split: sum.splits prod.splits)
  have event: "ga_event sample_gate = ''release''" by (simp add: sample_gate_def)
  have out: "go_output (gate_main sample_tools sample_gate ''A.B=.'') = Some (''A.B'', ''1.0'', ''pypi'')"
    using g gate_package_sound [OF g(1) event] event
    by (simp add: gate_main_def sample_packages select_packages_def version_text_def) (simp add: sample_tools_def)
  with release_gate_sound [OF event, of sample_tools "''A.B=.''"] show ?thesis by auto
qed

end
