(* ===== verification/Lab.thy ===== *)
theory Lab
  imports Crdt Strict
begin

text \<open>
  \<open>lab/simulator.py\<close> and the encoder and bounds of \<open>lab/config.py\<close>: the bounded convergence
  scenarios over the operation log of \<open>Crdt\<close>. The messages of errors are left
  out.
\<close>

section \<open>Bounds\<close>

definition MAX_REPLICAS :: int where "MAX_REPLICAS = 8"
definition MAX_OPERATIONS :: nat where "MAX_OPERATIONS = 64"
definition MAX_KEY_BYTES :: nat where "MAX_KEY_BYTES = 128"
definition MAX_VALUE_BYTES :: nat where "MAX_VALUE_BYTES = 4096"
definition MAX_DOC_ID_BYTES :: nat where "MAX_DOC_ID_BYTES = 96"
definition MAX_NODE_ID_BYTES :: nat where "MAX_NODE_ID_BYTES = 64"
definition MAX_LAMPORT :: int where "MAX_LAMPORT = 2147483647"

section \<open>Normalizing a scenario\<close>

definition bounded_text :: "json \<Rightarrow> nat \<Rightarrow> exn + string" where
  "bounded_text v maximum =
     (case v of
        JStr s \<Rightarrow>
          if s \<noteq> strip s \<or> s = [] then Inl SimulationError
          else if maximum < length s then Inl SimulationError
          else if \<exists>c \<in> set s. ord c < 32 then Inl SimulationError
          else Inr s
      | _ \<Rightarrow> Inl SimulationError)"

definition row_keys :: "string list" where
  "row_keys = [''node_id'', ''key'', ''value'', ''lamport'', ''deletion'', ''track'', ''origin'']"

definition unknown_keys :: "(string \<times> json) list \<Rightarrow> string list \<Rightarrow> bool" where
  "unknown_keys row_fields known \<longleftrightarrow> (\<exists>(k, v) \<in> set row_fields. k \<notin> set known)"

text \<open>A list or an object cannot be looked up in the set of tracks.\<close>

fun track_of :: "json \<Rightarrow> exn + string" where
  "track_of (JStr t) = (if t \<in> {AUTHORIZED, OBSERVED, REVOKED} then Inr t else Inl SimulationError)"
| "track_of (JList xs) = Inl TypeError"
| "track_of (JObj kvs) = Inl TypeError"
| "track_of _ = Inl SimulationError"

fun bounded_int :: "int \<Rightarrow> int \<Rightarrow> json \<Rightarrow> exn + int" where
  "bounded_int lo hi (JInt n) = (if lo \<le> n \<and> n \<le> hi then Inr n else Inl SimulationError)"
| "bounded_int lo hi _ = Inl SimulationError"

fun json_bool :: "json \<Rightarrow> exn + bool" where
  "json_bool (JBool b) = Inr b"
| "json_bool _ = Inl SimulationError"

text \<open>
  The canonical bytes of a value. The encoder's \<open>ValueError\<close> becomes a \<open>SimulationError\<close>; its
  \<open>RecursionError\<close> on a value that is nested too deeply is not caught. (All other encodings of the
  simulator are of values that have passed this one and have been copied.)
\<close>

definition finite_bytes :: "('k, 's) crypto \<Rightarrow> json \<Rightarrow> exn + bytes" where
  "finite_bytes C v =
     (if \<not> encodes C v then Inl RecursionError
      else (case strict_dumps v of Inl _ \<Rightarrow> Inl SimulationError | Inr b \<Rightarrow> Inr b))"

definition norm_row :: "('k, 's) crypto \<Rightarrow> string \<Rightarrow> nat \<Rightarrow> nat \<Rightarrow> json \<Rightarrow> exn + nat \<times> op" where
  "norm_row C doc_id replicas index row =
     (case row of
        JObj row_fields \<Rightarrow>
          if unknown_keys row_fields row_keys then Inl SimulationError
          else
            bindE (bounded_text (jget_or row ''node_id'' JNull) MAX_NODE_ID_BYTES) (\<lambda>node_id.
            if \<not> ident_shape ''._:-'' 63 node_id then Inl SimulationError
            else
              bindE (bounded_text (jget_or row ''key'' JNull) MAX_KEY_BYTES) (\<lambda>key.
              bindE (bounded_int 0 MAX_LAMPORT (jget_or row ''lamport'' JNull)) (\<lambda>lamport.
              bindE (json_bool (jget_or row ''deletion'' (JBool False))) (\<lambda>deletion.
              bindE (track_of (jget_or row ''track'' (JStr OBSERVED))) (\<lambda>track.
              bindE (bounded_int 0 (int replicas - 1) (jget_or row ''origin'' (JInt (int (index mod replicas))))) (\<lambda>origin.
              let val = jget_or row ''value'' JNull in
              bindE (finite_bytes C val) (\<lambda>value_bytes.
              if MAX_VALUE_BYTES < length value_bytes then Inl SimulationError
              else
                bindE (make_op C doc_id key val lamport node_id deletion track) (\<lambda>x.
                Inr (nat origin, x)))))))))
      | _ \<Rightarrow> Inl SimulationError)"

text \<open>The loop keeps what was delivered, the first operation of each identity and the number of repetitions.\<close>

type_synonym norm_state = "(nat \<times> op) list \<times> (string, op) dict \<times> nat"

definition file_op :: "('k, 's) crypto \<Rightarrow> nat \<times> op \<Rightarrow> norm_state \<Rightarrow> exn + norm_state" where
  "file_op C row state =
     (case (row, state) of ((origin, x), (delivered, unique, duplicates)) \<Rightarrow>
        (case map_of unique (op_id C x) of
           Some prior \<Rightarrow>
             if op_track prior \<noteq> op_track x then Inl SimulationError
             else Inr (delivered @ [(origin, x)], unique, duplicates + 1)
         | None \<Rightarrow> Inr (delivered @ [(origin, x)], put (op_id C x) x unique, duplicates)))"

fun norm_loop :: "('k, 's) crypto \<Rightarrow> string \<Rightarrow> nat \<Rightarrow> nat \<Rightarrow> json list \<Rightarrow> norm_state \<Rightarrow> exn + norm_state" where
  "norm_loop C doc_id replicas index [] state = Inr state"
| "norm_loop C doc_id replicas index (row # rows) state =
     bindE (norm_row C doc_id replicas index row) (\<lambda>x.
     bindE (file_op C x state) (\<lambda>state.
     norm_loop C doc_id replicas (index + 1) rows state))"

definition normalize_operations ::
  "('k, 's) crypto \<Rightarrow> string \<Rightarrow> nat \<Rightarrow> json list \<Rightarrow> exn + (nat \<times> op) list \<times> op list \<times> nat" where
  "normalize_operations C doc_id replicas operations =
     (if \<not> (1 \<le> length operations \<and> length operations \<le> MAX_OPERATIONS) then Inl SimulationError
      else
        bindE (norm_loop C doc_id replicas 0 operations ([], [], 0)) (\<lambda>(delivered, unique, duplicates).
        Inr (delivered, map snd (sort_key fst unique), duplicates)))"

section \<open>Running a scenario\<close>

fun raising :: "(exn + 'a) \<times> crdt \<Rightarrow> exn + 'a \<times> crdt" where
  "raising (Inl e, d) = Inl e"
| "raising (Inr x, d) = Inr (x, d)"

definition lab_document :: "('k, 's) crypto \<Rightarrow> string \<Rightarrow> op list \<Rightarrow> exn + crdt" where
  "lab_document C doc_id operations =
     bindE (raising (merge_ops C operations (new_document doc_id))) (\<lambda>(_, d). Inr d)"

definition snapshot :: "('k, 's) crypto \<Rightarrow> string \<Rightarrow> crdt \<Rightarrow> json" where
  "snapshot C name d = JObj
     [(''replica'', JStr name), (''operation_count'', JInt (int (doc_length d))), (''heads'', JList (map JStr (heads C d))),
      (''authorized_view'', JObj (authorized_view C d)), (''observed_view'', JObj (observed_view C d)),
      (''authorized_digest'', JStr (state_digest C AUTHORIZED d)), (''observed_digest'', JStr (state_digest C OBSERVED d))]"

text \<open>The delivery order of a replica: given, reversed, rotated, or by a key.\<close>

definition order_for_replica :: "('k, 's) crypto \<Rightarrow> op list \<Rightarrow> nat \<Rightarrow> op list" where
  "order_for_replica C values index =
     (if values = [] then values
      else
        let strategy = index mod 4 in
        if strategy = 0 then values
        else if strategy = 1 then rev values
        else if strategy = 2 then let offset = index mod length values in drop offset values @ take offset values
        else sort_key (\<lambda>x. (op_key x, - op_lamport x, op_node_id x, op_id C x)) values)"

text \<open>\<open>a.merge(b)\<close> on a document built from operations.\<close>

definition merged :: "('k, 's) crypto \<Rightarrow> crdt \<Rightarrow> crdt \<Rightarrow> exn + crdt" where
  "merged C other d = bindE (raising (merge_doc C other d)) (\<lambda>(_, d). Inr d)"

definition same_snapshot :: "('k, 's) crypto \<Rightarrow> crdt \<Rightarrow> crdt \<Rightarrow> bool" where
  "same_snapshot C d e = json_eq (snapshot C ''x'' d) (snapshot C ''x'' e)"

definition commutativity_check :: "('k, 's) crypto \<Rightarrow> string \<Rightarrow> op list \<Rightarrow> exn + bool" where
  "commutativity_check C doc_id operations =
     bindE (lab_document C doc_id (stride 0 2 operations)) (\<lambda>left.
     bindE (lab_document C doc_id (stride 1 2 operations)) (\<lambda>right.
     bindE (lab_document C doc_id (all_ops left)) (\<lambda>ab.
     bindE (merged C right ab) (\<lambda>ab.
     bindE (lab_document C doc_id (all_ops right)) (\<lambda>ba.
     bindE (merged C left ba) (\<lambda>ba.
     Inr (same_snapshot C ab ba)))))))"

definition associativity_check :: "('k, 's) crypto \<Rightarrow> string \<Rightarrow> op list \<Rightarrow> exn + bool" where
  "associativity_check C doc_id operations =
     bindE (lab_document C doc_id (stride 0 3 operations)) (\<lambda>a.
     bindE (lab_document C doc_id (stride 1 3 operations)) (\<lambda>b.
     bindE (lab_document C doc_id (stride 2 3 operations)) (\<lambda>c.
     bindE (lab_document C doc_id (all_ops a)) (\<lambda>left.
     bindE (merged C b left) (\<lambda>left.
     bindE (merged C c left) (\<lambda>left.
     bindE (lab_document C doc_id (all_ops b)) (\<lambda>bc.
     bindE (merged C c bc) (\<lambda>bc.
     bindE (lab_document C doc_id (all_ops a)) (\<lambda>right.
     bindE (merged C bc right) (\<lambda>right.
     Inr (same_snapshot C left right)))))))))))"

definition put_partition :: "nat \<Rightarrow> crdt \<Rightarrow> crdt list \<Rightarrow> crdt list" where
  "put_partition origin d partitions = partitions[origin := d]"

fun deliver_ops :: "('k, 's) crypto \<Rightarrow> (nat \<times> op) list \<Rightarrow> crdt list \<Rightarrow> exn + crdt list" where
  "deliver_ops C [] partitions = Inr partitions"
| "deliver_ops C ((origin, x) # rest) partitions =
     bindE (raising (add_op C x (partitions ! origin))) (\<lambda>(_, d). deliver_ops C rest (put_partition origin d partitions))"

definition snapshots :: "('k, 's) crypto \<Rightarrow> crdt list \<Rightarrow> json list" where
  "snapshots C ds = map (\<lambda>(i, d). snapshot C (''replica-'' @ nat_str (i + 1)) d) (enumerate 0 ds)"

definition replica_digests :: "('k, 's) crypto \<Rightarrow> crdt \<Rightarrow> string \<times> string \<times> string list" where
  "replica_digests C d = (state_digest C AUTHORIZED d, state_digest C OBSERVED d, heads C d)"

text \<open>One reconciled replica, and whether replaying every operation left it unchanged.\<close>

definition reconcile :: "('k, 's) crypto \<Rightarrow> string \<Rightarrow> op list \<Rightarrow> nat \<Rightarrow> exn + crdt \<times> bool" where
  "reconcile C doc_id unique index =
     bindE (lab_document C doc_id (order_for_replica C unique index)) (\<lambda>d.
     bindE (raising (merge_ops C unique d)) (\<lambda>(replay_additions, d').
     Inr (d', replay_additions = 0 \<and> replica_digests C d = replica_digests C d')))"

definition replicas_converged :: "('k, 's) crypto \<Rightarrow> crdt list \<Rightarrow> bool" where
  "replicas_converged C ds \<longleftrightarrow>
     length (remdups (map (state_digest C OBSERVED) ds)) = 1 \<and>
     length (remdups (map (state_digest C AUTHORIZED) ds)) = 1 \<and>
     length (remdups (map (heads C) ds)) = 1"

definition checks_json :: "bool \<Rightarrow> bool \<Rightarrow> bool \<Rightarrow> bool \<Rightarrow> json" where
  "checks_json convergence idempotence commutativity associativity = JObj
     [(''same_operation_set_converged'', JBool convergence), (''replay_idempotent'', JBool idempotence),
      (''sample_merge_commutative'', JBool commutativity), (''sample_merge_associative'', JBool associativity)]"

definition evidence_boundary :: json where
  "evidence_boundary = JObj
     [(''scenario_bounded'', JBool True), (''same_operation_set_required'', JBool True), (''transport_exercised'', JBool False),
      (''peer_enrollment_exercised'', JBool False), (''dsse_signatures_verified'', JBool False),
      (''byzantine_fault_tolerance_claimed'', JBool False), (''tracks_are_scenario_inputs'', JBool True),
      (''network_or_repository_mutation'', JBool False)]"

definition scenario_result ::
  "('k, 's) crypto \<Rightarrow> string \<Rightarrow> int \<Rightarrow> nat \<Rightarrow> op list \<Rightarrow> nat \<Rightarrow> json list \<Rightarrow> crdt list \<Rightarrow> bool \<Rightarrow> bool \<Rightarrow> bool \<Rightarrow>
   (string \<times> json) list" where
  "scenario_result C doc_id replicas delivered unique duplicates initial final idempotence commutativity associativity =
     [(''schema'', JStr ''szl.mesh-convergence-lab/v1''),
      (''status'', JStr (if replicas_converged C final \<and> idempotence \<and> commutativity \<and> associativity then ''CONVERGED'' else ''DIVERGED'')),
      (''doc_id'', JStr doc_id), (''replica_count'', JInt replicas), (''input_operation_count'', JInt (int delivered)),
      (''unique_operation_count'', JInt (int (length unique))), (''duplicate_input_count'', JInt (int duplicates)),
      (''operation_ids'', JList (map (\<lambda>x. JStr (op_id C x)) unique)), (''initial_partitions'', JList initial),
      (''reconciled_replicas'', JList (snapshots C final)),
      (''checks'', checks_json (replicas_converged C final) idempotence commutativity associativity),
      (''evidence_boundary'', evidence_boundary)]"

definition run_scenario ::
  "('k, 's) crypto \<Rightarrow> string \<Rightarrow> int \<Rightarrow> (nat \<times> op) list \<Rightarrow> op list \<Rightarrow> nat \<Rightarrow> exn + json" where
  "run_scenario C doc_id replicas delivered unique duplicates =
     bindE (deliver_ops C delivered (replicate (nat replicas) (new_document doc_id))) (\<lambda>partitions.
     bindE (mapE (reconcile C doc_id unique) [0..<nat replicas]) (\<lambda>final.
     bindE (commutativity_check C doc_id unique) (\<lambda>commutativity.
     bindE (associativity_check C doc_id unique) (\<lambda>associativity.
     let result = scenario_result C doc_id replicas (length delivered) unique duplicates (snapshots C partitions)
           (map fst final) (list_all snd final) commutativity associativity in
     bindE (strict_dumps (JObj result)) (\<lambda>b.
     Inr (JObj (result @ [(''receipt_sha256'', JStr (sha256_hex C b))])))))))"

fun json_list :: "json \<Rightarrow> exn + json list" where
  "json_list (JList xs) = Inr xs"
| "json_list _ = Inl SimulationError"

definition simulate_scenario :: "('k, 's) crypto \<Rightarrow> json \<Rightarrow> exn + json" where
  "simulate_scenario C scenario =
     (case scenario of
        JObj kvs \<Rightarrow>
          if unknown_keys kvs [''doc_id'', ''replicas'', ''operations''] then Inl SimulationError
          else
            bindE (bounded_text (jget_or scenario ''doc_id'' JNull) MAX_DOC_ID_BYTES) (\<lambda>doc_id.
            if \<not> ident_shape ''._:-'' 95 doc_id then Inl SimulationError
            else
              bindE (bounded_int 2 MAX_REPLICAS (jget_or scenario ''replicas'' JNull)) (\<lambda>replicas.
              bindE (json_list (jget_or scenario ''operations'' JNull)) (\<lambda>operations.
              bindE (normalize_operations C doc_id (nat replicas) operations) (\<lambda>(delivered, unique, duplicates).
              run_scenario C doc_id replicas delivered unique duplicates))))
      | _ \<Rightarrow> Inl SimulationError)"

section \<open>Normalized operations\<close>

definition norm_ok :: "('k, 's) crypto \<Rightarrow> string \<Rightarrow> nat \<Rightarrow> norm_state \<Rightarrow> bool" where
  "norm_ok C doc_id replicas state \<longleftrightarrow>
     (case state of (delivered, unique, duplicates) \<Rightarrow>
        (\<forall>(i, x) \<in> set delivered. i < replicas \<and> op_doc_id x = doc_id \<and> finite_json (op_value x)) \<and> dict_ok unique \<and>
        (\<forall>(k, x) \<in> set unique. k = op_id C x \<and> op_doc_id x = doc_id \<and> finite_json (op_value x) \<and> keys_ok (op_value x)) \<and>
        length delivered = length unique + duplicates)"

lemma finite_bytes_iff: "finite_bytes C v = Inr b \<longleftrightarrow> encodes C v \<and> finite_json v \<and> b = json_dumps False v"
  by (auto simp: finite_bytes_def strict_dumps_def)

lemma norm_row_op:
  assumes "norm_row C doc_id replicas index row = Inr (i, x)"
  shows "\<exists>w n. bounded_int 0 (int replicas - 1) w = Inr n \<and> i = nat n \<and> op_doc_id x = doc_id \<and>
    op_value x = jget_or row ''value'' JNull \<and> finite_json (op_value x)"
proof -
  let ?P = "\<lambda>(i, x). \<exists>w n. bounded_int 0 (int replicas - 1) w = Inr n \<and> i = nat n \<and> op_doc_id x = doc_id \<and>
    op_value x = jget_or row ''value'' JNull \<and> finite_json (op_value x)"
  have "retE ?P (norm_row C doc_id replicas index row)"
  proof (cases row)
    case (JObj kvs)
    show ?thesis unfolding norm_row_def JObj json.case Let_def
      by (intro retE_intros) (auto simp: finite_bytes_iff make_op_def split: if_splits; blast)
  qed (simp_all add: norm_row_def retE_Inl)
  from retE_D [OF this assms] show ?thesis by simp
qed

lemma norm_row_ok:
  assumes "norm_row C doc_id replicas index row = Inr (i, x)" "0 < replicas" "keys_ok row"
  shows "i < replicas \<and> op_doc_id x = doc_id \<and> finite_json (op_value x) \<and> keys_ok (op_value x)"
proof -
  obtain w n where n: "bounded_int 0 (int replicas - 1) w = Inr n" "i = nat n" "op_doc_id x = doc_id"
    "op_value x = jget_or row ''value'' JNull" "finite_json (op_value x)"
    using norm_row_op [OF assms(1)] by blast
  from n(1) have "n < int replicas" by (cases w) (auto split: if_splits)
  moreover have "keys_ok (jget_or row ''value'' JNull)"
    using keys_ok_get [OF assms(3)] by (auto simp: jget_or_def split: option.split)
  ultimately show ?thesis using n assms(2) by simp
qed

lemma file_op_ok:
  assumes "norm_ok C doc_id replicas state" "file_op C (i, x) state = Inr state'"
    and "i < replicas \<and> op_doc_id x = doc_id \<and> finite_json (op_value x) \<and> keys_ok (op_value x)"
  shows "norm_ok C doc_id replicas state'"
proof -
  obtain delivered unique duplicates where state: "state = (delivered, unique, duplicates)" by (cases state)
  show ?thesis
  proof (cases "map_of unique (op_id C x)")
    case None
    then have "state' = (delivered @ [(i, x)], unique @ [(op_id C x, x)], duplicates)"
      using assms(2) by (simp add: file_op_def state put_fresh)
    moreover have "op_id C x \<notin> fst ` set unique" using None by (simp add: map_of_eq_None_iff)
    ultimately show ?thesis using assms(1,3) by (simp add: norm_ok_def state)
  next
    case (Some prior)
    then have "state' = (delivered @ [(i, x)], unique, duplicates + 1)"
      using assms(2) by (simp add: file_op_def state split: if_splits)
    then show ?thesis using assms(1,3) by (simp add: norm_ok_def state)
  qed
qed

lemma norm_loop_ok:
  "norm_loop C doc_id replicas index rows state = Inr state' \<Longrightarrow> norm_ok C doc_id replicas state \<Longrightarrow> 0 < replicas \<Longrightarrow>
   \<forall>row \<in> set rows. keys_ok row \<Longrightarrow> norm_ok C doc_id replicas state'"
proof (induction rows arbitrary: index state)
  case (Cons row rows)
  then obtain i x state1 where x: "norm_row C doc_id replicas index row = Inr (i, x)"
    and f: "file_op C (i, x) state = Inr state1"
    and l: "norm_loop C doc_id replicas (index + 1) rows state1 = Inr state'"
    by (auto simp: bindE_Inr_iff)
  have "norm_ok C doc_id replicas state1"
    using file_op_ok [OF Cons.prems(2) f] norm_row_ok [OF x Cons.prems(3)] Cons.prems(4) by simp
  from Cons.IH [OF l this Cons.prems(3)] Cons.prems(4) show ?case by simp
qed simp

text \<open>The operations a scenario runs on.\<close>

definition ops_ok :: "('k, 's) crypto \<Rightarrow> string \<Rightarrow> op list \<Rightarrow> bool" where
  "ops_ok C doc_id xs \<longleftrightarrow> distinct (map (op_id C) xs) \<and>
     (\<forall>x \<in> set xs. op_doc_id x = doc_id \<and> finite_json (op_value x) \<and> keys_ok (op_value x))"

lemma normalize_ok:
  assumes "normalize_operations C doc_id replicas rows = Inr (delivered, unique, duplicates)" "0 < replicas"
    and "\<forall>row \<in> set rows. keys_ok row"
  shows "ops_ok C doc_id unique \<and> (\<forall>(i, x) \<in> set delivered. i < replicas \<and> op_doc_id x = doc_id \<and> finite_json (op_value x)) \<and>
    length delivered = length unique + duplicates"
proof -
  from assms(1) obtain u where l: "norm_loop C doc_id replicas 0 rows ([], [], 0) = Inr (delivered, u, duplicates)"
    and unique: "unique = map snd (sort_key fst u)"
    by (auto simp: normalize_operations_def bindE_Inr_iff split: if_splits)
  have "norm_ok C doc_id replicas ([], [], 0)" by (simp add: norm_ok_def)
  from norm_loop_ok [OF l this assms(2,3)] have ok: "norm_ok C doc_id replicas (delivered, u, duplicates)" .
  have "map (op_id C) unique = map fst (sort_key fst u)"
    using ok unfolding unique norm_ok_def by (auto intro!: map_cong)
  moreover have "mset (map fst (sort_key fst u)) = mset (map fst u)" by simp
  ultimately have "distinct (map (op_id C) unique)"
    using ok by (metis (no_types, lifting) mset_eq_imp_distinct_iff norm_ok_def prod.case)
  then show ?thesis using ok by (auto simp: ops_ok_def norm_ok_def unique)
qed

section \<open>Documents of a scenario\<close>

abbreviation ops_map :: "('k, 's) crypto \<Rightarrow> op list \<Rightarrow> string \<rightharpoonup> op" where
  "ops_map C xs \<equiv> map_of (map (\<lambda>x. (op_id C x, x)) xs)"

text \<open>\<open>holds C doc_id m d\<close>: a consistent document whose log is \<open>m\<close>.\<close>

definition holds :: "('k, 's) crypto \<Rightarrow> string \<Rightarrow> (string \<rightharpoonup> op) \<Rightarrow> crdt \<Rightarrow> bool" where
  "holds C doc_id m d \<longleftrightarrow> crdt_ok C d \<and> cd_doc_id d = doc_id \<and> log_of d = m"

lemma holds_new: "holds C doc_id Map.empty (new_document doc_id)"
  by (simp add: holds_def) (simp add: new_document_def)

lemma raising_merge_ops:
  assumes "holds C doc_id m d" "\<forall>x \<in> set xs. op_doc_id x = doc_id"
  obtains n e where "raising (merge_ops C xs d) = Inr (n, e)" "holds C doc_id (ops_map C xs ++ m) e"
proof -
  have doc: "\<forall>x \<in> set xs. op_doc_id x = cd_doc_id d" using assms by (simp add: holds_def)
  obtain n where "fst (merge_ops C xs d) = Inr n" using merge_ops_count [OF doc] by blast
  then have "raising (merge_ops C xs d) = Inr (n, snd (merge_ops C xs d))" by (cases "merge_ops C xs d") auto
  moreover have "holds C doc_id (ops_map C xs ++ m) (snd (merge_ops C xs d))"
    using assms(1) merge_ops_log [OF _ doc, of C] by (simp add: holds_def merge_ops_ok)
  ultimately show ?thesis by (rule that)
qed

lemma lab_document_holds:
  assumes "\<forall>x \<in> set xs. op_doc_id x = doc_id"
  obtains d where "lab_document C doc_id xs = Inr d" "holds C doc_id (ops_map C xs) d"
proof (rule raising_merge_ops [OF holds_new assms])
  fix n e
  assume "raising (merge_ops C xs (new_document doc_id)) = Inr (n, e)" "holds C doc_id (ops_map C xs ++ Map.empty) e"
  then show ?thesis by (intro that [of e]) (simp_all add: lab_document_def)
qed

lemma ops_map_perm:
  assumes "mset xs = mset ys" "distinct (map (op_id C) xs)"
  shows "ops_map C xs = ops_map C ys"
  by (rule dict_perm(2)) (use assms in \<open>simp_all add: o_def\<close>)

lemma all_ops_map:
  assumes "holds C doc_id m d"
  shows "ops_map C (all_ops d) = m" "\<forall>x \<in> set (all_ops d). op_doc_id x = doc_id"
proof -
  have ok: "crdt_ok C d" "cd_doc_id d = doc_id" "log_of d = m" using assms by (simp_all add: holds_def)
  have self: "map (\<lambda>x. (op_id C x, x)) (map snd (cd_ops d)) = cd_ops d" by (rule crdt_ok_self(1) [OF ok(1)])
  have "map fst (cd_ops d) = map (op_id C) (map snd (cd_ops d))"
    by (subst self [symmetric]) (simp add: o_def)
  then have "distinct (map (op_id C) (map snd (cd_ops d)))" using crdt_okD(1) [OF ok(1)] by metis
  then have "ops_map C (map snd (cd_ops d)) = ops_map C (all_ops d)"
    by (intro ops_map_perm) (simp_all add: all_ops_def)
  then show "ops_map C (all_ops d) = m" using self ok(3) by metis
  show "\<forall>x \<in> set (all_ops d). op_doc_id x = doc_id"
    using crdt_ok_self(2) [OF ok(1)] by (simp add: all_ops_def ok(2))
qed

lemma redocument:
  assumes "holds C doc_id m d"
  obtains e where "lab_document C doc_id (all_ops d) = Inr e" "holds C doc_id m e"
  using lab_document_holds [OF all_ops_map(2) [OF assms], of C] all_ops_map(1) [OF assms] by metis

lemma merged_holds:
  assumes "holds C doc_id m d" "holds C doc_id n e"
  obtains f where "merged C e d = Inr f" "holds C doc_id (n ++ m) f"
proof -
  have ok: "crdt_ok C e" "cd_doc_id e = doc_id" "log_of e = n" "cd_doc_id e = cd_doc_id d"
    using assms by (simp_all add: holds_def)
  have "\<forall>x \<in> set (map snd (cd_ops e)). op_doc_id x = doc_id" using crdt_ok_self(2) [OF ok(1)] ok(2) by simp
  with assms(1) show ?thesis
  proof (rule raising_merge_ops)
    fix k f
    assume "raising (merge_ops C (map snd (cd_ops e)) d) = Inr (k, f)"
      "holds C doc_id (ops_map C (map snd (cd_ops e)) ++ m) f"
    then show ?thesis
      using ok crdt_ok_self(1) [OF ok(1)] by (intro that [of f]) (simp_all add: merged_def merge_doc_def del: map_map)
  qed
qed

lemma holds_same:
  assumes "holds C doc_id m d" "holds C doc_id m e"
  shows "snapshot C name d = snapshot C name e" "replica_digests C d = replica_digests C e"
proof -
  have ok: "crdt_ok C d" "crdt_ok C e" "log_of d = log_of e" using assms by (simp_all add: holds_def)
  note v = views_log [OF ok]
  have "mset (cd_ops d) = mset (cd_ops e)" by (rule dict_mset_eqI [OF crdt_okD(1) [OF ok(1)] crdt_okD(1) [OF ok(2)] ok(3)])
  then have "doc_length d = doc_length e" unfolding doc_length_def by (rule mset_eq_length)
  with v show "snapshot C name d = snapshot C name e" "replica_digests C d = replica_digests C e"
    by (simp_all add: snapshot_def replica_digests_def state_digest_def view_def authorized_view_def observed_view_def)
qed

text \<open>Snapshots of documents with plain values are plain.\<close>

definition plain :: "(string \<rightharpoonup> op) \<Rightarrow> bool" where
  "plain m \<longleftrightarrow> (\<forall>x \<in> ran m. finite_json (op_value x))"

lemma view_values:
  assumes "crdt_ok C d" "(k, v) \<in> set (materialise C ts d)"
  shows "\<exists>x \<in> ran (log_of d). v = op_value x"
proof -
  from assms(2) obtain x where "map_of (winners C (\<lambda>t. t \<in> set ts) d) k = Some x" "v = op_value x"
    by (auto simp: in_materialise)
  then show ?thesis using winners_iff [OF assms(1)] by blast
qed

lemma finite_snapshot:
  assumes "holds C doc_id m d" "plain m"
  shows "finite_json (snapshot C name d)"
proof -
  have ok: "crdt_ok C d" "log_of d = m" using assms(1) by (simp_all add: holds_def)
  have "finite_json v" if "(k, v) \<in> set (materialise C ts d)" for k v ts
    using view_values [OF ok(1) that] assms(2) by (auto simp: plain_def ok(2))
  then show ?thesis by (auto simp: snapshot_def authorized_view_def observed_view_def)
qed

lemma keys_ok_snapshot:
  assumes "holds C doc_id m d" "\<forall>x \<in> ran m. keys_ok (op_value x)"
  shows "keys_ok (snapshot C name d)"
proof -
  have ok: "crdt_ok C d" "log_of d = m" using assms(1) by (simp_all add: holds_def)
  have "keys_ok v" if "(k, v) \<in> set (materialise C ts d)" for k v ts
    using view_values [OF ok(1) that] assms(2) by (auto simp: ok(2))
  then show ?thesis by (auto simp: snapshot_def authorized_view_def observed_view_def materialise_keys(2))
qed

section \<open>The checks always succeed\<close>

lemma mset_order: "mset (order_for_replica C xs i) = mset xs"
proof -
  have "mset (drop n xs @ take n xs) = mset xs" for n
    by (metis add.commute append_take_drop_id mset_append)
  then show ?thesis by (simp add: order_for_replica_def Let_def)
qed

text \<open>Adding operations that are present changes nothing.\<close>

lemma replay_nothing:
  assumes "\<forall>x \<in> set xs. op_doc_id x = cd_doc_id d \<and> op_id C x \<in> dom (log_of d)"
  shows "merge_ops C xs d = (Inr 0, d)"
  using assms by (induction xs) (auto simp: add_op_def)

lemma reconcile_holds:
  assumes "ops_ok C doc_id xs"
  obtains d where "reconcile C doc_id xs i = Inr (d, True)" "holds C doc_id (ops_map C xs) d"
proof -
  have docs: "\<forall>x \<in> set xs. op_doc_id x = doc_id" and ids: "distinct (map (op_id C) xs)"
    using assms by (simp_all add: ops_ok_def)
  have "set (order_for_replica C xs i) = set xs" using mset_order by (rule mset_eq_setD)
  then have "\<forall>x \<in> set (order_for_replica C xs i). op_doc_id x = doc_id" using docs by simp
  then obtain d where d: "lab_document C doc_id (order_for_replica C xs i) = Inr d"
    and h: "holds C doc_id (ops_map C (order_for_replica C xs i)) d" by (rule lab_document_holds)
  have same: "ops_map C (order_for_replica C xs i) = ops_map C xs"
    by (rule ops_map_perm [OF mset_order]) (use ids mset_order in \<open>metis mset_eq_imp_distinct_iff mset_map\<close>)
  have present: "op_id C x \<in> dom (ops_map C xs)" if "x \<in> set xs" for x
    using that by (simp add: dom_map_of_conv_image_fst image_comp o_def)
  have "merge_ops C xs d = (Inr 0, d)"
    by (rule replay_nothing) (use h docs present in \<open>simp add: holds_def same\<close>)
  then have "reconcile C doc_id xs i = Inr (d, True)" by (simp add: reconcile_def d)
  with h same show ?thesis by (intro that) simp_all
qed

lemma reconcile_all:
  assumes "ops_ok C doc_id xs"
  obtains ds where "mapE (reconcile C doc_id xs) is = Inr ds" "length ds = length is" "list_all snd ds"
    "\<forall>d \<in> set (map fst ds). holds C doc_id (ops_map C xs) d"
proof -
  have "\<exists>ds. mapE (reconcile C doc_id xs) is = Inr ds \<and> length ds = length is \<and> list_all snd ds \<and>
    (\<forall>d \<in> set (map fst ds). holds C doc_id (ops_map C xs) d)"
  proof (induction "is")
    case (Cons i "is")
    obtain d where "reconcile C doc_id xs i = Inr (d, True)" "holds C doc_id (ops_map C xs) d"
      using assms by (rule reconcile_holds)
    with Cons.IH show ?case by auto
  qed simp
  with that show ?thesis by blast
qed

lemma length_remdups_same: "ds \<noteq> [] \<Longrightarrow> (\<And>d e. d \<in> set ds \<Longrightarrow> e \<in> set ds \<Longrightarrow> f d = f e) \<Longrightarrow> length (remdups (map f ds)) = 1"
proof -
  assume ne: "ds \<noteq> []" and same: "\<And>d e. d \<in> set ds \<Longrightarrow> e \<in> set ds \<Longrightarrow> f d = f e"
  have "f d = f (hd ds)" if "d \<in> set ds" for d by (rule same [OF that hd_in_set [OF ne]])
  then have "f ` set ds = (\<lambda>_. f (hd ds)) ` set ds" by (rule image_cong [OF refl])
  also have "\<dots> = {f (hd ds)}" using ne by (simp add: image_constant_conv)
  finally show ?thesis by (simp add: length_remdups_card_conv)
qed

lemma all_converged:
  assumes "ds \<noteq> []" "\<forall>d \<in> set ds. holds C doc_id m d"
  shows "replicas_converged C ds"
proof -
  have same: "replica_digests C d = replica_digests C e" if "d \<in> set ds" "e \<in> set ds" for d e
    using assms(2) that holds_same(2) by blast
  show ?thesis
    unfolding replicas_converged_def
    by (intro conjI length_remdups_same [OF assms(1)]; drule (1) same; simp add: replica_digests_def)
qed

lemma same_snapshot_holds:
  assumes "holds C doc_id m d" "holds C doc_id m e" "plain m" "\<forall>x \<in> ran m. keys_ok (op_value x)"
  shows "same_snapshot C d e"
  unfolding same_snapshot_def holds_same(1) [OF assms(1,2)]
  by (rule json_eq_refl [OF keys_ok_snapshot [OF assms(2,4)] finite_snapshot [OF assms(2,3)]])

lemma map_le_add_comm:
  assumes "f \<subseteq>\<^sub>m m" "g \<subseteq>\<^sub>m m"
  shows "f ++ g = g ++ f"
proof
  fix k
  have "f k = None \<or> f k = m k" using assms(1) by (cases "k \<in> dom f") (simp add: map_le_def, simp add: domIff)
  moreover have "g k = None \<or> g k = m k" using assms(2) by (cases "k \<in> dom g") (simp add: map_le_def, simp add: domIff)
  ultimately show "(f ++ g) k = (g ++ f) k" by (auto simp: map_add_def split: option.splits)
qed

text \<open>The part of the operations in a slice.\<close>

lemma ops_map_part:
  assumes "distinct (map (op_id C) xs)"
  shows "ops_map C (stride i n xs) \<subseteq>\<^sub>m ops_map C xs"
proof -
  have sub: "set (stride i n xs) \<subseteq> set xs" by (auto simp: set_stride)
  have "ops_map C xs k = Some x" if "ops_map C (stride i n xs) k = Some x" for k x
  proof -
    from map_of_SomeD [OF that] have "x \<in> set xs" "k = op_id C x" using sub by auto
    then show ?thesis using assms by (simp add: o_def)
  qed
  then show ?thesis by (auto simp: map_le_def)
qed

lemma map_le_add: "f \<subseteq>\<^sub>m m \<Longrightarrow> g \<subseteq>\<^sub>m m \<Longrightarrow> f ++ g \<subseteq>\<^sub>m m"
  by (auto simp: map_le_def map_add_def split: option.splits dest!: bspec)

lemma stride_docs:
  assumes "ops_ok C doc_id xs"
  shows "\<forall>x \<in> set (stride i n xs). op_doc_id x = doc_id"
  using assms by (auto simp: set_stride ops_ok_def)

lemma map_le_plain:
  assumes "ops_ok C doc_id xs" "m \<subseteq>\<^sub>m ops_map C xs"
  shows "plain m" "\<forall>x \<in> ran m. keys_ok (op_value x)"
proof -
  have "x \<in> set xs" if "x \<in> ran m" for x
  proof -
    from that obtain k where "m k = Some x" by (auto simp: ran_def)
    with assms(2) have "ops_map C xs k = Some x" by (metis domI map_le_def)
    from map_of_SomeD [OF this] show ?thesis by auto
  qed
  with assms(1) show "plain m" "\<forall>x \<in> ran m. keys_ok (op_value x)" by (auto simp: plain_def ops_ok_def)
qed

lemma commutativity_holds:
  assumes "ops_ok C doc_id xs"
  shows "commutativity_check C doc_id xs = Inr True"
proof -
  let ?m = "\<lambda>i. ops_map C (stride i 2 xs)"
  have ids: "distinct (map (op_id C) xs)" using assms by (simp add: ops_ok_def)
  note part = ops_map_part [OF ids, of _ 2]
  obtain left where l: "lab_document C doc_id (stride 0 2 xs) = Inr left" "holds C doc_id (?m 0) left"
    using stride_docs [OF assms] by (rule lab_document_holds)
  obtain right where r: "lab_document C doc_id (stride 1 2 xs) = Inr right" "holds C doc_id (?m 1) right"
    using stride_docs [OF assms] by (rule lab_document_holds)
  obtain l2 where l2: "lab_document C doc_id (all_ops left) = Inr l2" "holds C doc_id (?m 0) l2"
    using l(2) by (rule redocument)
  obtain ab where ab: "merged C right l2 = Inr ab" "holds C doc_id (?m 1 ++ ?m 0) ab"
    using l2(2) r(2) by (rule merged_holds)
  obtain r2 where r2: "lab_document C doc_id (all_ops right) = Inr r2" "holds C doc_id (?m 1) r2"
    using r(2) by (rule redocument)
  obtain ba where ba: "merged C left r2 = Inr ba" "holds C doc_id (?m 0 ++ ?m 1) ba"
    using r2(2) l(2) by (rule merged_holds)
  have "?m 0 ++ ?m 1 = ?m 1 ++ ?m 0" by (rule map_le_add_comm [OF part part])
  with ba have ba': "holds C doc_id (?m 1 ++ ?m 0) ba" by simp
  have le: "?m 1 ++ ?m 0 \<subseteq>\<^sub>m ops_map C xs" by (rule map_le_add [OF part part])
  have "same_snapshot C ab ba" by (rule same_snapshot_holds [OF ab(2) ba' map_le_plain [OF assms le]])
  then show ?thesis unfolding commutativity_check_def by (simp only: l(1) r(1) l2(1) ab(1) r2(1) ba(1) bindE.simps)
qed

lemma associativity_holds:
  assumes "ops_ok C doc_id xs"
  shows "associativity_check C doc_id xs = Inr True"
proof -
  let ?m = "\<lambda>i. ops_map C (stride i 3 xs)"
  have ids: "distinct (map (op_id C) xs)" using assms by (simp add: ops_ok_def)
  note part = ops_map_part [OF ids, of _ 3]
  obtain a where a: "lab_document C doc_id (stride 0 3 xs) = Inr a" "holds C doc_id (?m 0) a"
    using stride_docs [OF assms] by (rule lab_document_holds)
  obtain b where b: "lab_document C doc_id (stride 1 3 xs) = Inr b" "holds C doc_id (?m 1) b"
    using stride_docs [OF assms] by (rule lab_document_holds)
  obtain c where c: "lab_document C doc_id (stride 2 3 xs) = Inr c" "holds C doc_id (?m 2) c"
    using stride_docs [OF assms] by (rule lab_document_holds)
  obtain a2 where a2: "lab_document C doc_id (all_ops a) = Inr a2" "holds C doc_id (?m 0) a2"
    using a(2) by (rule redocument)
  obtain l1 where l1: "merged C b a2 = Inr l1" "holds C doc_id (?m 1 ++ ?m 0) l1"
    using a2(2) b(2) by (rule merged_holds)
  obtain l2 where l2: "merged C c l1 = Inr l2" "holds C doc_id (?m 2 ++ (?m 1 ++ ?m 0)) l2"
    using l1(2) c(2) by (rule merged_holds)
  obtain b2 where b2: "lab_document C doc_id (all_ops b) = Inr b2" "holds C doc_id (?m 1) b2"
    using b(2) by (rule redocument)
  obtain bc where bc: "merged C c b2 = Inr bc" "holds C doc_id (?m 2 ++ ?m 1) bc"
    using b2(2) c(2) by (rule merged_holds)
  obtain r where r: "merged C bc a2 = Inr r" "holds C doc_id ((?m 2 ++ ?m 1) ++ ?m 0) r"
    using a2(2) bc(2) by (rule merged_holds)
  have r': "holds C doc_id (?m 2 ++ (?m 1 ++ ?m 0)) r" using r(2) by (simp add: map_add_assoc)
  have le: "?m 2 ++ (?m 1 ++ ?m 0) \<subseteq>\<^sub>m ops_map C xs" by (intro map_le_add part)
  have "same_snapshot C l2 r" by (rule same_snapshot_holds [OF l2(2) r' map_le_plain [OF assms le]])
  then show ?thesis
    unfolding associativity_check_def
    by (simp only: a(1) b(1) c(1) a2(1) l1(1) l2(1) b2(1) bc(1) r(1) bindE.simps)
qed

text \<open>Delivering to the partitions keeps them consistent, with plain values.\<close>

definition partition_ok :: "('k, 's) crypto \<Rightarrow> string \<Rightarrow> crdt \<Rightarrow> bool" where
  "partition_ok C doc_id d \<longleftrightarrow> (\<exists>m. holds C doc_id m d \<and> plain m)"

lemma add_op_partition:
  assumes "partition_ok C doc_id d" "op_doc_id x = doc_id" "finite_json (op_value x)"
  obtains b e where "raising (add_op C x d) = Inr (b, e)" "partition_ok C doc_id e"
proof -
  obtain m where m: "holds C doc_id m d" "plain m" using assms(1) by (auto simp: partition_ok_def)
  then have d: "cd_doc_id d = doc_id" "crdt_ok C d" "log_of d = m" by (simp_all add: holds_def)
  obtain b where "fst (add_op C x d) = Inr b" using add_op_length [of x d C] assms(2) d(1) by auto
  then have r: "raising (add_op C x d) = Inr (b, snd (add_op C x d))" by (cases "add_op C x d") auto
  let ?n = "if op_id C x \<in> dom m then m else m(op_id C x \<mapsto> x)"
  have log: "log_of (snd (add_op C x d)) = ?n" using add_op_log [of x d C] assms(2) d by simp
  have "crdt_ok C (snd (add_op C x d))" by (rule add_op_ok [OF d(2)])
  with log d(1) have "holds C doc_id ?n (snd (add_op C x d))" unfolding holds_def add_op_doc_id by blast
  moreover have "plain ?n" using m(2) assms(3) by (auto simp: plain_def ran_def)
  ultimately have "partition_ok C doc_id (snd (add_op C x d))" unfolding partition_ok_def by blast
  with r show ?thesis by (rule that)
qed

lemma deliver_ok:
  assumes "\<forall>(i, x) \<in> set delivered. i < length ps \<and> op_doc_id x = doc_id \<and> finite_json (op_value x)"
    and "\<forall>d \<in> set ps. partition_ok C doc_id d"
  shows "\<exists>ps'. deliver_ops C delivered ps = Inr ps' \<and> length ps' = length ps \<and> (\<forall>d \<in> set ps'. partition_ok C doc_id d)"
  using assms
proof (induction delivered arbitrary: ps)
  case (Cons a rest)
  obtain i x where a: "a = (i, x)" by (cases a)
  have x: "i < length ps" "op_doc_id x = doc_id" "finite_json (op_value x)" using Cons.prems(1) by (auto simp: a)
  have "partition_ok C doc_id (ps ! i)" using Cons.prems(2) x(1) by simp
  then obtain b e where e: "raising (add_op C x (ps ! i)) = Inr (b, e)" "partition_ok C doc_id e"
    using x(2,3) by (rule add_op_partition)
  have "\<forall>d \<in> set (put_partition i e ps). partition_ok C doc_id d"
    using Cons.prems(2) e(2) by (auto simp: put_partition_def dest!: set_update_subset_insert [THEN subsetD])
  from Cons.IH [OF _ this] Cons.prems(1) show ?case by (auto simp: a e(1) put_partition_def)
qed simp

section \<open>Accepted scenarios\<close>

text \<open>The scenarios the lab accepts.\<close>

definition lab_admits :: "('k, 's) crypto \<Rightarrow> json \<Rightarrow> bool" where
  "lab_admits C scenario \<longleftrightarrow>
     (\<exists>kvs doc_id replicas rows parts. scenario = JObj kvs \<and> \<not> unknown_keys kvs [''doc_id'', ''replicas'', ''operations''] \<and>
        bounded_text (jget_or scenario ''doc_id'' JNull) MAX_DOC_ID_BYTES = Inr doc_id \<and> ident_shape ''._:-'' 95 doc_id \<and>
        jget_or scenario ''replicas'' JNull = JInt replicas \<and> 2 \<le> replicas \<and> replicas \<le> 8 \<and>
        jget_or scenario ''operations'' JNull = JList rows \<and>
        normalize_operations C doc_id (nat replicas) rows = Inr parts)"

lemma run_scenario_converges:
  assumes "ops_ok C doc_id unique" "2 \<le> replicas"
    and "\<forall>(i, x) \<in> set delivered. i < nat replicas \<and> op_doc_id x = doc_id \<and> finite_json (op_value x)"
  shows "\<exists>r. run_scenario C doc_id replicas delivered unique duplicates = Inr r \<and>
    jget r ''status'' = Some (JStr ''CONVERGED'') \<and> jget r ''checks'' = Some (checks_json True True True True)"
proof -
  have "partition_ok C doc_id (new_document doc_id)"
    using holds_new [of C doc_id] by (auto simp: partition_ok_def plain_def)
  then obtain ps where ps: "deliver_ops C delivered (replicate (nat replicas) (new_document doc_id)) = Inr ps"
    "\<forall>d \<in> set ps. partition_ok C doc_id d"
    using deliver_ok [of delivered "replicate (nat replicas) (new_document doc_id)" doc_id C] assms(3) by auto
  obtain ds where ds: "mapE (reconcile C doc_id unique) [0..<nat replicas] = Inr ds"
    "length ds = length [0..<nat replicas]" "list_all snd ds" "\<forall>d \<in> set (map fst ds). holds C doc_id (ops_map C unique) d"
    using assms(1) by (rule reconcile_all)
  have "ds \<noteq> []" using ds(2) assms(2) by auto
  then have conv: "replicas_converged C (map fst ds)" using ds(4) by (intro all_converged) simp_all
  have "plain (ops_map C unique)" by (rule map_le_plain(1) [OF assms(1)]) simp
  then have fin: "finite_json (snapshot C n d)" if "d \<in> set (map fst ds)" for n d
    using ds(4) that finite_snapshot by blast
  have init: "finite_json (snapshot C n d)" if "d \<in> set ps" for n d
    using ps(2) that finite_snapshot unfolding partition_ok_def by blast
  have snaps: "\<forall>x \<in> set (snapshots C es). finite_json x" if "\<And>n d. d \<in> set es \<Longrightarrow> finite_json (snapshot C n d)" for es
    using that by (auto simp: snapshots_def dest!: in_set_enumerate_eq [THEN iffD1])
  let ?result = "scenario_result C doc_id replicas (length delivered) unique duplicates (snapshots C ps) (map fst ds)
      (list_all snd ds) True True"
  have s1: "\<forall>x \<in> set (snapshots C (map fst ds)). finite_json x" by (rule snaps) (rule fin)
  have s2: "\<forall>x \<in> set (snapshots C ps). finite_json x" by (rule snaps) (rule init)
  have "finite_json (JObj ?result)"
    using s1 s2 by (simp add: scenario_result_def checks_json_def evidence_boundary_def)
  then have s: "strict_dumps (JObj ?result) = Inr (json_dumps False (JObj ?result))" by (simp add: strict_dumps_def)
  have "run_scenario C doc_id replicas delivered unique duplicates =
      Inr (JObj (?result @ [(''receipt_sha256'', JStr (sha256_hex C (json_dumps False (JObj ?result))))]))"
    unfolding run_scenario_def Let_def
    by (simp only: ps(1) ds(1) commutativity_holds [OF assms(1)] associativity_holds [OF assms(1)] s bindE.simps)
  then show ?thesis using conv ds(3) by (simp add: scenario_result_def)
qed

lemma admitted_converges:
  assumes "lab_admits C scenario" "keys_ok scenario"
  obtains r where "simulate_scenario C scenario = Inr r" "jget r ''status'' = Some (JStr ''CONVERGED'')"
    "jget r ''checks'' = Some (checks_json True True True True)"
proof -
  from assms(1) obtain kvs doc_id replicas rows delivered unique duplicates where
    s: "scenario = JObj kvs" "\<not> unknown_keys kvs [''doc_id'', ''replicas'', ''operations'']"
      "bounded_text (jget_or scenario ''doc_id'' JNull) MAX_DOC_ID_BYTES = Inr doc_id" "ident_shape ''._:-'' 95 doc_id"
      "jget_or scenario ''replicas'' JNull = JInt replicas" "2 \<le> replicas" "replicas \<le> 8"
      "jget_or scenario ''operations'' JNull = JList rows" and
    n: "normalize_operations C doc_id (nat replicas) rows = Inr (delivered, unique, duplicates)"
    unfolding lab_admits_def by (metis prod_cases3)
  have "jget scenario ''operations'' = Some (JList rows)"
    using s(8) by (auto simp: jget_or_def split: option.splits)
  from keys_ok_get [OF assms(2) this] have rows: "\<forall>row \<in> set rows. keys_ok row" by simp
  have sim: "simulate_scenario C scenario = run_scenario C doc_id replicas delivered unique duplicates"
    using s n unfolding simulate_scenario_def s(1) by (simp add: MAX_REPLICAS_def)
  note ok = normalize_ok [OF n _ rows]
  show thesis
    using run_scenario_converges [of C doc_id unique replicas delivered duplicates] ok s(6) unfolding sim by (auto intro: that [unfolded sim])
qed

text \<open>What is returned has passed the validation.\<close>

lemma simulated_admitted: "simulate_scenario C scenario = Inr r \<Longrightarrow> lab_admits C scenario"
proof -
  have "retE (\<lambda>_. lab_admits C scenario) (simulate_scenario C scenario)"
  proof (cases scenario)
    case (JObj kvs)
    show ?thesis
      unfolding simulate_scenario_def
    proof (simp only: JObj json.case, intro retE_intros)
      fix doc_id replicas rows parts
      assume a: "\<not> unknown_keys kvs [''doc_id'', ''replicas'', ''operations'']"
        "bounded_text (jget_or (JObj kvs) ''doc_id'' JNull) MAX_DOC_ID_BYTES = Inr doc_id" "\<not> \<not> ident_shape ''._:-'' 95 doc_id"
        "bounded_int 2 MAX_REPLICAS (jget_or (JObj kvs) ''replicas'' JNull) = Inr replicas"
        "json_list (jget_or (JObj kvs) ''operations'' JNull) = Inr rows"
        "normalize_operations C doc_id (nat replicas) rows = Inr parts"
      have "jget_or (JObj kvs) ''replicas'' JNull = JInt replicas \<and> 2 \<le> replicas \<and> replicas \<le> 8"
        using a(4) by (cases "jget_or (JObj kvs) ''replicas'' JNull") (auto simp: MAX_REPLICAS_def split: if_splits)
      moreover have "jget_or (JObj kvs) ''operations'' JNull = JList rows"
        using a(5) by (cases "jget_or (JObj kvs) ''operations'' JNull") auto
      ultimately have "lab_admits C (JObj kvs)" using a unfolding lab_admits_def by blast
      then show "retE (\<lambda>_. lab_admits C (JObj kvs))
          (case parts of (delivered, unique, duplicates) \<Rightarrow> run_scenario C doc_id replicas delivered unique duplicates)"
        by (simp add: retE_def)
    qed
  qed (simp_all add: simulate_scenario_def retE_def)
  then show "simulate_scenario C scenario = Inr r \<Longrightarrow> lab_admits C scenario" by (simp add: retE_def)
qed

section \<open>What the validation raises\<close>

text \<open>\<open>raiseE P m\<close>: whatever the computation \<open>m\<close> raises satisfies \<open>P\<close>.\<close>

definition raiseE :: "(exn \<Rightarrow> bool) \<Rightarrow> exn + 'a \<Rightarrow> bool" where
  "raiseE P m \<longleftrightarrow> (\<forall>e. m = Inl e \<longrightarrow> P e)"

lemma raiseE_bind: "raiseE P m \<Longrightarrow> (\<And>x. m = Inr x \<Longrightarrow> raiseE P (f x)) \<Longrightarrow> raiseE P (bindE m f)"
  by (cases m) (simp_all add: raiseE_def)

lemma raiseE_if: "(b \<Longrightarrow> raiseE P m) \<Longrightarrow> (\<not> b \<Longrightarrow> raiseE P m') \<Longrightarrow> raiseE P (if b then m else m')"
  by simp

lemma raiseE_Inl: "P e \<Longrightarrow> raiseE P (Inl e)"
  by (simp add: raiseE_def)

lemma raiseE_Inr [simp]: "raiseE P (Inr x)"
  by (simp add: raiseE_def)

lemma raiseE_mono: "raiseE P m \<Longrightarrow> (\<And>e. P e \<Longrightarrow> Q e) \<Longrightarrow> raiseE Q m"
  by (simp add: raiseE_def)

lemma raiseE_returns: "m = Inr x \<Longrightarrow> raiseE P m"
  by simp

lemmas raiseE_intros = raiseE_bind raiseE_if raiseE_Inr

text \<open>The value and the track of a row; a value that the encoder and the constructor of an operation survive.\<close>

definition row_value :: "json \<Rightarrow> json" where
  "row_value row = jget_or row ''value'' JNull"

definition row_track :: "json \<Rightarrow> json" where
  "row_track row = jget_or row ''track'' (JStr OBSERVED)"

definition survives :: "('k, 's) crypto \<Rightarrow> json \<Rightarrow> bool" where
  "survives C v \<longleftrightarrow> encodes C v \<and> copies C v"

fun container :: "json \<Rightarrow> bool" where
  "container (JList xs) = True"
| "container (JObj kvs) = True"
| "container _ = False"

text \<open>The exceptions that the rows of a scenario can cause.\<close>

definition lab_error :: "('k, 's) crypto \<Rightarrow> json list \<Rightarrow> exn \<Rightarrow> bool" where
  "lab_error C rows e \<longleftrightarrow> e = SimulationError \<or>
     e = RecursionError \<and> (\<exists>row \<in> set rows. \<not> survives C (row_value row)) \<or>
     e = TypeError \<and> (\<exists>row \<in> set rows. container (row_track row))"

lemma lab_error_Cons: "lab_error C [row] e \<Longrightarrow> lab_error C (row # rows) e" "lab_error C rows e \<Longrightarrow> lab_error C (row # rows) e"
  by (auto simp: lab_error_def)

lemma lab_error_simulation [simp]: "lab_error C rows SimulationError"
  by (simp add: lab_error_def)

lemma check_errors:
  "raiseE (lab_error C rows) (bounded_text v n)" "raiseE (lab_error C rows) (bounded_int lo hi v)"
  "raiseE (lab_error C rows) (json_bool v)" "raiseE (lab_error C rows) (json_list v)"
  by (cases v; simp add: raiseE_def bounded_text_def)+

lemma row_errors:
  "raiseE (lab_error C [row]) (track_of (row_track row))"
  "raiseE (lab_error C [row]) (finite_bytes C (row_value row))"
  "raiseE (lab_error C [row]) (make_op C doc_id key (row_value row) lamport node_id deletion track)"
proof -
  show "raiseE (lab_error C [row]) (track_of (row_track row))"
    by (cases "row_track row") (simp_all add: raiseE_def lab_error_def)
qed (auto simp: raiseE_def lab_error_def finite_bytes_def make_op_def survives_def split: sum.splits if_splits)

lemma norm_row_error: "raiseE (lab_error C [row]) (norm_row C doc_id replicas index row)"
proof (cases row)
  case (JObj kvs)
  show ?thesis
    unfolding norm_row_def Let_def row_value_def [symmetric] row_track_def [symmetric]
    by (simp only: JObj json.case, fold JObj) (intro raiseE_intros check_errors row_errors raiseE_Inl lab_error_simulation)
qed (simp_all add: norm_row_def raiseE_def)

lemma norm_loop_error: "raiseE (lab_error C rows) (norm_loop C doc_id replicas index rows state)"
proof (induction rows arbitrary: index state)
  case (Cons row rows)
  have f: "raiseE (lab_error C (row # rows)) (file_op C x state)" for x
    by (auto simp: file_op_def raiseE_def split: prod.splits option.splits if_splits)
  have r: "raiseE (lab_error C (row # rows)) (norm_row C doc_id replicas index row)"
    using norm_row_error lab_error_Cons(1) by (rule raiseE_mono)
  have l: "raiseE (lab_error C (row # rows)) (norm_loop C doc_id replicas (index + 1) rows state')" for state'
    using Cons.IH lab_error_Cons(2) by (rule raiseE_mono)
  show ?case unfolding norm_loop.simps by (intro raiseE_bind r f l)
qed simp

lemma normalize_error: "raiseE (lab_error C rows) (normalize_operations C doc_id replicas rows)"
  unfolding normalize_operations_def
  by (intro raiseE_intros norm_loop_error raiseE_Inl lab_error_simulation) (simp add: split_beta)

text \<open>The rows of a scenario.\<close>

definition scenario_rows :: "json \<Rightarrow> json list" where
  "scenario_rows scenario = (case jget_or scenario ''operations'' JNull of JList rows \<Rightarrow> rows | _ \<Rightarrow> [])"

lemma simulate_error:
  assumes "keys_ok scenario"
  shows "raiseE (lab_error C (scenario_rows scenario)) (simulate_scenario C scenario)"
proof (cases scenario)
  case (JObj kvs)
  show ?thesis
  proof (cases "\<exists>r. simulate_scenario C scenario = Inr r")
    case False
    then have no: "\<not> lab_admits C scenario" using admitted_converges [OF _ assms] by metis
    show ?thesis
      unfolding simulate_scenario_def
    proof (simp only: JObj json.case, fold JObj, intro raiseE_intros check_errors raiseE_Inl lab_error_simulation)
      fix doc_id replicas rows parts
      assume a: "\<not> unknown_keys kvs [''doc_id'', ''replicas'', ''operations'']"
        "bounded_text (jget_or scenario ''doc_id'' JNull) MAX_DOC_ID_BYTES = Inr doc_id" "\<not> \<not> ident_shape ''._:-'' 95 doc_id"
        "bounded_int 2 MAX_REPLICAS (jget_or scenario ''replicas'' JNull) = Inr replicas"
        "json_list (jget_or scenario ''operations'' JNull) = Inr rows"
      have rows: "jget_or scenario ''operations'' JNull = JList rows"
        using a(5) by (cases "jget_or scenario ''operations'' JNull") auto
      show "raiseE (lab_error C (scenario_rows scenario)) (normalize_operations C doc_id (nat replicas) rows)"
        using normalize_error by (simp add: scenario_rows_def rows)
      assume n: "normalize_operations C doc_id (nat replicas) rows = Inr parts"
      have "jget_or scenario ''replicas'' JNull = JInt replicas \<and> 2 \<le> replicas \<and> replicas \<le> 8"
        using a(4) by (cases "jget_or scenario ''replicas'' JNull") (auto simp: MAX_REPLICAS_def split: if_splits)
      then have "lab_admits C scenario" using a n rows JObj unfolding lab_admits_def by blast
      with no show "raiseE (lab_error C (scenario_rows scenario))
          (case parts of (delivered, unique, duplicates) \<Rightarrow> run_scenario C doc_id replicas delivered unique duplicates)" ..
    qed
  qed (auto intro: raiseE_returns)
qed (simp_all add: simulate_scenario_def raiseE_def)

section \<open>Property\<close>

text \<open>
  C34: Every accepted scenario converges. For a scenario that is a JSON value, the lab returns a result
  exactly when the scenario passes its validation, and the result always reports \<open>CONVERGED\<close> with
  all four checks true: the branch \<open>DIVERGED\<close> is never taken. Otherwise it raises \<open>SimulationError\<close>,
  except for two kinds of rows: a value that is nested so deeply that encoding or copying it exhausts
  the stack (\<open>RecursionError\<close>), and a track that is a list or an object (\<open>TypeError\<close>).
\<close>

theorem lab_converges:
  assumes "keys_ok scenario"
  shows "((\<exists>r. simulate_scenario C scenario = Inr r) \<longleftrightarrow> lab_admits C scenario) \<and>
    (\<forall>r. simulate_scenario C scenario = Inr r \<longrightarrow>
      jget r ''status'' = Some (JStr ''CONVERGED'') \<and> jget r ''checks'' = Some (checks_json True True True True)) \<and>
    (\<forall>e. simulate_scenario C scenario = Inl e \<longrightarrow> e = SimulationError \<or>
      e = RecursionError \<and> (\<exists>row \<in> set (scenario_rows scenario). \<not> (encodes C (row_value row) \<and> copies C (row_value row))) \<or>
      e = TypeError \<and> (\<exists>row \<in> set (scenario_rows scenario). container (row_track row)))"
proof -
  have run: "\<exists>r. simulate_scenario C scenario = Inr r \<and> jget r ''status'' = Some (JStr ''CONVERGED'') \<and>
      jget r ''checks'' = Some (checks_json True True True True)" if "lab_admits C scenario"
    using admitted_converges [OF that assms] by metis
  have "lab_error C (scenario_rows scenario) e" if "simulate_scenario C scenario = Inl e" for e
    using simulate_error [OF assms, of C] that by (simp add: raiseE_def)
  then show ?thesis using run simulated_admitted [of C scenario] unfolding lab_error_def survives_def by fastforce
qed

definition sample_scenario :: json where
  "sample_scenario = JObj
     [(''doc_id'', JStr ''d''), (''replicas'', JInt 2),
      (''operations'', JList [JObj [(''node_id'', JStr ''n''), (''key'', JStr ''k''), (''value'', JInt 1), (''lamport'', JInt 1)]])]"

lemma text_letter: "c \<in> {CHR ''d'', CHR ''k'', CHR ''n''} \<Longrightarrow> 0 < n \<Longrightarrow> bounded_text (JStr [c]) n = Inr [c]"
  using strip_printable [of "[c]"] by (auto simp: bounded_text_def printable_def)

lemma lab_sample_admitted: "lab_admits toy_crypto sample_scenario"
proof -
  have texts: "bounded_text (JStr ''d'') 96 = Inr ''d''" "bounded_text (JStr ''n'') 64 = Inr ''n''"
    "bounded_text (JStr ''k'') 128 = Inr ''k''" by (rule text_letter; simp)+
  let ?row = "JObj [(''node_id'', JStr ''n''), (''key'', JStr ''k''), (''value'', JInt 1), (''lamport'', JInt 1)]"
  have "norm_row toy_crypto ''d'' 2 0 ?row = Inr (0,
      \<lparr>op_doc_id = ''d'', op_key = ''k'', op_value = JInt 1, op_lamport = 1, op_node_id = ''n'', op_deletion = False,
       op_track = OBSERVED\<rparr>)"
    by (simp add: norm_row_def unknown_keys_def row_keys_def jget_or_def MAX_NODE_ID_BYTES_def MAX_KEY_BYTES_def texts ident_shape_def
      alnum_def MAX_LAMPORT_def finite_bytes_def make_op_def strict_dumps_def json_dumps_def int_str_def MAX_VALUE_BYTES_def Let_def nat_str.simps)
  then have "\<exists>parts. normalize_operations toy_crypto ''d'' 2 [?row] = Inr parts"
    by (simp add: normalize_operations_def MAX_OPERATIONS_def file_op_def)
  then show ?thesis
    unfolding lab_admits_def sample_scenario_def
    by (intro exI [of _ "[(''doc_id'', JStr ''d''), (''replicas'', JInt 2), (''operations'', JList [?row])]"]
        exI [of _ "''d''"] exI [of _ 2] exI [of _ "[?row]"])
      (simp add: unknown_keys_def jget_or_def MAX_DOC_ID_BYTES_def texts ident_shape_def alnum_def)
qed

theorem lab_converges_witness:
  "\<exists>r. simulate_scenario toy_crypto sample_scenario = Inr r \<and> jget r ''status'' = Some (JStr ''CONVERGED'')"
proof -
  have "keys_ok sample_scenario" by (simp add: sample_scenario_def)
  from lab_converges [OF this] lab_sample_admitted show ?thesis by blast
qed

text \<open>
  A track that is a list or an object is not refused by the validation: looking it up in the set of
  tracks raises a \<open>TypeError\<close>.
\<close>

lemma sample_row_texts:
  "bounded_text (JStr ''d'') 96 = Inr ''d''" "bounded_text (JStr ''n'') 64 = Inr ''n''"
  "bounded_text (JStr ''k'') 128 = Inr ''k''"
  by (rule text_letter; simp)+

lemma sample_row_error:
  assumes "norm_row C ''d'' 2 0 row = Inl e"
  shows "simulate_scenario C (JObj [(''doc_id'', JStr ''d''), (''replicas'', JInt 2), (''operations'', JList [row])]) = Inl e"
proof -
  have "normalize_operations C ''d'' 2 [row] = Inl e" by (simp add: normalize_operations_def MAX_OPERATIONS_def assms)
  then show ?thesis
    by (simp add: simulate_scenario_def unknown_keys_def jget_or_def MAX_DOC_ID_BYTES_def MAX_REPLICAS_def sample_row_texts ident_shape_def alnum_def)
qed

lemma odd_track_escapes:
  assumes "row = JObj [(''node_id'', JStr ''n''), (''key'', JStr ''k''), (''lamport'', JInt 1), (''track'', JList [])]"
  shows "simulate_scenario C (JObj [(''doc_id'', JStr ''d''), (''replicas'', JInt 2), (''operations'', JList [row])]) = Inl TypeError"
  by (rule sample_row_error) (simp add: assms norm_row_def unknown_keys_def row_keys_def jget_or_def MAX_NODE_ID_BYTES_def
    MAX_KEY_BYTES_def sample_row_texts ident_shape_def alnum_def MAX_LAMPORT_def)

text \<open>
  Nor is a value that is nested too deeply: the lab bounds its bytes, not its depth. A value within the
  bound that the encoder accepts and that cannot be copied makes the constructor of the operation raise.
\<close>

lemma deep_value_escapes:
  assumes "row = JObj [(''node_id'', JStr ''n''), (''key'', JStr ''k''), (''value'', v), (''lamport'', JInt 1)]"
    and "encodes C v" "finite_json v" "length (json_dumps False v) \<le> 4096" "\<not> copies C v"
  shows "simulate_scenario C (JObj [(''doc_id'', JStr ''d''), (''replicas'', JInt 2), (''operations'', JList [row])]) = Inl RecursionError"
  by (rule sample_row_error) (use assms(2-5) in \<open>simp add: assms(1) norm_row_def unknown_keys_def row_keys_def jget_or_def
    MAX_NODE_ID_BYTES_def MAX_KEY_BYTES_def sample_row_texts ident_shape_def alnum_def MAX_LAMPORT_def finite_bytes_def strict_dumps_def
    MAX_VALUE_BYTES_def make_op_def\<close>)

text \<open>Such values are short: 500 lists around each other take 1000 bytes.\<close>

fun nested :: "nat \<Rightarrow> json" where
  "nested 0 = JList []"
| "nested (Suc n) = JList [nested n]"

lemma nested_simps [simp]: "jsort (nested n) = nested n" "finite_json (nested n)" "length (jdump a (nested n)) = 2 * n + 2"
  by (induction n) simp_all

lemma nested_escapes:
  assumes "row = JObj [(''node_id'', JStr ''n''), (''key'', JStr ''k''), (''value'', nested n), (''lamport'', JInt 1)]"
    and "n < 2048" "encodes C (nested n)" "\<not> copies C (nested n)"
  shows "simulate_scenario C (JObj [(''doc_id'', JStr ''d''), (''replicas'', JInt 2), (''operations'', JList [row])]) = Inl RecursionError"
  using assms(2-4) by (intro deep_value_escapes [OF assms(1)]) (simp_all add: json_dumps_def)

end
