(* ===== verification/LabApp.thy ===== *)
theory LabApp
  imports Lab
begin

text \<open>
  \<open>lab/app.py\<close> and the built-in scenarios of \<open>lab/simulator.py\<close>: the routes of the convergence
  lab and the middleware around them. Requests are the values that the request models have
  validated; a response is a status, a body and its headers, or the exception that the framework
  turns into a 500.
\<close>

section \<open>Built-in scenarios\<close>

definition scenario_row :: "string \<Rightarrow> string \<Rightarrow> json \<Rightarrow> int \<Rightarrow> string \<Rightarrow> int \<Rightarrow> (string \<times> json) list" where
  "scenario_row node_id key val lamport track origin =
     [(''node_id'', JStr node_id), (''key'', JStr key), (''value'', val), (''lamport'', JInt lamport),
      (''track'', JStr track), (''origin'', JInt origin)]"

definition SCENARIOS :: "(string, json) dict" where
  "SCENARIOS =
     [(''two-track-signal'', JObj
        [(''doc_id'', JStr ''signal-grid''), (''replicas'', JInt 4),
         (''operations'', JList
           [JObj (scenario_row ''sensor-alpha'' ''sector-7''
              (JObj [(''state'', JStr ''nominal''), (''confidence'', JFloat ''0.91'')]) 10 AUTHORIZED 0),
            JObj (scenario_row ''sensor-bravo'' ''sector-7''
              (JObj [(''state'', JStr ''anomaly''), (''confidence'', JFloat ''0.63'')]) 11 OBSERVED 1),
            JObj (scenario_row ''operator'' ''action'' (JStr ''hold-for-corroboration'') 12 AUTHORIZED 2)])]),
      (''partition-rejoin'', JObj
        [(''doc_id'', JStr ''fleet-state''), (''replicas'', JInt 5),
         (''operations'', JList
           [JObj (scenario_row ''west'' ''route'' (JStr ''north'') 1 AUTHORIZED 0),
            JObj (scenario_row ''east'' ''route'' (JStr ''south'') 1 AUTHORIZED 4),
            JObj (scenario_row ''center'' ''fuel'' (JInt 72) 2 OBSERVED 2)])]),
      (''revocation-tombstone'', JObj
        [(''doc_id'', JStr ''policy-state''), (''replicas'', JInt 3),
         (''operations'', JList
           [JObj (scenario_row ''policy-a'' ''rule-17'' (JStr ''allow'') 1 AUTHORIZED 0),
            JObj
              [(''node_id'', JStr ''policy-b''), (''key'', JStr ''rule-17''), (''value'', JNull), (''lamport'', JInt 2),
               (''track'', JStr AUTHORIZED), (''deletion'', JBool True), (''origin'', JInt 1)],
            JObj (scenario_row ''forensics'' ''discarded-claim'' (JStr ''retained-for-awareness'') 3 REVOKED 2)])])]"

section \<open>Requests\<close>


record operation_input =
  oi_node_id :: string
  oi_key :: string
  oi_value :: json
  oi_lamport :: int
  oi_deletion :: bool
  oi_track :: string
  oi_origin :: "int option"

record simulation_request =
  sq_doc_id :: string
  sq_replicas :: int
  sq_operations :: "operation_input list"

text \<open>The constraints of the fields; lengths count characters.\<close>

definition text_length :: "nat \<Rightarrow> nat \<Rightarrow> string \<Rightarrow> bool" where
  "text_length lo hi s \<longleftrightarrow> lo \<le> length (chars_of s) \<and> length (chars_of s) \<le> hi"

definition valid_operation :: "operation_input \<Rightarrow> bool" where
  "valid_operation x \<longleftrightarrow>
     text_length 1 64 (oi_node_id x) \<and> text_length 1 128 (oi_key x) \<and>
     0 \<le> oi_lamport x \<and> oi_lamport x \<le> 2147483647 \<and> oi_track x \<in> {AUTHORIZED, OBSERVED, REVOKED} \<and>
     (case oi_origin x of None \<Rightarrow> True | Some i \<Rightarrow> 0 \<le> i \<and> i < MAX_REPLICAS)"

definition valid_simulation :: "simulation_request \<Rightarrow> bool" where
  "valid_simulation q \<longleftrightarrow>
     text_length 1 96 (sq_doc_id q) \<and> 2 \<le> sq_replicas q \<and> sq_replicas q \<le> MAX_REPLICAS \<and>
     1 \<le> length (sq_operations q) \<and> length (sq_operations q) \<le> MAX_OPERATIONS \<and>
     (\<forall>x \<in> set (sq_operations q). valid_operation x)"

text \<open>\<open>model_dump(exclude_none=True)\<close> leaves out the fields that are \<open>None\<close>.\<close>

definition dump_operation :: "operation_input \<Rightarrow> json" where
  "dump_operation x = JObj
     ([(''node_id'', JStr (oi_node_id x)), (''key'', JStr (oi_key x))] @
      (if oi_value x = JNull then [] else [(''value'', oi_value x)]) @
      [(''lamport'', JInt (oi_lamport x)), (''deletion'', JBool (oi_deletion x)), (''track'', JStr (oi_track x))] @
      (case oi_origin x of None \<Rightarrow> [] | Some i \<Rightarrow> [(''origin'', JInt i)]))"

definition dump_simulation :: "simulation_request \<Rightarrow> json" where
  "dump_simulation q = JObj
     [(''doc_id'', JStr (sq_doc_id q)), (''replicas'', JInt (sq_replicas q)),
      (''operations'', JList (map dump_operation (sq_operations q)))]"

section \<open>Routes\<close>

text \<open>
  What the routes find: the environment, the files below the repository root, the texts of
  exceptions. \<open>le_dump\<close> and \<open>le_render\<close> belong to the libraries of the request models and of the
  framework: the exception, if any, with which \<open>model_dump\<close> refuses a value of the request, and the one
  with which the result of the simulator is refused when it is turned into the response.
\<close>

record lab_env =
  le_getenv :: "string \<Rightarrow> string option"
  le_file :: "string \<Rightarrow> bytes option"
  le_text :: "exn \<Rightarrow> string"
  le_dump :: "json \<Rightarrow> exn option"
  le_render :: "json \<Rightarrow> exn option"

datatype lab_body = JsonBody json | FileBody string string

datatype lab_reply = LabReply nat lab_body | LabCrash exn

datatype lab_route =
    LabHealth | LabReady | LabSource | LabScenarios | LabScenario string
  | LabSimulate simulation_request | LabIndex | LabAsset string

definition CONTROLLED_FILES :: "string list" where
  "CONTROLLED_FILES =
     [''lab/app.py'', ''lab/config.py'', ''lab/simulator.py'', ''lab/static/index.html'', ''lab/static/app.js'',
      ''lab/static/styles.css'', ''lab/static/responsive.css'', ''lab/requirements.txt'', ''lab/constraints.txt'',
      ''lab/Dockerfile'']"

text \<open>\<open>a or b or c\<close> on environment variables.\<close>

fun first_set :: "string option list \<Rightarrow> string option" where
  "first_set [] = None"
| "first_set [v] = v"
| "first_set (v # w # vs) = (if v \<in> {None, Some []} then first_set (w # vs) else v)"

definition json_option :: "string option \<Rightarrow> json" where
  "json_option v = (case v of None \<Rightarrow> JNull | Some s \<Rightarrow> JStr s)"

text \<open>
  \<open>sha256_file\<close> reads a file in chunks until a read returns nothing. The hash object is the bytes it was
  fed; the file is what is left to read.
\<close>

function feed_chunks :: "nat \<Rightarrow> bytes \<Rightarrow> bytes \<Rightarrow> bytes" where
  "feed_chunks n fed rest =
     (let chunk = take n rest in if chunk = [] then fed else feed_chunks n (fed @ chunk) (drop n rest))"
  by pat_completeness auto
termination by (relation "measure (\<lambda>(n, fed, rest). length rest)") auto

declare feed_chunks.simps [simp del]

definition sha256_file :: "('k, 's) crypto \<Rightarrow> bytes \<Rightarrow> string" where
  "sha256_file C content = sha256_hex C (feed_chunks (1024 * 1024) [] content)"

lemma feed_chunks: "0 < n \<Longrightarrow> feed_chunks n fed rest = fed @ rest"
proof (induction n fed rest rule: feed_chunks.induct)
  case (1 n fed rest)
  then show ?case by (subst feed_chunks.simps) (simp add: Let_def)
qed

lemma sha256_file [simp]: "sha256_file C content = sha256_hex C content"
  unfolding sha256_file_def by (subst feed_chunks) simp_all

definition source_identity :: "('k, 's) crypto \<Rightarrow> lab_env \<Rightarrow> json" where
  "source_identity C E =
     (let revision = first_set (map (le_getenv E) [''SOURCE_REVISION'', ''GITHUB_SHA'', ''SPACE_COMMIT_SHA'']);
          readback = JStr ''UNAVAILABLE_REQUIRES_EXTERNAL_READBACK'' in
      JObj
       [(''schema'', JStr ''szl.source-identity/v1''),
        (''repository'', JStr ''szl-holdings/szl-mesh''),
        (''revision'', json_option revision),
        (''revision_state'', JStr (if revision \<in> {None, Some []} then ''UNAVAILABLE'' else ''MEASURED_ENVIRONMENT'')),
        (''controlled_files_sha256'', JObj (map (\<lambda>name. (name, json_option (map_option (sha256_file C) (le_file E name))))
           CONTROLLED_FILES)),
        (''provider_head'', readback), (''hub_publication'', readback), (''runtime_source_match'', readback)])"

definition REQUIRED_FILES :: "string list" where
  "REQUIRED_FILES =
     [''lab/static/index.html'', ''lab/static/app.js'', ''lab/static/styles.css'', ''lab/static/responsive.css'',
      ''src/szl_mesh/crdt.py'']"

definition readyz :: "lab_env \<Rightarrow> lab_reply" where
  "readyz E =
     (let missing = filter (\<lambda>f. le_file E f = None) REQUIRED_FILES in
      LabReply (if missing = [] then 200 else 503) (JsonBody (JObj
        [(''status'', JStr (if missing = [] then ''ready'' else ''not_ready'')),
         (''missing'', JList (map JStr missing)), (''scenario_count'', JInt (int (length SCENARIOS)))])))"

definition scenario_item :: "string \<times> json \<Rightarrow> json" where
  "scenario_item p =
     (case p of (slug, sc) \<Rightarrow> JObj
        [(''slug'', JStr slug), (''doc_id'', jget_or sc ''doc_id'' JNull), (''replicas'', jget_or sc ''replicas'' JNull),
         (''operation_count'', JInt (case jget_or sc ''operations'' JNull of JList xs \<Rightarrow> int (length xs) | _ \<Rightarrow> 0)),
         (''scenario'', sc)])"

definition scenarios_index :: json where
  "scenarios_index = JObj
     [(''schema'', JStr ''szl.mesh-convergence-lab.scenarios/v1''),
      (''items'', JList (map scenario_item (sort_key fst SCENARIOS))),
      (''evidence_boundary'', JStr ''FINITE_SCENARIO_ONLY'')]"

definition lab_detail :: "nat \<Rightarrow> string \<Rightarrow> lab_reply" where
  "lab_detail status s = LabReply status (JsonBody (JObj [(''detail'', JStr s)]))"

definition find_scenario :: "string \<Rightarrow> lab_reply" where
  "find_scenario slug =
     (case map_of SCENARIOS slug of
        None \<Rightarrow> lab_detail 404 ''SCENARIO_NOT_FOUND''
      | Some sc \<Rightarrow> LabReply 200 (JsonBody (JObj [(''slug'', JStr slug), (''scenario'', sc)])))"

text \<open>The dump of the request comes before the \<open>try\<close>, and only \<open>SimulationError\<close> is caught.\<close>

fun dump_refusal :: "lab_env \<Rightarrow> operation_input list \<Rightarrow> exn option" where
  "dump_refusal E [] = None"
| "dump_refusal E (x # xs) = (case le_dump E (oi_value x) of None \<Rightarrow> dump_refusal E xs | Some e \<Rightarrow> Some e)"

definition simulate_route :: "('k, 's) crypto \<Rightarrow> lab_env \<Rightarrow> simulation_request \<Rightarrow> lab_reply" where
  "simulate_route C E q =
     (case dump_refusal E (sq_operations q) of
        Some e \<Rightarrow> LabCrash e
      | None \<Rightarrow>
         (case simulate_scenario C (dump_simulation q) of
            Inr r \<Rightarrow> (case le_render E r of None \<Rightarrow> LabReply 200 (JsonBody r) | Some e \<Rightarrow> LabCrash e)
          | Inl e \<Rightarrow>
              if e = SimulationError then lab_detail 422 (concat (take 500 (chars_of (le_text E e)))) else LabCrash e))"

text \<open>
  \<open>FileResponse\<close> looks for the file when it is sent, inside \<open>call_next\<close>, and raises \<open>RuntimeError\<close> if
  there is none.
\<close>

definition file_response :: "lab_env \<Rightarrow> string \<Rightarrow> string \<Rightarrow> lab_reply" where
  "file_response E path media_type =
     (if le_file E path = None then LabCrash RuntimeError else LabReply 200 (FileBody path media_type))"

definition ASSETS :: "(string \<times> string) list" where
  "ASSETS =
     [(''app.js'', ''application/javascript''), (''styles.css'', ''text/css''), (''responsive.css'', ''text/css'')]"

definition asset_route :: "lab_env \<Rightarrow> string \<Rightarrow> lab_reply" where
  "asset_route E name =
     (case map_of ASSETS name of
        None \<Rightarrow> lab_detail 404 ''NOT_FOUND''
      | Some media_type \<Rightarrow> file_response E (''lab/static/'' @ name) media_type)"

fun lab_handle :: "('k, 's) crypto \<Rightarrow> lab_env \<Rightarrow> lab_route \<Rightarrow> lab_reply" where
  "lab_handle C E LabHealth = LabReply 200 (JsonBody (JObj
     [(''status'', JStr ''ok''), (''service'', JStr ''szl-mesh-convergence-lab''), (''network_transport'', JBool False),
      (''mutation_authority'', JBool False), (''bft_claim'', JBool False)]))"
| "lab_handle C E LabReady = readyz E"
| "lab_handle C E LabSource = LabReply 200 (JsonBody (source_identity C E))"
| "lab_handle C E LabScenarios = LabReply 200 (JsonBody scenarios_index)"
| "lab_handle C E (LabScenario slug) = find_scenario slug"
| "lab_handle C E (LabSimulate q) = simulate_route C E q"
| "lab_handle C E LabIndex = file_response E ''lab/static/index.html'' ''text/html''"
| "lab_handle C E (LabAsset name) = asset_route E name"


section \<open>The middleware\<close>








section \<open>Validated scenarios\<close>




section \<open>Property\<close>






text \<open>
  A request body that passes the request models and makes the service fail: one operation whose value
  is 500 lists deep and cannot be copied.
\<close>

definition deep_request :: "nat \<Rightarrow> simulation_request" where
  "deep_request n =
     \<lparr>sq_doc_id = ''d'', sq_replicas = 2,
      sq_operations = [\<lparr>oi_node_id = ''n'', oi_key = ''k'', oi_value = nested n, oi_lamport = 1, oi_deletion = False,
        oi_track = OBSERVED, oi_origin = None\<rparr>]\<rparr>"

lemma deep_request_fails:
  assumes "n < 2048" "encodes C (nested n)" "\<not> copies C (nested n)" "le_dump E (nested n) = None"
  shows "valid_simulation (deep_request n) \<and> lab_handle C E (LabSimulate (deep_request n)) = LabCrash RecursionError"
proof
  have chars: "chars_of [c] = [[c]]" if "ord c < 128" for c
    using that by (simp add: chars_of.simps [of "[c]"] chars_of.simps [of "[]"] utf8_next_def [of "[]"])
  show "valid_simulation (deep_request n)"
    by (simp add: valid_simulation_def deep_request_def valid_operation_def text_length_def chars MAX_REPLICAS_def
        MAX_OPERATIONS_def)
  have val: "nested n \<noteq> JNull" by (cases n) simp_all
  have "norm_row C ''d'' 2 0 (dump_operation (hd (sq_operations (deep_request n)))) = Inl RecursionError"
    using assms(1-3) by (simp add: deep_request_def dump_operation_def val norm_row_def unknown_keys_def row_keys_def jget_or_def
      MAX_NODE_ID_BYTES_def MAX_KEY_BYTES_def sample_row_texts ident_shape_def alnum_def MAX_LAMPORT_def finite_bytes_def strict_dumps_def
      MAX_VALUE_BYTES_def make_op_def json_dumps_def)
  from sample_row_error [OF this] have "simulate_scenario C (dump_simulation (deep_request n)) = Inl RecursionError"
    by (simp add: dump_simulation_def deep_request_def)
  then show "lab_handle C E (LabSimulate (deep_request n)) = LabCrash RecursionError"
    using assms(4) by (simp add: simulate_route_def) (simp add: deep_request_def)
qed

end
