(* ===== verification/Command.thy ===== *)
theory Command
  imports Crypto Strict
begin

text \<open>
  \<open>mesh_command/app.py\<close>: validation and deterministic merge of replica snapshots. The types are
  those that pydantic hands to the validators; its coercions of other inputs are left out; the HTTP
  routes are in \<open>CommandApp\<close>. A rejected request is a \<open>ValueError\<close>.
\<close>

section \<open>Requests\<close>

definition MAX_NODES :: nat where "MAX_NODES = 64"
definition MAX_CLOCK_ENTRIES :: nat where "MAX_CLOCK_ENTRIES = 64"
definition MAX_RECORDS_PER_NODE :: nat where "MAX_RECORDS_PER_NODE = 1000"
definition MAX_TOTAL_RECORDS :: nat where "MAX_TOTAL_RECORDS = 4000"
definition MAX_REGISTER_BYTES :: nat where "MAX_REGISTER_BYTES = 16384"

record register =
  rg_key :: string
  rg_value :: json
  rg_logical_time :: int
  rg_writer :: string
  rg_tombstone :: bool

record snap =
  sn_node_id :: string
  sn_clock :: "(string, int) dict"
  sn_registers :: "register list"

record merge_request =
  mr_snapshots :: "snap list"
  mr_include_tombstones :: bool

text \<open>The encoder and the digest; only NaN and infinities are refused.\<close>

definition command_canonical :: "json \<Rightarrow> exn + bytes" where
  "command_canonical v = strict_dumps v"

definition digest :: "('k, 's) crypto \<Rightarrow> json \<Rightarrow> exn + string" where
  "digest C v = bindE (command_canonical v) (\<lambda>b. Inr (sha256_hex C b))"

section \<open>Validation\<close>

definition require :: "bool \<Rightarrow> exn + unit" where
  "require b = (if b then Inr () else Inl ValueError)"

definition valid_values :: "(string, int) dict \<Rightarrow> exn + unit" where
  "valid_values values =
     require (length values \<le> MAX_CLOCK_ENTRIES \<and>
       list_all (\<lambda>(node, counter). ident_shape ''._:-'' 95 node \<and> 0 \<le> counter \<and> counter \<le> 2 ^ 53 - 1) values)"

definition bounded_value :: "json \<Rightarrow> exn + unit" where
  "bounded_value v = bindE (command_canonical v) (\<lambda>b. require (length b \<le> MAX_REGISTER_BYTES))"

definition valid_register :: "register \<Rightarrow> exn + unit" where
  "valid_register r =
     bindE (require (ident_shape ''._:/-'' 127 (rg_key r) \<and> 0 \<le> rg_logical_time r \<and> rg_logical_time r \<le> 2 ^ 53 - 1 \<and>
       ident_shape ''._:-'' 95 (rg_writer r))) (\<lambda>_.
     bounded_value (rg_value r))"

fun each :: "('a \<Rightarrow> exn + unit) \<Rightarrow> 'a list \<Rightarrow> exn + unit" where
  "each f [] = Inr ()"
| "each f (x # xs) = bindE (f x) (\<lambda>_. each f xs)"

definition valid_snapshot :: "snap \<Rightarrow> exn + unit" where
  "valid_snapshot s =
     bindE (require (ident_shape ''._:-'' 95 (sn_node_id s) \<and> length (sn_registers s) \<le> MAX_RECORDS_PER_NODE)) (\<lambda>_.
     bindE (valid_values (sn_clock s)) (\<lambda>_.
     bindE (each valid_register (sn_registers s)) (\<lambda>_.
     require (distinct (map rg_key (sn_registers s))))))"

definition validate_request :: "merge_request \<Rightarrow> exn + unit" where
  "validate_request r =
     bindE (require (1 \<le> length (mr_snapshots r) \<and> length (mr_snapshots r) \<le> MAX_NODES)) (\<lambda>_.
     bindE (each valid_snapshot (mr_snapshots r)) (\<lambda>_.
     require (distinct (map sn_node_id (mr_snapshots r)) \<and>
       sum_list (map (\<lambda>s. length (sn_registers s)) (mr_snapshots r)) \<le> MAX_TOTAL_RECORDS)))"

section \<open>Clocks\<close>

definition clock_get :: "(string, int) dict \<Rightarrow> string \<Rightarrow> int" where
  "clock_get c n = (case map_of c n of None \<Rightarrow> 0 | Some v \<Rightarrow> v)"

datatype relation = Before | After | Equal | Concurrent

definition compare_clocks :: "(string, int) dict \<Rightarrow> (string, int) dict \<Rightarrow> relation" where
  "compare_clocks l r =
     (let names = map fst l @ map fst r;
          le = list_all (\<lambda>n. clock_get l n \<le> clock_get r n) names;
          ge = list_all (\<lambda>n. clock_get r n \<le> clock_get l n) names in
      if le \<and> ge then Equal else if le then Before else if ge then After else Concurrent)"

definition raise_clock :: "string \<times> int \<Rightarrow> (string, int) dict \<Rightarrow> (string, int) dict" where
  "raise_clock entry merged = (case entry of (node, counter) \<Rightarrow> put node (max (clock_get merged node) counter) merged)"

definition merge_clock :: "snap list \<Rightarrow> (string, int) dict" where
  "merge_clock snaps = sort_key fst (fold (\<lambda>s. fold raise_clock (sn_clock s)) snaps [])"

section \<open>Merging\<close>

definition winner_key :: "('k, 's) crypto \<Rightarrow> register \<Rightarrow> exn + int \<times> string \<times> string \<times> bool" where
  "winner_key C r =
     bindE (digest C (rg_value r)) (\<lambda>h. Inr (rg_logical_time r, rg_writer r, h, rg_tombstone r))"

type_synonym grouped = "(string, (string \<times> register) list) dict"

definition group_one :: "string \<Rightarrow> register \<Rightarrow> grouped \<Rightarrow> grouped" where
  "group_one node r g =
     put (rg_key r) ((case map_of g (rg_key r) of None \<Rightarrow> [] | Some xs \<Rightarrow> xs) @ [(node, r)]) g"

definition group_registers :: "snap list \<Rightarrow> grouped" where
  "group_registers snaps = fold (\<lambda>s. fold (group_one (sn_node_id s)) (sn_registers s)) snaps []"

definition register_fields :: "register \<Rightarrow> (string \<times> json) list" where
  "register_fields r =
     [(''key'', JStr (rg_key r)), (''value'', rg_value r), (''logical_time'', JInt (rg_logical_time r)),
      (''writer'', JStr (rg_writer r)), (''tombstone'', JBool (rg_tombstone r))]"

definition conflict_json :: "string \<Rightarrow> (string \<times> register) list \<Rightarrow> string \<times> register \<Rightarrow> json" where
  "conflict_json key cands winner = JObj
     [(''key'', JStr key), (''candidate_count'', JInt (int (length cands))),
      (''candidate_nodes'', JList (map JStr (sort (map fst cands)))), (''selected_writer'', JStr (rg_writer (snd winner))),
      (''selected_node'', JStr (fst winner)), (''resolution'', JStr ''DETERMINISTIC_LWW_REGISTER'')]"

text \<open>\<open>max(candidates, key=...)\<close>: the candidates are paired with their keys.\<close>

definition select_winner :: "('k, 's) crypto \<Rightarrow> (string \<times> register) list \<Rightarrow> exn + string \<times> register" where
  "select_winner C cands =
     bindE (mapE (\<lambda>x. bindE (winner_key C (snd x)) (\<lambda>k. Inr (k, x))) cands) (\<lambda>keyed.
     case keyed of [] \<Rightarrow> Inl ValueError | p # ps \<Rightarrow> Inr (snd (max_from fst p ps)))"

text \<open>What one key adds to the registers and to the conflicts.\<close>

definition merge_key ::
  "('k, 's) crypto \<Rightarrow> bool \<Rightarrow> string \<times> (string \<times> register) list \<Rightarrow> exn + json list \<times> json list" where
  "merge_key C include_tombstones keyed_group =
     (case keyed_group of (key, cands) \<Rightarrow>
        bindE (select_winner C cands) (\<lambda>winner.
        bindE (mapE (\<lambda>(_, r). digest C (JObj (register_fields r))) cands) (\<lambda>hashes.
        let conflicts = (if 1 < length (remdups hashes) then [conflict_json key cands winner] else []) in
        if \<not> rg_tombstone (snd winner) \<or> include_tombstones then
          bindE (digest C (rg_value (snd winner))) (\<lambda>h.
          Inr ([JObj (register_fields (snd winner) @ [(''selected_from_node'', JStr (fst winner)), (''value_sha256'', JStr h)])],
               conflicts))
        else Inr ([], conflicts))))"

fun relation_text :: "relation \<Rightarrow> string" where
  "relation_text Before = ''before''"
| "relation_text After = ''after''"
| "relation_text Equal = ''equal''"
| "relation_text Concurrent = ''concurrent''"

fun clock_relations :: "snap list \<Rightarrow> json list" where
  "clock_relations [] = []"
| "clock_relations (l # rest) =
     map (\<lambda>r. JObj [(''left'', JStr (sn_node_id l)), (''right'', JStr (sn_node_id r)),
        (''relation'', JStr (relation_text (compare_clocks (sn_clock l) (sn_clock r))))]) rest @ clock_relations rest"

definition clock_json :: "(string, int) dict \<Rightarrow> json" where
  "clock_json c = JObj (map (\<lambda>(n, i). (n, JInt i)) c)"

definition merge_body :: "('k, 's) crypto \<Rightarrow> merge_request \<Rightarrow> exn + json" where
  "merge_body C request =
     (let snaps = sort_key sn_node_id (mr_snapshots request) in
      bindE (mapE (merge_key C (mr_include_tombstones request)) (sort_key fst (group_registers snaps))) (\<lambda>parts.
      Inr (JObj
        [(''schema'', JStr ''szl.mesh-convergence-receipt/v1''), (''algorithm'', JStr ''deterministic-lww-register-v1''),
         (''nodes'', JList (map (\<lambda>s. JStr (sn_node_id s)) snaps)), (''merged_clock'', clock_json (merge_clock snaps)),
         (''registers'', JList (concat (map fst parts))), (''conflicts'', JList (concat (map snd parts))),
         (''clock_relations'', JList (clock_relations snaps)), (''input_state'', JStr ''OPERATOR_SUPPLIED''),
         (''network_state'', JStr ''NOT_ACCESSED''), (''execution_authority'', JBool False)])))"

definition request_json :: "merge_request \<Rightarrow> json" where
  "request_json request = JObj
     [(''snapshots'', JList (map (\<lambda>s. JObj [(''node_id'', JStr (sn_node_id s)),
        (''clock'', JObj [(''values'', clock_json (sn_clock s))]),
        (''registers'', JList (map (\<lambda>r. JObj (register_fields r)) (sn_registers s)))]) (mr_snapshots request))),
      (''include_tombstones'', JBool (mr_include_tombstones request))]"

fun members :: "json \<Rightarrow> (string \<times> json) list" where
  "members (JObj kvs) = kvs"
| "members _ = []"

definition merge_snapshots :: "('k, 's) crypto \<Rightarrow> merge_request \<Rightarrow> exn + json" where
  "merge_snapshots C request =
     bindE (merge_body C request) (\<lambda>body.
     bindE (digest C (request_json request)) (\<lambda>input_digest.
     bindE (digest C body) (\<lambda>output_digest.
     bindE (command_canonical body) (\<lambda>bytes.
     Inr (JObj (members body @ [(''receipt'', JObj
        [(''algorithm'', JStr ''sha256''), (''input_digest'', JStr input_digest), (''output_digest'', JStr output_digest),
         (''canonical_output_bytes'', JInt (int (length bytes)))])]))))))"

section \<open>Validated requests\<close>

lemma require_iff [simp]: "require b = Inr () \<longleftrightarrow> b"
  by (simp add: require_def)

lemma bind_unit: "bindE m (\<lambda>_. n) = Inr () \<longleftrightarrow> (\<exists>x. m = Inr x) \<and> n = Inr ()"
  by (cases m) auto

lemma bind_unit_unit: "bindE (m :: exn + unit) (\<lambda>_. n) = Inr () \<longleftrightarrow> m = Inr () \<and> n = Inr ()"
  by (cases m) auto

lemma each_iff: "each f xs = Inr () \<longleftrightarrow> (\<forall>x \<in> set xs. f x = Inr ())"
  by (induction xs) (auto simp: bind_unit_unit)

text \<open>What the proofs need of a validated snapshot; a Python dictionary has no repeated keys.\<close>

definition snap_ok :: "snap \<Rightarrow> bool" where
  "snap_ok s \<longleftrightarrow> dict_ok (sn_clock s) \<and> (\<forall>(n, c) \<in> set (sn_clock s). 0 \<le> c) \<and>
     distinct (map rg_key (sn_registers s)) \<and> (\<forall>r \<in> set (sn_registers s). finite_json (rg_value r))"

lemma valid_snap_ok: "valid_snapshot s = Inr () \<Longrightarrow> dict_ok (sn_clock s) \<Longrightarrow> snap_ok s"
  by (auto simp: valid_snapshot_def bind_unit_unit each_iff valid_values_def list_all_iff snap_ok_def valid_register_def
      bounded_value_def command_canonical_def strict_dumps_def split: if_splits)

lemma valid_request_ok:
  assumes "validate_request r = Inr ()" "\<forall>s \<in> set (mr_snapshots r). dict_ok (sn_clock s)"
  shows "\<forall>s \<in> set (mr_snapshots r). snap_ok s" "distinct (map sn_node_id (mr_snapshots r))" "mr_snapshots r \<noteq> []"
  using assms valid_snap_ok by (auto simp: validate_request_def bind_unit_unit each_iff)

lemma digest_finite: "finite_json v \<Longrightarrow> digest C v = Inr (sha256_hex C (json_dumps False v))"
  by (simp add: digest_def command_canonical_def strict_dumps_def)

section \<open>Clocks\<close>

lemma compare_clocks_simps:
  "compare_clocks l r = Equal \<longleftrightarrow> (\<forall>n. clock_get l n = clock_get r n)"
  "compare_clocks l r \<in> {Before, Equal} \<longleftrightarrow> (\<forall>n. clock_get l n \<le> clock_get r n)"
  "compare_clocks l r = After \<longleftrightarrow> (\<forall>n. clock_get r n \<le> clock_get l n) \<and> \<not> (\<forall>n. clock_get l n \<le> clock_get r n)"
proof -
  have all: "list_all P (map fst l @ map fst r) \<longleftrightarrow> (\<forall>n. P n)"
    if "\<And>n. map_of l n = None \<Longrightarrow> map_of r n = None \<Longrightarrow> P n" for P
    using that by (auto simp: list_all_iff map_of_eq_None_iff)
  have le: "list_all (\<lambda>n. clock_get l n \<le> clock_get r n) (map fst l @ map fst r) \<longleftrightarrow> (\<forall>n. clock_get l n \<le> clock_get r n)"
    by (rule all) (simp add: clock_get_def)
  have ge: "list_all (\<lambda>n. clock_get r n \<le> clock_get l n) (map fst l @ map fst r) \<longleftrightarrow> (\<forall>n. clock_get r n \<le> clock_get l n)"
    by (rule all) (simp add: clock_get_def)
  show "compare_clocks l r = Equal \<longleftrightarrow> (\<forall>n. clock_get l n = clock_get r n)"
    "compare_clocks l r \<in> {Before, Equal} \<longleftrightarrow> (\<forall>n. clock_get l n \<le> clock_get r n)"
    "compare_clocks l r = After \<longleftrightarrow> (\<forall>n. clock_get r n \<le> clock_get l n) \<and> \<not> (\<forall>n. clock_get l n \<le> clock_get r n)"
    unfolding compare_clocks_def Let_def le ge by (auto intro: order_antisym simp: order_eq_iff)
qed

lemma compare_clocks_cong:
  assumes "map_of l = map_of l'" "map_of r = map_of r'"
  shows "compare_clocks l r = compare_clocks l' r'"
proof -
  have g: "clock_get l = clock_get l'" "clock_get r = clock_get r'"
    by (simp_all add: clock_get_def fun_eq_iff assms)
  have names: "set (map fst l @ map fst r) = set (map fst l' @ map fst r')"
    using assms by (metis dom_map_of_conv_image_fst list.set_map set_append)
  show ?thesis unfolding compare_clocks_def Let_def list_all_iff g names ..
qed

lemma fold_raise:
  assumes "dict_ok d"
  shows "map_of (fold raise_clock d m) n =
    (case map_of d n of None \<Rightarrow> map_of m n | Some c \<Rightarrow> Some (max (clock_get m n) c))"
  using assms
proof (induction d arbitrary: m)
  case (Cons a d)
  obtain k c where a: "a = (k, c)" by (cases a)
  have none: "map_of d k = None" and ok: "dict_ok d" using Cons.prems by (simp_all add: a map_of_eq_None_iff)
  have get: "clock_get (raise_clock (k, c) m) n = (if n = k then max (clock_get m k) c else clock_get m n)"
    "map_of (raise_clock (k, c) m) n = (if n = k then Some (max (clock_get m k) c) else map_of m n)"
    by (simp_all add: raise_clock_def clock_get_def)
  show ?case
  proof (cases "n = k")
    case True
    then show ?thesis using Cons.IH [OF ok, of "raise_clock (k, c) m"] none get(2) by (simp add: a)
  next
    case False
    then show ?thesis using Cons.IH [OF ok, of "raise_clock (k, c) m"] get by (cases "map_of d n") (simp_all add: a)
  qed
qed simp

lemma fold_raise_ok: "dict_ok m \<Longrightarrow> dict_ok (fold raise_clock d m)"
  by (induction d arbitrary: m) (auto simp: raise_clock_def split: prod.split)

lemma fold_snaps_ok: "dict_ok m \<Longrightarrow> dict_ok (fold (\<lambda>s. fold raise_clock (sn_clock s)) ss m)"
  by (induction ss arbitrary: m) (auto simp: fold_raise_ok)

text \<open>Sorting a dictionary by its keys.\<close>

lemma map_of_sort: "dict_ok d \<Longrightarrow> map_of (sort_key fst d) = map_of d"
  by (rule dict_perm(2) [symmetric]) simp_all

lemma sort_dict_eq: "dict_ok d \<Longrightarrow> dict_ok e \<Longrightarrow> map_of d = map_of e \<Longrightarrow> sort_key fst d = sort_key fst e"
  by (intro sort_key_mset_eq dict_mset_eqI) (simp_all add: distinct_map)

lemma Max_insert_max: "finite A \<Longrightarrow> Max (insert (max a b) A) = max a (Max (insert b A))"
  by (cases "A = {}") (simp_all add: max.assoc)

lemma clock_get_snaps:
  assumes "\<forall>s \<in> set ss. snap_ok s" "\<forall>n. 0 \<le> clock_get m n"
  shows "clock_get (fold (\<lambda>s. fold raise_clock (sn_clock s)) ss m) n =
    Max (insert (clock_get m n) ((\<lambda>s. clock_get (sn_clock s) n) ` set ss))"
  using assms
proof (induction ss arbitrary: m)
  case (Cons s ss)
  let ?m = "fold raise_clock (sn_clock s) m"
  have ok: "dict_ok (sn_clock s)" "\<forall>(k, c) \<in> set (sn_clock s). 0 \<le> c" using Cons.prems(1) by (simp_all add: snap_ok_def)
  have step: "clock_get ?m k = max (clock_get m k) (clock_get (sn_clock s) k)" for k
  proof (cases "map_of (sn_clock s) k")
    case None
    then show ?thesis using Cons.prems(2) by (simp add: clock_get_def fold_raise [OF ok(1)])
  next
    case (Some c)
    then show ?thesis by (simp add: clock_get_def fold_raise [OF ok(1)])
  qed
  have "\<forall>k. 0 \<le> clock_get ?m k" using Cons.prems(2) by (auto simp: step le_max_iff_disj)
  from Cons.IH [OF _ this] Cons.prems(1) show ?case
    by (simp add: step Max_insert_max)
qed simp

section \<open>Groups\<close>

text \<open>The candidates for a key, in the order of the snapshots.\<close>

definition wrote :: "string \<Rightarrow> snap \<Rightarrow> (string \<times> register) list" where
  "wrote k s = map (Pair (sn_node_id s)) (filter (\<lambda>r. rg_key r = k) (sn_registers s))"

definition cands :: "snap list \<Rightarrow> string \<Rightarrow> (string \<times> register) list" where
  "cands ss k = concat (map (wrote k) ss)"

definition filed_under :: "grouped \<Rightarrow> string \<Rightarrow> (string \<times> register) list" where
  "filed_under g k = (case map_of g k of None \<Rightarrow> [] | Some xs \<Rightarrow> xs)"

definition grouped_ok :: "grouped \<Rightarrow> bool" where
  "grouped_ok g \<longleftrightarrow> dict_ok g \<and> (\<forall>k. map_of g k \<noteq> Some [])"

lemma group_one_filed:
  "filed_under (group_one n r g) k = (if k = rg_key r then filed_under g k @ [(n, r)] else filed_under g k)"
  by (simp add: filed_under_def group_one_def)

lemma group_one_ok: "grouped_ok g \<Longrightarrow> grouped_ok (group_one n r g)"
  by (auto simp: grouped_ok_def group_one_def)

lemma fold_group_one:
  "filed_under (fold (group_one n) rs g) k = filed_under g k @ map (Pair n) (filter (\<lambda>r. rg_key r = k) rs)"
  "grouped_ok g \<Longrightarrow> grouped_ok (fold (group_one n) rs g)"
  by (induction rs arbitrary: g) (auto simp: group_one_filed group_one_ok)

lemma fold_group:
  "filed_under (fold (\<lambda>s. fold (group_one (sn_node_id s)) (sn_registers s)) ss g) k = filed_under g k @ cands ss k"
  "grouped_ok g \<Longrightarrow> grouped_ok (fold (\<lambda>s. fold (group_one (sn_node_id s)) (sn_registers s)) ss g)"
  by (induction ss arbitrary: g) (auto simp: fold_group_one cands_def wrote_def)

lemma group_registers_facts:
  "grouped_ok (group_registers ss)"
  "map_of (group_registers ss) k = (if cands ss k = [] then None else Some (cands ss k))"
proof -
  show ok: "grouped_ok (group_registers ss)"
    unfolding group_registers_def by (rule fold_group(2)) (simp add: grouped_ok_def)
  have "filed_under (group_registers ss) k = cands ss k"
    unfolding group_registers_def fold_group(1) by (simp add: filed_under_def)
  with ok show "map_of (group_registers ss) k = (if cands ss k = [] then None else Some (cands ss k))"
    unfolding grouped_ok_def filed_under_def by (cases "map_of (group_registers ss) k") auto
qed

lemma sorted_groups_eq:
  assumes "\<And>k. cands ss k = cands ss' k"
  shows "sort_key fst (group_registers ss) = sort_key fst (group_registers ss')"
proof (rule sort_dict_eq)
  show "dict_ok (group_registers ss)" "dict_ok (group_registers ss')"
    using group_registers_facts(1) by (simp_all add: grouped_ok_def)
  show "map_of (group_registers ss) = map_of (group_registers ss')"
    by (simp add: fun_eq_iff group_registers_facts(2) assms)
qed

section \<open>Independence of the arrival order\<close>

text \<open>What a snapshot says, without the order of its entries.\<close>

definition says :: "snap \<Rightarrow> string \<times> (string \<rightharpoonup> int) \<times> register set" where
  "says s = (sn_node_id s, map_of (sn_clock s), set (sn_registers s))"

lemma filter_one: "distinct (map f xs) \<Longrightarrow> length (filter (\<lambda>x. f x = k) xs) \<le> 1"
  by (induction xs) (auto simp: filter_empty_conv image_iff)

lemma unique_filter:
  assumes "distinct (map f xs)" "distinct (map f ys)" "set xs = set ys"
  shows "filter (\<lambda>x. f x = k) xs = filter (\<lambda>x. f x = k) ys"
proof -
  have "distinct xs" "distinct ys" using assms(1,2) by (simp_all add: distinct_map)
  then have "mset xs = mset ys" using assms(3) by (simp add: set_eq_iff_mset_eq_distinct)
  then have m: "mset (filter (\<lambda>x. f x = k) xs) = mset (filter (\<lambda>x. f x = k) ys)" by (simp add: mset_filter)
  show ?thesis
  proof (cases "filter (\<lambda>x. f x = k) xs")
    case Nil
    with m show ?thesis by simp
  next
    case (Cons x r)
    with filter_one [OF assms(1), of k] have "r = []" by simp
    with Cons m show ?thesis by (metis mset.simps mset_single_iff)
  qed
qed

lemma says_same:
  assumes "snap_ok s" "snap_ok t" "says s = says t"
  shows "sn_node_id s = sn_node_id t" "map_of (sn_clock s) = map_of (sn_clock t)" "wrote k s = wrote k t"
proof -
  show "sn_node_id s = sn_node_id t" "map_of (sn_clock s) = map_of (sn_clock t)" using assms(3) by (simp_all add: says_def)
  have "filter (\<lambda>r. rg_key r = k) (sn_registers s) = filter (\<lambda>r. rg_key r = k) (sn_registers t)"
    by (rule unique_filter) (use assms in \<open>simp_all add: snap_ok_def says_def\<close>)
  then show "wrote k s = wrote k t" using assms(3) by (simp add: wrote_def says_def)
qed

definition agree :: "snap \<Rightarrow> snap \<Rightarrow> bool" where
  "agree s t \<longleftrightarrow> snap_ok s \<and> snap_ok t \<and> says s = says t"

lemma agree_cands: "list_all2 agree ss ts \<Longrightarrow> cands ss k = cands ts k"
  unfolding cands_def by (induction rule: list_all2_induct) (auto simp: agree_def says_same(3))

lemma agree_merge_clock:
  assumes "list_all2 agree ss ts"
  shows "merge_clock ss = merge_clock ts"
proof -
  have "map_of (fold (\<lambda>s. fold raise_clock (sn_clock s)) ss m) = map_of (fold (\<lambda>s. fold raise_clock (sn_clock s)) ts m')"
    if "map_of m = map_of m'" for m m'
    using assms that
  proof (induction arbitrary: m m' rule: list_all2_induct)
    case (Cons s ss t ts)
    have s: "dict_ok (sn_clock s)" "dict_ok (sn_clock t)" "map_of (sn_clock s) = map_of (sn_clock t)"
      using Cons.hyps(1) says_same(2) by (auto simp: agree_def snap_ok_def)
    have "clock_get m = clock_get m'" using Cons.prems by (simp add: clock_get_def fun_eq_iff)
    then have "map_of (fold raise_clock (sn_clock s) m) = map_of (fold raise_clock (sn_clock t) m')"
      by (intro ext) (simp only: fold_raise [OF s(1)] fold_raise [OF s(2)] s(3) Cons.prems)
    from Cons.IH [OF this] show ?case by simp
  qed simp
  from this [of "[]" "[]"] show ?thesis
    unfolding merge_clock_def by (intro sort_dict_eq fold_snaps_ok) simp_all
qed

lemma agree_relations: "list_all2 agree ss ts \<Longrightarrow> clock_relations ss = clock_relations ts"
proof (induction rule: list_all2_induct)
  case (Cons s ss t ts)
  have rel: "compare_clocks (sn_clock s) (sn_clock x) = compare_clocks (sn_clock t) (sn_clock y)" if "agree x y" for x y
    using Cons.hyps(1) that says_same(2) compare_clocks_cong by (meson agree_def)
  have nid: "sn_node_id x = sn_node_id y" if "agree x y" for x y using that by (simp add: agree_def says_def)
  let ?f = "\<lambda>l r. JObj [(''left'', JStr (sn_node_id l)), (''right'', JStr (sn_node_id r)),
        (''relation'', JStr (relation_text (compare_clocks (sn_clock l) (sn_clock r))))]"
  have "map (?f s) ss = map (?f t) ts"
    using Cons.hyps(2) by (induction rule: list_all2_induct) (simp_all add: rel nid [OF Cons.hyps(1)] nid)
  with Cons.IH show ?case by simp
qed simp

lemma agree_body:
  assumes "list_all2 agree (sort_key sn_node_id (mr_snapshots r)) (sort_key sn_node_id (mr_snapshots r'))"
    and "mr_include_tombstones r = mr_include_tombstones r'"
  shows "merge_body C r = merge_body C r'"
proof -
  let ?ss = "sort_key sn_node_id (mr_snapshots r)" and ?ts = "sort_key sn_node_id (mr_snapshots r')"
  have "map (\<lambda>s. JStr (sn_node_id s)) ?ss = map (\<lambda>s. JStr (sn_node_id s)) ?ts"
    using assms(1) by (induction rule: list_all2_induct) (auto simp: agree_def says_def)
  then show ?thesis
    unfolding merge_body_def Let_def agree_merge_clock [OF assms(1)] agree_relations [OF assms(1)]
      sorted_groups_eq [OF agree_cands [OF assms(1)]] assms(2) by simp
qed

lemma sorted_agree:
  assumes "mset (map says ss) = mset (map says ts)" "\<forall>s \<in> set ss. snap_ok s" "\<forall>t \<in> set ts. snap_ok t"
    and "distinct (map sn_node_id ss)"
  shows "list_all2 agree (sort_key sn_node_id ss) (sort_key sn_node_id ts)"
proof -
  let ?ss = "sort_key sn_node_id ss" and ?ts = "sort_key sn_node_id ts"
  have ins: "map says (insort_key sn_node_id x xs) = insort_key fst (says x) (map says xs)" for x xs
    by (induction xs) (auto simp: says_def)
  have sort: "map says (sort_key sn_node_id xs) = sort_key fst (map says xs)" for xs
    by (induction xs) (simp_all add: ins)
  have "map fst (map says ss) = map sn_node_id ss" by (simp add: says_def)
  with assms(4) have "distinct (map fst (map says ss))" by metis
  then have "inj_on fst (set (map says ss))" unfolding distinct_map by blast
  with assms(1) have same: "map says ?ss = map says ?ts" unfolding sort by (intro sort_key_mset_eq)
  then have len: "length ?ss = length ?ts" by (rule map_eq_imp_length_eq)
  show ?thesis
  proof (rule list_all2_all_nthI [OF len])
    fix i
    assume i: "i < length ?ss"
    then have "says (?ss ! i) = says (?ts ! i)" using same len by (metis nth_map)
    moreover have "?ss ! i \<in> set ss" "?ts ! i \<in> set ts" using i len nth_mem by (metis set_sort)+
    ultimately show "agree (?ss ! i) (?ts ! i)" using assms(2,3) by (simp add: agree_def)
  qed
qed

section \<open>The winners\<close>

text \<open>The key of a register whose value is finite.\<close>

definition rank :: "('k, 's) crypto \<Rightarrow> register \<Rightarrow> int \<times> string \<times> string \<times> bool" where
  "rank C r = (rg_logical_time r, rg_writer r, sha256_hex C (json_dumps False (rg_value r)), rg_tombstone r)"

lemma winner_key_rank: "finite_json (rg_value r) \<Longrightarrow> winner_key C r = Inr (rank C r)"
  by (simp add: winner_key_def rank_def digest_finite)

text \<open>\<open>max\<close> keeps the first candidate of greatest rank.\<close>

definition best :: "('k, 's) crypto \<Rightarrow> (string \<times> register) list \<Rightarrow> string \<times> register" where
  "best C xs = snd (max_from fst (rank C (snd (hd xs)), hd xs) (map (\<lambda>x. (rank C (snd x), x)) (tl xs)))"

lemma select_best:
  assumes "xs \<noteq> []" "\<forall>x \<in> set xs. finite_json (rg_value (snd x))"
  shows "select_winner C xs = Inr (best C xs)"
proof -
  have "mapE (\<lambda>x. bindE (winner_key C (snd x)) (\<lambda>k. Inr (k, x))) xs = Inr (map (\<lambda>x. (rank C (snd x), x)) xs)"
    by (rule mapE_Inr) (use assms(2) in \<open>simp add: winner_key_rank\<close>)
  with assms(1) show ?thesis by (cases xs) (simp_all add: select_winner_def best_def)
qed

lemma max_from_least:
  fixes g :: "'a \<Rightarrow> 'b::linorder"
  assumes "sorted_wrt (\<lambda>a b. g a < g b) (c # xs)" "x \<in> set (c # xs)"
  shows "f x < f (max_from f c xs) \<or> f x = f (max_from f c xs) \<and> g (max_from f c xs) \<le> g x"
  using assms
proof (induction xs arbitrary: c x)
  case (Cons y ys)
  let ?c = "if f c < f y then y else c"
  let ?m = "max_from f ?c ys"
  have "sorted_wrt (\<lambda>a b. g a < g b) (?c # ys)" using Cons.prems(1) by auto
  note IH = Cons.IH [OF this]
  have m: "max_from f c (y # ys) = ?m" by simp
  consider "x \<in> set (?c # ys)" | "f c < f y" "x = c" | "\<not> f c < f y" "x = y"
    using Cons.prems(2) by (cases "f c < f y") auto
  then have "f x < f ?m \<or> f x = f ?m \<and> g ?m \<le> g x"
  proof cases
    case 1
    then show ?thesis by (rule IH)
  next
    case 2
    then show ?thesis using IH [of y] by auto
  next
    case 3
    have "g c < g y" using Cons.prems(1) by simp
    then show ?thesis using IH [of c] 3 by auto
  qed
  then show ?case unfolding m .
qed simp

lemma best_least:
  assumes "xs \<noteq> []" "sorted_wrt (\<lambda>a b. fst a < fst b) xs"
  shows "best C xs \<in> set xs" (is ?in)
    and "x \<in> set xs \<Longrightarrow> rank C (snd x) < rank C (snd (best C xs)) \<or>
      rank C (snd x) = rank C (snd (best C xs)) \<and> fst (best C xs) \<le> fst x"
proof -
  obtain c cs where xs: "xs = c # cs" using assms(1) by (cases xs) auto
  let ?p = "\<lambda>x. (rank C (snd x), x)"
  let ?m = "max_from fst (?p c) (map ?p cs)"
  have m: "?m \<in> set (map ?p xs)" using max_from_in [of fst "?p c" "map ?p cs"] by (simp add: xs)
  have b: "best C xs = snd ?m" by (simp add: best_def xs)
  from m show ?in unfolding b by auto
  have r: "rank C (snd (snd ?m)) = fst ?m" using m by auto
  assume x: "x \<in> set xs"
  have "sorted_wrt (\<lambda>a b. fst (snd a) < fst (snd b)) (?p c # map ?p cs)"
    using assms(2) by (simp add: xs sorted_wrt_map)
  from max_from_least [OF this, of "?p x" fst] x
  show "rank C (snd x) < rank C (snd (best C xs)) \<or>
      rank C (snd x) = rank C (snd (best C xs)) \<and> fst (best C xs) \<le> fst x"
    unfolding b r by (auto simp: xs)
qed

definition shown_entry :: "('k, 's) crypto \<Rightarrow> string \<times> register \<Rightarrow> json" where
  "shown_entry C w = JObj (register_fields (snd w) @
     [(''selected_from_node'', JStr (fst w)), (''value_sha256'', JStr (sha256_hex C (json_dumps False (rg_value (snd w)))))])"

lemma merge_key_result:
  assumes "xs \<noteq> []" "\<forall>x \<in> set xs. finite_json (rg_value (snd x))" "sorted_wrt (\<lambda>a b. fst a < fst b) xs"
  shows "\<exists>confs. merge_key C inc (k, xs) =
      Inr (if \<not> rg_tombstone (snd (best C xs)) \<or> inc then [shown_entry C (best C xs)] else [], confs) \<and>
    (\<forall>x \<in> set confs. finite_json x)"
proof -
  have hashes: "mapE (\<lambda>(_, r). digest C (JObj (register_fields r))) xs =
      Inr (map (\<lambda>x. sha256_hex C (json_dumps False (JObj (register_fields (snd x))))) xs)"
    by (rule mapE_Inr) (use assms(2) in \<open>auto simp: register_fields_def digest_finite\<close>)
  have "finite_json (rg_value (snd (best C xs)))" using best_least(1) [OF assms(1,3)] assms(2) by blast
  then show ?thesis
    by (auto simp: merge_key_def select_best [OF assms(1,2)] hashes Let_def shown_entry_def digest_finite conflict_json_def)
qed

lemma cands_in:
  "(n, r) \<in> set (cands ss k) \<longleftrightarrow> (\<exists>s \<in> set ss. sn_node_id s = n \<and> r \<in> set (sn_registers s) \<and> rg_key r = k)"
  by (auto simp: cands_def wrote_def)

lemma wrote_one:
  assumes "snap_ok s"
  shows "wrote k s = [] \<or> (\<exists>r. wrote k s = [(sn_node_id s, r)])"
proof -
  have "distinct (map rg_key (sn_registers s))" using assms by (simp add: snap_ok_def)
  from filter_one [OF this, of k] show ?thesis by (cases "filter (\<lambda>r. rg_key r = k) (sn_registers s)") (auto simp: wrote_def)
qed

lemma cands_sorted:
  assumes "sorted_wrt (<) (map sn_node_id ss)" "\<forall>s \<in> set ss. snap_ok s"
  shows "sorted_wrt (\<lambda>a b. fst a < fst b) (cands ss k)"
  using assms
proof (induction ss)
  case (Cons s ss)
  have "\<forall>b \<in> set (cands ss k). sn_node_id s < fst b" using Cons.prems(1) by (auto simp: cands_def wrote_def)
  moreover have "cands (s # ss) k = wrote k s @ cands ss k" by (simp add: cands_def)
  moreover have "sorted_wrt (\<lambda>a b. fst a < fst b) (cands ss k)" using Cons by simp
  ultimately show ?case using wrote_one [of s k] Cons.prems(2) by auto
qed (simp add: cands_def)

lemma sorted_nodes:
  assumes "distinct (map sn_node_id ss)"
  shows "sorted_wrt (<) (map sn_node_id (sort_key sn_node_id ss))"
proof -
  have "mset (map sn_node_id (sort_key sn_node_id ss)) = mset (map sn_node_id ss)" by simp
  then have "distinct (map sn_node_id (sort_key sn_node_id ss))" using assms by (metis mset_eq_imp_distinct_iff)
  then show ?thesis using strict_sorted_iff sorted_sort_key by blast
qed


definition shown :: "('k, 's) crypto \<Rightarrow> merge_request \<Rightarrow> (string \<times> register) list" where
  "shown C request =
     filter (\<lambda>w. \<not> rg_tombstone (snd w) \<or> mr_include_tombstones request)
       (map (\<lambda>(k, xs). best C xs) (sort_key fst (group_registers (sort_key sn_node_id (mr_snapshots request)))))"

lemma groups_of:
  assumes "\<forall>s \<in> set ss. snap_ok s" "sorted_wrt (<) (map sn_node_id ss)"
    and "(k, xs) \<in> set (sort_key fst (group_registers ss))"
  shows "xs = cands ss k" "xs \<noteq> []" "sorted_wrt (\<lambda>a b. fst a < fst b) xs"
    "\<forall>x \<in> set xs. finite_json (rg_value (snd x)) \<and> rg_key (snd x) = k"
proof -
  have "map_of (group_registers ss) k = Some xs"
    using assms(3) group_registers_facts(1) [of ss] by (simp add: grouped_ok_def)
  then show xs: "xs = cands ss k" "xs \<noteq> []" by (auto simp: group_registers_facts(2) split: if_splits)
  show "sorted_wrt (\<lambda>a b. fst a < fst b) xs" unfolding xs(1) by (rule cands_sorted [OF assms(2,1)])
  show "\<forall>x \<in> set xs. finite_json (rg_value (snd x)) \<and> rg_key (snd x) = k"
  proof
    fix x
    assume "x \<in> set xs"
    then obtain s where "s \<in> set ss" "snd x \<in> set (sn_registers s)" "rg_key (snd x) = k"
      using cands_in [of "fst x" "snd x" ss k] by (auto simp: xs(1))
    then show "finite_json (rg_value (snd x)) \<and> rg_key (snd x) = k" using assms(1) by (auto simp: snap_ok_def)
  qed
qed

lemma mapE_exists:
  assumes "\<forall>x \<in> set xs. \<exists>c. f x = Inr (g x, c) \<and> P c"
  shows "\<exists>cs. mapE f xs = Inr (map2 Pair (map g xs) cs) \<and> length cs = length xs \<and> (\<forall>c \<in> set cs. P c)"
  using assms
proof (induction xs)
  case (Cons x xs)
  then obtain c cs where "f x = Inr (g x, c)" "P c" "mapE f xs = Inr (map2 Pair (map g xs) cs)"
    "length cs = length xs" "\<forall>c \<in> set cs. P c" by auto
  then show ?case by (intro exI [of _ "c # cs"]) simp
qed simp

lemma merge_parts:
  assumes "\<forall>s \<in> set ss. snap_ok s" "sorted_wrt (<) (map sn_node_id ss)"
  shows "\<exists>cs. mapE (merge_key C inc) (sort_key fst (group_registers ss)) =
      Inr (map2 Pair (map (\<lambda>(k, xs). if \<not> rg_tombstone (snd (best C xs)) \<or> inc then [shown_entry C (best C xs)] else [])
        (sort_key fst (group_registers ss))) cs) \<and> length cs = length (sort_key fst (group_registers ss)) \<and>
    (\<forall>c \<in> set cs. \<forall>x \<in> set c. finite_json x)"
proof (rule mapE_exists, rule ballI)
  fix p
  assume p_in: "p \<in> set (sort_key fst (group_registers ss))"
  obtain k xs where p: "p = (k, xs)" by (cases p)
  note g = groups_of [OF assms p_in [unfolded p]]
  from merge_key_result [OF g(2) _ g(3), of C inc k] g(4)
  show "\<exists>c. merge_key C inc p =
      Inr ((case p of (k, xs) \<Rightarrow> if \<not> rg_tombstone (snd (best C xs)) \<or> inc then [shown_entry C (best C xs)] else []), c) \<and>
    (\<forall>x \<in> set c. finite_json x)"
    by (auto simp: p)
qed

lemma concat_parts: "length cs = length xs \<Longrightarrow> concat (map fst (map2 Pair xs cs)) = concat xs"
  "length cs = length xs \<Longrightarrow> map snd (map2 Pair xs cs) = cs"
  by simp_all

lemma merge_body_result:
  assumes "validate_request request = Inr ()" "\<forall>s \<in> set (mr_snapshots request). dict_ok (sn_clock s)"
  shows "\<exists>body. merge_body C request = Inr body \<and> finite_json body \<and>
    jget body ''registers'' = Some (JList (map (shown_entry C) (shown C request))) \<and>
    jget body ''merged_clock'' = Some (clock_json (merge_clock (sort_key sn_node_id (mr_snapshots request)))) \<and>
    (\<exists>kvs. body = JObj kvs \<and> ''receipt'' \<notin> fst ` set kvs)"
proof -
  let ?ss = "sort_key sn_node_id (mr_snapshots request)"
  let ?inc = "mr_include_tombstones request"
  note ok = valid_request_ok [OF assms]
  have ss: "\<forall>s \<in> set ?ss. snap_ok s" using ok(1) by simp
  note order = sorted_nodes [OF ok(2)]
  let ?regs = "map (\<lambda>(k, xs). if \<not> rg_tombstone (snd (best C xs)) \<or> ?inc then [shown_entry C (best C xs)] else [])
        (sort_key fst (group_registers ?ss))"
  obtain cs where cs: "mapE (merge_key C ?inc) (sort_key fst (group_registers ?ss)) = Inr (map2 Pair ?regs cs)"
    "length cs = length (sort_key fst (group_registers ?ss))" "\<forall>c \<in> set cs. \<forall>x \<in> set c. finite_json x"
    using merge_parts [OF ss order] by blast
  have len: "length cs = length ?regs" using cs(2) by simp
  have regs: "concat ?regs = map (shown_entry C) (shown C request)"
  proof -
    have "concat (map (\<lambda>(k, xs). if \<not> rg_tombstone (snd (best C xs)) \<or> ?inc then [shown_entry C (best C xs)] else []) gs) =
        map (shown_entry C) (filter (\<lambda>w. \<not> rg_tombstone (snd w) \<or> ?inc) (map (\<lambda>(k, xs). best C xs) gs))" for gs
      by (induction gs) auto
    then show ?thesis unfolding shown_def .
  qed
  have "finite_json (shown_entry C w)" if "w \<in> set (shown C request)" for w
  proof -
    from that obtain p where "p \<in> set (sort_key fst (group_registers ?ss))" "w = best C (snd p)" by (auto simp: shown_def)
    moreover obtain k xs where "p = (k, xs)" by (cases p)
    ultimately have "(k, xs) \<in> set (sort_key fst (group_registers ?ss))" "w = best C xs" by simp_all
    note g = groups_of [OF ss order this(1)]
    have "finite_json (rg_value (snd w))" unfolding \<open>w = best C xs\<close> using best_least(1) [OF g(2,3)] g(4) by blast
    then show ?thesis by (simp add: shown_entry_def register_fields_def)
  qed
  moreover have "\<forall>x \<in> set (clock_relations ts). finite_json x" for ts by (induction ts) auto
  ultimately show ?thesis
    using cs(3) unfolding merge_body_def Let_def cs(1) bindE.simps concat_parts(1) [OF len] concat_parts(2) [OF len] regs
    by (auto simp: clock_json_def)
qed


lemma merge_snapshots_result:
  assumes "validate_request request = Inr ()" "\<forall>s \<in> set (mr_snapshots request). dict_ok (sn_clock s)"
    and "merge_body C request = Inr body"
  shows "\<exists>receipt. merge_snapshots C request = Inr (JObj (members body @ [(''receipt'', receipt)])) \<and>
    jget receipt ''output_digest'' = Some (JStr (sha256_hex C (json_dumps False body)))"
proof -
  have fin: "finite_json body" using merge_body_result [OF assms(1,2), of C] assms(3) by auto
  have "finite_json (request_json request)"
    using valid_request_ok(1) [OF assms(1,2)]
    by (auto simp: request_json_def clock_json_def register_fields_def snap_ok_def)
  with fin show ?thesis
    by (simp add: merge_snapshots_def assms(3) digest_finite command_canonical_def strict_dumps_def)
qed

section \<open>Properties\<close>

definition sample_snap :: "string \<Rightarrow> int \<Rightarrow> snap" where
  "sample_snap node time =
     \<lparr>sn_node_id = node, sn_clock = [(node, time)],
      sn_registers = [\<lparr>rg_key = ''k'', rg_value = JInt time, rg_logical_time = time, rg_writer = node, rg_tombstone = False\<rparr>]\<rparr>"

definition sample_merge :: "snap list \<Rightarrow> merge_request" where
  "sample_merge ss = \<lparr>mr_snapshots = ss, mr_include_tombstones = False\<rparr>"

lemma sample_valid:
  "validate_request (sample_merge [sample_snap ''a'' 1, sample_snap ''b'' 2]) = Inr ()"
  "validate_request (sample_merge [sample_snap ''b'' 2, sample_snap ''a'' 1]) = Inr ()"
proof -
  have "length (nat_str 2) \<le> 16384" "length (nat_str 1) \<le> 16384" by (simp_all add: nat_str.simps)
  then have v: "bounded_value (JInt 1) = Inr ()" "bounded_value (JInt 2) = Inr ()"
    by (simp_all add: bounded_value_def command_canonical_def strict_dumps_def json_dumps_def int_str_def MAX_REGISTER_BYTES_def)
  show "validate_request (sample_merge [sample_snap ''a'' 1, sample_snap ''b'' 2]) = Inr ()"
    "validate_request (sample_merge [sample_snap ''b'' 2, sample_snap ''a'' 1]) = Inr ()"
    by (simp_all add: validate_request_def sample_merge_def sample_snap_def bind_unit_unit valid_snapshot_def valid_values_def
      valid_register_def v ident_shape_def alnum_def is_digit_def MAX_NODES_def MAX_TOTAL_RECORDS_def MAX_RECORDS_PER_NODE_def
      MAX_CLOCK_ENTRIES_def)
qed

lemma sample_dicts:
  "\<forall>s \<in> set (mr_snapshots (sample_merge [sample_snap ''a'' 1, sample_snap ''b'' 2])). dict_ok (sn_clock s)"
  "\<forall>s \<in> set (mr_snapshots (sample_merge [sample_snap ''b'' 2, sample_snap ''a'' 1])). dict_ok (sn_clock s)"
  by (simp_all add: sample_merge_def sample_snap_def)

text \<open>
  C11: The merge does not depend on how the request is written down. Two validated requests with the
  same snapshots, in any order, each with its clock entries and registers in any order, give the same
  registers, conflicts, clock and clock relations, and the same output digest.
\<close>

theorem merge_order_independent:
  assumes "validate_request r = Inr ()" "validate_request r' = Inr ()"
    and "\<forall>s \<in> set (mr_snapshots r). dict_ok (sn_clock s)" "\<forall>s \<in> set (mr_snapshots r'). dict_ok (sn_clock s)"
    and "mset (map says (mr_snapshots r)) = mset (map says (mr_snapshots r'))"
    and "mr_include_tombstones r = mr_include_tombstones r'"
  shows "\<exists>body receipt receipt'. merge_snapshots C r = Inr (JObj (body @ [(''receipt'', receipt)])) \<and>
    merge_snapshots C r' = Inr (JObj (body @ [(''receipt'', receipt')])) \<and>
    jget receipt ''output_digest'' = jget receipt' ''output_digest''"
proof -
  note ok = valid_request_ok [OF assms(1,3)] and ok' = valid_request_ok [OF assms(2,4)]
  have same: "merge_body C r = merge_body C r'"
    by (rule agree_body [OF sorted_agree [OF assms(5) ok(1) ok'(1) ok(2)] assms(6)])
  obtain body where body: "merge_body C r = Inr body" using merge_body_result [OF assms(1,3)] by blast
  from merge_snapshots_result [OF assms(1,3) body] merge_snapshots_result [OF assms(2,4) body [unfolded same]]
  show ?thesis by metis
qed

theorem merge_order_independent_witness:
  "\<exists>body receipt receipt'.
    merge_snapshots toy_crypto (sample_merge [sample_snap ''a'' 1, sample_snap ''b'' 2]) = Inr (JObj (body @ [(''receipt'', receipt)])) \<and>
    merge_snapshots toy_crypto (sample_merge [sample_snap ''b'' 2, sample_snap ''a'' 1]) = Inr (JObj (body @ [(''receipt'', receipt')])) \<and>
    jget receipt ''output_digest'' = jget receipt' ''output_digest''"
  by (rule merge_order_independent [OF sample_valid sample_dicts]) (simp_all add: sample_merge_def add_mset_commute)



text \<open>
  The merged clock is the least upper bound of the clocks of the snapshots in the order that
  \<open>compare_clocks\<close> decides, and this comparison is that of the counters of all nodes, absent ones
  counting as zero.
\<close>

theorem merged_clock_lub:
  assumes "validate_request request = Inr ()" "\<forall>s \<in> set (mr_snapshots request). dict_ok (sn_clock s)"
  shows "(\<forall>s \<in> set (mr_snapshots request).
      compare_clocks (sn_clock s) (merge_clock (mr_snapshots request)) \<in> {Before, Equal}) \<and>
    (\<forall>c. (\<forall>s \<in> set (mr_snapshots request). compare_clocks (sn_clock s) c \<in> {Before, Equal}) \<longrightarrow>
      compare_clocks (merge_clock (mr_snapshots request)) c \<in> {Before, Equal}) \<and>
    (\<forall>c d. compare_clocks c d \<in> {Before, Equal} \<longleftrightarrow> (\<forall>n. clock_get c n \<le> clock_get d n))"
proof -
  let ?ss = "mr_snapshots request"
  note ok = valid_request_ok [OF assms]
  have "dict_ok (fold (\<lambda>s. fold raise_clock (sn_clock s)) ?ss [])" by (rule fold_snaps_ok) simp
  then have get: "clock_get (merge_clock ?ss) n = clock_get (fold (\<lambda>s. fold raise_clock (sn_clock s)) ?ss []) n" for n
    by (simp add: clock_get_def merge_clock_def map_of_sort)
  have max: "clock_get (merge_clock ?ss) n = Max (insert 0 ((\<lambda>s. clock_get (sn_clock s) n) ` set ?ss))" for n
    using clock_get_snaps [OF ok(1), of "[]" n] unfolding get by (simp add: clock_get_def)
  have above: "clock_get (sn_clock s) n \<le> clock_get (merge_clock ?ss) n" if "s \<in> set ?ss" for s n
    unfolding max using that by (intro Max_ge) auto
  have least: "clock_get (merge_clock ?ss) n \<le> clock_get c n"
    if "\<forall>s \<in> set ?ss. \<forall>n. clock_get (sn_clock s) n \<le> clock_get c n" for c n
  proof -
    obtain s where s: "s \<in> set ?ss" using ok(3) by (meson list.set_sel(1))
    have "0 \<le> clock_get (sn_clock s) n"
      using ok(1) s by (auto simp: snap_ok_def clock_get_def dest!: map_of_SomeD split: option.split)
    then have "0 \<le> clock_get c n" using that s by (meson order_trans)
    then show ?thesis unfolding max using that by (auto simp: Max_le_iff)
  qed
  show ?thesis unfolding compare_clocks_simps(2) using above least by blast
qed

theorem merged_clock_lub_witness:
  "compare_clocks (sn_clock (sample_snap ''a'' 1))
     (merge_clock (mr_snapshots (sample_merge [sample_snap ''a'' 1, sample_snap ''b'' 2]))) \<in> {Before, Equal}"
proof -
  have "sample_snap ''a'' 1 \<in> set (mr_snapshots (sample_merge [sample_snap ''a'' 1, sample_snap ''b'' 2]))"
    by (simp add: sample_merge_def)
  then show ?thesis using merged_clock_lub [OF sample_valid(1) sample_dicts(1)] by blast
qed

text \<open>
  The input digest is taken over the request as it arrived: it depends on the order of the snapshots.
\<close>

lemma input_json_ordered:
  "request_json (sample_merge [sample_snap ''a'' 1, sample_snap ''b'' 2]) \<noteq>
   request_json (sample_merge [sample_snap ''b'' 2, sample_snap ''a'' 1])"
  by (simp add: request_json_def sample_merge_def sample_snap_def)

end
