(* ===== verification/CommandApp.thy ===== *)
theory CommandApp
  imports Command LabApp
begin

text \<open>
  The routes of \<open>mesh_command/app.py\<close>: source identity, topology, merging, deployment and health.
  A reply is a status with a JSON value or a file, or the exception that the framework turns into a
  500.
\<close>

section \<open>Routes\<close>






















section \<open>Replies verify\<close>








section \<open>Properties\<close>




end
